(* ===== verification/Prelude.thy ===== *)
theory Prelude
  imports Main "HOL-Library.Word" "HOL-Library.AList"
begin

text \<open>
  Shared vocabulary of the development: results of fallible Python functions, byte strings and
  the conversions \<^verbatim>\<open>int.to_bytes\<close> / \<^verbatim>\<open>int.from_bytes\<close>, insertion-ordered dictionaries, and the
  bit-field facts the packet codecs share.

  A Python function that may raise is a function into \<open>'e + 'a\<close>, \<open>Inl\<close> for the exception. Python
  integers are unbounded and are modelled as \<open>int\<close>; a byte is an \<open>8 word\<close>, so a \<^verbatim>\<open>bytes\<close> object
  is a \<open>byte list\<close>. A \<^verbatim>\<open>dict\<close> iterates in insertion order, and several components depend on it,
  so dictionaries are association lists with \<open>AList.update\<close> (which keeps the position of a key
  that is present and appends a new one, as \<^verbatim>\<open>d[k] = v\<close> does) and \<open>AList.delete\<close>.
\<close>

unbundle bit_operations_syntax

named_theorems res_simps \<open>evaluation of result-valued pipelines\<close>
named_theorems bitfield_simps \<open>bits of masked and shifted fields\<close>

section \<open>Results\<close>

definition res_bind :: "'e + 'a \<Rightarrow> ('a \<Rightarrow> 'e + 'b) \<Rightarrow> 'e + 'b" where
  "res_bind m f = (case m of Inl e \<Rightarrow> Inl e | Inr x \<Rightarrow> f x)"

definition res_check :: "bool \<Rightarrow> 'e \<Rightarrow> 'e + unit" where
  "res_check ok e = (if ok then Inr () else Inl e)"

definition is_ok :: "'e + 'a \<Rightarrow> bool" where
  "is_ok m = (case m of Inl _ \<Rightarrow> False | Inr _ \<Rightarrow> True)"

fun res_mapM :: "('a \<Rightarrow> 'e + 'b) \<Rightarrow> 'a list \<Rightarrow> 'e + 'b list" where
  "res_mapM f [] = Inr []"
| "res_mapM f (x # xs) =
     res_bind (f x) (\<lambda>y. res_bind (res_mapM f xs) (\<lambda>ys. Inr (y # ys)))"

fun res_fold :: "('a \<Rightarrow> 's \<Rightarrow> 'e + 's) \<Rightarrow> 'a list \<Rightarrow> 's \<Rightarrow> 'e + 's" where
  "res_fold f [] s = Inr s"
| "res_fold f (x # xs) s = res_bind (f x s) (res_fold f xs)"

lemma res_bind_Inr [simp, res_simps]: "res_bind (Inr x) f = f x"
  by (simp add: res_bind_def)

lemma res_bind_Inl [simp, res_simps]: "res_bind (Inl e) f = Inl e"
  by (simp add: res_bind_def)

lemma res_bind_eq_Inr: "res_bind m f = Inr y \<longleftrightarrow> (\<exists>x. m = Inr x \<and> f x = Inr y)"
  by (cases m) auto

lemma res_bind_eq_Inl:
  "res_bind m f = Inl e \<longleftrightarrow> m = Inl e \<or> (\<exists>x. m = Inr x \<and> f x = Inl e)"
  by (cases m) auto

lemma res_bind_assoc: "res_bind (res_bind m f) g = res_bind m (\<lambda>x. res_bind (f x) g)"
  by (cases m) auto

lemma res_check_eq_Inr [simp]: "res_check ok e = Inr u \<longleftrightarrow> ok"
  by (simp add: res_check_def)

lemma res_check_True [simp, res_simps]: "res_check True e = Inr ()"
  by (simp add: res_check_def)

lemma res_check_False [simp, res_simps]: "res_check False e = Inl e"
  by (simp add: res_check_def)

lemma res_check_eq_Inl [simp]: "res_check ok e = Inl e' \<longleftrightarrow> \<not> ok \<and> e' = e"
  by (auto simp: res_check_def)

lemma is_ok_simps [simp]: "is_ok (Inr x)" "\<not> is_ok (Inl e)"
  by (simp_all add: is_ok_def)

lemma is_ok_conv: "is_ok m \<longleftrightarrow> (\<exists>x. m = Inr x)"
  by (cases m) auto

lemma map_sum_Inr: "map_sum f id r = Inr y \<longleftrightarrow> r = Inr y"
  by (cases r) auto

lemma res_mapM_Inr_length: "res_mapM f xs = Inr ys \<Longrightarrow> length ys = length xs"
  by (induction xs arbitrary: ys) (auto simp: res_bind_eq_Inr)

lemma res_mapM_Inr_conv:
  "res_mapM f xs = Inr ys \<longleftrightarrow> list_all2 (\<lambda>x y. f x = Inr y) xs ys"
  by (induction xs arbitrary: ys) (auto simp: res_bind_eq_Inr list_all2_Cons1)

lemma res_mapM_map:
  "(\<And>x. x \<in> set xs \<Longrightarrow> f x = Inr (g x)) \<Longrightarrow> res_mapM f xs = Inr (map g xs)"
  by (induction xs) auto

lemma res_mapM_cong [fundef_cong]:
  "xs = ys \<Longrightarrow> (\<And>x. x \<in> set ys \<Longrightarrow> f x = g x) \<Longrightarrow> res_mapM f xs = res_mapM g ys"
proof -
  assume "xs = ys" and fg: "\<And>x. x \<in> set ys \<Longrightarrow> f x = g x"
  from fg have "res_mapM f ys = res_mapM g ys" by (induction ys) auto
  with \<open>xs = ys\<close> show ?thesis by simp
qed

lemma res_fold_append: "res_fold f (xs @ ys) s = res_bind (res_fold f xs s) (res_fold f ys)"
proof (induction xs arbitrary: s)
  case (Cons x xs)
  have "res_fold f (xs @ ys) = (\<lambda>s. res_bind (res_fold f xs s) (res_fold f ys))"
    using Cons by (rule ext)
  then show ?case by (simp add: res_bind_assoc)
qed simp

section \<open>Bytes and integers\<close>

type_synonym byte = "8 word"

text \<open>
  \<^verbatim>\<open>v.to_bytes(n, "little")\<close> and \<^verbatim>\<open>int.from_bytes(bs, "little")\<close>; the \<^verbatim>\<open>"big"\<close> forms reverse
  them. Python raises \<^verbatim>\<open>OverflowError\<close> for a value outside \<open>0..2^(8n)-1\<close>; \<open>int_to_bytes\<close> is
  only the conversion, and its users carry the range check.
\<close>

fun int_to_le :: "nat \<Rightarrow> int \<Rightarrow> byte list" where
  "int_to_le 0 v = []"
| "int_to_le (Suc n) v = word_of_int (v mod 256) # int_to_le n (v div 256)"

fun int_from_le :: "byte list \<Rightarrow> int" where
  "int_from_le [] = 0"
| "int_from_le (b # bs) = uint b + 256 * int_from_le bs"

definition int_to_be :: "nat \<Rightarrow> int \<Rightarrow> byte list" where
  "int_to_be n v = rev (int_to_le n v)"

definition int_from_be :: "byte list \<Rightarrow> int" where
  "int_from_be bs = int_from_le (rev bs)"

lemma div_mod_decompose:
  assumes "0 \<le> r" "r < (h::int)"
  shows "(b * h + r) div h = b" "(b * h + r) mod h = r"
  using assms by (simp_all add: div_add1_eq mod_add_left_eq [symmetric])

lemma length_int_to_le [simp]: "length (int_to_le n v) = n"
  by (induction n arbitrary: v) auto

lemma length_int_to_be [simp]: "length (int_to_be n v) = n"
  by (simp add: int_to_be_def)

lemma uint_byte_of_mod [simp]: "uint (word_of_int (v mod 256) :: byte) = v mod 256"
  by (simp add: uint_word_of_int)

lemma uint_byte_bounds: "0 \<le> uint (b :: byte)" "uint (b :: byte) < 256"
  using uint_bounded[of b] by auto

lemma int_from_le_bounds: "0 \<le> int_from_le bs \<and> int_from_le bs < 256 ^ length bs"
proof (induction bs)
  case Nil
  then show ?case by simp
next
  case (Cons b bs)
  have "0 \<le> uint b" "uint b < 256" by (rule uint_byte_bounds)+
  with Cons show ?case by auto
qed

lemma int_from_be_bounds: "0 \<le> int_from_be bs" "int_from_be bs < 256 ^ length bs"
  using int_from_le_bounds[of "rev bs"] by (auto simp: int_from_be_def)

lemma int_from_to_le: "int_from_le (int_to_le n v) = v mod 256 ^ n"
proof (induction n arbitrary: v)
  case 0
  then show ?case by simp
next
  case (Suc n)
  have "v mod (256 * 256 ^ n) = 256 * (v div 256 mod 256 ^ n) + v mod 256"
    by (simp add: zmod_zmult2_eq)
  with Suc show ?case by simp
qed

lemma int_to_from_le: "int_to_le (length bs) (int_from_le bs) = bs"
proof (induction bs)
  case Nil
  then show ?case by simp
next
  case (Cons b bs)
  have "0 \<le> uint b" "uint b < 256" by (rule uint_byte_bounds)+
  then have "(uint b + 256 * int_from_le bs) div 256 = int_from_le bs"
    and "(uint b + 256 * int_from_le bs) mod 256 = uint b"
    by simp_all
  with Cons show ?case by simp
qed

lemma int_from_to_be: "int_from_be (int_to_be n v) = v mod 256 ^ n"
  by (simp add: int_from_be_def int_to_be_def int_from_to_le)

lemma int_from_to_be_id: "0 \<le> v \<Longrightarrow> v < 256 ^ n \<Longrightarrow> int_from_be (int_to_be n v) = v"
  by (simp add: int_from_to_be)

lemma int_to_from_be: "length bs = n \<Longrightarrow> int_to_be n (int_from_be bs) = bs"
  using int_to_from_le[of "rev bs"] by (auto simp: int_from_be_def int_to_be_def)

end
