(* ===== verification/PyFloat.thy ===== *)
theory PyFloat
  imports Complex_Main Prelude "HOL-Library.Log_Nat"
begin

text \<open>
  Python's \<^verbatim>\<open>float\<close> as the modules and the signal codec use it: IEEE 754 binary64 with
  round-half-even, its comparisons, its conversions from and to \<^verbatim>\<open>int\<close>, and the two wire formats
  \<^verbatim>\<open>struct\<close> packs (binary32 for \<^verbatim>\<open>'f'\<close>, binary64 for \<^verbatim>\<open>'d'\<close>).

  A finite float is a sign and a rational magnitude, so every operation is the exact rational
  operation followed by one rounding (\<open>fl_round\<close>), as the standard defines it, and the definitions
  evaluate. The two zeros are kept apart (the sign of a zero is visible on the wire). All NaNs are
  one value: the program never inspects a payload.
\<close>

section \<open>Rounding to a binary format\<close>

definition round_half_even :: "rat \<Rightarrow> int" where
  "round_half_even y =
     (let n = \<lfloor>y\<rfloor>; f = y - of_int n
      in if f < 1/2 then n else if f > 1/2 then n + 1 else if even n then n else n + 1)"

text \<open>\<open>ilog2 x\<close> is the binary exponent of a positive \<open>x\<close>: \<open>2 powi e \<le> x < 2 powi (e + 1)\<close>.\<close>

definition ilog2 :: "rat \<Rightarrow> int" where
  "ilog2 x =
     (let (a, b) = quotient_of x; e = bitlen a - bitlen b
      in if 2 powi e \<le> x then e else e - 1)"

text \<open>
  A format has \<open>p\<close> bits of precision and least exponent \<open>emin\<close> (that of the smallest subnormal).
  \<open>ulp_exp\<close> is the exponent of the last place of a magnitude, \<open>fl_round\<close> rounds a magnitude to a
  multiple of it.
\<close>

definition ulp_exp :: "int \<Rightarrow> int \<Rightarrow> rat \<Rightarrow> int" where
  "ulp_exp p emin x = max (ilog2 x - (p - 1)) emin"

definition fl_round :: "int \<Rightarrow> int \<Rightarrow> rat \<Rightarrow> rat" where
  "fl_round p emin x =
     (if x \<le> 0 then 0
      else let q = ulp_exp p emin x in of_int (round_half_even (x / 2 powi q)) * 2 powi q)"

definition fl_repr :: "int \<Rightarrow> int \<Rightarrow> rat \<Rightarrow> bool" where
  "fl_repr p emin x \<longleftrightarrow> 0 \<le> x \<and> fl_round p emin x = x"

lemma round_half_even_bounds:
  "of_int (round_half_even y) \<le> y + 1/2" "y - 1/2 \<le> of_int (round_half_even y)"
  unfolding round_half_even_def Let_def by (auto; linarith)+

lemma round_half_even_of_int [simp]: "round_half_even (of_int n) = n"
  by (simp add: round_half_even_def)

lemma round_half_even_mono: "x \<le> y \<Longrightarrow> round_half_even x \<le> round_half_even y"
proof -
  assume xy: "x \<le> y"
  show ?thesis
  proof (cases "\<lfloor>x\<rfloor> = \<lfloor>y\<rfloor>")
    case True
    with xy show ?thesis by (auto simp: round_half_even_def Let_def)
  next
    case False
    with xy have lt: "\<lfloor>x\<rfloor> + 1 \<le> \<lfloor>y\<rfloor>"
      using floor_mono[OF xy] by linarith
    have "round_half_even x \<le> \<lfloor>x\<rfloor> + 1" "\<lfloor>y\<rfloor> \<le> round_half_even y"
      by (auto simp: round_half_even_def Let_def)
    with lt show ?thesis by linarith
  qed
qed

lemma two_powi_pos [simp]: "0 < (2::rat) powi e"
  by (simp add: zero_less_power_int)

lemma two_powi_add: "(2::rat) powi (a + b) = 2 powi a * 2 powi b"
  by (simp add: power_int_add)

lemma two_powi_less: "a < b \<Longrightarrow> (2::rat) powi a < 2 powi b"
  by (rule power_int_strict_increasing) auto

lemma two_powi_le: "a \<le> b \<Longrightarrow> (2::rat) powi a \<le> 2 powi b"
  by (rule power_int_increasing) auto

lemma two_powi_le_iff: "(2::rat) powi a \<le> 2 powi b \<longleftrightarrow> a \<le> b"
  using two_powi_less[of b a] two_powi_le[of a b] by force

lemma two_powi_of_int: "0 \<le> e \<Longrightarrow> (2::rat) powi e = of_int (2 ^ nat e)"
  by (simp add: power_int_def)

lemma bitlen_powi_bounds:
  assumes "0 < a"
  shows "(2::rat) powi (bitlen a - 1) \<le> of_int a" "of_int a < (2::rat) powi bitlen a"
proof -
  have b: "2 ^ nat (bitlen a - 1) \<le> a" "a < 2 ^ nat (bitlen a)"
    using bitlen_bounds[OF assms] by auto
  have "1 \<le> bitlen a" using assms by (simp add: bitlen_eq_zero_iff  bitlen_nonneg int_one_le_iff_zero_less order_less_le)
  with b show "(2::rat) powi (bitlen a - 1) \<le> of_int a" "of_int a < (2::rat) powi bitlen a"
    by (simp_all add: two_powi_of_int del: of_int_power)
qed

lemma ilog2_bounds:
  assumes "0 < x"
  shows "2 powi (ilog2 x) \<le> x" "x < 2 powi (ilog2 x + 1)"
proof -
  obtain a b where q: "quotient_of x = (a, b)" by (cases "quotient_of x")
  then have b: "0 < b" and x: "x = of_int a / of_int b"
    by (auto intro: quotient_of_denom_pos quotient_of_div)
  with assms have a: "0 < a" by (simp add: zero_less_divide_iff)
  let ?e = "bitlen a - bitlen b"
  have "x < 2 powi bitlen a / 2 powi (bitlen b - 1)"
    unfolding x using bitlen_powi_bounds[OF a] bitlen_powi_bounds[OF b] a b
    by (intro frac_less) auto
  also have "\<dots> = 2 powi (?e + 1)"
    by (subst power_int_diff [symmetric]) (auto simp: algebra_simps)
  finally have up: "x < 2 powi (?e + 1)" .
  have "2 powi (bitlen a - 1) / 2 powi bitlen b \<le> x"
    unfolding x using bitlen_powi_bounds[OF a] bitlen_powi_bounds[OF b] a b
    by (intro frac_le) auto
  moreover have "2 powi (bitlen a - 1) / 2 powi bitlen b = (2::rat) powi (?e - 1)"
    by (subst power_int_diff [symmetric]) (auto simp: algebra_simps)
  ultimately have lo: "2 powi (?e - 1) \<le> x" by simp
  show "2 powi (ilog2 x) \<le> x" "x < 2 powi (ilog2 x + 1)"
    using up lo q by (auto simp: ilog2_def Let_def)
qed

lemma ilog2_unique:
  assumes "0 < x" "2 powi e \<le> x" "x < 2 powi (e + 1)"
  shows "ilog2 x = e"
proof -
  note b = ilog2_bounds[OF assms(1)]
  have "(2::rat) powi e < 2 powi (ilog2 x + 1)" "(2::rat) powi ilog2 x < 2 powi (e + 1)"
    using assms b by linarith+
  then have "\<not> ilog2 x + 1 \<le> e" "\<not> e + 1 \<le> ilog2 x"
    using two_powi_le by (meson linorder_not_le)+
  then show ?thesis by simp
qed

lemma ilog2_mono:
  assumes "0 < x" "x \<le> y"
  shows "ilog2 x \<le> ilog2 y"
proof (rule ccontr)
  assume "\<not> ilog2 x \<le> ilog2 y"
  then have "(2::rat) powi (ilog2 y + 1) \<le> 2 powi ilog2 x" by (intro two_powi_le) simp
  with ilog2_bounds[of x] ilog2_bounds[of y] assms show False by linarith
qed

subsection \<open>Rounding is monotone and fixes the representable magnitudes\<close>

lemma fl_round_zero [simp]: "fl_round p emin 0 = 0"
  by (simp add: fl_round_def)

lemma fl_round_nonneg: "0 \<le> fl_round p emin x"
proof (cases "x \<le> 0")
  case False
  have "round_half_even 0 \<le> round_half_even (x / 2 powi q)" for q
    using False by (intro round_half_even_mono) (simp add: less_imp_le)
  then have "0 \<le> round_half_even (x / 2 powi q)" for q
    using round_half_even_of_int[of 0] by (metis of_int_0)
  with False show ?thesis by (simp add: fl_round_def Let_def less_imp_le)
qed (simp add: fl_round_def)

text \<open>An integer multiple of the last place that lies above (below) bounds the rounding.\<close>

lemma fl_round_le_grid:
  assumes "0 < x" "x \<le> of_int k * 2 powi q" "ulp_exp p emin x = q"
  shows "fl_round p emin x \<le> of_int k * 2 powi q"
proof -
  have "x / 2 powi q \<le> of_int k"
    using assms(2) by (simp add: divide_le_eq)
  then have "round_half_even (x / 2 powi q) \<le> k"
    using round_half_even_mono[of _ "of_int k"] by simp
  with assms show ?thesis by (simp add: fl_round_def Let_def mult_right_mono)
qed

lemma fl_round_ge_grid:
  assumes "0 < x" "of_int k * 2 powi q \<le> x" "ulp_exp p emin x = q"
  shows "of_int k * 2 powi q \<le> fl_round p emin x"
proof -
  have "of_int k \<le> x / 2 powi q"
    using assms(2) by (simp add: le_divide_eq)
  then have "k \<le> round_half_even (x / 2 powi q)"
    using round_half_even_mono[of "of_int k"] by simp
  with assms show ?thesis by (simp add: fl_round_def Let_def mult_right_mono)
qed

lemma fl_round_mono:
  assumes p: "1 \<le> p" and xy: "x \<le> y"
  shows "fl_round p emin x \<le> fl_round p emin y"
proof (cases "x \<le> 0")
  case True
  then show ?thesis using fl_round_nonneg[of p emin y] by (simp add: fl_round_def)
next
  case False
  with xy have x: "0 < x" and y: "0 < y" by auto
  let ?qx = "ulp_exp p emin x" and ?qy = "ulp_exp p emin y"
  have e: "ilog2 x \<le> ilog2 y" using ilog2_mono[OF x xy] .
  show ?thesis
  proof (cases "?qx = ?qy")
    case True
    have "round_half_even (x / 2 powi ?qx) \<le> round_half_even (y / 2 powi ?qx)"
      using xy by (intro round_half_even_mono) (simp add: divide_right_mono)
    with x y True show ?thesis by (simp add: fl_round_def Let_def mult_right_mono)
  next
    case False
    with e have lt: "ilog2 x < ilog2 y" and qy: "?qy = ilog2 y - (p - 1)" and qq: "?qx \<le> ?qy"
      by (auto simp: ulp_exp_def max_def split: if_splits)
    let ?b = "(2::rat) powi ilog2 y"
    have grid: "?b = of_int (2 ^ nat (ilog2 y - q)) * 2 powi q" if "q \<le> ilog2 y" for q
      using that two_powi_of_int[of "ilog2 y - q"]
      by (metis diff_add_cancel diff_ge_0_iff_ge two_powi_add)
    have "x < 2 powi (ilog2 x + 1)" using ilog2_bounds[OF x] by simp
    also have "\<dots> \<le> ?b" using lt by (intro two_powi_le) simp
    finally have le: "x \<le> ?b" by simp
    have "fl_round p emin x \<le> ?b"
    proof -
      have g: "of_int (2 ^ nat (ilog2 y - ?qx)) * 2 powi ?qx = ?b"
        using qq qy p by (intro grid [symmetric]) simp
      show ?thesis
        using fl_round_le_grid[OF x, of "2 ^ nat (ilog2 y - ?qx)" ?qx p emin] le
        by (simp only: g simp_thms)
    qed
    also have "?b \<le> fl_round p emin y"
    proof -
      have g: "of_int (2 ^ nat (ilog2 y - ?qy)) * 2 powi ?qy = ?b"
        using qy p by (intro grid [symmetric]) simp
      show ?thesis
        using fl_round_ge_grid[OF y, of "2 ^ nat (ilog2 y - ?qy)" ?qy p emin]
          ilog2_bounds(1)[OF y] by (simp only: g simp_thms)
    qed
    finally show ?thesis .
  qed
qed

lemma ulp_exp_ge: "emin \<le> ulp_exp p emin x" "ilog2 x - (p - 1) \<le> ulp_exp p emin x"
  by (simp_all add: ulp_exp_def)

lemma fl_round_grid_id:
  assumes p: "1 \<le> p" and k: "0 < k" "k < 2 ^ nat p" and q: "emin \<le> q"
    and x: "x = of_int k * 2 powi q"
  shows "fl_round p emin x = x"
proof -
  let ?u = "ulp_exp p emin x"
  have x0: "0 < x" using x k by simp
  have "x < 2 powi p * 2 powi q"
    using x k p by (simp add: two_powi_of_int del: of_int_power)
  then have "(2::rat) powi ilog2 x < 2 powi (p + q)"
    using ilog2_bounds(1)[OF x0] by (simp add: two_powi_add)
  then have "ilog2 x < p + q" using two_powi_le by (meson linorder_not_le)
  with q have uq: "?u \<le> q" by (simp add: ulp_exp_def)
  then have "(2::rat) powi q = of_int (2 ^ nat (q - ?u)) * 2 powi ?u"
    using two_powi_of_int[of "q - ?u"] by (metis diff_add_cancel diff_ge_0_iff_ge two_powi_add)
  then have g: "x = of_int (k * 2 ^ nat (q - ?u)) * 2 powi ?u"
    using x by (simp add: mult.assoc del: of_int_power)
  then have "x / 2 powi ?u = of_int (k * 2 ^ nat (q - ?u))"
    by (simp add: nonzero_divide_eq_eq del: of_int_mult)
  with x0 g show ?thesis by (simp add: fl_round_def Let_def del: of_int_mult)
qed

lemma fl_round_grid_id':
  assumes p: "1 \<le> p" and k: "0 < k" "k \<le> 2 ^ nat p" and q: "emin \<le> q"
    and x: "x = of_int k * 2 powi q"
  shows "fl_round p emin x = x"
proof (cases "k = 2 ^ nat p")
  case False
  with assms show ?thesis by (intro fl_round_grid_id[of p k emin q]) auto
next
  case True
  have "(2::int) ^ nat p = 2 ^ nat (p - 1) * 2"
    using p by (metis Suc_nat_eq_nat_zadd1 add.commute diff_add_cancel diff_ge_0_iff_ge power_Suc2)
  with True x have "x = of_int (2 ^ nat (p - 1)) * 2 powi (q + 1)"
    by (simp add: two_powi_add)
  moreover have "(2::int) ^ nat (p - 1) < 2 ^ nat p"
    using p by (intro power_strict_increasing) auto
  ultimately show ?thesis using p q by (intro fl_round_grid_id[of p "2 ^ nat (p - 1)" emin "q + 1"]) auto
qed

lemma fl_round_grid:
  assumes p: "1 \<le> p" and x: "0 < x"
  obtains k where "0 \<le> k" "k \<le> 2 ^ nat p"
    "fl_round p emin x = of_int k * 2 powi ulp_exp p emin x"
proof -
  let ?u = "ulp_exp p emin x" and ?k = "round_half_even (x / 2 powi ulp_exp p emin x)"
  have "x < 2 powi (ilog2 x + 1)" using ilog2_bounds[OF x] by simp
  also have "\<dots> \<le> 2 powi (p + ?u)" using ulp_exp_ge(2)[of x p emin] by (intro two_powi_le) simp
  finally have "x / 2 powi ?u \<le> of_int (2 ^ nat p)"
    using p by (simp add: divide_le_eq two_powi_add two_powi_of_int[symmetric] del: of_int_power)
  then have "?k \<le> 2 ^ nat p"
    using round_half_even_mono[of "x / 2 powi ?u" "of_int (2 ^ nat p)"]
    by (simp only: round_half_even_of_int)
  moreover have "0 \<le> ?k"
    using round_half_even_mono[of 0 "x / 2 powi ?u"] round_half_even_of_int[of 0] x by simp
  moreover have "fl_round p emin x = of_int ?k * 2 powi ?u"
    using x by (simp add: fl_round_def Let_def)
  ultimately show ?thesis using that by blast
qed

lemma fl_round_idem: "1 \<le> p \<Longrightarrow> fl_round p emin (fl_round p emin x) = fl_round p emin x"
proof (cases "0 < x")
  case True
  assume p: "1 \<le> p"
  obtain k where k: "0 \<le> k" "k \<le> 2 ^ nat p"
    "fl_round p emin x = of_int k * 2 powi ulp_exp p emin x"
    using fl_round_grid[OF p True] by blast
  show ?thesis
  proof (cases "k = 0")
    case False
    with k p show ?thesis
      by (intro fl_round_grid_id'[of p k emin "ulp_exp p emin x"]) (auto simp: ulp_exp_ge)
  qed (use k in simp)
qed (simp add: fl_round_def)

lemma fl_repr_round [simp]: "1 \<le> p \<Longrightarrow> fl_repr p emin (fl_round p emin x)"
  by (simp add: fl_repr_def fl_round_nonneg fl_round_idem)

lemma fl_repr_of_int:
  assumes "1 \<le> p" "emin \<le> 0" "0 \<le> n" "n \<le> 2 ^ nat p"
  shows "fl_repr p emin (of_int n)"
proof (cases "n = 0")
  case False
  with assms show ?thesis
    by (auto simp: fl_repr_def intro!: fl_round_grid_id'[of p n emin 0])
qed (simp add: fl_repr_def)

section \<open>The float type and its operations\<close>

datatype pyfloat =
    FNaN
  | FInf bool \<comment> \<open>\<open>True\<close> for minus infinity\<close>
  | FFin bool rat \<comment> \<open>sign and magnitude\<close>

abbreviation "FL_ZERO \<equiv> FFin False 0"
abbreviation "FL_ONE \<equiv> FFin False 1"

datatype py_exn = PyZeroDivision | PyOverflow | PyValueError | PyTypeError

definition fl_limit :: rat where
  "fl_limit = 2 ^ 1024"

definition fl64 :: "bool \<Rightarrow> rat \<Rightarrow> pyfloat" where
  "fl64 s m =
     (let r = fl_round 53 (- 1074) m in if fl_limit \<le> r then FInf s else FFin s r)"

definition sgn_mag :: "bool \<Rightarrow> rat \<Rightarrow> rat" where
  "sgn_mag s m = (if s then - m else m)"

text \<open>A decimal literal of the source denotes the double nearest to it.\<close>

definition fl_lit :: "rat \<Rightarrow> pyfloat" where
  "fl_lit v = fl64 (v < 0) \<bar>v\<bar>"

fun fl_wf :: "pyfloat \<Rightarrow> bool" where
  "fl_wf (FFin s m) \<longleftrightarrow> fl_repr 53 (- 1074) m \<and> m < fl_limit"
| "fl_wf _ \<longleftrightarrow> True"

fun fl_is_finite :: "pyfloat \<Rightarrow> bool" where
  "fl_is_finite (FFin _ _) = True"
| "fl_is_finite _ = False"

fun fl_val :: "pyfloat \<Rightarrow> rat" where
  "fl_val (FFin s m) = sgn_mag s m"
| "fl_val _ = 0"

fun fl_neg :: "pyfloat \<Rightarrow> pyfloat" where
  "fl_neg FNaN = FNaN"
| "fl_neg (FInf s) = FInf (\<not> s)"
| "fl_neg (FFin s m) = FFin (\<not> s) m"

fun fl_add :: "pyfloat \<Rightarrow> pyfloat \<Rightarrow> pyfloat" where
  "fl_add (FFin s a) (FFin t b) =
     (let v = sgn_mag s a + sgn_mag t b
      in if v = 0 then FFin (s \<and> t) 0 else fl64 (v < 0) \<bar>v\<bar>)"
| "fl_add FNaN _ = FNaN"
| "fl_add _ FNaN = FNaN"
| "fl_add (FInf s) (FInf t) = (if s = t then FInf s else FNaN)"
| "fl_add (FInf s) _ = FInf s"
| "fl_add _ (FInf t) = FInf t"

definition fl_sub :: "pyfloat \<Rightarrow> pyfloat \<Rightarrow> pyfloat" where
  "fl_sub x y = fl_add x (fl_neg y)"

fun fl_mul :: "pyfloat \<Rightarrow> pyfloat \<Rightarrow> pyfloat" where
  "fl_mul (FFin s a) (FFin t b) = fl64 (s \<noteq> t) (a * b)"
| "fl_mul FNaN _ = FNaN"
| "fl_mul _ FNaN = FNaN"
| "fl_mul (FInf s) (FInf t) = FInf (s \<noteq> t)"
| "fl_mul (FInf s) (FFin t b) = (if b = 0 then FNaN else FInf (s \<noteq> t))"
| "fl_mul (FFin s a) (FInf t) = (if a = 0 then FNaN else FInf (s \<noteq> t))"

text \<open>Python raises \<^verbatim>\<open>ZeroDivisionError\<close> where IEEE division would give an infinity.\<close>

fun fl_div :: "pyfloat \<Rightarrow> pyfloat \<Rightarrow> py_exn + pyfloat" where
  "fl_div (FFin s a) (FFin t b) =
     (if b = 0 then Inl PyZeroDivision else Inr (fl64 (s \<noteq> t) (a / b)))"
| "fl_div x (FFin t b) =
     (if b = 0 then Inl PyZeroDivision
      else Inr (case x of FInf s \<Rightarrow> FInf (s \<noteq> t) | _ \<Rightarrow> FNaN))"
| "fl_div FNaN _ = Inr FNaN"
| "fl_div _ FNaN = Inr FNaN"
| "fl_div (FInf s) (FInf t) = Inr FNaN"
| "fl_div (FFin s a) (FInf t) = Inr (FFin (s \<noteq> t) 0)"

fun fl_less :: "pyfloat \<Rightarrow> pyfloat \<Rightarrow> bool" where
  "fl_less (FFin s a) (FFin t b) \<longleftrightarrow> sgn_mag s a < sgn_mag t b"
| "fl_less FNaN _ \<longleftrightarrow> False"
| "fl_less _ FNaN \<longleftrightarrow> False"
| "fl_less (FInf s) (FInf t) \<longleftrightarrow> s \<and> \<not> t"
| "fl_less (FInf s) _ \<longleftrightarrow> s"
| "fl_less _ (FInf t) \<longleftrightarrow> \<not> t"

fun fl_eq :: "pyfloat \<Rightarrow> pyfloat \<Rightarrow> bool" where
  "fl_eq (FFin s a) (FFin t b) \<longleftrightarrow> sgn_mag s a = sgn_mag t b"
| "fl_eq (FInf s) (FInf t) \<longleftrightarrow> s = t"
| "fl_eq _ _ \<longleftrightarrow> False"

definition fl_le :: "pyfloat \<Rightarrow> pyfloat \<Rightarrow> bool" where
  "fl_le x y \<longleftrightarrow> fl_less x y \<or> fl_eq x y"

text \<open>\<^verbatim>\<open>max(a, b)\<close> and \<^verbatim>\<open>min(a, b)\<close> keep the first argument unless the second one beats it.\<close>

definition fl_max :: "pyfloat \<Rightarrow> pyfloat \<Rightarrow> pyfloat" where
  "fl_max a b = (if fl_less a b then b else a)"

definition fl_min :: "pyfloat \<Rightarrow> pyfloat \<Rightarrow> pyfloat" where
  "fl_min a b = (if fl_less b a then b else a)"

text \<open>\<^verbatim>\<open>float(n)\<close>, \<^verbatim>\<open>int(x)\<close> and \<^verbatim>\<open>round(x)\<close>.\<close>

definition int_to_float :: "int \<Rightarrow> py_exn + pyfloat" where
  "int_to_float n =
     (case fl64 (n < 0) (of_int \<bar>n\<bar>) of
        FInf _ \<Rightarrow> Inl PyOverflow
      | x \<Rightarrow> Inr x)"

fun float_to_int :: "pyfloat \<Rightarrow> py_exn + int" where
  "float_to_int (FFin s m) = Inr (if s then - \<lfloor>m\<rfloor> else \<lfloor>m\<rfloor>)"
| "float_to_int (FInf s) = Inl PyOverflow"
| "float_to_int FNaN = Inl PyValueError"

fun float_round :: "pyfloat \<Rightarrow> py_exn + int" where
  "float_round (FFin s m) = Inr (round_half_even (sgn_mag s m))"
| "float_round (FInf s) = Inl PyOverflow"
| "float_round FNaN = Inl PyValueError"

text \<open>The limit as a numeral, which evaluates faster than the power.\<close>

lemma fl_limit_numeral [code]:
  "fl_limit = 179769313486231590772930519078902473361797697894230657273430081157732675805500963132708477322407536021120113879871393357658789768814416622492847430639474124377767893424865485276302219601246094119453082952085005768838150682342462881473913110540827237163350510684586298239947245938479716304835356329624224137216"
  by (simp add: fl_limit_def)

lemma fl_limit_pos [simp]: "0 < fl_limit"
  by (simp add: fl_limit_def)

lemma fl_repr_zero [simp]: "fl_repr p emin 0"
  by (simp add: fl_repr_def)

lemma fl64_wf [simp]: "fl_wf (fl64 s m)"
  by (simp add: fl64_def Let_def)

lemma fl64_not_nan [simp]: "fl64 s m \<noteq> FNaN"
  by (simp add: fl64_def Let_def)

lemma fl_wf_zero [simp]: "fl_wf (FFin s 0)"
  by simp

lemma fl_wf_neg [simp]: "fl_wf (fl_neg x) = fl_wf x"
  by (cases x) auto

lemma fl_wf_add [simp]: "fl_wf x \<Longrightarrow> fl_wf y \<Longrightarrow> fl_wf (fl_add x y)"
  by (cases "(x, y)" rule: fl_add.cases) (auto simp: Let_def)

lemma fl_wf_sub [simp]: "fl_wf x \<Longrightarrow> fl_wf y \<Longrightarrow> fl_wf (fl_sub x y)"
  by (simp add: fl_sub_def)

lemma fl_wf_mul [simp]: "fl_wf (fl_mul x y)"
  by (cases "(x, y)" rule: fl_mul.cases) auto

lemma fl_wf_div: "fl_div x y = Inr z \<Longrightarrow> fl_wf z"
  by (cases "(x, y)" rule: fl_div.cases) (auto split: if_splits pyfloat.splits)

lemma fl_wf_max [simp]: "fl_wf x \<Longrightarrow> fl_wf y \<Longrightarrow> fl_wf (fl_max x y)"
  by (simp add: fl_max_def)

lemma fl_wf_min [simp]: "fl_wf x \<Longrightarrow> fl_wf y \<Longrightarrow> fl_wf (fl_min x y)"
  by (simp add: fl_min_def)

lemma fl_wf_int_to_float: "int_to_float n = Inr x \<Longrightarrow> fl_wf x"
  by (auto simp: int_to_float_def fl64_def Let_def split: if_splits)

lemma fl64_repr: "fl_repr 53 (- 1074) m \<Longrightarrow> m < fl_limit \<Longrightarrow> fl64 s m = FFin s m"
  by (simp add: fl64_def fl_repr_def Let_def)

text \<open>Comparisons of finite floats are those of their values.\<close>

lemma fl_less_finite:
  "fl_is_finite x \<Longrightarrow> fl_is_finite y \<Longrightarrow> fl_less x y \<longleftrightarrow> fl_val x < fl_val y"
  by (cases x; cases y) auto

lemma fl_le_finite:
  "fl_is_finite x \<Longrightarrow> fl_is_finite y \<Longrightarrow> fl_le x y \<longleftrightarrow> fl_val x \<le> fl_val y"
  by (cases x; cases y) (auto simp: fl_le_def)

lemma fl_less_irrefl [simp]: "\<not> fl_less x x"
  by (cases x) auto

lemma fl_le_refl: "x \<noteq> FNaN \<Longrightarrow> fl_le x x"
  by (cases x) (auto simp: fl_le_def)

lemma fl_le_not_less: "x \<noteq> FNaN \<Longrightarrow> y \<noteq> FNaN \<Longrightarrow> fl_le x y \<longleftrightarrow> \<not> fl_less y x"
  by (cases x; cases y) (auto simp: fl_le_def)

lemma fl_max_ge_left: "x \<noteq> FNaN \<Longrightarrow> fl_le x (fl_max x y)"
  by (auto simp: fl_max_def fl_le_refl) (simp add: fl_le_def)

text \<open>
  Clamping: whatever the value, a NaN included, \<^verbatim>\<open>max(lo, min(hi, v))\<close> lies between the bounds.
\<close>

lemma fl_clamp_bounds:
  assumes "fl_is_finite lo" "fl_is_finite hi" "fl_le lo hi"
  shows "fl_is_finite (fl_max lo (fl_min hi v))"
    and "fl_le lo (fl_max lo (fl_min hi v))"
    and "fl_le (fl_max lo (fl_min hi v)) hi"
  using assms
  by (cases lo; cases hi; cases v; auto simp: fl_max_def fl_min_def fl_le_def)+

section \<open>The wire formats of \<^verbatim>\<open>struct\<close>\<close>

text \<open>
  The bits of a magnitude below the sign bit: the biased exponent above \<open>p - 1\<close> fraction bits. The
  sum is the usual trick: an integral significand \<open>k\<close> with its hidden bit carries into the exponent.
\<close>

definition mag_to_bits :: "int \<Rightarrow> int \<Rightarrow> rat \<Rightarrow> int" where
  "mag_to_bits p emin m =
     (if m \<le> 0 then 0
      else let q = ulp_exp p emin m in (q - emin) * 2 ^ nat (p - 1) + \<lfloor>m / 2 powi q\<rfloor>)"

definition mag_of_bits :: "int \<Rightarrow> int \<Rightarrow> int \<Rightarrow> rat" where
  "mag_of_bits p emin n =
     (let b = n div 2 ^ nat (p - 1); f = n mod 2 ^ nat (p - 1)
      in if b = 0 then of_int f * 2 powi emin
         else of_int (2 ^ nat (p - 1) + f) * 2 powi (emin + b - 1))"

lemma mag_significand:
  assumes p: "1 \<le> p" and r: "fl_repr p emin m" and m: "0 < m"
  obtains k where "m = of_int k * 2 powi ulp_exp p emin m" "0 < k" "k < 2 * 2 ^ nat (p - 1)"
    "k < 2 ^ nat (p - 1) \<Longrightarrow> ulp_exp p emin m = emin"
    "mag_to_bits p emin m = (ulp_exp p emin m - emin) * 2 ^ nat (p - 1) + k"
proof -
  let ?q = "ulp_exp p emin m" and ?h = "(2::int) ^ nat (p - 1)"
  define k where "k = round_half_even (m / 2 powi ?q)"
  have mk: "m = of_int k * 2 powi ?q"
    using r m by (simp add: fl_repr_def fl_round_def Let_def k_def)
  then have "m / 2 powi ?q = of_int k" by (simp add: nonzero_divide_eq_eq)
  then have bits: "mag_to_bits p emin m = (?q - emin) * ?h + k"
    using m by (simp add: mag_to_bits_def Let_def)
  have "0 < of_int k * (2::rat) powi ?q" using mk m by simp
  then have "0 < (of_int k :: rat)" by (rule zero_less_mult_pos2) simp
  then have k0: "0 < k" by simp
  have "m < 2 powi (ilog2 m + 1)" using ilog2_bounds[OF m] by simp
  also have "\<dots> \<le> 2 powi ((p - 1) + 1 + ?q)"
    using ulp_exp_ge(2)[of m p emin] by (intro two_powi_le) simp
  finally have "of_int k * 2 powi ?q < (2::rat) powi ((p - 1) + 1 + ?q)" using mk by simp
  then have "of_int k < (2::rat) powi (p - 1) * 2"
    by (simp only: two_powi_add mult_less_cancel_right_pos two_powi_pos power_int_1_right)
  moreover have "(2::rat) powi (p - 1) * 2 = of_int (2 * ?h)"
    using p by (simp add: two_powi_of_int)
  ultimately have kp: "k < 2 * ?h" by (simp only: of_int_less_iff)
  have small: "?q = emin" if "k < ?h"
  proof (rule ccontr)
    assume "?q \<noteq> emin"
    then have q: "?q = ilog2 m - (p - 1)" by (auto simp: ulp_exp_def max_def split: if_splits)
    have "(2::rat) powi ((p - 1) + ?q) \<le> of_int k * 2 powi ?q"
      using ilog2_bounds(1)[OF m] q mk by simp
    then have "(2::rat) powi (p - 1) \<le> of_int k"
      by (simp only: two_powi_add mult_le_cancel_right_pos two_powi_pos)
    then have "?h \<le> k" using p by (simp add: two_powi_of_int del: of_int_power)
    with that show False by simp
  qed
  from mk k0 kp small bits show ?thesis using that by blast
qed

lemma mag_roundtrip:
  assumes p: "1 \<le> p" and r: "fl_repr p emin m"
  shows "mag_of_bits p emin (mag_to_bits p emin m) = m"
proof (cases "m = 0")
  case True
  then show ?thesis by (simp add: mag_to_bits_def mag_of_bits_def)
next
  case False
  with r have m: "0 < m" by (auto simp: fl_repr_def)
  let ?q = "ulp_exp p emin m" and ?h = "(2::int) ^ nat (p - 1)"
  obtain k where k: "m = of_int k * 2 powi ?q" "0 < k" "k < 2 * ?h" "k < ?h \<Longrightarrow> ?q = emin"
    "mag_to_bits p emin m = (?q - emin) * ?h + k"
    using mag_significand[OF p r m] by blast
  show ?thesis
  proof (cases "k < ?h")
    case False
    let ?b = "?q - emin + 1"
    have e: "(?q - emin) * ?h + k = ?b * ?h + (k - ?h)" by (simp add: algebra_simps)
    have "0 \<le> k - ?h" "k - ?h < ?h" using False k by auto
    then have "((?q - emin) * ?h + k) div ?h = ?b" "((?q - emin) * ?h + k) mod ?h = k - ?h"
      unfolding e by (rule div_mod_decompose)+
    moreover have "?b \<noteq> 0" using ulp_exp_ge(1)[of emin p m] by simp
    ultimately show ?thesis using k(1) by (simp add: mag_of_bits_def k(5) Let_def)
  next
    case True
    with k show ?thesis by (simp add: mag_of_bits_def Let_def)
  qed
qed

lemma mag_to_bits_bounds:
  assumes p: "1 \<le> p" and r: "fl_repr p emin m" and w: "1 \<le> w"
    and lim: "m < 2 powi (emin + p + w - 2)"
  shows "0 \<le> mag_to_bits p emin m \<and> mag_to_bits p emin m < w * 2 ^ nat (p - 1)"
proof (cases "m = 0")
  case True
  with w show ?thesis by (simp add: mag_to_bits_def)
next
  case False
  with r have m: "0 < m" by (auto simp: fl_repr_def)
  let ?q = "ulp_exp p emin m" and ?h = "(2::int) ^ nat (p - 1)"
  obtain k where k: "m = of_int k * 2 powi ?q" "0 < k" "k < 2 * ?h" "k < ?h \<Longrightarrow> ?q = emin"
    "mag_to_bits p emin m = (?q - emin) * ?h + k"
    using mag_significand[OF p r m] by blast
  have q: "emin \<le> ?q" by (rule ulp_exp_ge)
  show ?thesis
  proof (cases "k < ?h")
    case True
    have "0 \<le> ?h" by simp
    then have "?h \<le> w * ?h" using mult_right_mono[OF w, of ?h] by linarith
    with True have "k < w * ?h" by linarith
    with True k(2,4,5) show ?thesis by simp
  next
    case False
    then have "of_int ?h * 2 powi ?q \<le> of_int k * (2::rat) powi ?q"
      by (intro mult_right_mono) auto
    then have "of_int ?h * 2 powi ?q \<le> m" using k(1) by simp
    with lim have "(2::rat) powi ((p - 1) + ?q) < 2 powi (emin + p + w - 2)"
      using p by (simp add: two_powi_add two_powi_of_int)
    then have "\<not> emin + p + w - 2 \<le> (p - 1) + ?q" using two_powi_le by (meson linorder_not_le)
    then have "?q - emin \<le> w - 2" by simp
    then have "(?q - emin) * ?h \<le> (w - 2) * ?h" by (intro mult_right_mono) auto
    moreover have "0 \<le> (?q - emin) * ?h" using q by simp
    moreover have "(w - 2) * ?h + 2 * ?h = w * ?h" by (simp add: algebra_simps)
    ultimately show ?thesis using k(2,3,5) by linarith
  qed
qed

text \<open>
  \<open>wire_format n\<close> is \<open>(p, emin, exponent bits)\<close> of the \<open>n\<close>-byte format: \<^verbatim>\<open>'f'\<close> for 4, \<^verbatim>\<open>'d'\<close> otherwise.
  \<^verbatim>\<open>struct.pack\<close> raises \<^verbatim>\<open>OverflowError\<close> for a finite float that rounds beyond binary32.
\<close>

definition wire_format :: "nat \<Rightarrow> int \<times> int \<times> nat" where
  "wire_format n = (if n = 4 then (24, - 149, 8) else (53, - 1074, 11))"

definition wire_limit :: "nat \<Rightarrow> rat" where
  "wire_limit n = (if n = 4 then 2 ^ 128 else fl_limit)"

definition struct_pack_bits :: "nat \<Rightarrow> pyfloat \<Rightarrow> py_exn + int" where
  "struct_pack_bits n x =
     (case wire_format n of (p, emin, eb) \<Rightarrow>
        let h = 2 ^ nat (p - 1); inf = (2 ^ eb - 1) * h; neg = 2 ^ eb * h
        in case x of
             FNaN \<Rightarrow> Inr (inf + h div 2)
           | FInf s \<Rightarrow> Inr ((if s then neg else 0) + inf)
           | FFin s m \<Rightarrow>
               (let r = fl_round p emin m
                in if wire_limit n \<le> r then Inl PyOverflow
                   else Inr ((if s then neg else 0) + mag_to_bits p emin r)))"

definition struct_unpack_bits :: "nat \<Rightarrow> int \<Rightarrow> pyfloat" where
  "struct_unpack_bits n v =
     (case wire_format n of (p, emin, eb) \<Rightarrow>
        let h = 2 ^ nat (p - 1); inf = (2 ^ eb - 1) * h; neg = 2 ^ eb * h;
            s = (neg \<le> v); m = v mod neg
        in if m = inf then FInf s else if inf < m then FNaN
           else FFin s (mag_of_bits p emin m))"

text \<open>What a value becomes on the wire and back: itself in 8 bytes, its binary32 rounding in 4.\<close>

fun wire_rounded :: "nat \<Rightarrow> pyfloat \<Rightarrow> pyfloat" where
  "wire_rounded n (FFin s m) = (case wire_format n of (p, emin, _) \<Rightarrow> FFin s (fl_round p emin m))"
| "wire_rounded n x = x"

lemma wire_bits_bounds:
  assumes "fl_repr p emin m" "wire_format n = (p, emin, eb)" "m < wire_limit n"
  shows "0 \<le> mag_to_bits p emin m \<and> mag_to_bits p emin m < (2 ^ eb - 1) * 2 ^ nat (p - 1)"
  using assms mag_to_bits_bounds[of p emin m "2 ^ eb - 1"]
  by (auto simp: wire_format_def wire_limit_def fl_limit_def power_int_def split: if_splits)

lemma struct_bits_roundtrip:
  assumes "struct_pack_bits n x = Inr v"
  shows "struct_unpack_bits n v = wire_rounded n x"
    and "0 \<le> v \<and> v < (if n = 4 then 2 ^ 32 else 2 ^ 64)"
proof -
  obtain p emin eb where f: "wire_format n = (p, emin, eb)" by (cases "wire_format n")
  then have p: "1 \<le> p" and eb: "eb = 8 \<or> eb = 11"
    by (auto simp: wire_format_def split: if_splits)
  let ?h = "(2::int) ^ nat (p - 1)"
  have small: "(2 ^ eb - 1) * ?h < 2 ^ eb * ?h" by simp
  have width: "2 * (2 ^ eb * ?h) = (if n = 4 then 2 ^ 32 else 2 ^ 64)"
    using f by (auto simp: wire_format_def split: if_splits)
  have main: "struct_unpack_bits n v = wire_rounded n x \<and> 0 \<le> v \<and> v < 2 * (2 ^ eb * ?h)"
  proof (cases x)
    case FNaN
    with assms f show ?thesis
      by (cases "n = 4") (auto simp: struct_pack_bits_def struct_unpack_bits_def wire_format_def)
  next
    case (FInf s)
    with assms f show ?thesis
      by (cases "n = 4"; cases s)
        (auto simp: struct_pack_bits_def struct_unpack_bits_def wire_format_def)
  next
    case (FFin s m)
    let ?r = "fl_round p emin m"
    from assms f FFin have lim: "?r < wire_limit n"
      and v: "v = (if s then 2 ^ eb * ?h else 0) + mag_to_bits p emin ?r"
      by (auto simp: struct_pack_bits_def Let_def split: if_splits)
    have b: "0 \<le> mag_to_bits p emin ?r \<and> mag_to_bits p emin ?r < (2 ^ eb - 1) * ?h"
      using p f lim by (intro wire_bits_bounds[of p emin ?r n eb]) auto
    then have b': "mag_to_bits p emin ?r < 2 ^ eb * ?h" using small by linarith
    with b v have md: "v mod (2 ^ eb * ?h) = mag_to_bits p emin ?r" and sg: "(2 ^ eb * ?h \<le> v) = s"
      by (cases s; simp)+
    with b b' FFin f p show ?thesis
      using v by (auto simp: struct_unpack_bits_def Let_def mag_roundtrip)
  qed
  then show "struct_unpack_bits n v = wire_rounded n x" by simp
  show "0 \<le> v \<and> v < (if n = 4 then 2 ^ 32 else 2 ^ 64)"
    using main unfolding width by blast
qed

lemma wire_rounded_8: "fl_wf x \<Longrightarrow> wire_rounded 8 x = x"
  by (cases x) (auto simp: wire_format_def fl_repr_def)

lemma struct_pack_8_total: "fl_wf x \<Longrightarrow> is_ok (struct_pack_bits 8 x)"
  by (cases x)
    (auto simp: struct_pack_bits_def wire_format_def wire_limit_def fl_repr_def Let_def)

end
