(* ===== verification/Interfaces.thy ===== *)
theory Interfaces
  imports Prelude
begin

text \<open>
  The contracts several components share, as locales. \<open>packet_codec\<close> is what a caller relies on in
  a pair of encode and decode functions (identifier, header, frame, packet, signal and KISS codecs);
  \<open>ordered_link\<close> is what it relies on in a sender and a stateful receiver of the same stream (CFP2
  fragments, KISS frames). Each is interpreted in the theory of the component that provides it.
\<close>

section \<open>Codecs\<close>

locale packet_codec =
  fixes valid :: "'p \<Rightarrow> bool"
    and encode :: "'p \<Rightarrow> 'e + 'w"
    and decode :: "'w \<Rightarrow> 'f + 'p"
  assumes decode_encode: "valid p \<Longrightarrow> encode p = Inr w \<Longrightarrow> decode w = Inr p"
begin

lemma encode_injective:
  "valid p \<Longrightarrow> valid q \<Longrightarrow> encode p = Inr w \<Longrightarrow> encode q = Inr w \<Longrightarrow> p = q"
  using decode_encode by (metis sum.inject(2))

lemma decode_encode_list:
  "\<forall>p \<in> set ps. valid p \<Longrightarrow> res_mapM encode ps = Inr ws \<Longrightarrow> res_mapM decode ws = Inr ps"
  by (induction ps arbitrary: ws) (auto simp: res_bind_eq_Inr decode_encode)

end

text \<open>A codec whose every word is the encoding of what it decodes to.\<close>

locale exact_codec = packet_codec +
  fixes wire :: "'b \<Rightarrow> bool"
  assumes encode_decode: "wire w \<Longrightarrow> decode w = Inr p \<Longrightarrow> encode p = Inr w"
begin

lemma decode_injective:
  "wire v \<Longrightarrow> wire w \<Longrightarrow> decode v = Inr p \<Longrightarrow> decode w = Inr p \<Longrightarrow> v = w"
  using encode_decode by (metis sum.inject(2))

end

section \<open>Links\<close>

text \<open>
  \<open>emits s m ws s'\<close>: sending \<open>m\<close> in the sender state \<open>s\<close> may put the items \<open>ws\<close> on the wire. \<open>recv\<close>
  handles one item. \<open>deliver\<close> reads the message an event carries, if any, and \<open>paired s r\<close> holds
  between two messages.
\<close>

fun recv_all :: "('r \<Rightarrow> 'w \<Rightarrow> 'ev list \<times> 'r) \<Rightarrow> 'r \<Rightarrow> 'w list \<Rightarrow> 'ev list \<times> 'r" where
  "recv_all recv r [] = ([], r)"
| "recv_all recv r (w # ws) =
     (let (evs, r1) = recv r w; (evs', r2) = recv_all recv r1 ws in (evs @ evs', r2))"

lemma recv_all_append:
  "recv_all recv r (ws @ ws') =
     (let (evs, r1) = recv_all recv r ws; (evs', r2) = recv_all recv r1 ws' in (evs @ evs', r2))"
  by (induction ws arbitrary: r) (auto simp: Let_def split: prod.splits)

inductive emits_all ::
  "('s \<Rightarrow> 'm \<Rightarrow> 'w list \<Rightarrow> 's \<Rightarrow> bool) \<Rightarrow> 's \<Rightarrow> 'm list \<Rightarrow> 'w list \<Rightarrow> 's \<Rightarrow> bool" for emits where
  emits_none: "emits_all emits s [] [] s"
| emits_more: "emits s m ws s1 \<Longrightarrow> emits_all emits s1 ms ws' s2 \<Longrightarrow>
     emits_all emits s (m # ms) (ws @ ws') s2"

inductive_cases emits_all_NilE: "emits_all emits s [] ws s'"
inductive_cases emits_all_ConsE: "emits_all emits s (m # ms) ws s'"

locale ordered_link =
  fixes emits :: "'s \<Rightarrow> 'm \<Rightarrow> 'w list \<Rightarrow> 's \<Rightarrow> bool"
    and recv :: "'r \<Rightarrow> 'w \<Rightarrow> 'ev list \<times> 'r"
    and deliver :: "'ev \<Rightarrow> 'm option"
    and paired :: "'s \<Rightarrow> 'r \<Rightarrow> bool"
  assumes delivers_one:
    "paired s r \<Longrightarrow> emits s m ws s' \<Longrightarrow> recv_all recv r ws = (evs, r') \<Longrightarrow>
       List.map_filter deliver evs = [m] \<and> paired s' r'"
begin

lemma delivers_in_order:
  "emits_all emits s ms ws s' \<Longrightarrow> paired s r \<Longrightarrow> recv_all recv r ws = (evs, r') \<Longrightarrow>
     List.map_filter deliver evs = ms \<and> paired s' r'"
proof (induction arbitrary: r evs r' rule: emits_all.induct)
  case (emits_none s)
  then show ?case by (simp add: map_filter_simps)
next
  case (emits_more s m ws s1 ms ws' s2)
  obtain evs1 r1 where first: "recv_all recv r ws = (evs1, r1)" by fastforce
  obtain evs2 r2 where rest: "recv_all recv r1 ws' = (evs2, r2)" by fastforce
  have "List.map_filter deliver evs1 = [m] \<and> paired s1 r1"
    using delivers_one emits_more first by blast
  moreover from this have "List.map_filter deliver evs2 = ms \<and> paired s2 r2"
    using emits_more rest by blast
  moreover have "evs = evs1 @ evs2" "r' = r2"
    using emits_more.prems(2) first rest by (simp_all add: recv_all_append)
  ultimately show ?case by (simp add: List.map_filter_def)
qed

end

end
