(* ===== verification/CspV2.thy ===== *)
theory CspV2
  imports Interfaces
begin

text \<open>
  The CSP v2 codec over classic CAN, \<^verbatim>\<open>protocol/csp_v2.py\<close> without its reassembler (which is
  \<^verbatim>\<open>CspReassembly\<close>): the validated field records, the 29-bit CAN identifier and the 32-bit header
  extension, single-frame \<^verbatim>\<open>pack\<close>/\<^verbatim>\<open>decode_frame\<close>, and CFP2 fragmentation.

  A constructor that validates its arguments in \<^verbatim>\<open>__post_init__\<close> is a \<open>mk_\<close> function into
  \<open>csp_error + record\<close>. Each \<open>csp_error\<close> constructor is one raise of the source with the values its
  message interpolates; \<open>is_range_error\<close> tells \<^verbatim>\<open>CspV2RangeError\<close> from \<^verbatim>\<open>CspV2FrameError\<close>. The type
  checks (an integer that is not a bool, a bytes-like value) are the types of the model.
\<close>

section \<open>Constants and errors\<close>

abbreviation "CLASSIC_CAN_MAX_DATA_BYTES \<equiv> 8 :: nat"
abbreviation "STANDARD_CAN_ID_MAX \<equiv> 0x7FF :: int"
abbreviation "EXTENDED_CAN_ID_MAX \<equiv> 0x1FFFFFFF :: int"
abbreviation "CSP_V2_CAN_HEADER_EXTENSION_BYTES \<equiv> 4 :: nat"
abbreviation "CSP_V2_SINGLE_FRAME_MAX_PAYLOAD_BYTES \<equiv> 4 :: nat"
abbreviation "CSP_V2_CFP_CONTINUATION_PAYLOAD_BYTES \<equiv> 8 :: nat"
abbreviation "CSP_V2_DEFAULT_MAX_PACKET_BYTES \<equiv> 256 :: int"
abbreviation "CSP_V2_REASSEMBLY_TIMEOUT_US \<equiv> 1000000 :: int"
abbreviation "CSP_V2_PRIORITY_MAX \<equiv> 0x3 :: int"
abbreviation "CSP_V2_ADDRESS_MAX \<equiv> 0x3FFF :: int"
abbreviation "CSP_V2_PORT_MAX \<equiv> 0x3F :: int"
abbreviation "CSP_V2_FLAGS_MAX \<equiv> 0x3F :: int"
abbreviation "CSP_CAN_V2_SENDER_MAX \<equiv> 0x3F :: int"
abbreviation "CSP_CAN_V2_PACKET_COUNT_MAX \<equiv> 0x3 :: int"
abbreviation "CSP_CAN_V2_FRAME_COUNT_MAX \<equiv> 0x7 :: int"
abbreviation "CSP_FLAG_FRAGMENT \<equiv> 0x10 :: int"

datatype csp_error =
    UintOutOfRange string int int \<comment> \<open>field name, maximum, value\<close>
  | MaxPacketBytesNotPositive int
  | HeaderLengthInvalid nat
  | CanDataTooLong nat
  | SingleFramePayloadTooLong nat
  | NotExtendedId
  | HeaderExtensionMissing nat
  | NotFirstFrame
  | PayloadOverLimit nat int
  | FragmentFlagUnsupported
  | ContinuationFrame
  | UnterminatedPacket
  | NonzeroFrameCount int
  | KissFrameOverLimit nat int

fun is_range_error :: "csp_error \<Rightarrow> bool" where
  "is_range_error (UintOutOfRange _ _ _) = True"
| "is_range_error (MaxPacketBytesNotPositive _) = True"
| "is_range_error (HeaderLengthInvalid _) = True"
| "is_range_error _ = False"

definition validate_uint :: "string \<Rightarrow> int \<Rightarrow> int \<Rightarrow> csp_error + int" where
  "validate_uint name v maximum =
     (if 0 \<le> v \<and> v \<le> maximum then Inr v else Inl (UintOutOfRange name maximum v))"

section \<open>Field records\<close>

record csp_fields =
  cf_priority :: int
  cf_source :: int
  cf_destination :: int
  cf_destination_port :: int
  cf_source_port :: int
  cf_flags :: int

definition mk_csp_fields ::
  "int \<Rightarrow> int \<Rightarrow> int \<Rightarrow> int \<Rightarrow> int \<Rightarrow> int \<Rightarrow> csp_error + csp_fields" where
  "mk_csp_fields priority source destination destination_port source_port flags =
     res_bind (validate_uint ''priority'' priority CSP_V2_PRIORITY_MAX) (\<lambda>p.
     res_bind (validate_uint ''source'' source CSP_V2_ADDRESS_MAX) (\<lambda>s.
     res_bind (validate_uint ''destination'' destination CSP_V2_ADDRESS_MAX) (\<lambda>d.
     res_bind (validate_uint ''destination_port'' destination_port CSP_V2_PORT_MAX) (\<lambda>dp.
     res_bind (validate_uint ''source_port'' source_port CSP_V2_PORT_MAX) (\<lambda>sp.
     res_bind (validate_uint ''flags'' flags CSP_V2_FLAGS_MAX) (\<lambda>f.
       Inr \<lparr>cf_priority = p, cf_source = s, cf_destination = d,
            cf_destination_port = dp, cf_source_port = sp, cf_flags = f\<rparr>))))))"

record can_id_fields =
  ci_priority :: int
  ci_destination :: int
  ci_sender :: int
  ci_packet_count :: int
  ci_frame_count :: int
  ci_begin :: bool
  ci_end :: bool

definition mk_can_id_fields ::
  "int \<Rightarrow> int \<Rightarrow> int \<Rightarrow> int \<Rightarrow> int \<Rightarrow> bool \<Rightarrow> bool \<Rightarrow> csp_error + can_id_fields" where
  "mk_can_id_fields priority destination sender packet_count frame_count is_begin is_end =
     res_bind (validate_uint ''priority'' priority CSP_V2_PRIORITY_MAX) (\<lambda>p.
     res_bind (validate_uint ''destination'' destination CSP_V2_ADDRESS_MAX) (\<lambda>d.
     res_bind (validate_uint ''sender'' sender CSP_CAN_V2_SENDER_MAX) (\<lambda>s.
     res_bind (validate_uint ''packet_count'' packet_count CSP_CAN_V2_PACKET_COUNT_MAX) (\<lambda>pc.
     res_bind (validate_uint ''frame_count'' frame_count CSP_CAN_V2_FRAME_COUNT_MAX) (\<lambda>fc.
       Inr \<lparr>ci_priority = p, ci_destination = d, ci_sender = s, ci_packet_count = pc,
            ci_frame_count = fc, ci_begin = is_begin, ci_end = is_end\<rparr>)))))"

record can_frame =
  fr_can_id :: int
  fr_data :: "byte list"
  fr_is_extended :: bool

definition mk_can_frame :: "int \<Rightarrow> byte list \<Rightarrow> bool \<Rightarrow> csp_error + can_frame" where
  "mk_can_frame can_id data is_extended =
     res_bind (validate_uint ''can_id'' can_id
                 (if is_extended then EXTENDED_CAN_ID_MAX else STANDARD_CAN_ID_MAX)) (\<lambda>i.
     res_bind (res_check (length data \<le> CLASSIC_CAN_MAX_DATA_BYTES)
                 (CanDataTooLong (length data))) (\<lambda>_.
       Inr \<lparr>fr_can_id = i, fr_data = data, fr_is_extended = is_extended\<rparr>))"

definition frame_dlc :: "can_frame \<Rightarrow> nat" where
  "frame_dlc frame = length (fr_data frame)"

record decoded_packet =
  dp_fields :: csp_fields
  dp_payload :: "byte list"
  dp_frame :: can_frame
  dp_can_fields :: can_id_fields
  dp_frames :: "can_frame list"

section \<open>Identifier and header extension\<close>

definition pack_can_id :: "can_id_fields \<Rightarrow> int" where
  "pack_can_id f =
     push_bit 27 (ci_priority f AND 0x3) OR
     push_bit 13 (ci_destination f AND 0x3FFF) OR
     push_bit 7 (ci_sender f AND 0x3F) OR
     push_bit 5 (ci_packet_count f AND 0x3) OR
     push_bit 2 (ci_frame_count f AND 0x7) OR
     push_bit 1 (of_bool (ci_begin f) AND 0x1) OR
     push_bit 0 (of_bool (ci_end f) AND 0x1)"

definition unpack_can_id :: "int \<Rightarrow> csp_error + can_id_fields" where
  "unpack_can_id can_id =
     mk_can_id_fields
       (drop_bit 27 can_id AND 0x3)
       (drop_bit 13 can_id AND 0x3FFF)
       (drop_bit 7 can_id AND 0x3F)
       (drop_bit 5 can_id AND 0x3)
       (drop_bit 2 can_id AND 0x7)
       (drop_bit 1 can_id AND 0x1 \<noteq> 0)
       (drop_bit 0 can_id AND 0x1 \<noteq> 0)"

definition decode_can_id :: "int \<Rightarrow> csp_error + can_id_fields" where
  "decode_can_id can_id =
     res_bind (validate_uint ''can_id'' can_id EXTENDED_CAN_ID_MAX) unpack_can_id"

definition pack_header_extension :: "csp_fields \<Rightarrow> int" where
  "pack_header_extension f =
     push_bit 18 (cf_source f AND 0x3FFF) OR
     push_bit 12 (cf_destination_port f AND 0x3F) OR
     push_bit 6 (cf_source_port f AND 0x3F) OR
     push_bit 0 (cf_flags f AND 0x3F)"

definition unpack_header_extension :: "int \<Rightarrow> int \<Rightarrow> int \<Rightarrow> csp_error + csp_fields" where
  "unpack_header_extension header_extension priority destination =
     mk_csp_fields
       priority
       (drop_bit 18 header_extension AND 0x3FFF)
       destination
       (drop_bit 12 header_extension AND 0x3F)
       (drop_bit 6 header_extension AND 0x3F)
       (drop_bit 0 header_extension AND 0x3F)"

definition validate_csp_fields :: "csp_fields \<Rightarrow> csp_error + unit" where
  "validate_csp_fields f =
     res_check (cf_flags f AND CSP_FLAG_FRAGMENT = 0) FragmentFlagUnsupported"

definition validate_single_frame_can_fields :: "can_id_fields \<Rightarrow> csp_error + unit" where
  "validate_single_frame_can_fields f =
     res_bind (res_check (ci_begin f) ContinuationFrame) (\<lambda>_.
     res_bind (res_check (ci_end f) UnterminatedPacket) (\<lambda>_.
       res_check (ci_frame_count f = 0) (NonzeroFrameCount (ci_frame_count f))))"

section \<open>Single-frame packets\<close>

definition sender_or_default :: "csp_fields \<Rightarrow> int option \<Rightarrow> int" where
  "sender_or_default f sender =
     (case sender of None \<Rightarrow> cf_source f AND CSP_CAN_V2_SENDER_MAX | Some s \<Rightarrow> s)"

definition pack :: "csp_fields \<Rightarrow> byte list \<Rightarrow> int option \<Rightarrow> int \<Rightarrow> csp_error + can_frame" where
  "pack f payload sender packet_count =
     res_bind (validate_csp_fields f) (\<lambda>_.
     res_bind (res_check (length payload \<le> CSP_V2_SINGLE_FRAME_MAX_PAYLOAD_BYTES)
                 (SingleFramePayloadTooLong (length payload))) (\<lambda>_.
     res_bind (mk_can_id_fields (cf_priority f) (cf_destination f) (sender_or_default f sender)
                 packet_count 0 True True) (\<lambda>can_fields.
       mk_can_frame (pack_can_id can_fields)
         (int_to_be CSP_V2_CAN_HEADER_EXTENSION_BYTES (pack_header_extension f) @ payload) True)))"

definition decode_frame :: "can_frame \<Rightarrow> csp_error + decoded_packet" where
  "decode_frame frame =
     res_bind (res_check (fr_is_extended frame) NotExtendedId) (\<lambda>_.
     res_bind (res_check (CSP_V2_CAN_HEADER_EXTENSION_BYTES \<le> frame_dlc frame)
                 (HeaderExtensionMissing (frame_dlc frame))) (\<lambda>_.
     res_bind (unpack_can_id (fr_can_id frame)) (\<lambda>can_fields.
     res_bind (validate_single_frame_can_fields can_fields) (\<lambda>_.
     res_bind (unpack_header_extension
                 (int_from_be (take CSP_V2_CAN_HEADER_EXTENSION_BYTES (fr_data frame)))
                 (ci_priority can_fields) (ci_destination can_fields)) (\<lambda>fields.
     res_bind (validate_csp_fields fields) (\<lambda>_.
       Inr \<lparr>dp_fields = fields,
            dp_payload = drop CSP_V2_CAN_HEADER_EXTENSION_BYTES (fr_data frame),
            dp_frame = frame, dp_can_fields = can_fields, dp_frames = [frame]\<rparr>))))))"

definition unpack :: "int \<Rightarrow> byte list \<Rightarrow> bool \<Rightarrow> csp_error + decoded_packet" where
  "unpack can_id data is_extended = res_bind (mk_can_frame can_id data is_extended) decode_frame"

definition decode_first_frame_header :: "can_frame \<Rightarrow> csp_error + csp_fields" where
  "decode_first_frame_header frame =
     res_bind (res_check (fr_is_extended frame) NotExtendedId) (\<lambda>_.
     res_bind (unpack_can_id (fr_can_id frame)) (\<lambda>can_fields.
     res_bind (res_check (ci_begin can_fields) NotFirstFrame) (\<lambda>_.
     res_bind (res_check (CSP_V2_CAN_HEADER_EXTENSION_BYTES \<le> frame_dlc frame)
                 (HeaderExtensionMissing (frame_dlc frame))) (\<lambda>_.
       unpack_header_extension
         (int_from_be (take CSP_V2_CAN_HEADER_EXTENSION_BYTES (fr_data frame)))
         (ci_priority can_fields) (ci_destination can_fields)))))"

section \<open>Fragmentation\<close>

text \<open>The slices \<^verbatim>\<open>xs[o:o+n] for o in range(0, len(xs), n)\<close>.\<close>

fun slices :: "nat \<Rightarrow> 'a list \<Rightarrow> 'a list list" where
  "slices n xs = (if n = 0 \<or> xs = [] then [] else take n xs # slices n (drop n xs))"

declare slices.simps [simp del]

definition packet_chunks :: "csp_fields \<Rightarrow> byte list \<Rightarrow> byte list list" where
  "packet_chunks f payload =
     (int_to_be CSP_V2_CAN_HEADER_EXTENSION_BYTES (pack_header_extension f)
        @ take CSP_V2_SINGLE_FRAME_MAX_PAYLOAD_BYTES payload)
     # slices CSP_V2_CFP_CONTINUATION_PAYLOAD_BYTES
         (drop CSP_V2_SINGLE_FRAME_MAX_PAYLOAD_BYTES payload)"

definition fragment_frame ::
  "csp_fields \<Rightarrow> int \<Rightarrow> int \<Rightarrow> nat \<Rightarrow> nat \<times> byte list \<Rightarrow> csp_error + can_frame" where
  "fragment_frame f sender packet_count n =
     (\<lambda>(index, chunk).
        res_bind (mk_can_id_fields (cf_priority f) (cf_destination f) sender packet_count
                    (if index \<noteq> 0 then int index AND CSP_CAN_V2_FRAME_COUNT_MAX else 0)
                    (index = 0) (index = n - 1)) (\<lambda>can_fields.
          mk_can_frame (pack_can_id can_fields) chunk True))"

definition fragment_packet ::
  "csp_fields \<Rightarrow> byte list \<Rightarrow> int option \<Rightarrow> int \<Rightarrow> csp_error + can_frame list" where
  "fragment_packet f payload sender packet_count =
     res_bind (validate_csp_fields f) (\<lambda>_.
       let chunks = packet_chunks f payload
       in res_mapM (fragment_frame f (sender_or_default f sender) packet_count (length chunks))
            (enumerate 0 chunks))"

record fragmenter =
  fg_max_packet_bytes :: int
  fg_packet_counts :: "(int \<times> int) list"

definition validate_max_packet_bytes :: "int \<Rightarrow> csp_error + int" where
  "validate_max_packet_bytes v = (if v < 1 then Inl (MaxPacketBytesNotPositive v) else Inr v)"

definition mk_fragmenter :: "int \<Rightarrow> csp_error + fragmenter" where
  "mk_fragmenter max_packet_bytes =
     res_bind (validate_max_packet_bytes max_packet_bytes) (\<lambda>m.
       Inr \<lparr>fg_max_packet_bytes = m, fg_packet_counts = []\<rparr>)"

definition fragmenter_fragment ::
  "fragmenter \<Rightarrow> csp_fields \<Rightarrow> byte list \<Rightarrow> int option \<Rightarrow> csp_error + can_frame list \<times> fragmenter"
where
  "fragmenter_fragment fg f payload sender =
     res_bind (res_check (int (length payload) \<le> fg_max_packet_bytes fg)
                 (PayloadOverLimit (length payload) (fg_max_packet_bytes fg))) (\<lambda>_.
     let sender_value = sender_or_default f sender;
         count = (case map_of (fg_packet_counts fg) sender_value of None \<Rightarrow> 0 | Some c \<Rightarrow> c)
     in res_bind (fragment_packet f payload (Some sender_value) count) (\<lambda>frames.
          Inr (frames, fg\<lparr>fg_packet_counts :=
            AList.update sender_value ((count + 1) AND CSP_CAN_V2_PACKET_COUNT_MAX)
              (fg_packet_counts fg)\<rparr>)))"

section \<open>Valid fields\<close>

definition wf_csp_fields :: "csp_fields \<Rightarrow> bool" where
  "wf_csp_fields f \<longleftrightarrow>
     cf_priority f \<in> {0..3} \<and> cf_source f \<in> {0..0x3FFF} \<and> cf_destination f \<in> {0..0x3FFF} \<and>
     cf_destination_port f \<in> {0..0x3F} \<and> cf_source_port f \<in> {0..0x3F} \<and> cf_flags f \<in> {0..0x3F}"

definition wf_can_id_fields :: "can_id_fields \<Rightarrow> bool" where
  "wf_can_id_fields f \<longleftrightarrow>
     ci_priority f \<in> {0..3} \<and> ci_destination f \<in> {0..0x3FFF} \<and> ci_sender f \<in> {0..0x3F} \<and>
     ci_packet_count f \<in> {0..3} \<and> ci_frame_count f \<in> {0..7}"

definition wf_can_frame :: "can_frame \<Rightarrow> bool" where
  "wf_can_frame fr \<longleftrightarrow>
     0 \<le> fr_can_id fr \<and>
     fr_can_id fr \<le> (if fr_is_extended fr then EXTENDED_CAN_ID_MAX else STANDARD_CAN_ID_MAX) \<and>
     length (fr_data fr) \<le> 8"

lemma validate_uint_eq_Inr [simp]:
  "validate_uint n v m = Inr w \<longleftrightarrow> 0 \<le> v \<and> v \<le> m \<and> w = v"
  by (auto simp: validate_uint_def)

lemma validate_uint_ok: "0 \<le> v \<Longrightarrow> v \<le> m \<Longrightarrow> validate_uint n v m = Inr v"
  by simp

lemma mk_csp_fields_eq_Inr:
  "mk_csp_fields p s d dp sp f = Inr r \<longleftrightarrow>
     wf_csp_fields r \<and>
     r = \<lparr>cf_priority = p, cf_source = s, cf_destination = d,
          cf_destination_port = dp, cf_source_port = sp, cf_flags = f\<rparr>"
  by (auto simp: mk_csp_fields_def res_bind_eq_Inr wf_csp_fields_def)

lemma mk_can_id_fields_eq_Inr:
  "mk_can_id_fields p d s pc fc b e = Inr r \<longleftrightarrow>
     wf_can_id_fields r \<and>
     r = \<lparr>ci_priority = p, ci_destination = d, ci_sender = s, ci_packet_count = pc,
          ci_frame_count = fc, ci_begin = b, ci_end = e\<rparr>"
  by (auto simp: mk_can_id_fields_def res_bind_eq_Inr wf_can_id_fields_def)

lemma mk_can_frame_eq_Inr:
  "mk_can_frame i d x = Inr fr \<longleftrightarrow>
     wf_can_frame fr \<and> fr = \<lparr>fr_can_id = i, fr_data = d, fr_is_extended = x\<rparr>"
  by (auto simp: mk_can_frame_def res_bind_eq_Inr wf_can_frame_def)

section \<open>The identifier and header bijections\<close>

lemma and_masks:
  "(x::int) AND 0x3 = take_bit 2 x" "x AND 0x7 = take_bit 3 x" "x AND 0x3F = take_bit 6 x"
  "x AND 0x3FFF = take_bit 14 x" "x AND 0x1 = take_bit 1 x"
  by (simp_all add: take_bit_eq_mask mask_eq_exp_minus_1)

lemma take_bit_id: "0 \<le> x \<Longrightarrow> x < 2 ^ n \<Longrightarrow> take_bit n (x::int) = x"
  by (simp add: take_bit_int_eq_self)

lemma take_bit_range: "0 \<le> take_bit n (x::int)" "take_bit n (x::int) < 2 ^ n"
  by simp_all

lemma take_bit_1_nonzero: "take_bit 1 (x::int) \<noteq> 0 \<longleftrightarrow> bit x 0"
  unfolding bit_0 take_bit_eq_mod odd_iff_mod_2_eq_one by auto

lemma unpack_can_id_total:
  "unpack_can_id i = Inr
     \<lparr>ci_priority = take_bit 2 (drop_bit 27 i), ci_destination = take_bit 14 (drop_bit 13 i),
      ci_sender = take_bit 6 (drop_bit 7 i), ci_packet_count = take_bit 2 (drop_bit 5 i),
      ci_frame_count = take_bit 3 (drop_bit 2 i), ci_begin = bit i 1, ci_end = bit i 0\<rparr>"
  using take_bit_range[of 2 "drop_bit 27 i"] take_bit_range[of 14 "drop_bit 13 i"]
    take_bit_range[of 6 "drop_bit 7 i"] take_bit_range[of 2 "drop_bit 5 i"]
    take_bit_range[of 3 "drop_bit 2 i"]
  unfolding unpack_can_id_def and_masks take_bit_1_nonzero
  by (auto simp: mk_can_id_fields_eq_Inr wf_can_id_fields_def bit_drop_bit_eq)

lemma pack_can_id_fields:
  fixes f :: can_id_fields
  defines "i \<equiv> pack_can_id f"
  shows "take_bit 2 (drop_bit 27 i) = take_bit 2 (ci_priority f)"
    and "take_bit 14 (drop_bit 13 i) = take_bit 14 (ci_destination f)"
    and "take_bit 6 (drop_bit 7 i) = take_bit 6 (ci_sender f)"
    and "take_bit 2 (drop_bit 5 i) = take_bit 2 (ci_packet_count f)"
    and "take_bit 3 (drop_bit 2 i) = take_bit 3 (ci_frame_count f)"
    and "bit i 1 = ci_begin f" and "bit i 0 = ci_end f"
  unfolding i_def pack_can_id_def and_masks
  by (auto intro!: bit_eqI simp: bit_simps)

lemma pack_can_id_range: "0 \<le> pack_can_id f \<and> pack_can_id f \<le> EXTENDED_CAN_ID_MAX"
proof -
  have "take_bit 29 (pack_can_id f) = pack_can_id f"
    unfolding pack_can_id_def and_masks by (simp add: take_bit_push_bit)
  then show ?thesis using take_bit_range[of 29 "pack_can_id f"] by simp
qed

lemma unpack_pack_can_id:
  assumes "wf_can_id_fields f"
  shows "unpack_can_id (pack_can_id f) = Inr f"
  using assms
  by (simp add: unpack_can_id_total pack_can_id_fields wf_can_id_fields_def take_bit_id
      del: One_nat_def)

text \<open>Adjacent bit ranges of a number, put together again.\<close>

lemma glue_bits:
  "push_bit n (take_bit k (drop_bit n (i::int))) OR take_bit n i = take_bit (k + n) i"
  by (auto intro!: bit_eqI simp: bit_simps)

lemma of_bool_bit: "take_bit 1 (of_bool (bit (i::int) n)) = take_bit 1 (drop_bit n i)"
  by (simp add: bit_iff_odd_drop_bit take_bit_eq_mod mod_2_eq_odd)

lemma pack_unpack_can_id:
  assumes "0 \<le> i" "i \<le> EXTENDED_CAN_ID_MAX" and "unpack_can_id i = Inr f"
  shows "pack_can_id f = i"
proof -
  have f: "f = \<lparr>ci_priority = take_bit 2 (drop_bit 27 i),
      ci_destination = take_bit 14 (drop_bit 13 i), ci_sender = take_bit 6 (drop_bit 7 i),
      ci_packet_count = take_bit 2 (drop_bit 5 i), ci_frame_count = take_bit 3 (drop_bit 2 i),
      ci_begin = bit i 1, ci_end = bit i 0\<rparr>"
    using assms(3) by (simp only: unpack_can_id_total sum.inject)
  have "pack_can_id f = push_bit 27 (take_bit 2 (drop_bit 27 i)) OR
      push_bit 13 (take_bit 14 (drop_bit 13 i)) OR push_bit 7 (take_bit 6 (drop_bit 7 i)) OR
      push_bit 5 (take_bit 2 (drop_bit 5 i)) OR push_bit 2 (take_bit 3 (drop_bit 2 i)) OR
      push_bit 1 (take_bit 1 (drop_bit 1 i)) OR take_bit 1 i"
    unfolding f pack_can_id_def and_masks
    by (simp only: can_id_fields.simps of_bool_bit push_bit_0_id drop_bit_0 id_apply
        take_bit_take_bit min.idem)
  also have "\<dots> = take_bit 29 i"
    by (simp add: glue_bits del: One_nat_def)
  finally have "pack_can_id f = take_bit 29 i" .
  with assms show ?thesis by (simp add: take_bit_id)
qed

lemma unpack_header_extension_total:
  assumes "p \<in> {0..3}" "d \<in> {0..0x3FFF}"
  shows "unpack_header_extension h p d = Inr
     \<lparr>cf_priority = p, cf_source = take_bit 14 (drop_bit 18 h), cf_destination = d,
      cf_destination_port = take_bit 6 (drop_bit 12 h),
      cf_source_port = take_bit 6 (drop_bit 6 h), cf_flags = take_bit 6 h\<rparr>"
  using assms take_bit_range[of 14 "drop_bit 18 h"] take_bit_range[of 6 "drop_bit 12 h"]
    take_bit_range[of 6 "drop_bit 6 h"] take_bit_range[of 6 h]
  by (auto simp: unpack_header_extension_def mk_csp_fields_eq_Inr wf_csp_fields_def and_masks)

lemma pack_header_extension_fields:
  fixes f :: csp_fields
  defines "h \<equiv> pack_header_extension f"
  shows "take_bit 14 (drop_bit 18 h) = take_bit 14 (cf_source f)"
    and "take_bit 6 (drop_bit 12 h) = take_bit 6 (cf_destination_port f)"
    and "take_bit 6 (drop_bit 6 h) = take_bit 6 (cf_source_port f)"
    and "take_bit 6 h = take_bit 6 (cf_flags f)"
  unfolding h_def pack_header_extension_def and_masks
  by (auto intro!: bit_eqI simp: bit_simps)

lemma pack_header_extension_range:
  "0 \<le> pack_header_extension f \<and> pack_header_extension f < 256 ^ 4"
proof -
  have "take_bit 32 (pack_header_extension f) = pack_header_extension f"
    unfolding pack_header_extension_def and_masks by (simp add: take_bit_push_bit)
  then show ?thesis using take_bit_range[of 32 "pack_header_extension f"] by simp
qed

lemma unpack_pack_header_extension:
  assumes "wf_csp_fields f"
  shows "unpack_header_extension (pack_header_extension f) (cf_priority f) (cf_destination f)
    = Inr f"
  using assms
  by (simp add: unpack_header_extension_total pack_header_extension_fields wf_csp_fields_def
      take_bit_id)

lemma header_bytes_roundtrip [simp]:
  "int_from_be (int_to_be 4 (pack_header_extension f)) = pack_header_extension f"
  using pack_header_extension_range[of f] by (intro int_from_to_be_id) auto

lemma pack_unpack_header_extension:
  assumes "0 \<le> h" "h < 2 ^ 32" and "unpack_header_extension h p d = Inr f"
  shows "pack_header_extension f = h"
proof -
  have "f = \<lparr>cf_priority = p, cf_source = take_bit 14 (drop_bit 18 h), cf_destination = d,
      cf_destination_port = take_bit 6 (drop_bit 12 h),
      cf_source_port = take_bit 6 (drop_bit 6 h), cf_flags = take_bit 6 h\<rparr>"
    using assms(3)
    by (auto simp: unpack_header_extension_def mk_csp_fields_eq_Inr and_masks)
  then have "pack_header_extension f = take_bit 32 h"
    unfolding pack_header_extension_def and_masks by (simp add: glue_bits)
  with assms show ?thesis by (simp add: take_bit_id)
qed

section \<open>Single-frame packets decode to what was packed\<close>

lemma sender_default_range: "0 \<le> cf_source f AND 0x3F" "cf_source f AND 0x3F \<le> 0x3F"
  using take_bit_range[of 6 "cf_source f"] by (simp_all add: and_masks)

definition valid_sender :: "int option \<Rightarrow> bool" where
  "valid_sender sender \<longleftrightarrow> (case sender of None \<Rightarrow> True | Some s \<Rightarrow> 0 \<le> s \<and> s \<le> 0x3F)"

lemma valid_sender_range:
  "valid_sender sender \<longleftrightarrow> sender_or_default f sender \<in> {0..0x3F}"
  using sender_default_range[of f]
  by (auto simp: valid_sender_def sender_or_default_def split: option.splits)

definition single_frame_fields :: "csp_fields \<Rightarrow> int \<Rightarrow> int \<Rightarrow> can_id_fields" where
  "single_frame_fields f s pc =
     \<lparr>ci_priority = cf_priority f, ci_destination = cf_destination f, ci_sender = s,
      ci_packet_count = pc, ci_frame_count = 0, ci_begin = True, ci_end = True\<rparr>"

lemma pack_eq_Inr:
  assumes "wf_csp_fields f"
  shows "pack f payload sender pc = Inr fr \<longleftrightarrow>
     cf_flags f AND CSP_FLAG_FRAGMENT = 0 \<and> length payload \<le> 4 \<and> valid_sender sender \<and>
     pc \<in> {0..3} \<and>
     fr = \<lparr>fr_can_id = pack_can_id (single_frame_fields f (sender_or_default f sender) pc),
           fr_data = int_to_be 4 (pack_header_extension f) @ payload, fr_is_extended = True\<rparr>"
  using assms
  by (auto simp: pack_def res_bind_eq_Inr validate_csp_fields_def mk_can_id_fields_eq_Inr
      mk_can_frame_eq_Inr wf_can_id_fields_def wf_csp_fields_def wf_can_frame_def
      pack_can_id_range valid_sender_range[of sender f] single_frame_fields_def)

lemma decode_pack_frame:
  assumes "wf_csp_fields f" and "pack f payload sender pc = Inr fr"
  shows "decode_frame fr = Inr
    \<lparr>dp_fields = f, dp_payload = payload, dp_frame = fr,
     dp_can_fields = single_frame_fields f (sender_or_default f sender) pc, dp_frames = [fr]\<rparr>"
proof -
  let ?c = "single_frame_fields f (sender_or_default f sender) pc"
  from assms have p: "cf_flags f AND CSP_FLAG_FRAGMENT = 0" "valid_sender sender" "pc \<in> {0..3}"
    and fr: "fr = \<lparr>fr_can_id = pack_can_id ?c,
      fr_data = int_to_be 4 (pack_header_extension f) @ payload, fr_is_extended = True\<rparr>"
    by (simp_all add: pack_eq_Inr)
  have "wf_can_id_fields ?c"
    using assms(1) p valid_sender_range[of sender f]
    by (simp add: wf_can_id_fields_def wf_csp_fields_def single_frame_fields_def)
  then have "unpack_can_id (fr_can_id fr) = Inr ?c" using fr by (simp add: unpack_pack_can_id)
  moreover have "unpack_header_extension (pack_header_extension f)
      (ci_priority ?c) (ci_destination ?c) = Inr f"
    using assms(1) by (simp add: unpack_pack_header_extension single_frame_fields_def)
  ultimately show ?thesis using p fr
    by (simp add: decode_frame_def frame_dlc_def validate_single_frame_can_fields_def
        validate_csp_fields_def single_frame_fields_def)
qed

section \<open>Fragments\<close>

lemma slices_Nil [simp]: "slices n [] = []"
  by (simp add: slices.simps)

lemma slices_step: "0 < n \<Longrightarrow> xs \<noteq> [] \<Longrightarrow> slices n xs = take n xs # slices n (drop n xs)"
  by (subst slices.simps) simp

lemma concat_slices: "0 < n \<Longrightarrow> concat (slices n xs) = xs"
  by (induction n xs rule: slices.induct) (subst slices.simps, auto)

lemma slices_lengths: "c \<in> set (slices n xs) \<Longrightarrow> 0 < length c \<and> length c \<le> n"
proof (induction n xs rule: slices.induct)
  case (1 n xs)
  show ?case
  proof (cases "n = 0 \<or> xs = []")
    case True
    with "1.prems" show ?thesis by (simp add: slices.simps[of n xs])
  next
    case False
    with "1" show ?thesis by (auto simp: slices.simps[of n xs])
  qed
qed

lemma ceil_div_step: "0 < n \<Longrightarrow> 0 < k \<Longrightarrow> Suc ((k - n + n - 1) div n) = (k + n - 1) div (n::nat)"
proof (cases "k \<le> n")
  case True
  assume n: "0 < n" and k: "0 < k"
  then have "k + n - 1 = (k - 1) + n" "(k - 1) div n = 0" using True by auto
  moreover have "(k - n + n - 1) div n = 0" using n True by simp
  ultimately show ?thesis using n by (simp only: div_add_self2 not_gr_zero)
next
  case False
  assume n: "0 < n"
  have "k + n - 1 = (k - n + n - 1) + n" using False n by linarith
  with n show ?thesis by (simp only: div_add_self2 not_gr_zero)
qed

lemma length_slices: "0 < n \<Longrightarrow> length (slices n xs) = (length xs + n - 1) div n"
proof (induction n xs rule: slices.induct)
  case (1 n xs)
  show ?case
  proof (cases "xs = []")
    case False
    with 1 have "length (slices n xs) = Suc ((length xs - n + n - 1) div n)"
      by (simp add: slices_step)
    also have "\<dots> = (length xs + n - 1) div n"
      using False 1(2) by (intro ceil_div_step) auto
    finally show ?thesis .
  qed (use 1 in simp)
qed

lemma packet_chunks_concat:
  "concat (packet_chunks f payload) = int_to_be 4 (pack_header_extension f) @ payload"
  by (simp add: packet_chunks_def concat_slices)

lemma packet_chunks_lengths: "c \<in> set (packet_chunks f payload) \<Longrightarrow> length c \<le> 8"
  using slices_lengths[of c 8 "drop 4 payload"] by (auto simp: packet_chunks_def)

lemma length_packet_chunks: "length (packet_chunks f payload) = 1 + (length payload - 4 + 7) div 8"
  by (simp add: packet_chunks_def length_slices)

definition fragment_can_fields :: "csp_fields \<Rightarrow> int \<Rightarrow> int \<Rightarrow> nat \<Rightarrow> nat \<Rightarrow> can_id_fields" where
  "fragment_can_fields f s pc n i =
     \<lparr>ci_priority = cf_priority f, ci_destination = cf_destination f, ci_sender = s,
      ci_packet_count = pc, ci_frame_count = int (i mod 8), ci_begin = (i = 0), ci_end = (i = n - 1)\<rparr>"

definition fragment_frames :: "csp_fields \<Rightarrow> int \<Rightarrow> int \<Rightarrow> nat \<Rightarrow> nat \<Rightarrow> byte list list \<Rightarrow> can_frame list"
where
  "fragment_frames f s pc n k chunks =
     map (\<lambda>(i, c). \<lparr>fr_can_id = pack_can_id (fragment_can_fields f s pc n i), fr_data = c,
                    fr_is_extended = True\<rparr>)
       (enumerate k chunks)"

lemma wf_fragment_can_fields:
  "wf_csp_fields f \<Longrightarrow> s \<in> {0..0x3F} \<Longrightarrow> pc \<in> {0..3} \<Longrightarrow>
     wf_can_id_fields (fragment_can_fields f s pc n i)"
  by (auto simp: wf_can_id_fields_def wf_csp_fields_def fragment_can_fields_def)

lemma frame_counter: "int i AND 0x7 = int (i mod 8)"
  by (simp add: and_masks take_bit_eq_mod zmod_int)

lemma fragment_packet_eq:
  assumes "wf_csp_fields f" "cf_flags f AND CSP_FLAG_FRAGMENT = 0"
    and "valid_sender sender" "pc \<in> {0..3}"
  shows "fragment_packet f payload sender pc = Inr
     (fragment_frames f (sender_or_default f sender) pc (length (packet_chunks f payload)) 0
        (packet_chunks f payload))"
proof -
  let ?cs = "packet_chunks f payload" and ?s = "sender_or_default f sender"
  have s: "?s \<in> {0..0x3F}" using assms(3) valid_sender_range by blast
  have "res_mapM (fragment_frame f ?s pc (length ?cs)) (enumerate 0 ?cs) =
      Inr (fragment_frames f ?s pc (length ?cs) 0 ?cs)"
    unfolding fragment_frames_def
  proof (rule res_mapM_map)
    fix x assume x: "x \<in> set (enumerate 0 ?cs)"
    obtain i c where ic: "x = (i, c)" by (cases x)
    with x have "c \<in> set ?cs" by (auto simp: in_set_enumerate_eq)
    then have len: "length c \<le> 8" by (rule packet_chunks_lengths)
    have "mk_can_id_fields (cf_priority f) (cf_destination f) ?s pc
        (if i \<noteq> 0 then int i AND 7 else 0) (i = 0) (i = length ?cs - 1)
        = Inr (fragment_can_fields f ?s pc (length ?cs) i)"
      using wf_fragment_can_fields[OF assms(1) s assms(4)]
      by (simp add: mk_can_id_fields_eq_Inr fragment_can_fields_def frame_counter)
    with ic len show "fragment_frame f ?s pc (length ?cs) x =
        Inr ((\<lambda>(i, c). \<lparr>fr_can_id = pack_can_id (fragment_can_fields f ?s pc (length ?cs) i),
          fr_data = c, fr_is_extended = True\<rparr>) x)"
      by (simp add: fragment_frame_def mk_can_frame_eq_Inr wf_can_frame_def pack_can_id_range)
  qed
  with assms(2) show ?thesis by (simp add: fragment_packet_def validate_csp_fields_def Let_def)
qed

lemma fragment_packet_single:
  assumes "length payload \<le> 4"
  shows "fragment_packet f payload sender pc = map_sum id (\<lambda>fr. [fr]) (pack f payload sender pc)"
proof (cases "validate_csp_fields f")
  case (Inl e)
  then show ?thesis by (simp add: fragment_packet_def pack_def)
next
  case (Inr u)
  let ?m = "mk_can_id_fields (cf_priority f) (cf_destination f) (sender_or_default f sender)
     pc 0 True True"
  show ?thesis
  proof (cases ?m)
    case (Inl e)
    with Inr assms show ?thesis
      by (simp add: fragment_packet_def pack_def packet_chunks_def fragment_frame_def)
  next
    case m: (Inr c)
    with Inr assms show ?thesis
      by (cases "mk_can_frame (pack_can_id c)
            (int_to_be 4 (pack_header_extension f) @ payload) True")
        (simp_all add: fragment_packet_def pack_def packet_chunks_def fragment_frame_def)
  qed
qed

text \<open>The identifier is an exact codec between field records and 29-bit numbers.\<close>

interpretation can_id: exact_codec wf_can_id_fields
    "\<lambda>f. Inr (pack_can_id f) :: csp_error + int" unpack_can_id
    "\<lambda>i. 0 \<le> i \<and> i \<le> EXTENDED_CAN_ID_MAX"
  by unfold_locales (auto simp: unpack_pack_can_id pack_unpack_can_id)

end
