(* ===== verification/CspReassembly.thy ===== *)
theory CspReassembly
  imports CspV2 "HOL-Library.Sublist"
begin

text \<open>
  The CFP2 receive side, \<^verbatim>\<open>CspReassembler\<close> of \<^verbatim>\<open>protocol/csp_v2.py\<close>: the packets in progress keyed
  by priority, destination, sender and packet counter, the handling of one frame (\<open>feed\<close>) and the
  idle timeout (\<open>expire\<close>). The partial packets are an association list in the dictionary's insertion
  order, because \<^verbatim>\<open>expire\<close> reports them in that order. \<open>feed\<close> returns the events and the new state, or
  the exception a constructor would raise; \<open>feed_total\<close> shows that it never does.
\<close>

text \<open>Keys are tuples; the proofs treat them as opaque.\<close>

declare split_paired_All [simp del]
declare split_paired_Ex [simp del]

section \<open>State and events\<close>

datatype reassembly_drop_reason =
    ORPHAN_FRAGMENT | FRAME_LOST | OVERFLOW | TIMEOUT | RESTARTED | MALFORMED

text \<open>The \<^verbatim>\<open>detail\<close> message of a drop, with the values it interpolates.\<close>

datatype reassembly_detail =
    DetailNotExtended
  | DetailNoPacketInProgress int
  | DetailNewFirstFrame nat
  | DetailHeaderTooShort nat
  | DetailExpectedFrameCount int int nat
  | DetailPayloadWouldReach nat int
  | DetailIdle int nat
  | DetailCodecError csp_error

datatype reassembly_event =
    EvComplete int can_frame decoded_packet int int
      \<comment> \<open>time, last frame, packet, sender, destination\<close>
  | EvPending int can_frame int int \<comment> \<open>time, frame, sender, destination\<close>
  | EvDropped int "can_frame option" reassembly_drop_reason reassembly_detail
      "int option" "int option" "int option"
      \<comment> \<open>time, frame, reason, detail, sender, destination, limit\<close>

record partial_packet =
  pp_can_fields :: can_id_fields
  pp_header_extension :: int
  pp_frames :: "can_frame list"
  pp_payload :: "byte list"
  pp_next_frame_count :: int
  pp_last_used :: int

type_synonym connection_key = "int \<times> int \<times> int \<times> int"

record reassembler =
  ra_max_packet_bytes :: "int option"
  ra_timeout_us :: int
  ra_partials :: "(connection_key \<times> partial_packet) list"

definition mk_reassembler :: "int option \<Rightarrow> int \<Rightarrow> csp_error + reassembler" where
  "mk_reassembler max_packet_bytes timeout_us =
     res_bind (case max_packet_bytes of
                 None \<Rightarrow> Inr None
               | Some m \<Rightarrow> map_sum id Some (validate_max_packet_bytes m)) (\<lambda>m.
     res_bind (validate_uint ''timeout_us'' timeout_us (2 ^ 62)) (\<lambda>t.
       Inr \<lparr>ra_max_packet_bytes = m, ra_timeout_us = t, ra_partials = []\<rparr>))"

definition pending_count :: "reassembler \<Rightarrow> nat" where
  "pending_count r = length (ra_partials r)"

definition connection_key :: "can_id_fields \<Rightarrow> connection_key" where
  "connection_key c = (ci_priority c, ci_destination c, ci_sender c, ci_packet_count c)"

definition dropped ::
  "reassembly_drop_reason \<Rightarrow> int \<Rightarrow> can_frame option \<Rightarrow> reassembly_detail
    \<Rightarrow> can_id_fields option \<Rightarrow> int option \<Rightarrow> reassembly_event" where
  "dropped reason time frame detail can_fields limit =
     EvDropped time frame reason detail
       (map_option ci_sender can_fields) (map_option ci_destination can_fields) limit"

section \<open>The idle timeout\<close>

definition is_idle :: "reassembler \<Rightarrow> int \<Rightarrow> partial_packet \<Rightarrow> bool" where
  "is_idle r now p \<longleftrightarrow> now - pp_last_used p > ra_timeout_us r"

definition timeout_event :: "reassembler \<Rightarrow> partial_packet \<Rightarrow> reassembly_event" where
  "timeout_event r p =
     dropped TIMEOUT (pp_last_used p + ra_timeout_us r) None
       (DetailIdle (ra_timeout_us r) (length (pp_frames p))) (Some (pp_can_fields p)) None"

definition expire :: "reassembler \<Rightarrow> int \<Rightarrow> reassembly_event list \<times> reassembler" where
  "expire r now =
     (map (timeout_event r \<circ> snd) (filter (is_idle r now \<circ> snd) (ra_partials r)),
      r\<lparr>ra_partials := filter (Not \<circ> is_idle r now \<circ> snd) (ra_partials r)\<rparr>)"

section \<open>One received frame\<close>

text \<open>
  \<open>finish_packet\<close> is what follows the last frame: the header of the first frame is decoded and
  checked, and the packet is complete or malformed.
\<close>

definition finish_packet ::
  "partial_packet \<Rightarrow> can_id_fields \<Rightarrow> can_frame \<Rightarrow> int \<Rightarrow> reassembly_event" where
  "finish_packet p c frame now =
     (case res_bind (unpack_header_extension (pp_header_extension p)
                       (ci_priority (pp_can_fields p)) (ci_destination (pp_can_fields p)))
             (\<lambda>header. res_bind (validate_csp_fields header) (\<lambda>_. Inr header)) of
        Inl e \<Rightarrow> dropped MALFORMED now (Some frame) (DetailCodecError e) (Some c) None
      | Inr header \<Rightarrow>
          EvComplete now frame
            \<lparr>dp_fields = header, dp_payload = pp_payload p, dp_frame = hd (pp_frames p),
             dp_can_fields = pp_can_fields p, dp_frames = pp_frames p\<rparr>
            (ci_sender c) (ci_destination c))"

text \<open>
  \<open>append_chunk\<close> is the common tail of \<^verbatim>\<open>feed\<close>: the size limit, the append, and the end of the packet.
  \<open>p\<close> is the packet in progress (new or continued), not yet holding \<open>frame\<close>.
\<close>

definition over_limit :: "reassembler \<Rightarrow> nat \<Rightarrow> int option" where
  "over_limit r reach =
     (case ra_max_packet_bytes r of
        None \<Rightarrow> None
      | Some m \<Rightarrow> if int reach > m then Some m else None)"

definition append_chunk ::
  "reassembler \<Rightarrow> connection_key \<Rightarrow> partial_packet \<Rightarrow> byte list \<Rightarrow> can_id_fields \<Rightarrow> can_frame \<Rightarrow> int
    \<Rightarrow> reassembly_event \<times> reassembler" where
  "append_chunk r key p chunk c frame now =
     (let reach = length (pp_payload p) + length chunk;
          p' = p\<lparr>pp_frames := pp_frames p @ [frame], pp_payload := pp_payload p @ chunk\<rparr>;
          gone = r\<lparr>ra_partials := AList.delete key (ra_partials r)\<rparr>
      in case over_limit r reach of
           Some m \<Rightarrow>
             (dropped OVERFLOW now (Some frame) (DetailPayloadWouldReach reach m) (Some c) (Some m),
              gone)
         | None \<Rightarrow>
             if \<not> ci_end c
             then (EvPending now frame (ci_sender c) (ci_destination c),
                   r\<lparr>ra_partials := AList.update key p' (ra_partials r)\<rparr>)
             else (finish_packet p' c frame now, gone))"

definition start_packet :: "can_id_fields \<Rightarrow> can_frame \<Rightarrow> int \<Rightarrow> partial_packet" where
  "start_packet c frame now =
     \<lparr>pp_can_fields = c,
      pp_header_extension =
        int_from_be (take CSP_V2_CAN_HEADER_EXTENSION_BYTES (fr_data frame)),
      pp_frames = [], pp_payload = [], pp_next_frame_count = 1, pp_last_used = now\<rparr>"

text \<open>
  A first frame. \<open>r\<close> is the state after the expiry (for a new key) or after \<^verbatim>\<open>last_used\<close> was touched
  (for a packet in progress); \<open>events\<close> is what was reported so far.
\<close>

definition feed_begin ::
  "reassembler \<Rightarrow> connection_key \<Rightarrow> partial_packet option \<Rightarrow> reassembly_event list \<Rightarrow> can_id_fields
    \<Rightarrow> can_frame \<Rightarrow> int \<Rightarrow> reassembly_event list \<times> reassembler" where
  "feed_begin r key partial events c frame now =
     (let events1 = events @
            (case partial of
               None \<Rightarrow> []
             | Some p \<Rightarrow> [dropped RESTARTED now (Some frame)
                           (DetailNewFirstFrame (length (pp_frames p))) (Some c) None])
      in if frame_dlc frame < CSP_V2_CAN_HEADER_EXTENSION_BYTES
         then (events1 @ [dropped MALFORMED now (Some frame)
                            (DetailHeaderTooShort (frame_dlc frame)) (Some c) None],
               r\<lparr>ra_partials := AList.delete key (ra_partials r)\<rparr>)
         else
           let p = start_packet c frame now;
               (event, r') = append_chunk (r\<lparr>ra_partials := AList.update key p (ra_partials r)\<rparr>)
                  key p (drop CSP_V2_CAN_HEADER_EXTENSION_BYTES (fr_data frame)) c frame now
           in (events1 @ [event], r'))"

definition feed_continuation ::
  "reassembler \<Rightarrow> connection_key \<Rightarrow> partial_packet \<Rightarrow> can_id_fields \<Rightarrow> can_frame \<Rightarrow> int
    \<Rightarrow> reassembly_event list \<times> reassembler" where
  "feed_continuation r key p c frame now =
     (if ci_frame_count c \<noteq> pp_next_frame_count p
      then ([dropped FRAME_LOST now (Some frame)
               (DetailExpectedFrameCount (pp_next_frame_count p) (ci_frame_count c)
                  (length (pp_frames p))) (Some c) None],
            r\<lparr>ra_partials := AList.delete key (ra_partials r)\<rparr>)
      else
        let p' = p\<lparr>pp_next_frame_count :=
                     (pp_next_frame_count p + 1) AND CSP_CAN_V2_FRAME_COUNT_MAX\<rparr>;
            (event, r') = append_chunk (r\<lparr>ra_partials := AList.update key p' (ra_partials r)\<rparr>)
               key p' (fr_data frame) c frame now
        in ([event], r'))"

definition feed :: "reassembler \<Rightarrow> can_frame \<Rightarrow> int \<Rightarrow> csp_error + reassembly_event list \<times> reassembler"
where
  "feed r frame now =
     (if \<not> fr_is_extended frame
      then Inr ([dropped MALFORMED now (Some frame) DetailNotExtended None None], r)
      else
        res_bind (unpack_can_id (fr_can_id frame)) (\<lambda>c.
          let key = connection_key c in
          case map_of (ra_partials r) key of
            None \<Rightarrow>
              if \<not> ci_begin c
              then Inr ([dropped ORPHAN_FRAGMENT now (Some frame)
                           (DetailNoPacketInProgress (ci_frame_count c)) (Some c) None], r)
              else
                let (events, r1) = expire r now
                in Inr (feed_begin r1 key None events c frame now)
          | Some p \<Rightarrow>
              let p1 = p\<lparr>pp_last_used := now\<rparr>;
                  r1 = r\<lparr>ra_partials := AList.update key p1 (ra_partials r)\<rparr>
              in if ci_begin c
                 then Inr (feed_begin r1 key (Some p1) [] c frame now)
                 else Inr (feed_continuation r1 key p1 c frame now)))"

text \<open>Feeding a run of frames, each at its own time.\<close>

fun feed_all ::
  "reassembler \<Rightarrow> (can_frame \<times> int) list \<Rightarrow> csp_error + reassembly_event list \<times> reassembler" where
  "feed_all r [] = Inr ([], r)"
| "feed_all r ((frame, now) # rest) =
     res_bind (feed r frame now) (\<lambda>(events, r1).
     res_bind (feed_all r1 rest) (\<lambda>(events', r2). Inr (events @ events', r2)))"

section \<open>The invariant of the packets in progress\<close>

definition frame_fields :: "can_frame \<Rightarrow> can_id_fields" where
  "frame_fields fr = projr (unpack_can_id (fr_can_id fr))"

lemma unpack_frame_fields: "unpack_can_id (fr_can_id fr) = Inr (frame_fields fr)"
  by (simp add: frame_fields_def unpack_can_id_total)

text \<open>
  \<open>good_run key frs\<close>: the frames collected for one packet, in the order CFP2 prescribes. The first
  frame and only it has \<^verbatim>\<open>begin\<close>, the frame counter counts 1, 2, ... modulo 8, and all of them carry
  the key of the packet.
\<close>

definition good_run :: "connection_key \<Rightarrow> can_frame list \<Rightarrow> bool" where
  "good_run key frs \<longleftrightarrow>
     frs \<noteq> [] \<and> 4 \<le> length (fr_data (hd frs)) \<and>
     (\<forall>i < length frs.
        connection_key (frame_fields (frs ! i)) = key \<and>
        (ci_begin (frame_fields (frs ! i)) \<longleftrightarrow> i = 0) \<and>
        (0 < i \<longrightarrow> ci_frame_count (frame_fields (frs ! i)) = int (i mod 8)))"

definition frames_bytes :: "can_frame list \<Rightarrow> byte list" where
  "frames_bytes frs = concat (map fr_data frs)"

text \<open>A packet still open has no frame with \<^verbatim>\<open>end\<close>; a closed one has it on its last frame only.\<close>

definition open_run :: "connection_key \<Rightarrow> can_frame list \<Rightarrow> bool" where
  "open_run key frs \<longleftrightarrow> good_run key frs \<and> (\<forall>fr \<in> set frs. \<not> ci_end (frame_fields fr))"

definition closed_run :: "connection_key \<Rightarrow> can_frame list \<Rightarrow> bool" where
  "closed_run key frs \<longleftrightarrow>
     good_run key frs \<and> ci_end (frame_fields (last frs)) \<and>
     (\<forall>fr \<in> set (butlast frs). \<not> ci_end (frame_fields fr))"

text \<open>What a closed run says: the header of its first four bytes and the rest as payload.\<close>

definition assemble :: "can_frame list \<Rightarrow> csp_error + decoded_packet" where
  "assemble frs =
     (let c = frame_fields (hd frs) in
      res_bind (unpack_header_extension (int_from_be (take 4 (frames_bytes frs)))
                  (ci_priority c) (ci_destination c)) (\<lambda>f.
      res_bind (validate_csp_fields f) (\<lambda>_.
        Inr \<lparr>dp_fields = f, dp_payload = drop 4 (frames_bytes frs), dp_frame = hd frs,
             dp_can_fields = c, dp_frames = frs\<rparr>)))"

definition partial_ok :: "reassembler \<Rightarrow> connection_key \<Rightarrow> partial_packet \<Rightarrow> bool" where
  "partial_ok r key p \<longleftrightarrow>
     open_run key (pp_frames p) \<and>
     pp_can_fields p = frame_fields (hd (pp_frames p)) \<and>
     int_to_be 4 (pp_header_extension p) @ pp_payload p = frames_bytes (pp_frames p) \<and>
     0 \<le> pp_header_extension p \<and> pp_header_extension p < 2 ^ 32 \<and>
     pp_next_frame_count p = int (length (pp_frames p) mod 8) \<and>
     over_limit r (length (pp_payload p)) = None"

definition reassembler_inv :: "reassembler \<Rightarrow> bool" where
  "reassembler_inv r \<longleftrightarrow>
     distinct (map fst (ra_partials r)) \<and>
     (\<forall>key p. map_of (ra_partials r) key = Some p \<longrightarrow> partial_ok r key p)"

lemma reassembler_invD:
  "reassembler_inv r \<Longrightarrow> map_of (ra_partials r) key = Some p \<Longrightarrow> partial_ok r key p"
  unfolding reassembler_inv_def by blast

lemma over_limit_cong [simp]: "over_limit (r\<lparr>ra_partials := ps\<rparr>) = over_limit r"
  by (rule ext) (simp add: over_limit_def)

lemma over_limit_mono: "over_limit r n = None \<Longrightarrow> m \<le> n \<Longrightarrow> over_limit r m = None"
  by (auto simp: over_limit_def split: option.splits if_splits)

lemma partial_ok_cong [simp]: "partial_ok (r\<lparr>ra_partials := ps\<rparr>) = partial_ok r"
  by (intro ext) (simp add: partial_ok_def)

lemma reassembler_inv_delete:
  "reassembler_inv r \<Longrightarrow> reassembler_inv (r\<lparr>ra_partials := AList.delete key (ra_partials r)\<rparr>)"
  by (auto simp: reassembler_inv_def distinct_delete delete_conv' split: if_splits)

lemma reassembler_inv_update:
  "reassembler_inv r \<Longrightarrow> partial_ok r key p \<Longrightarrow>
     reassembler_inv (r\<lparr>ra_partials := AList.update key p (ra_partials r)\<rparr>)"
  by (auto simp: reassembler_inv_def distinct_update update_conv' split: if_splits)

lemma map_of_filter_distinct:
  "distinct (map fst ps) \<Longrightarrow>
     map_of (filter (P \<circ> snd) ps) k =
       (case map_of ps k of None \<Rightarrow> None | Some v \<Rightarrow> if P v then Some v else None)"
  by (induction ps) (auto split: option.splits simp: map_of_eq_None_iff image_iff)

lemma map_of_expire:
  assumes "distinct (map fst (ra_partials r))"
  shows "map_of (ra_partials (snd (expire r now))) k =
     (case map_of (ra_partials r) k of
        None \<Rightarrow> None
      | Some p \<Rightarrow> if is_idle r now p then None else Some p)"
  using map_of_filter_distinct[OF assms, of "\<lambda>p. \<not> is_idle r now p" k]
  by (simp add: expire_def comp_def split: option.splits)

lemma map_of_expireD:
  "distinct (map fst (ra_partials r)) \<Longrightarrow> map_of (ra_partials (snd (expire r now))) k = Some p
     \<Longrightarrow> map_of (ra_partials r) k = Some p"
  by (simp add: map_of_expire split: option.splits if_splits)

lemma reassembler_inv_expire: "reassembler_inv r \<Longrightarrow> reassembler_inv (snd (expire r now))"
proof -
  assume inv: "reassembler_inv r"
  then have d: "distinct (map fst (ra_partials r))" by (simp add: reassembler_inv_def)
  have "distinct (map fst (ra_partials (snd (expire r now))))"
    using d by (simp add: expire_def distinct_map_filter)
  moreover have "partial_ok (snd (expire r now)) = partial_ok r" by (simp add: expire_def)
  ultimately show ?thesis
    using inv by (auto simp: reassembler_inv_def map_of_expire[OF d] split: option.splits if_splits)
qed

lemma feed_total: "\<exists>events r'. feed r frame now = Inr (events, r')"
  by (auto simp: feed_def unpack_can_id_total Let_def split: option.splits prod.splits)

lemma good_run_single:
  "ci_begin (frame_fields fr) \<Longrightarrow> 4 \<le> length (fr_data fr) \<Longrightarrow>
     good_run (connection_key (frame_fields fr)) [fr]"
  by (simp add: good_run_def)

lemma good_run_snoc:
  assumes "good_run key frs" "connection_key (frame_fields fr) = key"
    and "\<not> ci_begin (frame_fields fr)" "ci_frame_count (frame_fields fr) = int (length frs mod 8)"
  shows "good_run key (frs @ [fr])"
  using assms by (auto simp: good_run_def nth_append not_less less_Suc_eq)

lemma good_run_key: "good_run key frs \<Longrightarrow> connection_key (frame_fields (hd frs)) = key"
  by (auto simp: good_run_def hd_conv_nth)

lemma good_run_length: "good_run key frs \<Longrightarrow> 4 \<le> length (frames_bytes frs)"
  by (cases frs) (auto simp: good_run_def frames_bytes_def)

text \<open>
  \<open>extends\<close>: the packet \<open>p\<close>, once it takes \<open>frame\<close>, is a good run. This is what both branches of
  \<open>feed\<close> establish before the common tail.
\<close>

definition extends ::
  "connection_key \<Rightarrow> partial_packet \<Rightarrow> byte list \<Rightarrow> can_frame \<Rightarrow> bool" where
  "extends key p chunk frame \<longleftrightarrow>
     good_run key (pp_frames p @ [frame]) \<and>
     (\<forall>fr \<in> set (pp_frames p). \<not> ci_end (frame_fields fr)) \<and>
     pp_can_fields p = frame_fields (hd (pp_frames p @ [frame])) \<and>
     int_to_be 4 (pp_header_extension p) @ pp_payload p @ chunk
       = frames_bytes (pp_frames p @ [frame]) \<and>
     0 \<le> pp_header_extension p \<and> pp_header_extension p < 2 ^ 32 \<and>
     pp_next_frame_count p = int (Suc (length (pp_frames p)) mod 8)"

lemma extends_start:
  assumes "c = frame_fields frame" "ci_begin c" "4 \<le> length (fr_data frame)"
  shows "extends (connection_key c) (start_packet c frame now) (drop 4 (fr_data frame)) frame"
  using assms int_from_be_bounds[of "take 4 (fr_data frame)"]
  by (simp add: extends_def start_packet_def good_run_single frames_bytes_def int_to_from_be)

lemma extends_continue:
  assumes "partial_ok r key p" "c = frame_fields frame" "connection_key c = key"
    and "\<not> ci_begin c" "ci_frame_count c = pp_next_frame_count p"
  shows "extends key (p\<lparr>pp_next_frame_count :=
      (pp_next_frame_count p + 1) AND CSP_CAN_V2_FRAME_COUNT_MAX\<rparr>) (fr_data frame) frame"
proof -
  let ?n = "length (pp_frames p)"
  have good: "good_run key (pp_frames p @ [frame])"
    using assms by (intro good_run_snoc) (auto simp: partial_ok_def open_run_def)
  have "(int (?n mod 8) + 1) AND 7 = int (Suc ?n mod 8)"
    by (simp add: and_masks take_bit_eq_mod zmod_int mod_add_left_eq add.commute[of 1])
  moreover have "pp_frames p \<noteq> []"
    using assms(1) by (auto simp: partial_ok_def open_run_def good_run_def)
  ultimately show ?thesis using good assms
    by (auto simp: extends_def partial_ok_def open_run_def frames_bytes_def simp flip: append_assoc)
qed

definition event_ok :: "reassembler \<Rightarrow> reassembly_event \<Rightarrow> bool" where
  "event_ok r e =
     (case e of
        EvComplete t frame packet sender destination \<Rightarrow>
          closed_run (connection_key (dp_can_fields packet)) (dp_frames packet) \<and>
          assemble (dp_frames packet) = Inr packet \<and>
          over_limit r (length (dp_payload packet)) = None \<and>
          frame = last (dp_frames packet) \<and>
          sender = ci_sender (dp_can_fields packet) \<and>
          destination = ci_destination (dp_can_fields packet)
      | _ \<Rightarrow> True)"

lemma event_ok_dropped [simp]: "event_ok r (dropped reason t fr d c l)"
  by (simp add: event_ok_def dropped_def)

lemma event_ok_cong [simp]: "event_ok (r\<lparr>ra_partials := ps\<rparr>) = event_ok r"
  by (rule ext) (simp add: event_ok_def split: reassembly_event.splits)

lemma append_chunk_touched:
  "append_chunk (r\<lparr>ra_partials := AList.update key q ps\<rparr>) key p chunk c frame now
     = append_chunk (r\<lparr>ra_partials := ps\<rparr>) key p chunk c frame now"
  by (simp add: append_chunk_def Let_def delete_update_same split: option.splits)

lemma finish_packet_ok:
  assumes "extends key p chunk frame" "ci_end (frame_fields frame)"
    and "over_limit r (length (pp_payload p) + length chunk) = None"
  shows "event_ok r (finish_packet
      (p\<lparr>pp_frames := pp_frames p @ [frame], pp_payload := pp_payload p @ chunk\<rparr>)
      (frame_fields frame) frame now)"
proof -
  let ?frs = "pp_frames p @ [frame]"
  from assms(1) have good: "good_run key ?frs"
    and bytes: "frames_bytes ?frs = int_to_be 4 (pp_header_extension p) @ pp_payload p @ chunk"
    and c: "pp_can_fields p = frame_fields (hd ?frs)"
    by (simp_all add: extends_def)
  have "connection_key (frame_fields (?frs ! length (pp_frames p))) = key"
    using good unfolding good_run_def by (metis length_append_singleton lessI)
  then have "connection_key (frame_fields frame) = connection_key (frame_fields (hd ?frs))"
    using good_run_key[OF good] by simp
  then have keys: "ci_sender (frame_fields frame) = ci_sender (frame_fields (hd ?frs))"
      "ci_destination (frame_fields frame) = ci_destination (frame_fields (hd ?frs))"
    by (simp_all add: connection_key_def)
  have "int_from_be (take 4 (frames_bytes ?frs)) = pp_header_extension p"
    using assms(1) by (simp add: bytes extends_def int_from_to_be_id)
  moreover have "drop 4 (frames_bytes ?frs) = pp_payload p @ chunk" by (simp add: bytes)
  moreover have "closed_run (connection_key (frame_fields (hd ?frs))) ?frs"
    using assms(1,2) good_run_key[OF good] good by (simp add: extends_def closed_run_def)
  ultimately show ?thesis
    using assms(3) keys c
    by (auto simp: finish_packet_def event_ok_def assemble_def Let_def dropped_def res_bind_eq_Inr
        split: sum.splits)
qed

lemma append_chunk_ok:
  assumes "reassembler_inv r" "extends key p chunk frame"
    and "append_chunk r key p chunk (frame_fields frame) frame now = (e, r')"
  shows "reassembler_inv r' \<and> event_ok r e \<and> ra_max_packet_bytes r' = ra_max_packet_bytes r \<and>
     ra_timeout_us r' = ra_timeout_us r"
proof (cases "over_limit r (length (pp_payload p) + length chunk)")
  case (Some m)
  with assms show ?thesis
    by (auto simp: append_chunk_def Let_def reassembler_inv_delete)
next
  case None
  let ?p' = "p\<lparr>pp_frames := pp_frames p @ [frame], pp_payload := pp_payload p @ chunk\<rparr>"
  have "\<not> ci_end (frame_fields frame) \<Longrightarrow> partial_ok r key ?p'"
    using assms(2) None by (simp add: partial_ok_def extends_def open_run_def)
  with assms None show ?thesis
    by (auto simp: append_chunk_def Let_def reassembler_inv_update reassembler_inv_delete
        finish_packet_ok split: if_splits) (simp add: event_ok_def)
qed

lemma feed_begin_ok:
  assumes "reassembler_inv r" "ci_begin (frame_fields frame)" "\<forall>e \<in> set evs0. event_ok r e"
    and "feed_begin r (connection_key (frame_fields frame)) partial evs0 (frame_fields frame)
           frame now = (events, r')"
  shows "reassembler_inv r' \<and> (\<forall>e \<in> set events. event_ok r e) \<and>
     ra_max_packet_bytes r' = ra_max_packet_bytes r \<and> ra_timeout_us r' = ra_timeout_us r"
proof (cases "frame_dlc frame < 4")
  case True
  with assms show ?thesis
    by (auto simp: feed_begin_def reassembler_inv_delete split: option.splits)
next
  case False
  let ?c = "frame_fields frame"
  let ?p = "start_packet ?c frame now"
  obtain e r1 where app: "append_chunk r (connection_key ?c) ?p (drop 4 (fr_data frame)) ?c frame
      now = (e, r1)" by fastforce
  have "extends (connection_key ?c) ?p (drop 4 (fr_data frame)) frame"
    using False assms(2) by (intro extends_start) (simp_all add: frame_dlc_def)
  note append_chunk_ok[OF assms(1) this app]
  with False app assms(3,4) show ?thesis
    by (auto simp: feed_begin_def Let_def append_chunk_touched split: option.splits)
qed

lemma feed_continuation_ok:
  assumes "reassembler_inv r" "\<not> ci_begin (frame_fields frame)"
    and "map_of (ra_partials r) (connection_key (frame_fields frame)) = Some p"
    and "feed_continuation r (connection_key (frame_fields frame)) p (frame_fields frame)
           frame now = (events, r')"
  shows "reassembler_inv r' \<and> (\<forall>e \<in> set events. event_ok r e) \<and>
     ra_max_packet_bytes r' = ra_max_packet_bytes r \<and> ra_timeout_us r' = ra_timeout_us r"
proof (cases "ci_frame_count (frame_fields frame) = pp_next_frame_count p")
  case False
  with assms show ?thesis by (auto simp: feed_continuation_def reassembler_inv_delete)
next
  case True
  let ?c = "frame_fields frame"
  let ?p = "p\<lparr>pp_next_frame_count :=
      (pp_next_frame_count p + 1) AND CSP_CAN_V2_FRAME_COUNT_MAX\<rparr>"
  obtain e r1 where app: "append_chunk r (connection_key ?c) ?p (fr_data frame) ?c frame
      now = (e, r1)" by fastforce
  have "partial_ok r (connection_key ?c) p" using assms(1,3) by (rule reassembler_invD)
  then have "extends (connection_key ?c) ?p (fr_data frame) frame"
    using True assms(2) by (intro extends_continue) auto
  note append_chunk_ok[OF assms(1) this app]
  with True app assms(4) show ?thesis
    by (auto simp: feed_continuation_def Let_def append_chunk_touched)
qed

lemma reassembler_inv_touch:
  assumes "reassembler_inv r" "map_of (ra_partials r) key = Some p"
  shows "reassembler_inv (r\<lparr>ra_partials := AList.update key (p\<lparr>pp_last_used := now\<rparr>) (ra_partials r)\<rparr>)"
  using reassembler_invD[OF assms] assms(1)
  by (intro reassembler_inv_update) (simp_all add: partial_ok_def)

lemma feed_ok:
  assumes "reassembler_inv r" "feed r frame now = Inr (events, r')"
  shows "reassembler_inv r' \<and> (\<forall>e \<in> set events. event_ok r e) \<and>
     ra_max_packet_bytes r' = ra_max_packet_bytes r \<and> ra_timeout_us r' = ra_timeout_us r"
proof -
  let ?c = "frame_fields frame" and ?key = "connection_key (frame_fields frame)"
  consider (std) "\<not> fr_is_extended frame"
    | (orphan) "fr_is_extended frame" "map_of (ra_partials r) ?key = None" "\<not> ci_begin ?c"
    | (new) "fr_is_extended frame" "map_of (ra_partials r) ?key = None" "ci_begin ?c"
    | (known) p where "fr_is_extended frame" "map_of (ra_partials r) ?key = Some p"
    by fastforce
  then show ?thesis
  proof cases
    case std
    with assms show ?thesis by (auto simp: feed_def)
  next
    case orphan
    with assms show ?thesis by (auto simp: feed_def unpack_frame_fields Let_def)
  next
    case new
    have "\<forall>e \<in> set (fst (expire r now)). event_ok (snd (expire r now)) e"
      by (auto simp: expire_def timeout_event_def)
    moreover have "event_ok (snd (expire r now)) = event_ok r"
      "ra_max_packet_bytes (snd (expire r now)) = ra_max_packet_bytes r"
      "ra_timeout_us (snd (expire r now)) = ra_timeout_us r"
      by (simp_all add: expire_def)
    moreover have "feed_begin (snd (expire r now)) ?key None (fst (expire r now)) ?c frame now
        = (events, r')"
      using assms(2) new by (simp add: feed_def unpack_frame_fields Let_def case_prod_beta)
    ultimately show ?thesis
      using feed_begin_ok[OF reassembler_inv_expire[OF assms(1)] new(3)] by metis
  next
    case (known p)
    let ?p = "p\<lparr>pp_last_used := now\<rparr>"
    let ?r = "r\<lparr>ra_partials := AList.update ?key ?p (ra_partials r)\<rparr>"
    have inv: "reassembler_inv ?r" using assms(1) known(2) by (rule reassembler_inv_touch)
    show ?thesis
    proof (cases "ci_begin ?c")
      case True
      with assms(2) known have "feed_begin ?r ?key (Some ?p) [] ?c frame now = (events, r')"
        by (simp add: feed_def unpack_frame_fields Let_def)
      from feed_begin_ok[OF inv True _ this] show ?thesis by simp
    next
      case False
      with assms(2) known have "feed_continuation ?r ?key ?p ?c frame now = (events, r')"
        by (simp add: feed_def unpack_frame_fields Let_def)
      from feed_continuation_ok[OF inv False _ this] show ?thesis by (simp add: update_conv')
    qed
  qed
qed

section \<open>Where the frames of a packet come from\<close>

text \<open>
  \<open>grows r key frame frs\<close>: the frames \<open>frs\<close> are those of the packet in progress plus the one just
  received, or that one alone.
\<close>

definition grows :: "reassembler \<Rightarrow> connection_key \<Rightarrow> can_frame \<Rightarrow> can_frame list \<Rightarrow> bool" where
  "grows r key frame frs \<longleftrightarrow>
     frs = [frame] \<or>
     (\<exists>p. map_of (ra_partials r) key = Some p \<and> frs = pp_frames p @ [frame])"

definition frames_step ::
  "reassembler \<Rightarrow> connection_key \<Rightarrow> can_frame \<Rightarrow> reassembly_event list \<Rightarrow> reassembler \<Rightarrow> bool" where
  "frames_step r key frame events r' \<longleftrightarrow>
     (\<forall>k p. map_of (ra_partials r') k = Some p \<longrightarrow>
        (if k = key then grows r key frame (pp_frames p) else map_of (ra_partials r) k = Some p)) \<and>
     (\<forall>t fr packet s d. EvComplete t fr packet s d \<in> set events \<longrightarrow>
        grows r key frame (dp_frames packet))"

lemma append_chunk_step:
  assumes "append_chunk r key p chunk c frame now = (e, r')"
  shows "(\<forall>k q. map_of (ra_partials r') k = Some q \<longrightarrow>
            (if k = key then pp_frames q = pp_frames p @ [frame]
             else map_of (ra_partials r) k = Some q)) \<and>
         (\<forall>t fr packet s d. e = EvComplete t fr packet s d \<longrightarrow>
            dp_frames packet = pp_frames p @ [frame])"
  using assms
  by (auto simp: append_chunk_def Let_def dropped_def finish_packet_def delete_conv' update_conv'
      split: option.splits if_splits sum.splits)

lemma feed_begin_step:
  assumes "feed_begin r key partial evs0 c frame now = (events, r')"
    and "\<forall>t fr packet s d. EvComplete t fr packet s d \<notin> set evs0"
  shows "(\<forall>k q. map_of (ra_partials r') k = Some q \<longrightarrow>
            (if k = key then pp_frames q = [frame] else map_of (ra_partials r) k = Some q)) \<and>
         (\<forall>t fr packet s d. EvComplete t fr packet s d \<in> set events \<longrightarrow>
            dp_frames packet = [frame])"
proof (cases "frame_dlc frame < 4")
  case True
  with assms show ?thesis
    by (auto simp: feed_begin_def dropped_def delete_conv' split: option.splits if_splits)
next
  case False
  obtain e r1 where app: "append_chunk r key (start_packet c frame now)
      (drop 4 (fr_data frame)) c frame now = (e, r1)" by fastforce
  have "pp_frames (start_packet c frame now) = []" by (simp add: start_packet_def)
  with append_chunk_step[OF app] False app assms show ?thesis
    by (auto simp: feed_begin_def Let_def append_chunk_touched dropped_def split: option.splits)
qed

lemma feed_continuation_step:
  assumes "feed_continuation r key p c frame now = (events, r')"
  shows "(\<forall>k q. map_of (ra_partials r') k = Some q \<longrightarrow>
            (if k = key then pp_frames q = pp_frames p @ [frame]
             else map_of (ra_partials r) k = Some q)) \<and>
         (\<forall>t fr packet s d. EvComplete t fr packet s d \<in> set events \<longrightarrow>
            dp_frames packet = pp_frames p @ [frame])"
proof (cases "ci_frame_count c = pp_next_frame_count p")
  case False
  with assms show ?thesis
    by (auto simp: feed_continuation_def dropped_def delete_conv' split: if_splits)
next
  case True
  let ?p = "p\<lparr>pp_next_frame_count :=
      (pp_next_frame_count p + 1) AND CSP_CAN_V2_FRAME_COUNT_MAX\<rparr>"
  obtain e r1 where app: "append_chunk r key ?p (fr_data frame) c frame now = (e, r1)"
    by fastforce
  with append_chunk_step[OF app] True assms show ?thesis
    by (auto simp: feed_continuation_def Let_def append_chunk_touched)
qed

lemma feed_frames:
  assumes inv: "reassembler_inv r" and f: "feed r frame now = Inr (events, r')"
    and ext: "fr_is_extended frame"
  shows "frames_step r (connection_key (frame_fields frame)) frame events r'"
proof -
  let ?c = "frame_fields frame" and ?key = "connection_key (frame_fields frame)"
  have d: "distinct (map fst (ra_partials r))" using inv by (simp add: reassembler_inv_def)
  show ?thesis
  proof (cases "map_of (ra_partials r) ?key")
    case None
    show ?thesis
    proof (cases "ci_begin ?c")
      case False
      with f ext None show ?thesis
        by (auto simp: feed_def unpack_frame_fields Let_def frames_step_def dropped_def)
    next
      case True
      have no: "\<forall>t fr packet s d. EvComplete t fr packet s d \<notin> set (fst (expire r now))"
        by (auto simp: expire_def timeout_event_def dropped_def)
      have "feed_begin (snd (expire r now)) ?key None (fst (expire r now)) ?c frame now
          = (events, r')"
        using f ext None True by (simp add: feed_def unpack_frame_fields Let_def case_prod_beta)
      from feed_begin_step[OF this no] map_of_expireD[OF d] show ?thesis
        unfolding frames_step_def grows_def by metis
    qed
  next
    case (Some p)
    let ?p = "p\<lparr>pp_last_used := now\<rparr>"
    let ?r = "r\<lparr>ra_partials := AList.update ?key ?p (ra_partials r)\<rparr>"
    show ?thesis
    proof (cases "ci_begin ?c")
      case True
      with f ext Some have "feed_begin ?r ?key (Some ?p) [] ?c frame now = (events, r')"
        by (simp add: feed_def unpack_frame_fields Let_def)
      from feed_begin_step[OF this] show ?thesis
        by (auto simp: frames_step_def grows_def update_conv' split: if_splits)
    next
      case False
      with f ext Some have "feed_continuation ?r ?key ?p ?c frame now = (events, r')"
        by (simp add: feed_def unpack_frame_fields Let_def)
      from feed_continuation_step[OF this] Some show ?thesis
        by (auto simp: frames_step_def grows_def update_conv' split: if_splits)
    qed
  qed
qed


text \<open>
  \<open>of_key key\<close> selects the frames of one connection; what is in progress for a key is the tail of
  the frames received for it, so a completed packet is a contiguous block of them.
\<close>

definition of_key :: "connection_key \<Rightarrow> can_frame \<Rightarrow> bool" where
  "of_key key frame \<longleftrightarrow> fr_is_extended frame \<and> connection_key (frame_fields frame) = key"

definition history_ok :: "reassembler \<Rightarrow> can_frame list \<Rightarrow> bool" where
  "history_ok r hist \<longleftrightarrow>
     (\<forall>key p. map_of (ra_partials r) key = Some p \<longrightarrow>
        suffix (pp_frames p) (filter (of_key key) hist))"

definition delivered_ok :: "reassembler \<Rightarrow> can_frame list \<Rightarrow> reassembly_event \<Rightarrow> bool" where
  "delivered_ok r hist e \<longleftrightarrow>
     event_ok r e \<and>
     (\<forall>t fr packet s d. e = EvComplete t fr packet s d \<longrightarrow>
        (\<exists>key. sublist (dp_frames packet) (filter (of_key key) hist)))"

lemma grows_suffix:
  assumes "history_ok r hist" "grows r key frame frs" "of_key key frame"
  shows "suffix frs (filter (of_key key) (hist @ [frame]))"
  using assms by (auto simp: grows_def history_ok_def suffix_def)

lemma delivered_ok_mono: "delivered_ok r hist e \<Longrightarrow> delivered_ok r (hist @ later) e"
  unfolding delivered_ok_def filter_append
  using sublist_order.order.trans[OF _ sublist_append_rightI] by blast

lemma feed_history:
  assumes "reassembler_inv r" "history_ok r hist" "feed r frame now = Inr (events, r')"
  shows "history_ok r' (hist @ [frame]) \<and> (\<forall>e \<in> set events. delivered_ok r (hist @ [frame]) e)"
proof (cases "fr_is_extended frame")
  case False
  with assms show ?thesis
    by (auto simp: feed_def history_ok_def of_key_def delivered_ok_def dropped_def event_ok_def)
next
  case True
  let ?key = "connection_key (frame_fields frame)"
  have k: "of_key ?key frame" using True by (simp add: of_key_def)
  have step: "frames_step r ?key frame events r'" using assms(1,3) True by (rule feed_frames)
  have "history_ok r' (hist @ [frame])"
    unfolding history_ok_def
  proof (intro allI impI)
    fix key p assume p: "map_of (ra_partials r') key = Some p"
    show "suffix (pp_frames p) (filter (of_key key) (hist @ [frame]))"
    proof (cases "key = ?key")
      case True
      with p step have "grows r key frame (pp_frames p)" by (auto simp: frames_step_def)
      with assms(2) k True show ?thesis using grows_suffix by blast
    next
      case False
      then have "\<not> of_key key frame" by (simp add: of_key_def)
      moreover have "map_of (ra_partials r) key = Some p"
        using p step False unfolding frames_step_def by metis
      ultimately show ?thesis using assms(2) by (simp add: history_ok_def)
    qed
  qed
  moreover have "delivered_ok r (hist @ [frame]) e" if "e \<in> set events" for e
    unfolding delivered_ok_def
    using feed_ok[OF assms(1,3)] step that grows_suffix[OF assms(2) _ k] suffix_imp_sublist
    unfolding frames_step_def by meson
  ultimately show ?thesis by blast
qed

lemma delivered_ok_cong:
  "ra_max_packet_bytes r = ra_max_packet_bytes r' \<Longrightarrow> delivered_ok r = delivered_ok r'"
proof -
  assume "ra_max_packet_bytes r = ra_max_packet_bytes r'"
  then have "over_limit r = over_limit r'" by (intro ext) (simp add: over_limit_def)
  then have "event_ok r = event_ok r'"
    by (intro ext) (simp add: event_ok_def split: reassembly_event.splits)
  then show ?thesis by (intro ext) (simp add: delivered_ok_def)
qed

lemma feed_all_history:
  assumes "reassembler_inv r" "history_ok r hist" "feed_all r frs = Inr (events, r')"
  shows "reassembler_inv r' \<and> history_ok r' (hist @ map fst frs) \<and>
     (\<forall>e \<in> set events. delivered_ok r (hist @ map fst frs) e)"
  using assms
proof (induction r frs arbitrary: hist events r' rule: feed_all.induct)
  case (1 r)
  then show ?case by simp
next
  case (2 r frame now rest)
  from 2(4) obtain ev1 r1 ev2 where f: "feed r frame now = Inr (ev1, r1)"
    and rest: "feed_all r1 rest = Inr (ev2, r')" and events: "events = ev1 @ ev2"
    by (auto simp: res_bind_eq_Inr split: prod.splits)
  note ok = feed_ok[OF 2(2) f]
  note hist = feed_history[OF 2(2,3) f]
  have "reassembler_inv r' \<and> history_ok r' ((hist @ [frame]) @ map fst rest) \<and>
     (\<forall>e \<in> set ev2. delivered_ok r1 ((hist @ [frame]) @ map fst rest) e)"
    using 2(1) ok hist rest by blast
  moreover have "delivered_ok r1 = delivered_ok r" using ok by (intro delivered_ok_cong) simp
  ultimately show ?case
    using hist events delivered_ok_mono[of r "hist @ [frame]" _ "map fst rest"] by auto
qed

section \<open>The fragments of a packet are put together again\<close>

definition pending_event :: "can_frame \<times> int \<Rightarrow> reassembly_event" where
  "pending_event = (\<lambda>(frame, now).
     EvPending now frame (ci_sender (frame_fields frame)) (ci_destination (frame_fields frame)))"

definition complete_event ::
  "csp_fields \<Rightarrow> byte list \<Rightarrow> can_frame list \<Rightarrow> int \<Rightarrow> reassembly_event" where
  "complete_event f payload frames now =
     EvComplete now (last frames)
       \<lparr>dp_fields = f, dp_payload = payload, dp_frame = hd frames,
        dp_can_fields = frame_fields (hd frames), dp_frames = frames\<rparr>
       (ci_sender (frame_fields (hd frames))) (cf_destination f)"

lemma frame_fields_fragment:
  "wf_csp_fields f \<Longrightarrow> s \<in> {0..0x3F} \<Longrightarrow> pc \<in> {0..3} \<Longrightarrow>
     frame_fields \<lparr>fr_can_id = pack_can_id (fragment_can_fields f s pc n i), fr_data = d,
       fr_is_extended = x\<rparr> = fragment_can_fields f s pc n i"
  by (simp add: frame_fields_def unpack_pack_can_id wf_fragment_can_fields)

lemma fragment_frames_Cons:
  "fragment_frames f s pc n k (c # cs) =
     \<lparr>fr_can_id = pack_can_id (fragment_can_fields f s pc n k), fr_data = c, fr_is_extended = True\<rparr>
     # fragment_frames f s pc n (Suc k) cs"
  by (simp add: fragment_frames_def)

lemma fragment_frames_Nil [simp]: "fragment_frames f s pc n k [] = []"
  by (simp add: fragment_frames_def)

lemma length_fragment_frames [simp]: "length (fragment_frames f s pc n k cs) = length cs"
  by (simp add: fragment_frames_def)

definition fragment_key :: "csp_fields \<Rightarrow> int \<Rightarrow> int \<Rightarrow> connection_key" where
  "fragment_key f s pc = (cf_priority f, cf_destination f, s, pc)"

lemma connection_key_fragment [simp]:
  "connection_key (fragment_can_fields f s pc n i) = fragment_key f s pc"
  by (simp add: connection_key_def fragment_can_fields_def fragment_key_def)

text \<open>
  The continuation frames: \<open>p\<close> already holds the first \<open>i\<close> frames, the chunks \<open>cs\<close> are still to come.
\<close>

lemma feed_continuations:
  assumes wf: "wf_csp_fields f" "s \<in> {0..0x3F}" "pc \<in> {0..3}"
    and header: "unpack_header_extension (pp_header_extension p)
      (ci_priority (pp_can_fields p)) (ci_destination (pp_can_fields p)) = Inr f"
      "validate_csp_fields f = Inr ()"
  shows "cs \<noteq> [] \<Longrightarrow> length ts = length cs \<Longrightarrow> n = i + length cs \<Longrightarrow> 0 < i \<Longrightarrow>
     pp_next_frame_count p = int (i mod 8) \<Longrightarrow>
     over_limit r (length (pp_payload p) + length (concat cs)) = None \<Longrightarrow>
     feed_all (r\<lparr>ra_partials := AList.update (fragment_key f s pc) p ps\<rparr>)
       (zip (fragment_frames f s pc n i cs) ts) =
     Inr (map pending_event (butlast (zip (fragment_frames f s pc n i cs) ts)) @
          [EvComplete (last ts) (last (fragment_frames f s pc n i cs))
             \<lparr>dp_fields = f, dp_payload = pp_payload p @ concat cs,
              dp_frame = hd (pp_frames p @ fragment_frames f s pc n i cs),
              dp_can_fields = pp_can_fields p,
              dp_frames = pp_frames p @ fragment_frames f s pc n i cs\<rparr>
             s (cf_destination f)],
          r\<lparr>ra_partials := AList.delete (fragment_key f s pc) ps\<rparr>)"
  using header
proof (induction cs arbitrary: ts i p)
  case Nil
  then show ?case by simp
next
  case (Cons c cs)
  let ?key = "fragment_key f s pc"
  let ?c = "fragment_can_fields f s pc n i"
  let ?fr = "\<lparr>fr_can_id = pack_can_id ?c, fr_data = c, fr_is_extended = True\<rparr>"
  obtain t ts' where ts: "ts = t # ts'" using Cons.prems(2) by (cases ts) auto
  have lim: "over_limit r (length (pp_payload p) + length c) = None"
    using Cons.prems(6) by (rule over_limit_mono) simp
  have next': "(int (i mod 8) + 1) AND 7 = int (Suc i mod 8)" for i
    by (simp add: and_masks take_bit_eq_mod zmod_int mod_add_left_eq add.commute[of 1])
  have un: "unpack_can_id (pack_can_id ?c) = Inr ?c"
    using wf by (simp add: unpack_pack_can_id wf_fragment_can_fields)
  let ?p = "p\<lparr>pp_last_used := t, pp_next_frame_count := int (Suc i mod 8),
      pp_frames := pp_frames p @ [?fr], pp_payload := pp_payload p @ c\<rparr>"
  have step: "feed (r\<lparr>ra_partials := AList.update ?key p ps\<rparr>) ?fr t =
      Inr (if i = n - 1
           then ([finish_packet ?p ?c ?fr t], r\<lparr>ra_partials := AList.delete ?key ps\<rparr>)
           else ([EvPending t ?fr s (cf_destination f)],
                 r\<lparr>ra_partials := AList.update ?key ?p ps\<rparr>))"
    using Cons.prems(4) lim
    by (simp add: feed_def un update_conv' feed_continuation_def append_chunk_def Let_def
        delete_update_same Cons.prems(5) next' del: of_nat_Suc)
      (auto simp: fragment_can_fields_def next' simp del: of_nat_Suc)
  show ?case
  proof (cases "cs = []")
    case True
    with Cons.prems ts have n: "n = Suc i" and ts': "ts' = []" by simp_all
    have "finish_packet ?p ?c ?fr t = EvComplete t ?fr
        \<lparr>dp_fields = f, dp_payload = pp_payload p @ c, dp_frame = hd (pp_frames p @ [?fr]),
         dp_can_fields = pp_can_fields p, dp_frames = pp_frames p @ [?fr]\<rparr> s (cf_destination f)"
      using Cons.prems(7,8) by (simp add: finish_packet_def) (simp add: fragment_can_fields_def)
    moreover have last_i: "(i = n - 1) = True" using n by simp
    ultimately have "feed (r\<lparr>ra_partials := AList.update ?key p ps\<rparr>) ?fr t = Inr ([EvComplete t ?fr
        \<lparr>dp_fields = f, dp_payload = pp_payload p @ c, dp_frame = hd (pp_frames p @ [?fr]),
         dp_can_fields = pp_can_fields p, dp_frames = pp_frames p @ [?fr]\<rparr> s (cf_destination f)],
        r\<lparr>ra_partials := AList.delete ?key ps\<rparr>)"
      using step by (simp only: last_i if_True)
    then show ?thesis by (simp add: fragment_frames_Cons ts ts' True)
  next
    case False
    then have i: "i \<noteq> n - 1" using Cons.prems(3) by (cases cs) auto
    have ts'_ne: "ts' \<noteq> []" "fragment_frames f s pc n (Suc i) cs \<noteq> []"
      using False Cons.prems(2) length_fragment_frames[of f s pc n "Suc i" cs] ts
      by (metis length_0_conv length_Cons nat.inject)+
    have "feed_all (r\<lparr>ra_partials := AList.update ?key ?p ps\<rparr>)
        (zip (fragment_frames f s pc n (Suc i) cs) ts') =
      Inr (map pending_event (butlast (zip (fragment_frames f s pc n (Suc i) cs) ts')) @
          [EvComplete (last ts') (last (fragment_frames f s pc n (Suc i) cs))
             \<lparr>dp_fields = f, dp_payload = pp_payload ?p @ concat cs,
              dp_frame = hd (pp_frames ?p @ fragment_frames f s pc n (Suc i) cs),
              dp_can_fields = pp_can_fields ?p,
              dp_frames = pp_frames ?p @ fragment_frames f s pc n (Suc i) cs\<rparr>
             s (cf_destination f)],
          r\<lparr>ra_partials := AList.delete ?key ps\<rparr>)"
      using Cons.prems False ts by (intro Cons.IH) (simp_all add: add.assoc)
    moreover have "feed (r\<lparr>ra_partials := AList.update ?key p ps\<rparr>) ?fr t =
        Inr ([EvPending t ?fr s (cf_destination f)], r\<lparr>ra_partials := AList.update ?key ?p ps\<rparr>)"
      using step by (simp only: i if_False)
    moreover have "pending_event (?fr, t) = EvPending t ?fr s (cf_destination f)"
      by (simp add: pending_event_def frame_fields_fragment[OF wf])
        (simp add: fragment_can_fields_def)
    ultimately show ?thesis
      using ts'_ne by (simp add: fragment_frames_Cons ts)
  qed
qed

lemma fragment_packet_InrD:
  assumes "fragment_packet f payload sender pc = Inr frames"
  shows "cf_flags f AND CSP_FLAG_FRAGMENT = 0 \<and> valid_sender sender \<and> pc \<in> {0..3}"
proof -
  have v: "validate_csp_fields f = Inr ()"
    using assms by (auto simp: fragment_packet_def res_bind_eq_Inr)
  obtain c cs where cs: "packet_chunks f payload = c # cs" by (simp add: packet_chunks_def)
  with assms v obtain fr where
    "fragment_frame f (sender_or_default f sender) pc (Suc (length cs)) (0, c) = Inr fr"
    by (auto simp: fragment_packet_def res_bind_eq_Inr)
  then have "sender_or_default f sender \<in> {0..0x3F}" "pc \<in> {0..3}"
    by (auto simp: fragment_frame_def res_bind_eq_Inr mk_can_id_fields_eq_Inr
        wf_can_id_fields_def)
  with v show ?thesis by (simp add: valid_sender_range[of sender f] validate_csp_fields_def
        res_check_def split: if_splits)
qed

lemma map_of_None_delete: "map_of ps k = None \<Longrightarrow> AList.delete k ps = ps"
  by (simp add: delete_id map_of_eq_None_iff)

lemma feed_first_fragment:
  fixes n :: nat and now :: int
  assumes wf: "wf_csp_fields f" "s \<in> {0..0x3F}" "pc \<in> {0..3}"
    and free: "distinct (map fst (ra_partials r))"
      "map_of (ra_partials r) (fragment_key f s pc) = None"
    and lim: "over_limit r (length chunk) = None"
  defines "c \<equiv> fragment_can_fields f s pc n 0"
  defines "fr \<equiv> \<lparr>fr_can_id = pack_can_id c,
      fr_data = int_to_be 4 (pack_header_extension f) @ chunk, fr_is_extended = True\<rparr>"
  defines "p \<equiv> (start_packet c fr now)\<lparr>pp_frames := [fr], pp_payload := chunk\<rparr>"
  shows "feed r fr now = Inr (let (evs, r1) = expire r now in
      if n = 1 \<or> n = 0 then (evs @ [finish_packet p c fr now], r1)
      else (evs @ [EvPending now fr s (cf_destination f)],
            r1\<lparr>ra_partials := AList.update (fragment_key f s pc) p (ra_partials r1)\<rparr>))"
proof -
  have un: "unpack_can_id (pack_can_id c) = Inr c"
    using wf by (simp add: c_def unpack_pack_can_id wf_fragment_can_fields)
  have sel: "ci_begin c" "ci_end c = (n = 1 \<or> n = 0)" "ci_sender c = s"
      "ci_destination c = cf_destination f" "connection_key c = fragment_key f s pc"
    by (auto simp: c_def fragment_can_fields_def connection_key_def fragment_key_def)
  obtain evs r1 where e: "expire r now = (evs, r1)" by fastforce
  have "map_of (ra_partials r1) (fragment_key f s pc) = None"
    using map_of_expireD[OF free(1), of now "fragment_key f s pc"] free(2) e
    by (cases "map_of (ra_partials r1) (fragment_key f s pc)") auto
  then have del: "AList.delete (fragment_key f s pc) (ra_partials r1) = ra_partials r1"
    by (rule map_of_None_delete)
  have "over_limit r1 = over_limit r" using e by (auto simp: expire_def)
  with lim have lim': "over_limit r1 (length chunk) = None" by simp
  have st: "pp_payload (start_packet c fr now) = []" "pp_frames (start_packet c fr now) = []"
    by (simp_all add: start_packet_def)
  have data: "drop 4 (fr_data fr) = chunk" "\<not> length (fr_data fr) < 4"
    by (simp_all add: fr_def)
  have "feed r fr now = Inr (feed_begin r1 (fragment_key f s pc) None evs c fr now)"
    using free(2) e by (simp add: feed_def fr_def un sel)
  also have "feed_begin r1 (fragment_key f s pc) None evs c fr now =
      (if n = 1 \<or> n = 0 then (evs @ [finish_packet p c fr now], r1)
       else (evs @ [EvPending now fr s (cf_destination f)],
             r1\<lparr>ra_partials := AList.update (fragment_key f s pc) p (ra_partials r1)\<rparr>))"
    by (simp add: feed_begin_def frame_dlc_def Let_def append_chunk_touched data)
      (simp add: append_chunk_def Let_def lim' st sel p_def del)
  finally show ?thesis by (simp add: e)
qed

lemma header_of_start:
  assumes "wf_csp_fields f"
    and "fr_data fr = int_to_be 4 (pack_header_extension f) @ chunk"
  shows "pp_header_extension (start_packet c fr now) = pack_header_extension f"
    and "pp_can_fields (start_packet c fr now) = c"
    and "pp_next_frame_count (start_packet c fr now) = 1"
  using assms by (simp_all add: start_packet_def)

lemma feed_all_fragments:
  assumes wf: "wf_csp_fields f" and frag: "fragment_packet f payload sender pc = Inr frames"
    and ts: "length ts = length frames"
    and free: "distinct (map fst (ra_partials r))"
      "map_of (ra_partials r) (fragment_key f (sender_or_default f sender) pc) = None"
    and lim: "over_limit r (length payload) = None"
  shows "feed_all r (zip frames ts) =
     Inr (fst (expire r (hd ts)) @ map pending_event (butlast (zip frames ts)) @
            [complete_event f payload frames (last ts)],
          snd (expire r (hd ts)))"
proof -
  let ?s = "sender_or_default f sender" and ?chunks = "packet_chunks f payload"
  let ?n = "length ?chunks" and ?rest = "slices 8 (drop 4 payload)"
  let ?key = "fragment_key f ?s pc"
  from fragment_packet_InrD[OF frag] have flags: "cf_flags f AND CSP_FLAG_FRAGMENT = 0"
    and sok: "valid_sender sender" and pc: "pc \<in> {0..3}" by auto
  have s: "?s \<in> {0..0x3F}" using sok valid_sender_range by blast
  have frames: "frames = fragment_frames f ?s pc ?n 0 ?chunks"
    using frag fragment_packet_eq[OF wf flags sok pc, of payload] by simp
  let ?c = "fragment_can_fields f ?s pc ?n 0"
  let ?chunk = "take 4 payload"
  let ?fr = "\<lparr>fr_can_id = pack_can_id ?c,
      fr_data = int_to_be 4 (pack_header_extension f) @ ?chunk, fr_is_extended = True\<rparr>"
  let ?more = "fragment_frames f ?s pc ?n 1 ?rest"
  have frames': "frames = ?fr # ?more"
    unfolding frames by (simp add: packet_chunks_def fragment_frames_Cons)
  then obtain t ts' where t: "ts = t # ts'" and lts: "length ts' = length ?rest"
    using ts by (cases ts) auto
  obtain evs r1 where e: "expire r t = (evs, r1)" by fastforce
  let ?p = "(start_packet ?c ?fr t)\<lparr>pp_frames := [?fr], pp_payload := ?chunk\<rparr>"
  have lim': "over_limit r (length ?chunk) = None" using lim by (rule over_limit_mono) simp
  have header: "unpack_header_extension (pp_header_extension ?p)
      (ci_priority (pp_can_fields ?p)) (ci_destination (pp_can_fields ?p)) = Inr f"
    using unpack_pack_header_extension[OF wf]
    by (simp add: start_packet_def fragment_can_fields_def)
  have vf: "validate_csp_fields f = Inr ()" using flags by (simp add: validate_csp_fields_def)
  have cf: "ci_sender ?c = ?s" "ci_destination ?c = cf_destination f"
    by (simp_all add: fragment_can_fields_def)
  have ff: "frame_fields ?fr = ?c" by (rule frame_fields_fragment[OF wf s pc])
  have n: "?n = 1 + length ?rest" by (simp add: packet_chunks_def)
  note first = feed_first_fragment[OF wf s pc free lim', of ?n t]
  show ?thesis
  proof (cases "?rest = []")
    case True
    have "drop 4 payload = []" using concat_slices[of 8 "drop 4 payload"] True by simp
    then have "?chunk = payload" by simp
    then have "finish_packet ?p ?c ?fr t = complete_event f payload frames t"
      using True header vf ff cf
      by (simp add: finish_packet_def complete_event_def frames' start_packet_def)
    with first True n e lts show ?thesis by (simp add: frames' t)
  next
    case False
    then have ne: "ts' \<noteq> []" "?more \<noteq> []"
      using lts length_fragment_frames[of f ?s pc ?n 1 ?rest] by (metis length_0_conv)+
    have pay: "?chunk @ concat ?rest = payload" by (simp add: concat_slices)
    have lim2: "over_limit r1 (length (pp_payload ?p) + length (concat ?rest)) = None"
    proof -
      have "length ?chunk + length (concat ?rest) = length payload" using pay
        by (metis length_append)
      then show ?thesis using lim e by (auto simp: expire_def)
    qed
    have "feed_all (r1\<lparr>ra_partials := AList.update ?key ?p (ra_partials r1)\<rparr>) (zip ?more ts') =
      Inr (map pending_event (butlast (zip ?more ts')) @
          [EvComplete (last ts') (last ?more)
             \<lparr>dp_fields = f, dp_payload = pp_payload ?p @ concat ?rest,
              dp_frame = hd (pp_frames ?p @ ?more), dp_can_fields = pp_can_fields ?p,
              dp_frames = pp_frames ?p @ ?more\<rparr> ?s (cf_destination f)],
          r1\<lparr>ra_partials := AList.delete ?key (ra_partials r1)\<rparr>)"
      using False lts n lim2
      by (intro feed_continuations[OF wf s pc header vf])
        (simp_all add: start_packet_def)
    moreover have "AList.delete ?key (ra_partials r1) = ra_partials r1"
      using map_of_expireD[OF free(1), of t ?key] free(2) e
      by (cases "map_of (ra_partials r1) ?key") (auto intro: map_of_None_delete)
    moreover have "pending_event (?fr, t) = EvPending t ?fr ?s (cf_destination f)"
      by (simp add: pending_event_def ff cf)
    ultimately show ?thesis
      using first False n e ne lts pay
      by (simp add: frames' t complete_event_def frame_fields_fragment[OF wf s pc]
          start_packet_def) (simp add: fragment_can_fields_def)
  qed
qed

end
