(* ===== verification/CspKiss.thy ===== *)
theory CspKiss
  imports CspV2 Interfaces
begin

text \<open>
  Whole CSP v2 packets and the serial KISS framing: \<^verbatim>\<open>protocol/csp_v2_packet.py\<close> (the 48-bit header)
  and \<^verbatim>\<open>protocol/csp_v2_kiss.py\<close> (CRC-32C, the encoder and the byte-at-a-time decoder). The
  checksum register is a \<open>32 word\<close>, which is the range the Python integers stay in; \<open>kiss_byte\<close> is
  the body of the decoder's loop over the received bytes.
\<close>

section \<open>The packet header\<close>

abbreviation "CSP_V2_HEADER_BYTES \<equiv> 6 :: nat"

record csp_packet_frame =
  cp_fields :: csp_fields
  cp_payload :: "byte list"
  cp_wire :: "byte list"

definition pack_header :: "csp_fields \<Rightarrow> byte list" where
  "pack_header f =
     int_to_be CSP_V2_HEADER_BYTES
       (push_bit 46 (cf_priority f) OR
        push_bit 32 (cf_destination f) OR
        push_bit 18 (cf_source f) OR
        push_bit 12 (cf_destination_port f) OR
        push_bit 6 (cf_source_port f) OR
        push_bit 0 (cf_flags f))"

definition unpack_header :: "byte list \<Rightarrow> csp_error + csp_fields" where
  "unpack_header header =
     res_bind (res_check (length header = CSP_V2_HEADER_BYTES)
                 (HeaderLengthInvalid (length header))) (\<lambda>_.
     let v = int_from_be header
     in mk_csp_fields
          (drop_bit 46 v AND 0x3)
          (drop_bit 18 v AND 0x3FFF)
          (drop_bit 32 v AND 0x3FFF)
          (drop_bit 12 v AND 0x3F)
          (drop_bit 6 v AND 0x3F)
          (drop_bit 0 v AND 0x3F))"

section \<open>CRC-32C\<close>

type_synonym crc = "32 word"

definition crc_bit :: "crc \<Rightarrow> crc" where
  "crc_bit v = (if v AND 1 \<noteq> 0 then drop_bit 1 v XOR 0x82F63B78 else drop_bit 1 v)"

definition crc32c_table :: "crc list" where
  "crc32c_table = map (\<lambda>index. (crc_bit ^^ 8) (of_nat index)) [0..<256]"

definition crc32c_update :: "crc \<Rightarrow> byte \<Rightarrow> crc" where
  "crc32c_update v b = crc32c_table ! unat ((v XOR ucast b) AND 0xFF) XOR drop_bit 8 v"

definition crc32c :: "byte list \<Rightarrow> crc" where
  "crc32c data = foldl crc32c_update 0xFFFFFFFF data XOR 0xFFFFFFFF"

section \<open>The encoder\<close>

abbreviation "KISS_FEND \<equiv> 0xC0 :: byte"
abbreviation "KISS_FESC \<equiv> 0xDB :: byte"
abbreviation "KISS_TFEND \<equiv> 0xDC :: byte"
abbreviation "KISS_TFESC \<equiv> 0xDD :: byte"
abbreviation "KISS_TNC_DATA \<equiv> 0x00 :: byte"
abbreviation "KISS_CRC32_BYTES \<equiv> 4 :: nat"

definition kiss_escape :: "byte \<Rightarrow> byte list" where
  "kiss_escape b =
     (if b = KISS_FEND then [KISS_FESC, KISS_TFEND]
      else if b = KISS_FESC then [KISS_FESC, KISS_TFESC]
      else [b])"

definition encode_kiss_frame :: "csp_fields \<Rightarrow> byte list \<Rightarrow> int \<Rightarrow> csp_error + byte list" where
  "encode_kiss_frame f payload max_packet_bytes =
     res_bind (res_check (int (length payload) + int KISS_CRC32_BYTES \<le> max_packet_bytes)
                 (KissFrameOverLimit (length payload) max_packet_bytes)) (\<lambda>_.
     let packet = pack_header f @ payload @ int_to_be KISS_CRC32_BYTES (uint (crc32c payload))
     in Inr ([KISS_FEND, KISS_TNC_DATA] @ concat (map kiss_escape packet) @ [KISS_FEND]))"

section \<open>The decoder\<close>

datatype kiss_drop_reason = KISS_OVERFLOW | KISS_TOO_SHORT | KISS_CRC_ERROR | KISS_MALFORMED

datatype kiss_detail =
    KissFrameReached nat int
  | KissFrameBytes nat
  | KissCodecError csp_error
  | KissCrcMismatch int crc crc
  | KissFragmentFlag

datatype kiss_event =
    KissPacket csp_packet_frame
  | KissDropped kiss_drop_reason kiss_detail "byte list" "csp_fields option" "int option"
      \<comment> \<open>reason, detail, wire, fields, limit\<close>

datatype kiss_mode = NOT_STARTED | STARTED | ESCAPED

record kiss_decoder =
  kd_max_packet_bytes :: int
  kd_mode :: kiss_mode
  kd_first :: bool
  kd_buffer :: "byte list"
  kd_wire :: "byte list"

definition mk_kiss_decoder :: "int \<Rightarrow> csp_error + kiss_decoder" where
  "mk_kiss_decoder max_packet_bytes =
     (if max_packet_bytes < 1 then Inl (MaxPacketBytesNotPositive max_packet_bytes)
      else Inr \<lparr>kd_max_packet_bytes = max_packet_bytes, kd_mode = NOT_STARTED, kd_first = False,
                kd_buffer = [], kd_wire = []\<rparr>)"

definition kiss_in_frame :: "kiss_decoder \<Rightarrow> bool" where
  "kiss_in_frame d \<longleftrightarrow> kd_mode d \<noteq> NOT_STARTED"

definition kiss_reset :: "kiss_decoder \<Rightarrow> kiss_decoder" where
  "kiss_reset d = d\<lparr>kd_mode := NOT_STARTED, kd_buffer := [], kd_wire := []\<rparr>"

definition kiss_complete :: "byte list \<Rightarrow> byte list \<Rightarrow> kiss_event" where
  "kiss_complete packet wire =
     (if length packet < CSP_V2_HEADER_BYTES + KISS_CRC32_BYTES
      then KissDropped KISS_TOO_SHORT (KissFrameBytes (length packet)) wire None None
      else
        let header = take CSP_V2_HEADER_BYTES packet;
            body = drop CSP_V2_HEADER_BYTES (take (length packet - KISS_CRC32_BYTES) packet);
            trailer = drop (length packet - KISS_CRC32_BYTES) packet
        in case unpack_header header of
             Inl e \<Rightarrow> KissDropped KISS_MALFORMED (KissCodecError e) wire None None
           | Inr f \<Rightarrow>
               let received = int_from_be trailer
               in if received \<noteq> uint (crc32c (header @ body)) \<and> received \<noteq> uint (crc32c body)
                  then KissDropped KISS_CRC_ERROR
                         (KissCrcMismatch received (crc32c body) (crc32c (header @ body)))
                         wire (Some f) None
                  else if cf_flags f AND 0x10 \<noteq> 0
                  then KissDropped KISS_MALFORMED KissFragmentFlag wire (Some f) None
                  else KissPacket \<lparr>cp_fields = f, cp_payload = body, cp_wire = wire\<rparr>)"

definition kiss_overflow :: "kiss_decoder \<Rightarrow> kiss_event list \<times> kiss_decoder" where
  "kiss_overflow d =
     (if kd_mode d \<noteq> NOT_STARTED \<and>
         int (length (kd_buffer d)) \<ge> kd_max_packet_bytes d + int CSP_V2_HEADER_BYTES
      then ([KissDropped KISS_OVERFLOW
               (KissFrameReached (length (kd_buffer d)) (kd_max_packet_bytes d))
               (kd_wire d) None (Some (kd_max_packet_bytes d))],
            kiss_reset d)
      else ([], d))"

definition kiss_step :: "kiss_decoder \<Rightarrow> byte \<Rightarrow> kiss_event list \<times> kiss_decoder" where
  "kiss_step d b =
     (case kd_mode d of
        NOT_STARTED \<Rightarrow>
          ([], if b = KISS_FEND
               then d\<lparr>kd_mode := STARTED, kd_first := True, kd_buffer := [],
                      kd_wire := [KISS_FEND]\<rparr>
               else d)
      | STARTED \<Rightarrow>
          let d1 = d\<lparr>kd_wire := kd_wire d @ [b]\<rparr>
          in if b = KISS_FESC then ([], d1\<lparr>kd_mode := ESCAPED\<rparr>)
             else if b = KISS_FEND
             then if kd_buffer d1 \<noteq> []
                  then ([kiss_complete (kd_buffer d1) (kd_wire d1)], kiss_reset d1)
                  else ([], d1)
             else if kd_first d1 then ([], d1\<lparr>kd_first := False\<rparr>)
             else ([], d1\<lparr>kd_buffer := kd_buffer d1 @ [b]\<rparr>)
      | ESCAPED \<Rightarrow>
          let d1 = d\<lparr>kd_wire := kd_wire d @ [b]\<rparr>;
              d2 = (if b = KISS_TFESC then d1\<lparr>kd_buffer := kd_buffer d1 @ [KISS_FESC]\<rparr>
                    else if b = KISS_TFEND then d1\<lparr>kd_buffer := kd_buffer d1 @ [KISS_FEND]\<rparr>
                    else d1)
          in ([], d2\<lparr>kd_mode := STARTED\<rparr>))"

definition kiss_byte :: "kiss_decoder \<Rightarrow> byte \<Rightarrow> kiss_event list \<times> kiss_decoder" where
  "kiss_byte d b =
     (let (over, d1) = kiss_overflow d; (evs, d2) = kiss_step d1 b in (over @ evs, d2))"

definition kiss_feed :: "kiss_decoder \<Rightarrow> byte list \<Rightarrow> kiss_event list \<times> kiss_decoder" where
  "kiss_feed d data = recv_all kiss_byte d data"

section \<open>Header round trip\<close>

definition header_value :: "csp_fields \<Rightarrow> int" where
  "header_value f =
     push_bit 46 (take_bit 2 (cf_priority f)) OR push_bit 32 (take_bit 14 (cf_destination f)) OR
     push_bit 18 (take_bit 14 (cf_source f)) OR push_bit 12 (take_bit 6 (cf_destination_port f)) OR
     push_bit 6 (take_bit 6 (cf_source_port f)) OR take_bit 6 (cf_flags f)"

lemma pack_header_value: "wf_csp_fields f \<Longrightarrow> pack_header f = int_to_be 6 (header_value f)"
  by (simp add: pack_header_def header_value_def wf_csp_fields_def take_bit_id)

lemma header_value_fields:
  "take_bit 2 (drop_bit 46 (header_value f)) = take_bit 2 (cf_priority f)"
  "take_bit 14 (drop_bit 32 (header_value f)) = take_bit 14 (cf_destination f)"
  "take_bit 14 (drop_bit 18 (header_value f)) = take_bit 14 (cf_source f)"
  "take_bit 6 (drop_bit 12 (header_value f)) = take_bit 6 (cf_destination_port f)"
  "take_bit 6 (drop_bit 6 (header_value f)) = take_bit 6 (cf_source_port f)"
  "take_bit 6 (header_value f) = take_bit 6 (cf_flags f)"
  unfolding header_value_def by (auto intro!: bit_eqI simp: bit_simps)

lemma header_value_range: "0 \<le> header_value f \<and> header_value f < 256 ^ 6"
proof -
  have "take_bit 48 (header_value f) = header_value f"
    unfolding header_value_def by (simp add: take_bit_push_bit)
  then show ?thesis using take_bit_range[of 48 "header_value f"] by simp
qed

lemma length_pack_header [simp]: "length (pack_header f) = 6"
  by (simp add: pack_header_def)

lemma unpack_pack_header:
  assumes "wf_csp_fields f"
  shows "unpack_header (pack_header f) = Inr f"
  using assms header_value_range[of f]
  by (simp add: pack_header_value unpack_header_def int_from_to_be_id and_masks
      header_value_fields mk_csp_fields_eq_Inr wf_csp_fields_def take_bit_id)

lemma unpack_header_Inr:
  assumes "unpack_header h = Inr f"
  shows "length h = 6 \<and> wf_csp_fields f \<and> pack_header f = h"
proof -
  let ?v = "int_from_be h"
  from assms have len: "length h = 6" and wf: "wf_csp_fields f"
    and f: "f = \<lparr>cf_priority = take_bit 2 (drop_bit 46 ?v),
      cf_source = take_bit 14 (drop_bit 18 ?v), cf_destination = take_bit 14 (drop_bit 32 ?v),
      cf_destination_port = take_bit 6 (drop_bit 12 ?v),
      cf_source_port = take_bit 6 (drop_bit 6 ?v), cf_flags = take_bit 6 ?v\<rparr>"
    by (auto simp: unpack_header_def res_bind_eq_Inr mk_csp_fields_eq_Inr and_masks Let_def)
  have "header_value f = take_bit 48 ?v"
    by (simp add: f header_value_def glue_bits)
  also have "\<dots> = ?v" using int_from_be_bounds[of h] len by (intro take_bit_id) auto
  finally show ?thesis using wf len by (simp add: pack_header_value int_to_from_be)
qed

lemma unpack_header_total: "length h = 6 \<Longrightarrow> \<exists>f. unpack_header h = Inr f"
  using take_bit_range[of 2 "drop_bit 46 (int_from_be h)"]
    take_bit_range[of 14 "drop_bit 18 (int_from_be h)"]
    take_bit_range[of 14 "drop_bit 32 (int_from_be h)"]
    take_bit_range[of 6 "drop_bit 12 (int_from_be h)"]
    take_bit_range[of 6 "drop_bit 6 (int_from_be h)"] take_bit_range[of 6 "int_from_be h"]
  by (auto simp: unpack_header_def mk_csp_fields_eq_Inr wf_csp_fields_def and_masks Let_def)

interpretation header: exact_codec wf_csp_fields
    "\<lambda>f. Inr (pack_header f) :: csp_error + byte list" unpack_header "\<lambda>h. length h = 6"
  by unfold_locales (auto simp: unpack_pack_header dest: unpack_header_Inr)

section \<open>The checksum\<close>

lemma xor_cancel: "(a :: crc) XOR m = b XOR m \<Longrightarrow> a = b"
  by (metis xor.assoc xor_self_eq xor.right_neutral)

text \<open>Bit-serial CRC: the table is eight steps of it, and it is linear over XOR.\<close>

lemma crc_bit_alt: "crc_bit v = drop_bit 1 v XOR (if bit v 0 then 0x82F63B78 else 0)"
proof -
  have "v AND 1 \<noteq> 0 \<longleftrightarrow> bit v 0" by (simp add: and_one_eq bit_0 odd_iff_mod_2_eq_one)
  then show ?thesis by (simp add: crc_bit_def)
qed

lemma crc_bit_xor: "crc_bit (v XOR w) = crc_bit v XOR crc_bit w"
  unfolding crc_bit_alt by (auto intro!: bit_word_eqI simp: bit_simps)

lemma crc_bits_xor: "(crc_bit ^^ n) (v XOR w) = (crc_bit ^^ n) v XOR (crc_bit ^^ n) w"
  by (induction n) (simp_all add: crc_bit_xor)

lemma crc_bits_push: "n \<le> 32 \<Longrightarrow> (crc_bit ^^ n) (push_bit n v) = take_bit (32 - n) v"
proof (induction n arbitrary: v)
  case 0
  have "take_bit 32 v = v" by (rule bit_word_eqI) (simp add: bit_simps)
  then show ?case by simp
next
  case (Suc n)
  have "\<not> bit (push_bit (Suc n) v) 0" by (simp only: bit_push_bit_iff) simp
  then have "crc_bit (push_bit (Suc n) v) = drop_bit 1 (push_bit (Suc n) v)"
    by (simp only: crc_bit_alt if_False xor.right_neutral)
  also have "\<dots> = push_bit n (take_bit (31 - n) v)"
    using Suc.prems by (intro bit_word_eqI) (auto simp: bit_push_bit_iff bit_drop_bit_eq bit_take_bit_iff
        simp del: push_bit_Suc)
  finally have "(crc_bit ^^ Suc n) (push_bit (Suc n) v) = take_bit (32 - n) (take_bit (31 - n) v)"
    using Suc by (simp add: funpow_Suc_right del: funpow.simps push_bit_Suc)
  then show ?case using Suc.prems by (simp add: min_def)
qed

lemma crc32c_table_nth: "i < 256 \<Longrightarrow> crc32c_table ! i = (crc_bit ^^ 8) (of_nat i)"
  by (simp add: crc32c_table_def)

lemma low_byte_split: "v = push_bit 8 (drop_bit 8 v) XOR (v AND (0xFF :: crc))"
proof (rule bit_word_eqI)
  fix n assume "n < LENGTH(32)"
  have "bit (0xFF :: crc) n \<longleftrightarrow> n < 8"
  proof -
    have "(0xFF :: crc) = mask 8" by (simp add: mask_eq_exp_minus_1)
    then show ?thesis using \<open>n < LENGTH(32)\<close> by (simp only: bit_mask_iff) simp
  qed
  with \<open>n < LENGTH(32)\<close> show "bit v n = bit (push_bit 8 (drop_bit 8 v) XOR (v AND 0xFF)) n"
    by (auto simp: bit_simps)
qed

lemma and_FF_less: "unat (v AND (0xFF :: crc)) < 256"
proof -
  have "v AND 0xFF \<le> (0xFF :: crc)" by (rule word_and_le1)
  then show ?thesis by (simp add: word_le_nat_alt)
qed

lemma crc32c_update_bits: "crc32c_update v b = (crc_bit ^^ 8) (v XOR ucast b)"
proof -
  let ?w = "v XOR ucast b"
  have "(crc_bit ^^ 8) (push_bit 8 (drop_bit 8 ?w)) = take_bit 24 (drop_bit 8 ?w)"
    by (subst crc_bits_push) simp_all
  also have "\<dots> = drop_bit 8 v"
    by (rule bit_word_eqI) (auto simp: bit_simps dest: bit_imp_le_length)
  finally have "(crc_bit ^^ 8) ?w = drop_bit 8 v XOR (crc_bit ^^ 8) (?w AND 0xFF)"
    by (subst low_byte_split[of ?w]) (simp only: crc_bits_xor)
  moreover have "crc32c_table ! unat (?w AND 0xFF) = (crc_bit ^^ 8) (?w AND 0xFF)"
    by (simp add: crc32c_table_nth and_FF_less del: funpow.simps)
  ultimately show ?thesis by (simp only: crc32c_update_def xor.commute)
qed

lemma crc_byte:
  "(crc_bit ^^ 8) v =
     crc_bit (crc_bit (crc_bit (crc_bit (crc_bit (crc_bit (crc_bit (crc_bit v)))))))"
  by (simp add: eval_nat_numeral)

text \<open>
  A run of up to four bytes enters the register as one XOR with its little-endian value; since the
  polynomial has its top bit, a step of the register is injective.
\<close>

fun le_word :: "byte list \<Rightarrow> crc" where
  "le_word [] = 0"
| "le_word (b # bs) = ucast b OR push_bit 8 (le_word bs)"

lemma crc_bit_inj: "crc_bit v = crc_bit w \<Longrightarrow> v = w"
proof (rule bit_word_eqI)
  assume eq: "crc_bit v = crc_bit w"
  have top: "bit (0x82F63B78 :: crc) 31" by (simp add: bit_simps)
  have "\<not> bit u 32" for u :: crc using bit_imp_le_length[of u 32] by auto
  with top have "bit (crc_bit v) 31 = bit v 0" "bit (crc_bit w) 31 = bit w 0"
    by (simp_all add: crc_bit_alt bit_simps)
  with eq have low: "bit v 0 = bit w 0" by simp
  fix n assume n: "n < LENGTH(32)"
  show "bit v n = bit w n"
  proof (cases n)
    case (Suc m)
    have "drop_bit 1 v = drop_bit 1 w"
      using eq unfolding crc_bit_alt low by (rule xor_cancel)
    then have "bit (drop_bit 1 v) m = bit (drop_bit 1 w) m" by simp
    with Suc show ?thesis by (simp add: bit_simps)
  qed (use low in simp)
qed

lemma crc_bits_inj: "(crc_bit ^^ n) v = (crc_bit ^^ n) w \<Longrightarrow> v = w"
  by (induction n) (auto dest: crc_bit_inj)

lemma le_word_bits: "bit (le_word bs) n \<Longrightarrow> n < 8 * length bs"
proof (induction bs arbitrary: n)
  case (Cons b bs)
  show ?case
  proof (cases "n < 8")
    case False
    with Cons.prems have "bit (le_word bs) (n - 8)"
      by (auto simp: bit_simps dest: bit_imp_le_length)
    with Cons.IH[of "n - 8"] False show ?thesis by simp
  qed simp
qed simp

lemma le_word_Cons_xor: "le_word (b # bs) = ucast b XOR push_bit 8 (le_word bs)"
  by (rule bit_word_eqI) (auto simp: bit_simps dest: bit_imp_le_length)

lemma crc_run:
  "length bs \<le> 4 \<Longrightarrow> foldl crc32c_update v bs = (crc_bit ^^ (8 * length bs)) (v XOR le_word bs)"
proof (induction bs arbitrary: v)
  case (Cons b bs)
  have "take_bit 24 (le_word bs) = le_word bs"
    using Cons.prems le_word_bits[of bs] by (intro bit_word_eqI) (fastforce simp: bit_simps)
  then have "(crc_bit ^^ 8) (push_bit 8 (le_word bs)) = le_word bs"
    by (subst crc_bits_push) simp_all
  then have "(crc_bit ^^ 8) (v XOR le_word (b # bs))
      = (crc_bit ^^ 8) (v XOR ucast b) XOR le_word bs"
    by (simp only: le_word_Cons_xor crc_bits_xor xor.assoc)
  moreover have "8 * length (b # bs) = 8 * length bs + 8" by simp
  ultimately show ?case
    using Cons by (simp only: funpow_add comp_apply foldl.simps crc32c_update_bits)
qed simp

lemma le_word_inj: "length bs = length cs \<Longrightarrow> length bs \<le> 4 \<Longrightarrow> le_word bs = le_word cs \<Longrightarrow> bs = cs"
proof (induction bs cs rule: list_induct2)
  case (Cons b bs c cs)
  have b: "b = c"
  proof (rule bit_word_eqI)
    fix n assume n: "n < LENGTH(8)"
    then have "bit (le_word (x # xs)) n = bit x n" for x xs by (auto simp: bit_simps)
    with Cons.prems(2) show "bit b n = bit c n" by metis
  qed
  have "le_word bs = le_word cs"
  proof (rule bit_word_eqI)
    fix n assume n: "n < LENGTH(32)"
    have r: "bit (le_word xs) n = (n < 24 \<and> bit (le_word (x # xs)) (n + 8))"
      if "length xs \<le> 3" for x xs
      using le_word_bits[of xs n] that n
      by (auto simp: bit_simps dest: bit_imp_le_length)
    from r[of bs b] r[of cs c] Cons.prems Cons.hyps show "bit (le_word bs) n = bit (le_word cs) n"
      by simp
  qed
  with Cons b show ?case by simp
qed simp

lemma crc_foldl_inj: "foldl crc32c_update v ds = foldl crc32c_update w ds \<Longrightarrow> v = w"
proof (induction ds arbitrary: v w)
  case (Cons d ds)
  then have "crc32c_update v d = crc32c_update w d" by simp
  then have "v XOR ucast d = w XOR ucast d" unfolding crc32c_update_bits by (rule crc_bits_inj)
  then show ?case by (rule xor_cancel)
qed simp

lemma crc_window_differs:
  assumes "length bs = length cs" "length bs \<le> 4" "bs \<noteq> cs"
  shows "crc32c (pre @ bs @ post) \<noteq> crc32c (pre @ cs @ post)"
proof
  let ?v = "foldl crc32c_update 0xFFFFFFFF pre"
  assume "crc32c (pre @ bs @ post) = crc32c (pre @ cs @ post)"
  then have "foldl crc32c_update (foldl crc32c_update ?v bs) post
      = foldl crc32c_update (foldl crc32c_update ?v cs) post"
    unfolding crc32c_def foldl_append by (rule xor_cancel)
  then have "foldl crc32c_update ?v bs = foldl crc32c_update ?v cs" by (rule crc_foldl_inj)
  then have "(crc_bit ^^ (8 * length cs)) (?v XOR le_word bs)
      = (crc_bit ^^ (8 * length cs)) (?v XOR le_word cs)"
    using assms(1,2) crc_run[of bs ?v] crc_run[of cs ?v] by metis
  then have "?v XOR le_word bs = ?v XOR le_word cs" by (rule crc_bits_inj)
  then have "le_word bs = le_word cs" by (metis xor_cancel xor.commute)
  with assms le_word_inj show False by blast
qed

section \<open>A frame decodes to the packet it was made from\<close>

text \<open>
  \<open>kiss_idle d\<close>: the decoder waits for a frame, or has seen its opening \<open>KISS_FEND\<close> (which is also
  where an overflow leaves it, the closing \<open>KISS_FEND\<close> being taken for an opening one).
\<close>

definition kiss_idle :: "kiss_decoder \<Rightarrow> bool" where
  "kiss_idle d \<longleftrightarrow>
     0 < kd_max_packet_bytes d \<and>
     (kd_mode d = NOT_STARTED \<or> kd_mode d = STARTED \<and> kd_first d \<and> kd_buffer d = [])"

lemma kiss_byte_room:
  "int (length (kd_buffer d)) < kd_max_packet_bytes d + 6 \<Longrightarrow> kiss_byte d b = kiss_step d b"
  by (simp add: kiss_byte_def kiss_overflow_def case_prod_beta)

lemma kiss_escape_bytes:
  assumes "kd_mode d = STARTED" "\<not> kd_first d"
    and "int (length (kd_buffer d)) < kd_max_packet_bytes d + 6"
  shows "recv_all kiss_byte d (kiss_escape b) =
     ([], d\<lparr>kd_buffer := kd_buffer d @ [b], kd_wire := kd_wire d @ kiss_escape b\<rparr>)"
  using assms by (cases d) (auto simp: kiss_escape_def kiss_byte_room kiss_step_def)

lemma kiss_escaped_run:
  assumes "kd_mode d = STARTED" "\<not> kd_first d"
    and "int (length (kd_buffer d) + length bs) \<le> kd_max_packet_bytes d + 6"
  shows "recv_all kiss_byte d (concat (map kiss_escape bs)) =
     ([], d\<lparr>kd_buffer := kd_buffer d @ bs, kd_wire := kd_wire d @ concat (map kiss_escape bs)\<rparr>)"
  using assms
proof (induction bs arbitrary: d)
  case (Cons b bs)
  then show ?case by (simp add: recv_all_append kiss_escape_bytes)
qed simp

lemma kiss_opening:
  assumes "kiss_idle d"
  shows "\<exists>w. recv_all kiss_byte d [KISS_FEND, KISS_TNC_DATA] =
     ([], d\<lparr>kd_mode := STARTED, kd_first := False, kd_buffer := [], kd_wire := w @ [KISS_TNC_DATA]\<rparr>)
     \<and> (kd_mode d = NOT_STARTED \<longrightarrow> w = [KISS_FEND])"
  using assms by (cases d) (auto simp: kiss_idle_def kiss_byte_def kiss_overflow_def kiss_step_def)

lemma kiss_complete_packet:
  assumes "wf_csp_fields f" "cf_flags f AND CSP_FLAG_FRAGMENT = 0"
  shows "kiss_complete (pack_header f @ payload @ int_to_be 4 (uint (crc32c payload))) wire =
     KissPacket \<lparr>cp_fields = f, cp_payload = payload, cp_wire = wire\<rparr>"
proof -
  have "uint (crc32c payload) < 256 ^ 4" using uint_bounded[of "crc32c payload"] by simp
  then have "int_from_be (int_to_be 4 (uint (crc32c payload))) = uint (crc32c payload)"
    by (intro int_from_to_be_id) auto
  with assms show ?thesis by (simp add: kiss_complete_def unpack_pack_header)
qed

lemma kiss_decode_encode:
  assumes "kiss_idle d" "wf_csp_fields f" "cf_flags f AND CSP_FLAG_FRAGMENT = 0"
    and "encode_kiss_frame f payload m = Inr bytes"
    and "int (length payload) + 4 < kd_max_packet_bytes d"
  shows "\<exists>wire d'. kiss_feed d bytes =
      ([KissPacket \<lparr>cp_fields = f, cp_payload = payload, cp_wire = wire\<rparr>], d') \<and>
     kd_mode d' = NOT_STARTED \<and> kd_max_packet_bytes d' = kd_max_packet_bytes d \<and>
     (kd_mode d = NOT_STARTED \<longrightarrow> wire = bytes)"
proof -
  let ?packet = "pack_header f @ payload @ int_to_be 4 (uint (crc32c payload))"
  from assms(4) have bytes: "bytes = [KISS_FEND, KISS_TNC_DATA] @
      concat (map kiss_escape ?packet) @ [KISS_FEND]"
    by (auto simp: encode_kiss_frame_def res_bind_eq_Inr Let_def)
  obtain w where open_frame: "recv_all kiss_byte d [KISS_FEND, KISS_TNC_DATA] =
     ([], d\<lparr>kd_mode := STARTED, kd_first := False, kd_buffer := [], kd_wire := w @ [KISS_TNC_DATA]\<rparr>)"
    and w: "kd_mode d = NOT_STARTED \<longrightarrow> w = [KISS_FEND]"
    using kiss_opening[OF assms(1)] by blast
  let ?d = "d\<lparr>kd_mode := STARTED, kd_first := False, kd_buffer := [], kd_wire := w @ [KISS_TNC_DATA]\<rparr>"
  let ?d' = "?d\<lparr>kd_buffer := ?packet,
     kd_wire := w @ [KISS_TNC_DATA] @ concat (map kiss_escape ?packet)\<rparr>"
  let ?wire = "w @ [KISS_TNC_DATA] @ concat (map kiss_escape ?packet) @ [KISS_FEND]"
  have body: "recv_all kiss_byte ?d (concat (map kiss_escape ?packet)) = ([], ?d')"
    using kiss_escaped_run[of ?d ?packet] assms(5) by simp
  have "?packet \<noteq> []" by (metis append_is_Nil_conv length_0_conv length_pack_header zero_neq_numeral)
  then have close: "recv_all kiss_byte ?d' [KISS_FEND] =
      ([kiss_complete ?packet ?wire], kiss_reset (?d'\<lparr>kd_wire := ?wire\<rparr>))"
    using assms(5) by (simp add: kiss_byte_room kiss_step_def)
  have "kiss_feed d bytes = ([kiss_complete ?packet ?wire], kiss_reset (?d'\<lparr>kd_wire := ?wire\<rparr>))"
    unfolding kiss_feed_def bytes recv_all_append open_frame
    by (simp only: Let_def prod.case body close append_Nil)
  moreover have "?wire = bytes" if "kd_mode d = NOT_STARTED" using w that bytes by simp
  ultimately show ?thesis
    using kiss_complete_packet[OF assms(2,3)] by (auto simp: kiss_reset_def)
qed

section \<open>The decoder as a link, and its bounds\<close>

definition kiss_emits :: "int \<Rightarrow> csp_fields \<times> byte list \<Rightarrow> byte list \<Rightarrow> int \<Rightarrow> bool" where
  "kiss_emits m msg ws m' \<longleftrightarrow>
     m' = m \<and> wf_csp_fields (fst msg) \<and> cf_flags (fst msg) AND CSP_FLAG_FRAGMENT = 0 \<and>
     encode_kiss_frame (fst msg) (snd msg) m = Inr ws"

definition kiss_delivered :: "kiss_event \<Rightarrow> (csp_fields \<times> byte list) option" where
  "kiss_delivered e =
     (case e of KissPacket p \<Rightarrow> Some (cp_fields p, cp_payload p) | KissDropped _ _ _ _ _ \<Rightarrow> None)"

definition kiss_paired :: "int \<Rightarrow> kiss_decoder \<Rightarrow> bool" where
  "kiss_paired m d \<longleftrightarrow> kiss_idle d \<and> m < kd_max_packet_bytes d"

interpretation kiss_link: ordered_link kiss_emits kiss_byte kiss_delivered kiss_paired
proof unfold_locales
  fix m msg ws m' d evs d'
  assume a: "kiss_paired m d" "kiss_emits m msg ws m'" "recv_all kiss_byte d ws = (evs, d')"
  then have "int (length (snd msg)) + 4 < kd_max_packet_bytes d"
    by (auto simp: kiss_paired_def kiss_emits_def encode_kiss_frame_def res_bind_eq_Inr)
  with a obtain wire d1 where
    "kiss_feed d ws = ([KissPacket \<lparr>cp_fields = fst msg, cp_payload = snd msg, cp_wire = wire\<rparr>], d1)"
    "kd_mode d1 = NOT_STARTED" "kd_max_packet_bytes d1 = kd_max_packet_bytes d"
    using kiss_decode_encode[of d "fst msg" "snd msg" m ws]
    unfolding kiss_paired_def kiss_emits_def by blast
  with a show "List.map_filter kiss_delivered evs = [msg] \<and> kiss_paired m' d'"
    by (auto simp: kiss_feed_def map_filter_simps kiss_delivered_def kiss_paired_def kiss_emits_def
        kiss_idle_def)
qed

definition kiss_inv :: "kiss_decoder \<Rightarrow> bool" where
  "kiss_inv d \<longleftrightarrow>
     0 < kd_max_packet_bytes d \<and>
     int (length (kd_buffer d)) \<le> kd_max_packet_bytes d + 6 \<and>
     (kd_mode d = NOT_STARTED \<longrightarrow> kd_buffer d = [] \<and> kd_wire d = []) \<and>
     (kd_mode d \<noteq> NOT_STARTED \<longrightarrow>
        kd_wire d \<noteq> [] \<and> hd (kd_wire d) = KISS_FEND \<and>
        length (kd_buffer d) < length (kd_wire d))"

definition kiss_event_ok :: "int \<Rightarrow> kiss_event \<Rightarrow> bool" where
  "kiss_event_ok m e =
     (case e of
        KissPacket p \<Rightarrow>
          wf_csp_fields (cp_fields p) \<and> cf_flags (cp_fields p) AND CSP_FLAG_FRAGMENT = 0 \<and>
          int (length (cp_payload p)) + 4 < m \<and>
          cp_wire p \<noteq> [] \<and> hd (cp_wire p) = KISS_FEND \<and> last (cp_wire p) = KISS_FEND
      | KissDropped reason detail wire fs limit \<Rightarrow> limit \<noteq> None \<longrightarrow> reason = KISS_OVERFLOW)"

lemma kiss_complete_ok:
  assumes "int (length packet) < m + 6" "wire \<noteq> []" "hd wire = KISS_FEND" "last wire = KISS_FEND"
  shows "kiss_event_ok m (kiss_complete packet wire)"
  using assms
  by (auto simp: kiss_complete_def kiss_event_ok_def Let_def split: sum.splits
      dest: unpack_header_Inr)

lemma kiss_byte_inv:
  assumes "kiss_inv d" "kiss_byte d b = (evs, d')"
  shows "kiss_inv d' \<and> (\<forall>e \<in> set evs. kiss_event_ok (kd_max_packet_bytes d) e) \<and>
     kd_max_packet_bytes d' = kd_max_packet_bytes d"
proof -
  obtain over d1 where o: "kiss_overflow d = (over, d1)" by fastforce
  have d1: "kiss_inv d1" "kd_max_packet_bytes d1 = kd_max_packet_bytes d"
    "\<forall>e \<in> set over. kiss_event_ok (kd_max_packet_bytes d) e"
    "int (length (kd_buffer d1)) < kd_max_packet_bytes d1 + 6"
    using o assms(1)
    by (auto simp: kiss_overflow_def kiss_inv_def kiss_reset_def kiss_event_ok_def split: if_splits)
  obtain es where s: "kiss_step d1 b = (es, d')" "evs = over @ es"
    using assms(2) o by (auto simp: kiss_byte_def split: prod.splits)
  have "kiss_inv d' \<and> (\<forall>e \<in> set es. kiss_event_ok (kd_max_packet_bytes d1) e) \<and>
      kd_max_packet_bytes d' = kd_max_packet_bytes d1"
    using s(1) d1(1,4)
    by (auto simp: kiss_step_def kiss_inv_def kiss_reset_def Let_def kiss_complete_ok
        split: kiss_mode.splits if_splits)
  with d1 s(2) show ?thesis by auto
qed

lemma kiss_feed_inv:
  "kiss_inv d \<Longrightarrow> kiss_feed d bs = (evs, d') \<Longrightarrow>
     kiss_inv d' \<and> (\<forall>e \<in> set evs. kiss_event_ok (kd_max_packet_bytes d) e) \<and>
     kd_max_packet_bytes d' = kd_max_packet_bytes d"
proof (induction bs arbitrary: d evs)
  case Nil
  then show ?case by (simp add: kiss_feed_def)
next
  case (Cons b bs)
  obtain es d1 where b: "kiss_byte d b = (es, d1)" by fastforce
  obtain es' where r: "kiss_feed d1 bs = (es', d')" and evs: "evs = es @ es'"
    using Cons.prems(2) b by (auto simp: kiss_feed_def split: prod.splits)
  from kiss_byte_inv[OF Cons.prems(1) b] Cons.IH[OF _ r] evs show ?case by auto
qed

lemma mk_kiss_decoder_inv: "mk_kiss_decoder m = Inr d \<Longrightarrow> kiss_inv d \<and> kiss_idle d \<and> kd_max_packet_bytes d = m"
  by (auto simp: mk_kiss_decoder_def kiss_inv_def kiss_idle_def split: if_splits)

text \<open>A frame that fills the receiver's limit exactly is dropped at its closing \<open>KISS_FEND\<close>.\<close>

lemma kiss_full_frame_overflows:
  assumes "kiss_idle d" "encode_kiss_frame f payload (kd_max_packet_bytes d) = Inr bytes"
    and "int (length payload) + 4 = kd_max_packet_bytes d"
  shows "\<exists>wire d'. kiss_feed d bytes =
      ([KissDropped KISS_OVERFLOW (KissFrameReached (length payload + 10) (kd_max_packet_bytes d))
          wire None (Some (kd_max_packet_bytes d))], d') \<and> kiss_idle d'"
proof -
  let ?packet = "pack_header f @ payload @ int_to_be 4 (uint (crc32c payload))"
  from assms(2) have bytes: "bytes = [KISS_FEND, KISS_TNC_DATA] @
      concat (map kiss_escape ?packet) @ [KISS_FEND]"
    by (auto simp: encode_kiss_frame_def res_bind_eq_Inr Let_def)
  obtain w where open_frame: "recv_all kiss_byte d [KISS_FEND, KISS_TNC_DATA] =
     ([], d\<lparr>kd_mode := STARTED, kd_first := False, kd_buffer := [], kd_wire := w @ [KISS_TNC_DATA]\<rparr>)"
    using kiss_opening[OF assms(1)] by blast
  let ?d = "d\<lparr>kd_mode := STARTED, kd_first := False, kd_buffer := [], kd_wire := w @ [KISS_TNC_DATA]\<rparr>"
  let ?d' = "?d\<lparr>kd_buffer := ?packet,
     kd_wire := w @ [KISS_TNC_DATA] @ concat (map kiss_escape ?packet)\<rparr>"
  have body: "recv_all kiss_byte ?d (concat (map kiss_escape ?packet)) = ([], ?d')"
    using kiss_escaped_run[of ?d ?packet] assms(3) by simp
  have "kiss_overflow ?d' = ([KissDropped KISS_OVERFLOW
      (KissFrameReached (length payload + 10) (kd_max_packet_bytes d)) (kd_wire ?d') None
      (Some (kd_max_packet_bytes d))], kiss_reset ?d')"
    using assms(3) by (simp add: kiss_overflow_def)
  then obtain d'' where "recv_all kiss_byte ?d' [KISS_FEND] = ([KissDropped KISS_OVERFLOW
      (KissFrameReached (length payload + 10) (kd_max_packet_bytes d)) (kd_wire ?d') None
      (Some (kd_max_packet_bytes d))], d'')" "kiss_idle d''"
    using assms(1) by (simp add: kiss_byte_def kiss_step_def kiss_reset_def kiss_idle_def)
  then show ?thesis
    unfolding kiss_feed_def bytes recv_all_append open_frame
    by (simp only: Let_def prod.case body append_Nil) blast
qed

section \<open>Properties\<close>

definition kiss_demo_fields :: csp_fields where
  "kiss_demo_fields = \<lparr>cf_priority = 1, cf_source = 3, cf_destination = 192, cf_destination_port = 11,
     cf_source_port = 48, cf_flags = 1\<rparr>"

definition kiss_demo_payload :: "byte list" where
  "kiss_demo_payload = [0xC0, 0xDB, 0xDC, 7]"

definition kiss_demo_bytes :: "byte list" where
  "kiss_demo_bytes = projr (encode_kiss_frame kiss_demo_fields kiss_demo_payload 16)"

definition kiss_demo_decoder :: kiss_decoder where
  "kiss_demo_decoder = projr (mk_kiss_decoder 64)"

lemma kiss_demo_encoded:
  "encode_kiss_frame kiss_demo_fields kiss_demo_payload 16 = Inr kiss_demo_bytes"
  by (simp add: kiss_demo_bytes_def encode_kiss_frame_def kiss_demo_payload_def Let_def)

lemma kiss_demo:
  "wf_csp_fields kiss_demo_fields" "cf_flags kiss_demo_fields AND CSP_FLAG_FRAGMENT = 0"
  "kiss_idle kiss_demo_decoder" "kiss_inv kiss_demo_decoder"
  "kd_mode kiss_demo_decoder = NOT_STARTED"
  "kd_max_packet_bytes kiss_demo_decoder = 64"
  by (simp_all add: kiss_demo_fields_def kiss_demo_decoder_def mk_kiss_decoder_def wf_csp_fields_def
      kiss_idle_def kiss_inv_def)

text \<open>
  A KISS decoder that is between frames turns the bytes of an encoded packet into exactly that
  packet and is between frames again, provided header, payload and checksum stay below its buffer
  limit; from a decoder that has seen nothing of a frame, the recorded wire bytes are those sent.
\<close>

theorem kiss_roundtrip:
  assumes "kiss_idle d" "wf_csp_fields f" "cf_flags f AND CSP_FLAG_FRAGMENT = 0"
    and "encode_kiss_frame f payload m = Inr bytes"
    and "int (length payload) + 4 < kd_max_packet_bytes d"
  shows "\<exists>wire d'. kiss_feed d bytes =
      ([KissPacket \<lparr>cp_fields = f, cp_payload = payload, cp_wire = wire\<rparr>], d') \<and>
     kd_mode d' = NOT_STARTED \<and> kd_max_packet_bytes d' = kd_max_packet_bytes d \<and>
     (kd_mode d = NOT_STARTED \<longrightarrow> wire = bytes)"
  using assms by (rule kiss_decode_encode)

lemma kiss_roundtrip_witness:
  "\<exists>d'. kiss_feed kiss_demo_decoder kiss_demo_bytes =
     ([KissPacket \<lparr>cp_fields = kiss_demo_fields, cp_payload = kiss_demo_payload,
        cp_wire = kiss_demo_bytes\<rparr>], d')"
proof -
  have "int (length kiss_demo_payload) + 4 < kd_max_packet_bytes kiss_demo_decoder"
    by (simp add: kiss_demo kiss_demo_payload_def)
  from kiss_roundtrip[OF kiss_demo(3,1,2) kiss_demo_encoded this] kiss_demo(5) show ?thesis by blast
qed

text \<open>
  C28: Two packets that differ only inside a window of at most four consecutive bytes have different
  CRC-32C checksums (the table-driven code), so such a corruption never keeps the checksum.
\<close>

theorem crc32c_detects_bursts:
  assumes "length bs = length cs" "length bs \<le> 4" "bs \<noteq> cs"
  shows "crc32c (pre @ bs @ post) \<noteq> crc32c (pre @ cs @ post)"
  using assms by (rule crc_window_differs)

lemma crc32c_detects_bursts_witness: "crc32c ([9] @ [1, 2] @ [7]) \<noteq> crc32c ([9] @ [2, 1] @ [7])"
  by (rule crc32c_detects_bursts) simp_all

text \<open>
  The table lookup is eight bit-serial steps of the reflected polynomial, for every register
  value and byte, and the code gives the published check value of CRC-32C.
\<close>

theorem crc32c_is_bit_serial:
  "crc32c data = foldl (\<lambda>v b. (crc_bit ^^ 8) (v XOR ucast b)) 0xFFFFFFFF data XOR 0xFFFFFFFF \<and>
   crc32c [0x31, 0x32, 0x33, 0x34, 0x35, 0x36, 0x37, 0x38, 0x39] = 0xE3069283"
proof -
  have "crc32c_update = (\<lambda>v b. (crc_bit ^^ 8) (v XOR ucast b))"
    by (intro ext) (rule crc32c_update_bits)
  then have "crc32c data =
      foldl (\<lambda>v b. (crc_bit ^^ 8) (v XOR ucast b)) 0xFFFFFFFF data XOR 0xFFFFFFFF"
    unfolding crc32c_def by (rule arg_cong)
  moreover have "crc32c [0x31, 0x32, 0x33, 0x34, 0x35, 0x36, 0x37, 0x38, 0x39] = 0xE3069283"
    by (simp add: crc32c_def crc32c_update_bits crc_byte crc_bit_def)
  ultimately show ?thesis by (rule conjI)
qed

text \<open>
  Feeding the decoder in pieces, however the bytes are split, gives the same events in the same
  order and the same state as feeding them at once.
\<close>

theorem kiss_feed_chunks:
  "kiss_feed d (concat chunks) =
     (let (evss, d') = fold (\<lambda>chunk (evss, d). let (evs, d') = kiss_feed d chunk in (evss @ [evs], d'))
        chunks ([], d)
      in (concat evss, d'))"
proof -
  have "(let (evss, d') = fold (\<lambda>chunk (evss, d). let (evs, d') = kiss_feed d chunk
            in (evss @ [evs], d')) chunks (evss0, d) in (concat evss, d')) =
        (let (evs, d') = kiss_feed d (concat chunks) in (concat evss0 @ evs, d'))" for evss0
    by (induction chunks arbitrary: evss0 d)
      (auto simp: kiss_feed_def recv_all_append Let_def case_prod_beta)
  from this[of "[]"] show ?thesis by (simp add: case_prod_beta)
qed

text \<open>
  C27: From any reachable decoder state and for any bytes, the buffer never outgrows the configured
  packet plus the header, and every packet delivered has valid header fields without the fragment
  flag, a payload below the limit, and wire bytes that start and end with the frame delimiter.
\<close>

theorem kiss_decoder_bounds:
  assumes "mk_kiss_decoder m = Inr d" "kiss_feed d bs = (evs, d')"
  shows "int (length (kd_buffer d')) \<le> m + 6 \<and>
     (\<forall>p. KissPacket p \<in> set evs \<longrightarrow>
        wf_csp_fields (cp_fields p) \<and> cf_flags (cp_fields p) AND CSP_FLAG_FRAGMENT = 0 \<and>
        int (length (cp_payload p)) + 4 < m \<and>
        hd (cp_wire p) = KISS_FEND \<and> last (cp_wire p) = KISS_FEND)"
  using kiss_feed_inv[OF _ assms(2)] mk_kiss_decoder_inv[OF assms(1)]
  by (fastforce simp: kiss_inv_def kiss_event_ok_def)

lemma kiss_decoder_bounds_witness:
  "int (length (kd_buffer (snd (kiss_feed kiss_demo_decoder [0xC0, 0, 1, 2, 3])))) \<le> 64 + 6"
proof -
  have "mk_kiss_decoder 64 = Inr kiss_demo_decoder"
    by (simp add: kiss_demo_decoder_def mk_kiss_decoder_def)
  from kiss_decoder_bounds[OF this surjective_pairing] show ?thesis by blast
qed

text \<open>
  A packet that fills the sender's limit exactly is accepted by the encoder and dropped, as an
  overflow, by a receiver configured with the same limit; the receiver is ready for the next frame.
\<close>

theorem kiss_full_packet_dropped:
  assumes "kiss_idle d" "encode_kiss_frame f payload (kd_max_packet_bytes d) = Inr bytes"
    and "int (length payload) + 4 = kd_max_packet_bytes d"
  shows "\<exists>wire d'. kiss_feed d bytes =
      ([KissDropped KISS_OVERFLOW (KissFrameReached (length payload + 10) (kd_max_packet_bytes d))
          wire None (Some (kd_max_packet_bytes d))], d') \<and> kiss_idle d'"
  using assms by (rule kiss_full_frame_overflows)

lemma kiss_full_packet_dropped_witness:
  "\<exists>bytes wire d'. kiss_feed (projr (mk_kiss_decoder 8)) bytes =
      ([KissDropped KISS_OVERFLOW (KissFrameReached 14 8) wire None (Some 8)], d') \<and> kiss_idle d'"
proof -
  let ?d = "projr (mk_kiss_decoder 8)"
  obtain bytes where "encode_kiss_frame kiss_demo_fields kiss_demo_payload (kd_max_packet_bytes ?d)
      = Inr bytes"
    by (simp add: mk_kiss_decoder_def encode_kiss_frame_def kiss_demo_payload_def Let_def)
  moreover have "kiss_idle ?d" "int (length kiss_demo_payload) + 4 = kd_max_packet_bytes ?d"
    "length kiss_demo_payload + 10 = 14" "kd_max_packet_bytes ?d = 8"
    by (simp_all add: mk_kiss_decoder_def kiss_idle_def kiss_demo_payload_def)
  ultimately show ?thesis using kiss_full_packet_dropped[of ?d] by metis
qed

text \<open>
  C26: Any sequence of packets sent back to back over KISS, with fields in range, none with the FRAGMENT bit in its
  flags, each encoded within a sender's limit below the receiver's, comes out of a decoder that was between frames
  unchanged and in the order sent, and the decoder is between frames again.
\<close>

theorem kiss_stream_delivered_in_order:
  assumes "emits_all kiss_emits m msgs bytes m'" "kiss_paired m d"
  shows "\<exists>evs d'. kiss_feed d bytes = (evs, d') \<and> List.map_filter kiss_delivered evs = msgs \<and>
     kiss_paired m' d'"
  using kiss_link.delivers_in_order[OF assms, of "fst (kiss_feed d bytes)" "snd (kiss_feed d bytes)"]
  by (simp add: kiss_feed_def) (metis prod.collapse)

lemma kiss_stream_delivered_in_order_witness:
  "\<exists>evs d'. kiss_feed kiss_demo_decoder (kiss_demo_bytes @ []) = (evs, d') \<and>
     List.map_filter kiss_delivered evs = [(kiss_demo_fields, kiss_demo_payload)] \<and>
     kiss_paired 16 d'"
proof -
  have "kiss_emits 16 (kiss_demo_fields, kiss_demo_payload) kiss_demo_bytes 16"
    by (simp add: kiss_emits_def kiss_demo kiss_demo_encoded)
  from kiss_stream_delivered_in_order[OF emits_more[where emits = kiss_emits, OF this emits_none]]
  show ?thesis by (simp add: kiss_paired_def kiss_demo)
qed

end
