(* ===== verification/CspLink.thy ===== *)
theory CspLink
  imports CspReassembly CspKiss
begin

text \<open>
  A CFP2 sender (\<^verbatim>\<open>CspFragmenter\<close>) and receiver (\<^verbatim>\<open>CspReassembler\<close>) as one link, and the
  end-to-end properties of the two wire formats: whole packets come out as they went in, in order,
  and a packet with a missing frame never comes out.
\<close>

section \<open>CFP2 as a link\<close>

definition cfp_recv ::
  "reassembler \<Rightarrow> can_frame \<times> int \<Rightarrow> reassembly_event list \<times> reassembler" where
  "cfp_recv r = (\<lambda>(frame, now). projr (feed r frame now))"

lemma cfp_recv_all: "feed_all r ws = Inr (recv_all cfp_recv r ws)"
proof (induction r ws rule: feed_all.induct)
  case (2 r frame now rest)
  obtain evs r1 where "feed r frame now = Inr (evs, r1)" using feed_total by blast
  with 2 show ?case by (simp add: cfp_recv_def case_prod_beta)
qed simp

definition cfp_emits ::
  "fragmenter \<Rightarrow> csp_fields \<times> byte list \<Rightarrow> (can_frame \<times> int) list \<Rightarrow> fragmenter \<Rightarrow> bool" where
  "cfp_emits fg msg ws fg' \<longleftrightarrow>
     wf_csp_fields (fst msg) \<and>
     (\<exists>sender frames ts.
        fragmenter_fragment fg (fst msg) (snd msg) sender = Inr (frames, fg') \<and>
        length ts = length frames \<and> ws = zip frames ts)"

definition cfp_delivered :: "reassembly_event \<Rightarrow> (csp_fields \<times> byte list) option" where
  "cfp_delivered e =
     (case e of
        EvComplete t frame packet s d \<Rightarrow> Some (dp_fields packet, dp_payload packet)
      | _ \<Rightarrow> None)"

definition cfp_paired :: "fragmenter \<Rightarrow> reassembler \<Rightarrow> bool" where
  "cfp_paired fg r \<longleftrightarrow>
     ra_partials r = [] \<and>
     (case ra_max_packet_bytes r of None \<Rightarrow> True | Some m \<Rightarrow> fg_max_packet_bytes fg \<le> m)"

lemma fragmenter_fragment_Inr:
  assumes "fragmenter_fragment fg f payload sender = Inr (frames, fg')"
  shows "\<exists>s count. fragment_packet f payload (Some s) count = Inr frames \<and>
     int (length payload) \<le> fg_max_packet_bytes fg \<and>
     fg_max_packet_bytes fg' = fg_max_packet_bytes fg"
  using assms by (auto simp: fragmenter_fragment_def res_bind_eq_Inr Let_def)

lemma map_filter_pending:
  "List.map_filter cfp_delivered (map pending_event ws) = []"
  by (induction ws) (auto simp: map_filter_simps cfp_delivered_def pending_event_def)

lemma map_filter_append:
  "List.map_filter g (xs @ ys) = List.map_filter g xs @ List.map_filter g ys"
  by (simp add: List.map_filter_def)

interpretation cfp_link: ordered_link cfp_emits cfp_recv cfp_delivered cfp_paired
proof unfold_locales
  fix fg msg ws fg' r evs r'
  assume paired: "cfp_paired fg r" and emits: "cfp_emits fg msg ws fg'"
    and recv: "recv_all cfp_recv r ws = (evs, r')"
  from emits obtain sender frames ts where
    sent: "fragmenter_fragment fg (fst msg) (snd msg) sender = Inr (frames, fg')"
    and ts: "length ts = length frames" and ws: "ws = zip frames ts"
    and wf: "wf_csp_fields (fst msg)"
    by (auto simp: cfp_emits_def)
  from fragmenter_fragment_Inr[OF sent] obtain s count where
    frag: "fragment_packet (fst msg) (snd msg) (Some s) count = Inr frames"
    and len: "int (length (snd msg)) \<le> fg_max_packet_bytes fg"
    and max: "fg_max_packet_bytes fg' = fg_max_packet_bytes fg" by blast
  have lim: "over_limit r (length (snd msg)) = None"
    using paired len by (auto simp: cfp_paired_def over_limit_def split: option.splits)
  have idle: "expire r t = ([], r)" for t
    using paired by (simp add: cfp_paired_def expire_def)
  have "feed_all r ws = Inr (map pending_event (butlast ws) @
      [complete_event (fst msg) (snd msg) frames (last ts)], r)"
    using feed_all_fragments[OF wf frag ts _ _ lim] paired
    by (simp add: idle ws cfp_paired_def)
  with recv have "evs = map pending_event (butlast ws) @
      [complete_event (fst msg) (snd msg) frames (last ts)]" "r' = r"
    by (simp_all add: cfp_recv_all)
  with paired max show "List.map_filter cfp_delivered evs = [msg] \<and> cfp_paired fg' r'"
    using map_filter_pending[of "butlast ws"]
    by (simp add: map_filter_append map_filter_simps cfp_paired_def split: option.splits)
      (simp_all add: cfp_delivered_def complete_event_def)
qed

section \<open>A packet with a missing frame\<close>

lemma fragment_frames_nth:
  assumes "wf_csp_fields f" "fragment_packet f payload sender pc = Inr frames" "j < length frames"
  shows "frame_fields (frames ! j) =
     fragment_can_fields f (sender_or_default f sender) pc (length frames) j \<and>
     fr_is_extended (frames ! j)"
proof -
  from fragment_packet_InrD[OF assms(2)] have ok: "cf_flags f AND CSP_FLAG_FRAGMENT = 0"
    "valid_sender sender" "pc \<in> {0..3}" by auto
  then have s: "sender_or_default f sender \<in> {0..0x3F}" using valid_sender_range by blast
  have frames: "frames = fragment_frames f (sender_or_default f sender) pc
      (length (packet_chunks f payload)) 0 (packet_chunks f payload)"
    using assms(2) fragment_packet_eq[OF assms(1) ok] by simp
  then have "j < length (packet_chunks f payload)" using assms(3) by simp
  then have "frames ! j = \<lparr>fr_can_id = pack_can_id (fragment_can_fields f
      (sender_or_default f sender) pc (length (packet_chunks f payload)) j),
      fr_data = packet_chunks f payload ! j, fr_is_extended = True\<rparr>"
    by (subst frames) (simp add: fragment_frames_def nth_enumerate_eq)
  with frames show ?thesis by (simp add: frame_fields_fragment[OF assms(1) s ok(3)])
qed

definition without_frame :: "nat \<Rightarrow> 'a list \<Rightarrow> 'a list" where
  "without_frame i xs = take i xs @ drop (Suc i) xs"

lemma without_frame_nth:
  "i < length xs \<Longrightarrow> k < length (without_frame i xs) \<Longrightarrow>
     without_frame i xs ! k = xs ! (if k < i then k else Suc k)"
  by (auto simp: without_frame_def nth_append min_def)

lemma length_without_frame: "i < length xs \<Longrightarrow> Suc (length (without_frame i xs)) = length xs"
  by (simp add: without_frame_def)

lemma no_closed_run_without_frame:
  assumes wf: "wf_csp_fields f" and frag: "fragment_packet f payload sender pc = Inr frames"
    and i: "i < length frames"
    and split: "without_frame i frames = pre @ run @ post" and run: "closed_run key run"
  shows False
proof -
  let ?n = "length frames" and ?at = "\<lambda>k. if k < i then k else Suc k"
  have run_ne: "run \<noteq> []" and good: "good_run key run"
    using run by (auto simp: closed_run_def good_run_def)
  have lens: "length pre + length run + length post = ?n - 1"
    using length_without_frame[OF i] split by simp
  have field: "frame_fields (run ! k) =
      fragment_can_fields f (sender_or_default f sender) pc ?n (?at (length pre + k))"
    if k: "k < length run" for k
  proof -
    have "run ! k = without_frame i frames ! (length pre + k)"
      using k by (simp add: split nth_append)
    also have "\<dots> = frames ! ?at (length pre + k)"
      using k split i by (intro without_frame_nth) auto
    finally show ?thesis using k lens fragment_frames_nth[OF wf frag] by auto
  qed
  have "ci_begin (frame_fields (run ! 0))"
    using good run_ne by (auto simp: good_run_def)
  then have pre: "length pre = 0" "0 < i"
    using field[of 0] run_ne by (auto simp: fragment_can_fields_def split: if_splits)
  have "ci_end (frame_fields (run ! (length run - 1)))"
    using run run_ne by (simp add: closed_run_def last_conv_nth)
  then have "?at (length run - 1) = ?n - 1"
    using field[of "length run - 1"] run_ne pre
    by (auto simp: fragment_can_fields_def split: if_splits)
  then have "i \<le> length run - 1" using lens pre i run_ne by (auto split: if_splits)
  then have "i < length run" using run_ne by (cases run) auto
  moreover from this have "ci_frame_count (frame_fields (run ! i)) = int (Suc i mod 8)"
    using field[of i] pre by (simp add: fragment_can_fields_def)
  moreover have "ci_frame_count (frame_fields (run ! i)) = int (i mod 8)" if "i < length run"
    using good pre that unfolding good_run_def by blast
  ultimately have "int (Suc i mod 8) = int (i mod 8)" by metis
  then have "Suc i mod 8 = i mod 8" by (rule of_nat_eq_iff[THEN iffD1])
  then show False by (simp add: mod_Suc split: if_splits)
qed

lemma lost_frame_delivers_nothing:
  assumes wf: "wf_csp_fields f" and frag: "fragment_packet f payload sender pc = Inr frames"
    and i: "i < length frames" and idle: "ra_partials r = []"
    and ts: "length ts = length (without_frame i frames)"
    and run: "feed_all r (zip (without_frame i frames) ts) = Inr (evs, r')"
  shows "List.map_filter cfp_delivered evs = []"
proof -
  have "delivered_ok r (map fst (zip (without_frame i frames) ts)) e" if "e \<in> set evs" for e
    using feed_all_history[of r "[]", OF _ _ run] idle that
    by (simp add: reassembler_inv_def history_ok_def)
  then have ok: "delivered_ok r (without_frame i frames) e" if "e \<in> set evs" for e
    using ts that by simp
  have "cfp_delivered e = None" if e: "e \<in> set evs" for e
  proof (cases e)
    case (EvComplete t fr packet s d)
    then obtain key where closed: "closed_run (connection_key (dp_can_fields packet)) (dp_frames packet)"
      and sub: "sublist (dp_frames packet) (filter (of_key key) (without_frame i frames))"
      using ok[OF e] by (auto simp: delivered_ok_def event_ok_def)
    let ?k = "fragment_key f (sender_or_default f sender) pc"
    have keys: "connection_key (frame_fields fr) = ?k \<and> fr_is_extended fr" if "fr \<in> set (without_frame i frames)" for fr
    proof -
      have "fr \<in> set frames" using that set_take_subset set_drop_subset
        by (fastforce simp: without_frame_def)
      then obtain j where "j < length frames" "fr = frames ! j" by (auto simp: in_set_conv_nth)
      then show ?thesis by (simp add: fragment_frames_nth[OF wf frag])
    qed
    have "filter (of_key key) (without_frame i frames) = (if key = ?k then
        without_frame i frames else [])"
      using keys by (auto simp: of_key_def filter_empty_conv filter_id_conv)
    moreover have "dp_frames packet \<noteq> []" using closed by (auto simp: closed_run_def good_run_def)
    ultimately have "sublist (dp_frames packet) (without_frame i frames)"
      using sub by (auto split: if_splits)
    then obtain pre post where "without_frame i frames = pre @ dp_frames packet @ post"
      by (auto simp: sublist_def)
    with no_closed_run_without_frame[OF wf frag i _ closed] show ?thesis by blast
  qed (simp_all add: cfp_delivered_def)
  then show ?thesis by (simp add: List.map_filter_def filter_empty_conv)
qed

section \<open>Properties\<close>

text \<open>A concrete packet, for the witnesses: twenty bytes from node 5 to node 10, three frames.\<close>

definition demo_fields :: csp_fields where
  "demo_fields = \<lparr>cf_priority = 2, cf_source = 5, cf_destination = 10, cf_destination_port = 7,
     cf_source_port = 33, cf_flags = 0\<rparr>"

definition demo_payload :: "byte list" where
  "demo_payload = [0xC0, 1, 2, 3, 0xDB, 5, 6, 7, 8, 9, 10, 11, 12, 13, 14, 15, 16, 17, 18, 19]"

definition demo_frames :: "can_frame list" where
  "demo_frames = projr (fragment_packet demo_fields demo_payload None 1)"

definition demo_receiver :: reassembler where
  "demo_receiver = projr (mk_reassembler (Some 256) CSP_V2_REASSEMBLY_TIMEOUT_US)"

lemma demo_fields_wf: "wf_csp_fields demo_fields"
  by (simp add: demo_fields_def wf_csp_fields_def)

lemma demo_frames_eq: "fragment_packet demo_fields demo_payload None 1 = Inr demo_frames"
  by code_simp

lemma demo_receiver_free:
  "ra_partials demo_receiver = []" "over_limit demo_receiver (length demo_payload) = None"
  "length demo_frames = 3"
  by code_simp+

text \<open>
  C5: Feeding the CFP2 frames of a packet to a reassembler with no packet in progress for that connection, whose size
  limit, if it has one, the payload does not exceed, at any times, gives first the timeouts the first frame triggers,
  then one pending event per frame before the last, then exactly the packet that was sent, and leaves no trace of it.
  The reassembler satisfies the invariant of its partial packets (as every reassembler that was fed frames from the
  start does), and the packet's fields are in range.
\<close>

theorem cfp_fragments_reassemble:
  assumes "wf_csp_fields f" "fragment_packet f payload sender pc = Inr frames"
    and "length ts = length frames" and "reassembler_inv r"
    and "map_of (ra_partials r) (fragment_key f (sender_or_default f sender) pc) = None"
    and "over_limit r (length payload) = None"
  shows "feed_all r (zip frames ts) =
     Inr (fst (expire r (hd ts)) @ map pending_event (butlast (zip frames ts)) @
            [complete_event f payload frames (last ts)],
          snd (expire r (hd ts)))"
  using assms by (intro feed_all_fragments) (auto simp: reassembler_inv_def)

lemma cfp_fragments_reassemble_witness:
  "feed_all demo_receiver (zip demo_frames [5, 6, 2000000]) =
     Inr (fst (expire demo_receiver 5) @
            map pending_event (butlast (zip demo_frames [5, 6, 2000000])) @
            [complete_event demo_fields demo_payload demo_frames 2000000],
          snd (expire demo_receiver 5))"
  using cfp_fragments_reassemble[OF demo_fields_wf demo_frames_eq, of "[5, 6, 2000000]" demo_receiver]
  by (simp add: demo_receiver_free reassembler_inv_def)

text \<open>
  C9: Every packet a fragmenter sends, one after the other with its running packet counter, comes
  out of an idle reassembler of at least the same size limit, unchanged and in the order sent.
\<close>

theorem cfp_stream_delivered_in_order:
  assumes "emits_all cfp_emits fg msgs ws fg'" and "cfp_paired fg r"
  shows "\<exists>evs r'. feed_all r ws = Inr (evs, r') \<and> List.map_filter cfp_delivered evs = msgs \<and>
     cfp_paired fg' r'"
  using cfp_link.delivers_in_order[OF assms] by (cases "recv_all cfp_recv r ws") (simp add: cfp_recv_all)

definition demo_fragmenter :: fragmenter where
  "demo_fragmenter = projr (mk_fragmenter 256)"

definition demo_sent :: "can_frame list \<times> fragmenter" where
  "demo_sent = projr (fragmenter_fragment demo_fragmenter demo_fields demo_payload None)"

lemma demo_emits:
  "cfp_emits demo_fragmenter (demo_fields, demo_payload) (zip (fst demo_sent) [1, 2, 3])
     (snd demo_sent)"
proof -
  have "fragmenter_fragment demo_fragmenter demo_fields demo_payload None = Inr demo_sent"
    by code_simp
  then have "fragmenter_fragment demo_fragmenter demo_fields demo_payload None =
      Inr (fst demo_sent, snd demo_sent)" by simp
  moreover have "length [1, 2, 3 :: int] = length (fst demo_sent)" by code_simp
  ultimately show ?thesis
    unfolding cfp_emits_def fst_conv snd_conv using demo_fields_wf by blast
qed

lemma cfp_stream_delivered_in_order_witness:
  "\<exists>evs r'. feed_all demo_receiver (zip (fst demo_sent) [1, 2, 3] @ []) = Inr (evs, r') \<and>
     List.map_filter cfp_delivered evs = [(demo_fields, demo_payload)] \<and>
     cfp_paired (snd demo_sent) r'"
  by (rule cfp_stream_delivered_in_order
      [OF emits_more[where emits = cfp_emits, OF demo_emits emits_none]]) code_simp

text \<open>
  C16: If one frame of a packet is lost, whichever it is, an idle reassembler completes no packet from
  the others, whatever their times.
\<close>

theorem cfp_lost_frame_delivers_nothing:
  assumes "wf_csp_fields f" "fragment_packet f payload sender pc = Inr frames" "i < length frames"
    and "ra_partials r = []" "length ts = length (without_frame i frames)"
    and "feed_all r (zip (without_frame i frames) ts) = Inr (evs, r')"
  shows "List.map_filter cfp_delivered evs = []"
  using assms by (rule lost_frame_delivers_nothing)

lemma cfp_lost_frame_delivers_nothing_witness:
  "List.map_filter cfp_delivered
     (fst (projr (feed_all demo_receiver (zip (without_frame 1 demo_frames) [5, 6])))) = []"
proof -
  let ?ws = "zip (without_frame 1 demo_frames) [5, 6]"
  obtain evs r' where run: "feed_all demo_receiver ?ws = Inr (evs, r')"
    by (metis cfp_recv_all prod.collapse)
  have "length [5, 6 :: int] = length (without_frame 1 demo_frames)" by code_simp
  from cfp_lost_frame_delivers_nothing[OF demo_fields_wf demo_frames_eq _ _ this run]
  show ?thesis
    unfolding run by (simp add: demo_receiver_free)
qed

text \<open>
  C15: Whatever frames arrive at whatever times, every packet a new reassembler completes is the
  header and payload read from a closed CFP2 run (first frame first, counters in sequence, end flag
  on the last frame only), that run is a contiguous block of the frames received for one connection,
  the packet respects the size limit and does not carry the fragment flag, and the packets in
  progress stay well formed.
\<close>

theorem reassembly_sound:
  assumes "mk_reassembler limit timeout = Inr r" "feed_all r frs = Inr (evs, r')"
  shows "reassembler_inv r' \<and>
     (\<forall>t fr packet s d. EvComplete t fr packet s d \<in> set evs \<longrightarrow>
        closed_run (connection_key (dp_can_fields packet)) (dp_frames packet) \<and>
        assemble (dp_frames packet) = Inr packet \<and>
        cf_flags (dp_fields packet) AND CSP_FLAG_FRAGMENT = 0 \<and>
        fr = last (dp_frames packet) \<and>
        (\<forall>m. limit = Some m \<longrightarrow> int (length (dp_payload packet)) \<le> m) \<and>
        (\<exists>key. sublist (dp_frames packet) (filter (of_key key) (map fst frs))))"
proof -
  have r: "ra_partials r = []" "ra_max_packet_bytes r = limit"
    using assms(1) by (auto simp: mk_reassembler_def res_bind_eq_Inr validate_max_packet_bytes_def
        split: option.splits if_splits)
  have hist: "reassembler_inv r' \<and> (\<forall>e \<in> set evs. delivered_ok r (map fst frs) e)"
    using feed_all_history[of r "[]", OF _ _ assms(2)] r
    by (simp add: reassembler_inv_def history_ok_def)
  have flag: "cf_flags (dp_fields packet) AND CSP_FLAG_FRAGMENT = 0"
    if asm: "assemble (dp_frames packet) = Inr packet" for packet
  proof -
    obtain f where "cf_flags f AND CSP_FLAG_FRAGMENT = 0"
      and "\<lparr>dp_fields = f, dp_payload = drop 4 (frames_bytes (dp_frames packet)),
        dp_frame = hd (dp_frames packet), dp_can_fields = frame_fields (hd (dp_frames packet)),
        dp_frames = dp_frames packet\<rparr> = packet"
      using asm by (auto simp: assemble_def Let_def res_bind_eq_Inr validate_csp_fields_def
          res_check_def split: if_splits)
    then show ?thesis by (metis decoded_packet.select_convs(1))
  qed
  show ?thesis
    using hist flag
    by (fastforce simp: delivered_ok_def event_ok_def over_limit_def r split: option.splits if_splits)
qed

lemma reassembly_sound_witness:
  "\<exists>evs r'. feed_all demo_receiver (zip demo_frames [5, 6, 7]) = Inr (evs, r') \<and> reassembler_inv r'"
proof -
  obtain evs r' where run: "feed_all demo_receiver (zip demo_frames [5, 6, 7]) = Inr (evs, r')"
    by (metis cfp_recv_all prod.collapse)
  have "mk_reassembler (Some 256) CSP_V2_REASSEMBLY_TIMEOUT_US = Inr demo_receiver" by code_simp
  from reassembly_sound[OF this run] run show ?thesis by blast
qed

text \<open>
  A single-frame packet decodes to exactly the fields, payload and sender it was packed with, and
  packing it through the fragmenter's path gives the same frame.
\<close>

theorem single_frame_roundtrip:
  assumes "wf_csp_fields f" "pack f payload sender pc = Inr fr"
  shows "unpack (fr_can_id fr) (fr_data fr) (fr_is_extended fr) = Inr
    \<lparr>dp_fields = f, dp_payload = payload, dp_frame = fr,
     dp_can_fields = single_frame_fields f (sender_or_default f sender) pc, dp_frames = [fr]\<rparr> \<and>
     fragment_packet f payload sender pc = Inr [fr]"
proof -
  have "length payload \<le> 4" using assms by (simp add: pack_eq_Inr)
  moreover have "mk_can_frame (fr_can_id fr) (fr_data fr) (fr_is_extended fr) = Inr fr"
    using assms by (auto simp: pack_eq_Inr mk_can_frame_eq_Inr wf_can_frame_def pack_can_id_range)
  ultimately show ?thesis
    using decode_pack_frame[OF assms] assms(2) by (simp add: unpack_def fragment_packet_single)
qed

lemma single_frame_roundtrip_witness:
  "fragment_packet demo_fields [1, 2] None 3 = Inr [projr (pack demo_fields [1, 2] None 3)]"
proof -
  have "pack demo_fields [1, 2] None 3 = Inr (projr (pack demo_fields [1, 2] None 3))" by code_simp
  from single_frame_roundtrip[OF demo_fields_wf this] show ?thesis by blast
qed

text \<open>
  The 29-bit CFP2 identifier and its seven fields determine each other: unpacking a packed
  identifier gives the fields back, every 29-bit number unpacks to valid fields, and packing those
  gives the number back.
\<close>

theorem can_id_bijection:
  "(wf_can_id_fields f \<longrightarrow> decode_can_id (pack_can_id f) = Inr f) \<and>
   (0 \<le> i \<and> i \<le> EXTENDED_CAN_ID_MAX \<longrightarrow>
     (\<exists>g. decode_can_id i = Inr g \<and> wf_can_id_fields g \<and> pack_can_id g = i)) \<and>
   (\<not> (0 \<le> i \<and> i \<le> EXTENDED_CAN_ID_MAX) \<longrightarrow>
     decode_can_id i = Inl (UintOutOfRange ''can_id'' EXTENDED_CAN_ID_MAX i))"
proof -
  have "\<exists>g. unpack_can_id i = Inr g \<and> wf_can_id_fields g"
  proof -
    obtain g where g: "unpack_can_id i = Inr g" using unpack_can_id_total by blast
    moreover have "wf_can_id_fields g"
      using g unfolding unpack_can_id_def mk_can_id_fields_eq_Inr by blast
    ultimately show ?thesis by blast
  qed
  then show ?thesis
    using pack_can_id_range[of f] pack_unpack_can_id[of i]
    by (auto simp: decode_can_id_def unpack_pack_can_id validate_uint_def)
qed

lemma can_id_bijection_witness:
  "\<exists>g. decode_can_id 0x12345678 = Inr g \<and> wf_can_id_fields g \<and> pack_can_id g = 0x12345678"
  using can_id_bijection[of _ "0x12345678"] by simp

text \<open>
  Fragmenting a valid packet always succeeds within the sender and counter ranges; every frame
  is a valid extended CAN frame of at most eight bytes, their data put together are the header
  extension and the payload, and there are 1 + ceil((n - 4) / 8) of them for n payload bytes.
\<close>

theorem fragments_valid:
  assumes "wf_csp_fields f" "cf_flags f AND CSP_FLAG_FRAGMENT = 0" "valid_sender sender"
    and "pc \<in> {0..3}"
  shows "\<exists>frames. fragment_packet f payload sender pc = Inr frames \<and>
     (\<forall>fr \<in> set frames. wf_can_frame fr \<and> fr_is_extended fr) \<and>
     frames_bytes frames = int_to_be 4 (pack_header_extension f) @ payload \<and>
     length frames = 1 + (length payload - 4 + 7) div 8"
proof -
  let ?cs = "packet_chunks f payload"
  let ?frs = "fragment_frames f (sender_or_default f sender) pc (length ?cs) 0 ?cs"
  have "map fr_data ?frs = ?cs"
    by (rule nth_equalityI) (simp_all add: fragment_frames_def nth_enumerate_eq)
  then have "frames_bytes ?frs = int_to_be 4 (pack_header_extension f) @ payload"
    by (simp add: frames_bytes_def packet_chunks_concat)
  moreover have "\<forall>fr \<in> set ?frs. wf_can_frame fr \<and> fr_is_extended fr"
    by (auto simp: fragment_frames_def wf_can_frame_def pack_can_id_range in_set_enumerate_eq
        intro: packet_chunks_lengths[OF nth_mem])
  ultimately show ?thesis
    using fragment_packet_eq[OF assms] by (simp add: length_packet_chunks)
qed

lemma fragments_valid_witness:
  "\<exists>frames. fragment_packet demo_fields demo_payload None 1 = Inr frames \<and>
     length frames = 1 + (length demo_payload - 4 + 7) div 8"
  using fragments_valid[OF demo_fields_wf, of None 1 demo_payload]
  by (auto simp: demo_fields_def valid_sender_def)

end
