(* ===== verification/PyValue.thy ===== *)
theory PyValue
  imports PyFloat
begin

text \<open>
  The Python values a scenario, a payload or a telemetry signal may carry (the source types them as
  \<^verbatim>\<open>object\<close>), with the language's equality, ordering, truth value and \<^verbatim>\<open>str()\<close> on them. A bool is an
  int in arithmetic and comparison, an int and a float compare exactly, \<^verbatim>\<open>nan\<close> equals nothing, and a
  dictionary is an insertion-ordered association list. Code outside the modelled repository is never
  represented here: these are the operations of the language itself.
\<close>

section \<open>Values\<close>

datatype py_val =
    PNone
  | PBool bool
  | PInt int
  | PFloat pyfloat
  | PStr string
  | PBytes "byte list"
  | PList "py_val list"
  | PDict "(py_val \<times> py_val) list"

text \<open>The numeric view of a value: exact rationals, infinities and nan.\<close>

datatype py_number = NumNaN | NumInf bool | NumRat rat

fun py_num :: "py_val \<Rightarrow> py_number option" where
  "py_num (PBool b) = Some (NumRat (if b then 1 else 0))"
| "py_num (PInt n) = Some (NumRat (of_int n))"
| "py_num (PFloat FNaN) = Some NumNaN"
| "py_num (PFloat (FInf s)) = Some (NumInf s)"
| "py_num (PFloat (FFin s m)) = Some (NumRat (sgn_mag s m))"
| "py_num _ = None"

fun num_eq :: "py_number \<Rightarrow> py_number \<Rightarrow> bool" where
  "num_eq (NumRat a) (NumRat b) \<longleftrightarrow> a = b"
| "num_eq (NumInf s) (NumInf t) \<longleftrightarrow> s = t"
| "num_eq _ _ \<longleftrightarrow> False"

fun num_less :: "py_number \<Rightarrow> py_number \<Rightarrow> bool" where
  "num_less (NumRat a) (NumRat b) \<longleftrightarrow> a < b"
| "num_less (NumRat a) (NumInf t) \<longleftrightarrow> \<not> t"
| "num_less (NumInf s) (NumRat b) \<longleftrightarrow> s"
| "num_less (NumInf s) (NumInf t) \<longleftrightarrow> s \<and> \<not> t"
| "num_less _ _ \<longleftrightarrow> False"

section \<open>Equality, ordering, truth\<close>

lemma size_zip_fst: "(x, y) \<in> set (zip xs ys) \<Longrightarrow> size x < size_list size xs + (1::nat)"
  by (auto dest!: set_zip_leftD size_list_estimation'[where f = size and y = "size x"])

lemma size_item: "(k, v) \<in> set xs \<Longrightarrow>
    size k + size v < size_list (size_prod size size) xs + (1::nat)"
  using size_list_estimation'[of "(k, v)" xs "size k + size v" "size_prod size size"] by auto

text \<open>\<^verbatim>\<open>a == b\<close>; two dictionaries are equal when they have the same size and the same items.\<close>

function py_eq :: "py_val \<Rightarrow> py_val \<Rightarrow> bool" where
  "py_eq a b =
     (case (py_num a, py_num b) of
        (Some m, Some n) \<Rightarrow> num_eq m n
      | _ \<Rightarrow>
          (case (a, b) of
             (PList xs, PList ys) \<Rightarrow>
               length xs = length ys \<and> list_all (\<lambda>(x, y). py_eq x y) (zip xs ys)
           | (PDict xs, PDict ys) \<Rightarrow>
               length xs = length ys \<and>
               list_all (\<lambda>(k, v). list_ex (\<lambda>(k', v'). py_eq k k' \<and> py_eq v v') ys) xs
           | (PNone, PNone) \<Rightarrow> True
           | (PStr s, PStr t) \<Rightarrow> s = t
           | (PBytes s, PBytes t) \<Rightarrow> s = t
           | _ \<Rightarrow> False))"
  by pat_completeness auto

termination
  by (relation "measure (\<lambda>(a, b). size a)")
    (auto dest: size_zip_fst size_item)

declare py_eq.simps [simp del]

text \<open>Lexicographic comparison of strings by code point and of bytes by value.\<close>

fun list_less :: "('a \<Rightarrow> nat) \<Rightarrow> 'a list \<Rightarrow> 'a list \<Rightarrow> bool" where
  "list_less f _ [] \<longleftrightarrow> False"
| "list_less f [] (_ # _) \<longleftrightarrow> True"
| "list_less f (x # xs) (y # ys) \<longleftrightarrow> f x < f y \<or> f x = f y \<and> list_less f xs ys"

definition str_less :: "string \<Rightarrow> string \<Rightarrow> bool" where
  "str_less = list_less of_char"

lemma size_found: "find P (zip xs ys) = Some (x, y) \<Longrightarrow> size x < Suc (size_list size xs)"
  by (metis (no_types, lifting) Suc_eq_plus1 find_Some_iff nth_mem size_zip_fst)

text \<open>
  \<^verbatim>\<open>a < b\<close> (\<open>strict\<close>) and \<^verbatim>\<open>a <= b\<close>, which raise \<^verbatim>\<open>TypeError\<close> when the two are not comparable. Lists
  are compared at the first place where they differ, then by length.
\<close>

function py_order :: "bool \<Rightarrow> py_val \<Rightarrow> py_val \<Rightarrow> py_exn + bool" where
  "py_order strict a b =
     (case (py_num a, py_num b) of
        (Some m, Some n) \<Rightarrow> Inr (num_less m n \<or> \<not> strict \<and> num_eq m n)
      | _ \<Rightarrow>
          (case (a, b) of
             (PStr s, PStr t) \<Rightarrow> Inr (str_less s t \<or> \<not> strict \<and> s = t)
           | (PBytes s, PBytes t) \<Rightarrow> Inr (list_less unat s t \<or> \<not> strict \<and> s = t)
           | (PList xs, PList ys) \<Rightarrow>
               (case find (\<lambda>(x, y). \<not> py_eq x y) (zip xs ys) of
                  None \<Rightarrow> Inr (length xs < length ys \<or> \<not> strict \<and> length xs = length ys)
                | Some (x, y) \<Rightarrow> py_order strict x y)
           | _ \<Rightarrow> Inl PyTypeError))"
  by pat_completeness auto

termination
  by (relation "measure (\<lambda>(_, a, _). size a)")
    (auto dest!: size_found)

declare py_order.simps [simp del]

definition py_less :: "py_val \<Rightarrow> py_val \<Rightarrow> py_exn + bool" where
  "py_less a b = py_order True a b"

definition py_le :: "py_val \<Rightarrow> py_val \<Rightarrow> py_exn + bool" where
  "py_le a b = py_order False a b"

fun py_truth :: "py_val \<Rightarrow> bool" where
  "py_truth PNone = False"
| "py_truth (PBool b) = b"
| "py_truth (PInt n) = (n \<noteq> 0)"
| "py_truth (PFloat x) = (\<not> fl_eq x (FFin False 0))"
| "py_truth (PStr s) = (s \<noteq> [])"
| "py_truth (PBytes s) = (s \<noteq> [])"
| "py_truth (PList s) = (s \<noteq> [])"
| "py_truth (PDict s) = (s \<noteq> [])"

text \<open>\<^verbatim>\<open>isinstance(v, int | float) and not isinstance(v, bool)\<close>.\<close>

fun is_real_number :: "py_val \<Rightarrow> bool" where
  "is_real_number (PInt _) = True"
| "is_real_number (PFloat _) = True"
| "is_real_number _ = False"

text \<open>\<^verbatim>\<open>float(v)\<close> of a number.\<close>

fun py_float :: "py_val \<Rightarrow> py_exn + pyfloat" where
  "py_float (PInt n) = int_to_float n"
| "py_float (PBool b) = int_to_float (if b then 1 else 0)"
| "py_float (PFloat x) = Inr x"
| "py_float _ = Inl PyTypeError"

text \<open>A value whose float, if it is one, is a binary64 number.\<close>

fun pv_wf :: "py_val \<Rightarrow> bool" where
  "pv_wf (PFloat x) = fl_wf x"
| "pv_wf _ = True"

lemma py_float_wf: "pv_wf v \<Longrightarrow> py_float v = Inr x \<Longrightarrow> fl_wf x"
  by (cases v) (auto dest: fl_wf_int_to_float)

definition dict_get :: "(py_val \<times> py_val) list \<Rightarrow> string \<Rightarrow> py_val option" where
  "dict_get d k = map_of d (PStr k)"

section \<open>Decimal text\<close>

text \<open>The decimal digits of a non-negative integer.\<close>

function int_digits :: "int \<Rightarrow> string" where
  "int_digits n =
     (if n < 10 then [char_of (48 + n)] else int_digits (n div 10) @ [char_of (48 + n mod 10)])"
  by pat_completeness auto

termination by (relation "measure nat") auto

declare int_digits.simps [simp del]

definition int_str :: "int \<Rightarrow> string" where
  "int_str n = (if n < 0 then ''-'' @ int_digits (- n) else int_digits n)"

text \<open>
  \<^verbatim>\<open>repr\<close> of a float: the shortest decimal that reads back as the same double, the nearest one when
  several have that length, written with an exponent below 1e-4 and from 1e16. \<open>dec_exp\<close> is the
  decimal exponent, \<open>dec_digits n m\<close> the \<open>n\<close>-digit candidates around \<open>m\<close> that read back.
\<close>

fun dec_exp_up :: "nat \<Rightarrow> rat \<Rightarrow> int \<Rightarrow> int" where
  "dec_exp_up 0 m e = e"
| "dec_exp_up (Suc k) m e = (if 10 powi (e + 1) \<le> m then dec_exp_up k m (e + 1) else e)"

fun dec_exp_down :: "nat \<Rightarrow> rat \<Rightarrow> int \<Rightarrow> int" where
  "dec_exp_down 0 m e = e"
| "dec_exp_down (Suc k) m e = (if m < 10 powi e then dec_exp_down k m (e - 1) else e)"

definition dec_exp :: "rat \<Rightarrow> int" where
  "dec_exp m = (if 1 \<le> m then dec_exp_up 400 m 0 else dec_exp_down 400 m 0)"

definition dec_digits :: "nat \<Rightarrow> rat \<Rightarrow> int option" where
  "dec_digits n m =
     (let unit = 10 powi (dec_exp m - int n + 1); low = \<lfloor>m / unit\<rfloor>;
          ok = (\<lambda>d. fl64 False (of_int d * unit) = FFin False m)
      in if ok low \<and> ok (low + 1)
         then Some (if m - of_int low * unit \<le> of_int (low + 1) * unit - m then low else low + 1)
         else if ok low then Some low
         else if ok (low + 1) then Some (low + 1)
         else None)"

fun first_digits :: "nat list \<Rightarrow> rat \<Rightarrow> (nat \<times> int) option" where
  "first_digits [] m = None"
| "first_digits (n # ns) m =
     (case dec_digits n m of None \<Rightarrow> first_digits ns m | Some d \<Rightarrow> Some (n, d))"

definition format_decimal :: "string \<Rightarrow> int \<Rightarrow> string" where
  "format_decimal ds e =
     (if - 4 \<le> e \<and> e < 16
      then if 0 \<le> e
           then let k = nat e + 1;
                    whole = take k ds @ replicate (k - length ds) CHR ''0'';
                    frac = drop k ds
                in whole @ ''.'' @ (if frac = [] then ''0'' else frac)
           else ''0.'' @ replicate (nat (- e) - 1) CHR ''0'' @ ds
      else take 1 ds @ (if drop 1 ds = [] then [] else ''.'' @ drop 1 ds) @ ''e'' @
           (if e < 0 then ''-'' else ''+'') @
           (if \<bar>e\<bar> < 10 then ''0'' else []) @ int_digits \<bar>e\<bar>)"

definition mag_repr :: "rat \<Rightarrow> string" where
  "mag_repr m =
     (if m = 0 then ''0.0''
      else case first_digits [1..<18] m of
             None \<Rightarrow> []
           | Some (n, d) \<Rightarrow>
               let ds = int_digits d
               in format_decimal (rev (dropWhile (\<lambda>c. c = CHR ''0'') (rev ds)))
                    (dec_exp m + int (length ds) - int n))"

fun float_repr :: "pyfloat \<Rightarrow> string" where
  "float_repr FNaN = ''nan''"
| "float_repr (FInf s) = (if s then ''-inf'' else ''inf'')"
| "float_repr (FFin s m) = (if s then ''-'' else []) @ mag_repr m"

text \<open>\<^verbatim>\<open>str(v)\<close> of a scalar; \<open>None\<close> for a container or bytes, whose text is not modelled.\<close>

fun py_str :: "py_val \<Rightarrow> string option" where
  "py_str PNone = Some ''None''"
| "py_str (PBool b) = Some (if b then ''True'' else ''False'')"
| "py_str (PInt n) = Some (int_str n)"
| "py_str (PFloat x) = Some (float_repr x)"
| "py_str (PStr s) = Some s"
| "py_str _ = None"

section \<open>Text\<close>

text \<open>
  \<^verbatim>\<open>str.strip()\<close>, \<^verbatim>\<open>str.lower()\<close>, \<^verbatim>\<open>str.split(sep)\<close> and \<^verbatim>\<open>int(text)\<close>. A \<open>char\<close> is a code point
  below 256; the program's own texts (identifiers, units, hexadecimal digits) are ASCII.
\<close>

definition is_space :: "char \<Rightarrow> bool" where
  "is_space c =
     (let n = of_char c :: nat in (9 \<le> n \<and> n \<le> 13) \<or> (28 \<le> n \<and> n \<le> 32) \<or> n = 133 \<or> n = 160)"

definition str_strip :: "string \<Rightarrow> string" where
  "str_strip s = rev (dropWhile is_space (rev (dropWhile is_space s)))"

definition char_lower :: "char \<Rightarrow> char" where
  "char_lower c =
     (let n = of_char c :: nat
      in if (65 \<le> n \<and> n \<le> 90) \<or> (192 \<le> n \<and> n \<le> 222 \<and> n \<noteq> 215) then char_of (n + 32) else c)"

definition str_lower :: "string \<Rightarrow> string" where
  "str_lower s = map char_lower s"

definition is_digit :: "char \<Rightarrow> bool" where
  "is_digit c = (let n = of_char c :: nat in 48 \<le> n \<and> n \<le> 57)"

definition is_letter :: "char \<Rightarrow> bool" where
  "is_letter c = (let n = of_char c :: nat in (65 \<le> n \<and> n \<le> 90) \<or> (97 \<le> n \<and> n \<le> 122))"

definition digit_value :: "char \<Rightarrow> int" where
  "digit_value c = of_char c - 48"

definition digits_value :: "string \<Rightarrow> int" where
  "digits_value ds = foldl (\<lambda>n d. 10 * n + digit_value d) 0 ds"

fun str_split :: "char \<Rightarrow> string \<Rightarrow> string list" where
  "str_split sep [] = [[]]"
| "str_split sep (c # cs) =
     (if c = sep then [] # str_split sep cs
      else case str_split sep cs of p # ps \<Rightarrow> (c # p) # ps | [] \<Rightarrow> [[c]])"

text \<open>An underscore may stand between two digits.\<close>

fun underscored_digits :: "string \<Rightarrow> string option" where
  "underscored_digits [] = None"
| "underscored_digits [c] = (if is_digit c then Some [c] else None)"
| "underscored_digits (c # d # cs) =
     (if \<not> is_digit c then None
      else if d = CHR ''_''
      then (if cs = [] then None else map_option (Cons c) (underscored_digits cs))
      else map_option (Cons c) (underscored_digits (d # cs)))"

definition py_int_of_str :: "string \<Rightarrow> int option" where
  "py_int_of_str text =
     (case str_strip text of
        [] \<Rightarrow> None
      | c # cs \<Rightarrow>
          if c = CHR ''-'' then map_option (\<lambda>ds. - digits_value ds) (underscored_digits cs)
          else if c = CHR ''+'' then map_option digits_value (underscored_digits cs)
          else map_option digits_value (underscored_digits (c # cs)))"

text \<open>Writing an integer and reading it back.\<close>

lemma of_char_digit: "0 \<le> d \<Longrightarrow> d < 10 \<Longrightarrow> of_char (char_of (48 + d) :: char) = (48 + d :: int)"
  by simp

lemma is_digit_char_of: "0 \<le> d \<Longrightarrow> d < 10 \<Longrightarrow> is_digit (char_of (48 + d :: int))"
proof -
  assume "0 \<le> d" "d < 10"
  then have "d = 0 \<or> d = 1 \<or> d = 2 \<or> d = 3 \<or> d = 4 \<or> d = 5 \<or> d = 6 \<or> d = 7 \<or> d = 8 \<or> d = 9"
    by presburger
  then show ?thesis by (elim disjE) (simp_all add: is_digit_def char_of_def)
qed

lemma digit_value_char_of: "0 \<le> d \<Longrightarrow> d < 10 \<Longrightarrow> digit_value (char_of (48 + d :: int)) = d"
  by (simp add: digit_value_def)

lemma int_digits_digits: "0 \<le> n \<Longrightarrow> \<forall>c \<in> set (int_digits n). is_digit c"
proof (induction n rule: int_digits.induct)
  case (1 n)
  show ?case
  proof (cases "n < 10")
    case True
    with 1 show ?thesis by (subst int_digits.simps) (simp add: is_digit_char_of)
  next
    case False
    with 1 show ?thesis by (subst int_digits.simps) (simp add: is_digit_char_of)
  qed
qed

lemma int_digits_ne [simp]: "int_digits n \<noteq> []"
  by (subst int_digits.simps) simp

lemma digits_value_snoc: "digits_value (ds @ [d]) = 10 * digits_value ds + digit_value d"
  by (simp add: digits_value_def)

lemma digits_value_int_digits: "0 \<le> n \<Longrightarrow> digits_value (int_digits n) = n"
proof (induction n rule: int_digits.induct)
  case (1 n)
  show ?case
  proof (cases "n < 10")
    case True
    with 1 show ?thesis
      by (subst int_digits.simps) (simp add: digits_value_def digit_value_char_of)
  next
    case False
    with 1 show ?thesis
      by (subst int_digits.simps) (simp add: digits_value_snoc digit_value_char_of)
  qed
qed

lemma underscored_plain:
  "\<forall>c \<in> set ds. is_digit c \<Longrightarrow> ds \<noteq> [] \<Longrightarrow> underscored_digits ds = Some ds"
  by (induction ds rule: underscored_digits.induct) (auto simp: is_digit_def Let_def)

lemma strip_plain: "\<forall>c \<in> set s. \<not> is_space c \<Longrightarrow> str_strip s = s"
proof -
  assume a: "\<forall>c \<in> set s. \<not> is_space c"
  then have "dropWhile is_space s = s" by (cases s) auto
  moreover have "dropWhile is_space (rev s) = rev s" using a last_in_set[of s] by (auto simp: dropWhile_eq_self_iff hd_rev)
  ultimately show ?thesis by (simp add: str_strip_def)
qed

lemma digit_not_space: "is_digit c \<Longrightarrow> \<not> is_space c"
  by (auto simp: is_digit_def is_space_def Let_def)

lemma minus_not_space: "\<not> is_space CHR ''-''"
  by (simp add: is_space_def)

lemma py_int_of_int_str: "py_int_of_str (int_str n) = Some n"
proof -
  have digits: "\<forall>c \<in> set (int_digits m). is_digit c" if "0 \<le> m" for m
    using that by (rule int_digits_digits)
  have strip: "str_strip (int_str n) = int_str n"
    using digits[of n] digits[of "- n"]
    by (intro strip_plain) (auto simp: int_str_def digit_not_space minus_not_space)
  show ?thesis
  proof (cases "n < 0")
    case True
    with digits[of "- n"] strip show ?thesis
      by (simp add: py_int_of_str_def int_str_def underscored_plain digits_value_int_digits)
  next
    case False
    then obtain c cs where ds: "int_digits n = c # cs" using int_digits_ne by (cases "int_digits n") auto
    with digits[of n] False have "is_digit c" by simp
    then have "c \<noteq> CHR ''-''" "c \<noteq> CHR ''+''" by (auto simp: is_digit_def)
    with False strip ds digits[of n] digits_value_int_digits[of n] show ?thesis
      by (simp add: py_int_of_str_def int_str_def underscored_plain)
  qed
qed

end
