(* ===== verification/SignalCodec.thy ===== *)
theory SignalCodec
  imports PyValue Interfaces
begin

text \<open>
  The byte-aligned scalar codec of \<^verbatim>\<open>protocol/signal_codec.py\<close> (fields, layouts, the scale and
  offset conversion over binary64) and its bridge to the telemetry configuration,
  \<^verbatim>\<open>protocol/telemetry_codec.py\<close> (enum labels). A \<open>signal_error\<close> constructor is one raise of the
  source; \<open>SigUncaught\<close> is an exception of the language that the source lets escape (it is not a
  \<^verbatim>\<open>SignalCodecError\<close>).
\<close>

section \<open>Fields\<close>

datatype signal_error =
    SigNameEmpty
  | SigNegative string
  | SigNotPositive string
  | SigDataType
  | SigEndian
  | SigScaleZero
  | SigFloatLength nat
  | SigNotReal string
  | SigNotFinite string
  | SigPayloadShort string nat nat nat
  | SigRawRange string int int int
  | SigNotInteger string
  | SigNotIntegral string pyfloat pyfloat pyfloat
  | SigFloatUnencodable string
  | SigDuplicateName string
  | SigOverlap string string nat
  | SigFrameShort nat nat
  | SigUnknownField string
  | SigMissing "string list"
  | SigUnexpected "string list"
  | SigLayoutShort nat nat
  | SigLayoutLength nat nat
  | SigUncaught py_exn

fun is_layout_error :: "signal_error \<Rightarrow> bool" where
  "is_layout_error e =
     (case e of
        SigNameEmpty \<Rightarrow> True | SigNegative _ \<Rightarrow> True | SigNotPositive _ \<Rightarrow> True
      | SigDataType \<Rightarrow> True | SigEndian \<Rightarrow> True | SigScaleZero \<Rightarrow> True | SigFloatLength _ \<Rightarrow> True
      | SigDuplicateName _ \<Rightarrow> True | SigOverlap _ _ _ \<Rightarrow> True | SigFrameShort _ _ \<Rightarrow> True
      | SigUnknownField _ \<Rightarrow> True | _ \<Rightarrow> False)"

definition is_signal_codec_error :: "signal_error \<Rightarrow> bool" where
  "is_signal_codec_error e = (case e of SigUncaught _ \<Rightarrow> False | _ \<Rightarrow> True)"

datatype signal_data_type = SIG_UINT | SIG_INT | SIG_FLOAT

datatype signal_endian = SIG_BIG | SIG_LITTLE

record signal_field =
  sf_name :: string
  sf_byte_offset :: nat
  sf_byte_length :: nat
  sf_data_type :: signal_data_type
  sf_endian :: signal_endian
  sf_scale :: pyfloat
  sf_offset :: pyfloat
  sf_units :: "string option"
  sf_min :: "py_val option"
  sf_max :: "py_val option"

definition lift_exn :: "py_exn + 'a \<Rightarrow> signal_error + 'a" where
  "lift_exn m = (case m of Inl e \<Rightarrow> Inl (SigUncaught e) | Inr x \<Rightarrow> Inr x)"

text \<open>\<^verbatim>\<open>float(value)\<close> of an int beyond the double range raises \<^verbatim>\<open>OverflowError\<close>, which nothing catches.\<close>

definition coerce_real :: "string \<Rightarrow> py_val \<Rightarrow> signal_error + pyfloat" where
  "coerce_real name v =
     res_bind (res_check (is_real_number v) (SigNotReal name)) (\<lambda>_.
     res_bind (lift_exn (py_float v)) (\<lambda>number.
     res_bind (res_check (fl_is_finite number) (SigNotFinite name)) (\<lambda>_. Inr number)))"

definition validate_non_negative :: "string \<Rightarrow> int \<Rightarrow> signal_error + nat" where
  "validate_non_negative name v = (if v < 0 then Inl (SigNegative name) else Inr (nat v))"

definition validate_positive :: "string \<Rightarrow> int \<Rightarrow> signal_error + nat" where
  "validate_positive name v =
     res_bind (validate_non_negative name v) (\<lambda>n.
       if n = 0 then Inl (SigNotPositive name) else Inr n)"

definition validate_metadata :: "string \<Rightarrow> py_val option \<Rightarrow> signal_error + unit" where
  "validate_metadata name v =
     (case v of None \<Rightarrow> Inr () | Some x \<Rightarrow> res_bind (coerce_real name x) (\<lambda>_. Inr ()))"

definition mk_signal_field ::
  "string \<Rightarrow> int \<Rightarrow> int \<Rightarrow> signal_data_type \<Rightarrow> signal_endian \<Rightarrow> py_val \<Rightarrow> py_val \<Rightarrow> string option
    \<Rightarrow> py_val option \<Rightarrow> py_val option \<Rightarrow> signal_error + signal_field" where
  "mk_signal_field name byte_offset byte_length data_type endian scale offset units minimum maximum =
     res_bind (res_check (name \<noteq> []) SigNameEmpty) (\<lambda>_.
     res_bind (validate_non_negative ''byte_offset'' byte_offset) (\<lambda>off.
     res_bind (validate_positive ''byte_length'' byte_length) (\<lambda>len.
     res_bind (coerce_real ''scale'' scale) (\<lambda>sc.
     res_bind (coerce_real ''offset'' offset) (\<lambda>os.
     res_bind (res_check (\<not> fl_eq sc FL_ZERO) SigScaleZero) (\<lambda>_.
     res_bind (res_check (data_type = SIG_FLOAT \<longrightarrow> len \<in> {4, 8}) (SigFloatLength len)) (\<lambda>_.
     res_bind (validate_metadata ''min'' minimum) (\<lambda>_.
     res_bind (validate_metadata ''max'' maximum) (\<lambda>_.
       Inr \<lparr>sf_name = name, sf_byte_offset = off, sf_byte_length = len, sf_data_type = data_type,
            sf_endian = endian, sf_scale = sc, sf_offset = os, sf_units = units,
            sf_min = minimum, sf_max = maximum\<rparr>)))))))))"

definition sf_end_byte :: "signal_field \<Rightarrow> nat" where
  "sf_end_byte f = sf_byte_offset f + sf_byte_length f"

definition sf_signed :: "signal_field \<Rightarrow> bool" where
  "sf_signed f \<longleftrightarrow> sf_data_type f = SIG_INT"

definition sf_plain :: "signal_field \<Rightarrow> bool" where
  "sf_plain f \<longleftrightarrow> fl_eq (sf_scale f) FL_ONE \<and> fl_eq (sf_offset f) FL_ZERO"

definition integer_raw_range :: "nat \<Rightarrow> bool \<Rightarrow> int \<times> int" where
  "integer_raw_range byte_length sgn_ext =
     (let width = byte_length * 8
      in if sgn_ext then (- (2 ^ (width - 1)), 2 ^ (width - 1) - 1) else (0, 2 ^ width - 1))"

definition bytes_of_int :: "signal_endian \<Rightarrow> nat \<Rightarrow> int \<Rightarrow> byte list" where
  "bytes_of_int endian n v =
     (case endian of SIG_BIG \<Rightarrow> int_to_be n v | SIG_LITTLE \<Rightarrow> int_to_le n v)"

definition unsigned_of_bytes :: "signal_endian \<Rightarrow> byte list \<Rightarrow> int" where
  "unsigned_of_bytes endian bs =
     (case endian of SIG_BIG \<Rightarrow> int_from_be bs | SIG_LITTLE \<Rightarrow> int_from_le bs)"

definition int_of_bytes :: "signal_endian \<Rightarrow> bool \<Rightarrow> byte list \<Rightarrow> int" where
  "int_of_bytes endian sgn_ext bs =
     (let u = unsigned_of_bytes endian bs
      in if sgn_ext \<and> 2 ^ (8 * length bs - 1) \<le> u then u - 2 ^ (8 * length bs) else u)"

text \<open>\<^verbatim>\<open>math.isclose(a, b, rel_tol=0.0, abs_tol=1e-9)\<close>.\<close>

fun fl_abs :: "pyfloat \<Rightarrow> pyfloat" where
  "fl_abs FNaN = FNaN"
| "fl_abs (FInf s) = FInf False"
| "fl_abs (FFin s m) = FFin False m"

definition fl_isclose :: "pyfloat \<Rightarrow> pyfloat \<Rightarrow> bool" where
  "fl_isclose a b \<longleftrightarrow>
     fl_eq a b \<or>
     (fl_is_finite a \<and> fl_is_finite b \<and>
      fl_le (fl_abs (fl_sub b a)) (fl_lit (1 / 1000000000)))"

definition physical_to_raw_integer :: "signal_field \<Rightarrow> py_val \<Rightarrow> signal_error + int" where
  "physical_to_raw_integer f v =
     (if sf_plain f
      then (case v of PInt n \<Rightarrow> Inr n | _ \<Rightarrow> Inl (SigNotInteger (sf_name f)))
      else
        res_bind (coerce_real (sf_name f) v) (\<lambda>physical.
        res_bind (lift_exn (fl_div (fl_sub physical (sf_offset f)) (sf_scale f))) (\<lambda>raw_float.
        res_bind (lift_exn (float_round raw_float)) (\<lambda>rounded.
        res_bind (lift_exn (int_to_float rounded)) (\<lambda>rounded_float.
        res_bind (res_check (fl_isclose raw_float rounded_float)
                    (SigNotIntegral (sf_name f) physical (sf_scale f) (sf_offset f))) (\<lambda>_.
          Inr rounded))))))"

definition pack_integer :: "signal_field \<Rightarrow> py_val \<Rightarrow> signal_error + byte list" where
  "pack_integer f v =
     res_bind (physical_to_raw_integer f v) (\<lambda>raw.
     let (minimum, maximum) = integer_raw_range (sf_byte_length f) (sf_signed f)
     in res_bind (res_check (minimum \<le> raw \<and> raw \<le> maximum)
                    (SigRawRange (sf_name f) minimum maximum raw)) (\<lambda>_.
          Inr (bytes_of_int (sf_endian f) (sf_byte_length f) raw)))"

definition unpack_integer :: "signal_field \<Rightarrow> byte list \<Rightarrow> signal_error + py_val" where
  "unpack_integer f raw_bytes =
     (let raw = int_of_bytes (sf_endian f) (sf_signed f) raw_bytes
      in if sf_plain f then Inr (PInt raw)
         else res_bind (lift_exn (int_to_float raw)) (\<lambda>x.
                Inr (PFloat (fl_add (fl_mul x (sf_scale f)) (sf_offset f)))))"

definition pack_float :: "signal_field \<Rightarrow> py_val \<Rightarrow> signal_error + byte list" where
  "pack_float f v =
     res_bind (coerce_real (sf_name f) v) (\<lambda>physical.
     res_bind (lift_exn (fl_div (fl_sub physical (sf_offset f)) (sf_scale f))) (\<lambda>raw.
       (case struct_pack_bits (if sf_byte_length f = 4 then 4 else 8) raw of
          Inl _ \<Rightarrow> Inl (SigFloatUnencodable (sf_name f))
        | Inr bits \<Rightarrow>
            Inr (bytes_of_int (sf_endian f) (if sf_byte_length f = 4 then 4 else 8) bits))))"

definition unpack_float :: "signal_field \<Rightarrow> byte list \<Rightarrow> pyfloat" where
  "unpack_float f raw_bytes =
     fl_add
       (fl_mul
          (struct_unpack_bits (if sf_byte_length f = 4 then 4 else 8)
             (unsigned_of_bytes (sf_endian f) raw_bytes))
          (sf_scale f))
       (sf_offset f)"

definition pack_value :: "signal_field \<Rightarrow> py_val \<Rightarrow> signal_error + byte list" where
  "pack_value f v = (if sf_data_type f = SIG_FLOAT then pack_float f v else pack_integer f v)"

definition unpack_value :: "signal_field \<Rightarrow> byte list \<Rightarrow> signal_error + py_val" where
  "unpack_value f payload =
     res_bind (res_check (sf_end_byte f \<le> length payload)
                 (SigPayloadShort (sf_name f) (sf_byte_offset f) (sf_end_byte f) (length payload)))
       (\<lambda>_.
         let raw_bytes = take (sf_byte_length f) (drop (sf_byte_offset f) payload)
         in if sf_data_type f = SIG_FLOAT then Inr (PFloat (unpack_float f raw_bytes))
            else unpack_integer f raw_bytes)"

section \<open>Layouts\<close>

record signal_layout =
  sl_fields :: "signal_field list"
  sl_frame_length :: "nat option"

fun validate_unique_names :: "string list \<Rightarrow> signal_field list \<Rightarrow> signal_error + unit" where
  "validate_unique_names seen [] = Inr ()"
| "validate_unique_names seen (f # fs) =
     (if sf_name f \<in> set seen then Inl (SigDuplicateName (sf_name f))
      else validate_unique_names (sf_name f # seen) fs)"

text \<open>\<open>occupied\<close> is the dictionary of the byte offsets taken so far and the field that took each.\<close>

definition occupy ::
  "string \<Rightarrow> nat \<Rightarrow> (nat \<times> string) list \<Rightarrow> signal_error + (nat \<times> string) list" where
  "occupy name byte_offset occupied =
     (case map_of occupied byte_offset of
        None \<Rightarrow> Inr (AList.update byte_offset name occupied)
      | Some previous \<Rightarrow>
          if previous \<noteq> name then Inl (SigOverlap previous name byte_offset) else Inr occupied)"

definition validate_non_overlapping :: "signal_field list \<Rightarrow> signal_error + unit" where
  "validate_non_overlapping fs =
     res_bind
       (res_fold (\<lambda>f. res_fold (occupy (sf_name f)) [sf_byte_offset f..<sf_end_byte f]) fs [])
       (\<lambda>_. Inr ())"

definition required_length :: "signal_field list \<Rightarrow> nat" where
  "required_length fs = fold max (map sf_end_byte fs) 0"

definition mk_signal_layout :: "signal_field list \<Rightarrow> int option \<Rightarrow> signal_error + signal_layout" where
  "mk_signal_layout fs frame_length =
     res_bind (case frame_length of
                 None \<Rightarrow> Inr None
               | Some n \<Rightarrow> map_sum id Some (validate_non_negative ''frame_length'' n)) (\<lambda>fl.
     res_bind (validate_unique_names [] fs) (\<lambda>_.
     res_bind (validate_non_overlapping fs) (\<lambda>_.
     res_bind (case fl of
                 None \<Rightarrow> Inr ()
               | Some n \<Rightarrow> res_check (required_length fs \<le> n) (SigFrameShort n (required_length fs)))
       (\<lambda>_. Inr \<lparr>sl_fields = fs, sl_frame_length = fl\<rparr>))))"

definition encoded_length :: "signal_layout \<Rightarrow> nat" where
  "encoded_length l =
     (case sl_frame_length l of Some n \<Rightarrow> n | None \<Rightarrow> required_length (sl_fields l))"

definition layout_field :: "signal_layout \<Rightarrow> string \<Rightarrow> signal_error + signal_field" where
  "layout_field l name =
     (case find (\<lambda>f. sf_name f = name) (sl_fields l) of
        Some f \<Rightarrow> Inr f
      | None \<Rightarrow> Inl (SigUnknownField name))"

text \<open>\<^verbatim>\<open>payload[i:i+len(bs)] = bs\<close> inside the buffer.\<close>

definition splice :: "nat \<Rightarrow> byte list \<Rightarrow> byte list \<Rightarrow> byte list" where
  "splice i bs payload = take i payload @ bs @ drop (i + length bs) payload"

definition pack_field ::
  "(string \<times> py_val) list \<Rightarrow> signal_field \<Rightarrow> byte list \<Rightarrow> signal_error + byte list" where
  "pack_field values f payload =
     res_bind (pack_value f (the (map_of values (sf_name f)))) (\<lambda>bs.
       Inr (splice (sf_byte_offset f) bs payload))"

definition layout_pack :: "signal_layout \<Rightarrow> (string \<times> py_val) list \<Rightarrow> signal_error + byte list" where
  "layout_pack l values =
     (let names = map sf_name (sl_fields l);
          missing = filter (\<lambda>n. n \<notin> set (map fst values)) names;
          extra = filter (\<lambda>n. n \<notin> set names) (map fst values)
      in res_bind (res_check (missing = []) (SigMissing missing)) (\<lambda>_.
         res_bind (res_check (extra = []) (SigUnexpected extra)) (\<lambda>_.
           res_fold (pack_field values) (sl_fields l) (replicate (encoded_length l) 0))))"

definition layout_unpack :: "signal_layout \<Rightarrow> byte list \<Rightarrow> signal_error + (string \<times> py_val) list" where
  "layout_unpack l payload =
     res_bind (res_check (required_length (sl_fields l) \<le> length payload)
                 (SigLayoutShort (required_length (sl_fields l)) (length payload))) (\<lambda>_.
     res_bind (res_check (sl_frame_length l \<noteq> None \<longrightarrow> length payload = encoded_length l)
                 (SigLayoutLength (encoded_length l) (length payload))) (\<lambda>_.
       res_mapM (\<lambda>f. res_bind (unpack_value f payload) (\<lambda>v. Inr (sf_name f, v))) (sl_fields l)))"

definition pack_signals ::
  "signal_field list \<Rightarrow> (string \<times> py_val) list \<Rightarrow> int option \<Rightarrow> signal_error + byte list" where
  "pack_signals fs values frame_length =
     res_bind (mk_signal_layout fs frame_length) (\<lambda>l. layout_pack l values)"

definition unpack_signals ::
  "signal_field list \<Rightarrow> byte list \<Rightarrow> int option \<Rightarrow> signal_error + (string \<times> py_val) list" where
  "unpack_signals fs payload frame_length =
     res_bind (mk_signal_layout fs frame_length) (\<lambda>l. layout_unpack l payload)"

section \<open>The telemetry mapping\<close>

record telemetry_mapping =
  tm_source_port :: int
  tm_destination_port :: int
  tm_priority :: int
  tm_flags :: int
  tm_signal :: "string option"
  tm_units :: "string option"
  tm_min :: "py_val option"
  tm_max :: "py_val option"
  tm_offset :: int
  tm_length :: int
  tm_type :: signal_data_type
  tm_endian :: signal_endian
  tm_scale :: pyfloat
  tm_offset_value :: pyfloat
  tm_enum :: "(string \<times> string) list option"

datatype telemetry_codec_error =
    TelInvalidLayout string signal_error
  | TelCannotEncode string signal_error
  | TelCannotDecode string signal_error
  | TelUnknownLabel string py_val
  | TelNoLabel string py_val
  | TelUncaught py_exn

definition signal_field_for_mapping ::
  "string \<Rightarrow> telemetry_mapping \<Rightarrow> telemetry_codec_error + signal_field" where
  "signal_field_for_mapping name m =
     (case mk_signal_field name (tm_offset m) (tm_length m) (tm_type m) (tm_endian m)
             (PFloat (tm_scale m)) (PFloat (tm_offset_value m)) (tm_units m) (tm_min m) (tm_max m) of
        Inl (SigUncaught e) \<Rightarrow> Inl (TelUncaught e)
      | Inl e \<Rightarrow> Inl (TelInvalidLayout name e)
      | Inr f \<Rightarrow> Inr f)"

text \<open>
  The first enum entry with the label decides; its key is read with \<^verbatim>\<open>int(...)\<close>.
\<close>

definition tel_to_raw :: "string \<Rightarrow> telemetry_mapping \<Rightarrow> py_val \<Rightarrow> telemetry_codec_error + py_val" where
  "tel_to_raw name m v =
     (case tm_enum m of
        None \<Rightarrow> Inr v
      | Some enum \<Rightarrow>
          (case find (\<lambda>(raw_key, mapped_label). Some mapped_label = py_str v) enum of
             Some (raw_key, _) \<Rightarrow>
               (case py_int_of_str raw_key of
                  Some n \<Rightarrow> Inr (PInt n)
                | None \<Rightarrow> Inl (TelUncaught PyValueError))
           | None \<Rightarrow> Inl (TelUnknownLabel name v)))"

text \<open>\<^verbatim>\<open>str(int(raw))\<close> is the key looked up when decoding.\<close>

definition tel_from_raw :: "string \<Rightarrow> telemetry_mapping \<Rightarrow> py_val \<Rightarrow> telemetry_codec_error + py_val" where
  "tel_from_raw name m raw =
     (case tm_enum m of
        None \<Rightarrow> Inr raw
      | Some enum \<Rightarrow>
          (case (case raw of PInt n \<Rightarrow> Inr n | PFloat x \<Rightarrow> float_to_int x | _ \<Rightarrow> Inl PyTypeError) of
             Inl e \<Rightarrow> Inl (TelUncaught e)
           | Inr n \<Rightarrow>
               (case map_of enum (int_str n) of
                  Some label \<Rightarrow> Inr (PStr label)
                | None \<Rightarrow> Inl (TelNoLabel name raw))))"

definition encode_telemetry_value ::
  "string \<Rightarrow> telemetry_mapping \<Rightarrow> py_val \<Rightarrow> telemetry_codec_error + byte list" where
  "encode_telemetry_value name m v =
     res_bind (signal_field_for_mapping name m) (\<lambda>f.
     res_bind (tel_to_raw name m v) (\<lambda>raw.
       (case res_bind (mk_signal_layout [f] None) (\<lambda>l. layout_pack l [(name, raw)]) of
          Inl (SigUncaught e) \<Rightarrow> Inl (TelUncaught e)
        | Inl e \<Rightarrow> Inl (TelCannotEncode name e)
        | Inr bs \<Rightarrow> Inr bs)))"

definition decode_telemetry_value ::
  "string \<Rightarrow> telemetry_mapping \<Rightarrow> byte list \<Rightarrow> telemetry_codec_error + py_val" where
  "decode_telemetry_value name m payload =
     res_bind (signal_field_for_mapping name m) (\<lambda>f.
       (case res_bind (mk_signal_layout [f] None) (\<lambda>l. layout_unpack l payload) of
          Inl (SigUncaught e) \<Rightarrow> Inl (TelUncaught e)
        | Inl e \<Rightarrow> Inl (TelCannotDecode name e)
        | Inr raws \<Rightarrow> tel_from_raw name m (the (map_of raws name))))"

section \<open>Fields round trip\<close>

definition sf_wf :: "signal_field \<Rightarrow> bool" where
  "sf_wf f \<longleftrightarrow>
     sf_name f \<noteq> [] \<and> 0 < sf_byte_length f \<and>
     (sf_data_type f = SIG_FLOAT \<longrightarrow> sf_byte_length f \<in> {4, 8}) \<and>
     fl_is_finite (sf_scale f) \<and> \<not> fl_eq (sf_scale f) FL_ZERO \<and> fl_is_finite (sf_offset f) \<and>
     fl_wf (sf_scale f) \<and> fl_wf (sf_offset f)"


lemma coerce_real_Inr:
  "coerce_real name v = Inr x \<longleftrightarrow> is_real_number v \<and> py_float v = Inr x \<and> fl_is_finite x"
  by (auto simp: coerce_real_def res_bind_eq_Inr lift_exn_def split: sum.splits)

lemma mk_signal_field_wf: "mk_signal_field n bo bl dt en sc os un mi ma = Inr f \<Longrightarrow>
    pv_wf sc \<Longrightarrow> pv_wf os \<Longrightarrow>
    sf_wf f \<and> sf_name f = n \<and> int (sf_byte_offset f) = bo \<and> int (sf_byte_length f) = bl \<and>
    sf_data_type f = dt \<and> sf_endian f = en \<and>
    py_float sc = Inr (sf_scale f) \<and> py_float os = Inr (sf_offset f)"
  by (auto simp: mk_signal_field_def res_bind_eq_Inr coerce_real_Inr sf_wf_def
      validate_non_negative_def validate_positive_def py_float_wf split: if_splits)

lemma length_bytes_of_int [simp]: "length (bytes_of_int e n v) = n"
  by (simp add: bytes_of_int_def split: signal_endian.splits)

lemma unsigned_of_bytes_of_int: "unsigned_of_bytes e (bytes_of_int e n v) = v mod 256 ^ n"
  by (simp add: unsigned_of_bytes_def bytes_of_int_def int_from_to_be int_from_to_le
      split: signal_endian.splits)

lemma pow_256: "(256::int) ^ n = 2 ^ (8 * n)"
  by (simp add: power_mult)

lemma int_of_bytes_roundtrip:
  assumes "0 < n" "integer_raw_range n s = (lo, hi)" "lo \<le> v" "v \<le> hi"
  shows "int_of_bytes e s (bytes_of_int e n v) = v"
proof -
  have half: "(2::int) ^ (8 * n) = 2 * 2 ^ (8 * n - 1)"
    using assms(1) by (simp flip: power_Suc)
  show ?thesis
  proof (cases "s \<and> v < 0")
    case True
    with assms have "- (2 ^ (8 * n - 1)) \<le> v"
      by (auto simp: integer_raw_range_def Let_def mult.commute)
    with True half have "v mod 2 ^ (8 * n) = v + 2 ^ (8 * n)"
      by (intro int_mod_pos_eq[where q = "- 1"]) auto
    with True \<open>- (2 ^ (8 * n - 1)) \<le> v\<close> half show ?thesis
      by (simp add: int_of_bytes_def unsigned_of_bytes_of_int pow_256 Let_def)
  next
    case False
    with assms have v: "0 \<le> v" "s \<longrightarrow> v < 2 ^ (8 * n - 1)" "v < 2 ^ (8 * n)"
      using half by (auto simp: integer_raw_range_def Let_def mult.commute split: if_splits)
    then have "v mod 2 ^ (8 * n) = v" by simp
    with v show ?thesis
      by (auto simp: int_of_bytes_def unsigned_of_bytes_of_int pow_256 Let_def)
  qed
qed

lemma lift_exn_Inr [simp]: "lift_exn m = Inr x \<longleftrightarrow> m = Inr x"
  by (cases m) (simp_all add: lift_exn_def)

lemma lift_exn_ok [simp]: "lift_exn (Inr x) = Inr x"
  by (simp add: lift_exn_def)

lemma pack_integer_Inr:
  "pack_integer f v = Inr bs \<longleftrightarrow>
     (\<exists>n. physical_to_raw_integer f v = Inr n \<and>
        fst (integer_raw_range (sf_byte_length f) (sf_signed f)) \<le> n \<and>
        n \<le> snd (integer_raw_range (sf_byte_length f) (sf_signed f)) \<and>
        bs = bytes_of_int (sf_endian f) (sf_byte_length f) n)"
  by (auto simp: pack_integer_def res_bind_eq_Inr case_prod_beta Let_def)

definition float_width :: "signal_field \<Rightarrow> nat" where
  "float_width f = (if sf_byte_length f = 4 then 4 else 8)"

lemma pack_float_Inr:
  "pack_float f v = Inr bs \<longleftrightarrow>
     (\<exists>x raw bits. coerce_real (sf_name f) v = Inr x \<and>
        fl_div (fl_sub x (sf_offset f)) (sf_scale f) = Inr raw \<and>
        struct_pack_bits (float_width f) raw = Inr bits \<and>
        bs = bytes_of_int (sf_endian f) (float_width f) bits)"
proof
  assume "pack_float f v = Inr bs"
  then obtain x raw where x: "coerce_real (sf_name f) v = Inr x"
    and raw: "fl_div (fl_sub x (sf_offset f)) (sf_scale f) = Inr raw"
    and bs: "(case struct_pack_bits (float_width f) raw of
          Inl _ \<Rightarrow> Inl (SigFloatUnencodable (sf_name f))
        | Inr n \<Rightarrow> Inr (bytes_of_int (sf_endian f) (float_width f) n)) = Inr bs"
    unfolding pack_float_def res_bind_eq_Inr lift_exn_Inr float_width_def by blast
  then show "\<exists>x raw bits. coerce_real (sf_name f) v = Inr x \<and>
        fl_div (fl_sub x (sf_offset f)) (sf_scale f) = Inr raw \<and>
        struct_pack_bits (float_width f) raw = Inr bits \<and>
        bs = bytes_of_int (sf_endian f) (float_width f) bits"
    by (cases "struct_pack_bits (float_width f) raw") auto
qed (auto simp: pack_float_def float_width_def split: if_splits)

lemma pack_value_length: "sf_wf f \<Longrightarrow> pack_value f v = Inr bs \<Longrightarrow> length bs = sf_byte_length f"
  by (auto simp: pack_value_def pack_integer_Inr pack_float_Inr float_width_def sf_wf_def
      split: if_splits)

text \<open>Reading a field's own bytes.\<close>

definition unpack_raw :: "signal_field \<Rightarrow> byte list \<Rightarrow> signal_error + py_val" where
  "unpack_raw f bs =
     (if sf_data_type f = SIG_FLOAT then Inr (PFloat (unpack_float f bs)) else unpack_integer f bs)"

lemma plain_integer_roundtrip:
  assumes "sf_wf f" "sf_data_type f \<noteq> SIG_FLOAT" "sf_plain f" "pack_value f v = Inr bs"
  shows "unpack_raw f bs = Inr v"
proof -
  from assms obtain n where v: "v = PInt n"
    and bs: "bs = bytes_of_int (sf_endian f) (sf_byte_length f) n"
    and range: "fst (integer_raw_range (sf_byte_length f) (sf_signed f)) \<le> n"
      "n \<le> snd (integer_raw_range (sf_byte_length f) (sf_signed f))"
    by (auto simp: pack_value_def pack_integer_Inr physical_to_raw_integer_def
        split: py_val.splits)
  have "int_of_bytes (sf_endian f) (sf_signed f) bs = n"
    unfolding bs using assms(1) range
    by (intro int_of_bytes_roundtrip[OF _ surjective_pairing]) (simp_all add: sf_wf_def)
  then show ?thesis using assms by (simp add: v unpack_raw_def unpack_integer_def Let_def)
qed

lemma fl_wf_mag_nonneg: "fl_wf (FFin s m) \<Longrightarrow> 0 \<le> m"
  by (simp add: fl_repr_def)

lemma plain_scale:
  assumes "sf_wf f" "sf_plain f"
  shows "sf_scale f = FL_ONE" "\<exists>s. sf_offset f = FFin s 0"
proof -
  show "sf_scale f = FL_ONE"
    using assms fl_wf_mag_nonneg
    by (cases "sf_scale f") (fastforce simp: sf_wf_def sf_plain_def sgn_mag_def split: if_splits)+
  show "\<exists>s. sf_offset f = FFin s 0"
    using assms by (cases "sf_offset f") (auto simp: sf_plain_def sgn_mag_def split: if_splits)
qed

lemma fl_add_zero:
  assumes "fl_wf (FFin t m)"
  shows "\<exists>t'. fl_add (FFin t m) (FFin s 0) = FFin t' m \<and> (m \<noteq> 0 \<longrightarrow> t' = t)"
proof (cases "m = 0")
  case True
  then show ?thesis by (intro exI[of _ "t \<and> s"]) (simp add: sgn_mag_def)
next
  case False
  with fl_wf_mag_nonneg[OF assms] have "0 < m" by simp
  then have "sgn_mag t m \<noteq> 0" "(sgn_mag t m < 0) = t" "\<bar>sgn_mag t m\<bar> = m"
    by (auto simp: sgn_mag_def)
  moreover have "fl64 t m = FFin t m" using assms by (intro fl64_repr) auto
  ultimately show ?thesis by (simp add: sgn_mag_def Let_def split: if_splits)
qed

lemma fl_eq_same_mag: "(m \<noteq> 0 \<longrightarrow> t' = t) \<Longrightarrow> fl_eq (FFin t' m) (FFin t m)"
  by (cases "m = 0") (auto simp: sgn_mag_def)

lemma repr_24_53:
  assumes "fl_repr 24 (- 149) m"
  shows "fl_repr 53 (- 1074) m"
proof (cases "m = 0")
  case False
  with assms have m: "0 < m" and id: "fl_round 24 (- 149) m = m" by (auto simp: fl_repr_def)
  obtain k where k: "0 \<le> k" "k \<le> 2 ^ nat 24" "m = of_int k * 2 powi ulp_exp 24 (- 149) m"
    using fl_round_grid[of 24 m "- 149"] m id by auto
  moreover have "0 < k" using k m by (cases "k = 0") auto
  moreover have "- 1074 \<le> ulp_exp 24 (- 149) m" using ulp_exp_ge(1)[of "- 149" 24 m] by simp
  ultimately have "fl_round 53 (- 1074) m = m" by (intro fl_round_grid_id'[of 53 k]) auto
  with m show ?thesis by (simp add: fl_repr_def)
qed simp

lemma wire_rounded_wf:
  assumes "struct_pack_bits w x = Inr b"
  shows "fl_wf (wire_rounded w x)"
proof (cases x)
  case (FFin s m)
  show ?thesis
  proof (cases "w = 4")
    case True
    have "fl_repr 53 (- 1074) (fl_round 24 (- 149) m)" by (intro repr_24_53) simp
    moreover have "fl_round 24 (- 149) m < 2 ^ 128"
      using assms FFin True by (auto simp: struct_pack_bits_def wire_format_def wire_limit_def Let_def
          split: if_splits)
    then have "fl_round 24 (- 149) m < fl_limit" by (simp add: fl_limit_def)
    ultimately show ?thesis using True FFin by (simp add: wire_format_def)
  next
    case False
    with assms FFin show ?thesis
      by (auto simp: struct_pack_bits_def wire_format_def wire_limit_def Let_def split: if_splits)
  qed
qed simp_all

text \<open>
  A float field without scaling gives back the value rounded to the width of the field, up to the
  sign of a zero.
\<close>

lemma plain_float_roundtrip:
  assumes "sf_wf f" "sf_data_type f = SIG_FLOAT" "sf_plain f" "pack_value f v = Inr bs" "pv_wf v"
  shows "\<exists>x y. py_float v = Inr x \<and> unpack_raw f bs = Inr (PFloat y) \<and>
     fl_eq y (wire_rounded (sf_byte_length f) x)"
proof -
  from assms(4) assms(2) obtain x raw b where x: "coerce_real (sf_name f) v = Inr x"
    and raw: "fl_div (fl_sub x (sf_offset f)) (sf_scale f) = Inr raw"
    and b: "struct_pack_bits (float_width f) raw = Inr b"
    and bs: "bs = bytes_of_int (sf_endian f) (float_width f) b"
    by (auto simp: pack_value_def pack_float_Inr)
  from x have px: "py_float v = Inr x" and fin: "fl_is_finite x" by (auto simp: coerce_real_Inr)
  have wf: "fl_wf x" using assms(5) px by (rule py_float_wf)
  obtain t m where xm: "x = FFin t m" using fin by (cases x) auto
  obtain s where os: "sf_offset f = FFin s 0" using plain_scale(2)[OF assms(1,3)] by blast
  note sc = plain_scale(1)[OF assms(1,3)]
  have w: "float_width f = sf_byte_length f" using assms(1,2) by (auto simp: float_width_def sf_wf_def)
  obtain t' where sub: "fl_sub x (sf_offset f) = FFin t' m" and t': "m \<noteq> 0 \<longrightarrow> t' = t"
    using fl_add_zero[of t m "\<not> s"] wf xm os by (auto simp: fl_sub_def)
  have "fl64 t' m = FFin t' m" using wf xm by (intro fl64_repr) auto
  then have rw: "raw = FFin t' m" using raw sub sc by simp
  let ?r = "wire_rounded (sf_byte_length f) raw"
  have bits: "struct_unpack_bits (sf_byte_length f) b = ?r" "0 \<le> b"
    "b < (if sf_byte_length f = 4 then 2 ^ 32 else 2 ^ 64)"
    using struct_bits_roundtrip[OF b] w by auto
  have "unsigned_of_bytes (sf_endian f) bs = b"
    using bits assms(1,2) w by (auto simp: bs unsigned_of_bytes_of_int sf_wf_def)
  then have unpack: "unpack_float f bs = fl_add (fl_mul ?r FL_ONE) (FFin s 0)"
    using bits w by (simp add: unpack_float_def sc os float_width_def)
  obtain p emin eb where form: "wire_format (sf_byte_length f) = (p, emin, eb)"
    by (cases "wire_format (sf_byte_length f)")
  let ?k = "fl_round p emin m"
  have r: "?r = FFin t' ?k" using rw form by simp
  have "fl_wf ?r" using b w by (intro wire_rounded_wf) auto
  then have "fl_mul ?r FL_ONE = FFin t' ?k" using r fl64_repr[of ?k t'] by simp
  then obtain t'' where "unpack_float f bs = FFin t'' ?k" "?k \<noteq> 0 \<longrightarrow> t'' = t'"
    using unpack fl_add_zero[of t' ?k s] \<open>fl_wf ?r\<close> r by auto
  moreover have "wire_rounded (sf_byte_length f) x = FFin t ?k" using xm form by simp
  moreover have "?k \<noteq> 0 \<longrightarrow> m \<noteq> 0" by auto
  ultimately show ?thesis
    using px t' assms(2) by (auto simp: unpack_raw_def sgn_mag_def)
qed

section \<open>Layouts keep their fields apart\<close>

lemma unique_names_Inr:
  "validate_unique_names seen fs = Inr u \<Longrightarrow>
     distinct (map sf_name fs) \<and> set (map sf_name fs) \<inter> set seen = {}"
  by (induction fs arbitrary: seen) (fastforce split: if_splits)+

lemma occupy_run:
  "res_fold (occupy name) offs occ = Inr occ' \<Longrightarrow>
     (\<forall>x \<in> set offs. map_of occ' x = Some name) \<and>
     (\<forall>x n. map_of occ x = Some n \<longrightarrow> map_of occ' x = Some n)"
proof (induction offs arbitrary: occ)
  case (Cons x xs)
  then obtain occ1 where o1: "occupy name x occ = Inr occ1"
    and rest: "res_fold (occupy name) xs occ1 = Inr occ'" by (auto simp: res_bind_eq_Inr)
  have "map_of occ1 x = Some name" "\<forall>y n. map_of occ y = Some n \<longrightarrow> map_of occ1 y = Some n"
    using o1 by (auto simp: occupy_def update_conv' split: option.splits if_splits)
  with Cons.IH[OF rest] show ?case by auto
qed simp

lemma occupy_fields:
  "res_fold (\<lambda>f. res_fold (occupy (sf_name f)) [sf_byte_offset f..<sf_end_byte f]) fs occ = Inr occ' \<Longrightarrow>
     (\<forall>f \<in> set fs. \<forall>x. sf_byte_offset f \<le> x \<and> x < sf_end_byte f \<longrightarrow>
        map_of occ' x = Some (sf_name f)) \<and>
     (\<forall>x n. map_of occ x = Some n \<longrightarrow> map_of occ' x = Some n)"
proof (induction fs arbitrary: occ)
  case (Cons f fs)
  then obtain occ1 where o1: "res_fold (occupy (sf_name f)) [sf_byte_offset f..<sf_end_byte f] occ = Inr occ1"
    and rest: "res_fold (\<lambda>f. res_fold (occupy (sf_name f)) [sf_byte_offset f..<sf_end_byte f]) fs occ1
      = Inr occ'" by (auto simp: res_bind_eq_Inr)
  from occupy_run[OF o1] Cons.IH[OF rest] show ?case by auto
qed simp

definition apart :: "signal_field \<Rightarrow> signal_field \<Rightarrow> bool" where
  "apart f g \<longleftrightarrow> sf_end_byte f \<le> sf_byte_offset g \<or> sf_end_byte g \<le> sf_byte_offset f"

definition layout_wf :: "signal_layout \<Rightarrow> bool" where
  "layout_wf l \<longleftrightarrow>
     distinct (map sf_name (sl_fields l)) \<and>
     (\<forall>f \<in> set (sl_fields l). sf_wf f \<and> sf_end_byte f \<le> encoded_length l) \<and>
     (\<forall>f \<in> set (sl_fields l). \<forall>g \<in> set (sl_fields l). sf_name f \<noteq> sf_name g \<longrightarrow> apart f g) \<and>
     required_length (sl_fields l) \<le> encoded_length l"

lemma fold_max_le: "x \<in> set xs \<or> x = a \<Longrightarrow> x \<le> fold max xs (a::nat)"
proof (induction xs arbitrary: a x)
  case (Cons y ys)
  have "max y a \<le> fold max ys (max y a)" by (rule Cons.IH) simp
  then show ?case using Cons by (fastforce simp: max.coboundedI1 max.coboundedI2)
qed simp

lemma required_length_ge: "f \<in> set fs \<Longrightarrow> sf_end_byte f \<le> required_length fs"
  unfolding required_length_def by (rule fold_max_le) simp

lemma mk_signal_layout_wf:
  assumes "mk_signal_layout fs fl = Inr l" "\<forall>f \<in> set fs. sf_wf f"
  shows "layout_wf l \<and> sl_fields l = fs"
proof -
  from assms(1) have l: "sl_fields l = fs" and names: "validate_unique_names [] fs = Inr ()"
    and sep: "validate_non_overlapping fs = Inr ()"
    and len: "required_length fs \<le> encoded_length l"
    by (auto simp: mk_signal_layout_def res_bind_eq_Inr encoded_length_def split: option.splits)
  from sep obtain occ where occ:
    "res_fold (\<lambda>f. res_fold (occupy (sf_name f)) [sf_byte_offset f..<sf_end_byte f]) fs [] = Inr occ"
    by (auto simp: validate_non_overlapping_def res_bind_eq_Inr)
  have "apart f g" if fg: "f \<in> set fs" "g \<in> set fs" "sf_name f \<noteq> sf_name g" for f g
  proof (rule ccontr)
    assume "\<not> apart f g"
    let ?x = "max (sf_byte_offset f) (sf_byte_offset g)"
    have "0 < sf_byte_length f" "0 < sf_byte_length g" using assms(2) fg by (auto simp: sf_wf_def)
    with \<open>\<not> apart f g\<close> have "sf_byte_offset f \<le> ?x \<and> ?x < sf_end_byte f"
      "sf_byte_offset g \<le> ?x \<and> ?x < sf_end_byte g"
      by (auto simp: apart_def sf_end_byte_def)
    then have "map_of occ ?x = Some (sf_name f)" "map_of occ ?x = Some (sf_name g)"
      using occupy_fields[OF occ] fg by blast+
    with fg show False by simp
  qed
  moreover have "sf_end_byte f \<le> encoded_length l" if "f \<in> set fs" for f
    using required_length_ge[OF that] len by simp
  ultimately show ?thesis
    using unique_names_Inr[OF names] assms(2) l len by (auto simp: layout_wf_def)
qed

lemma length_splice: "i + length bs \<le> length p \<Longrightarrow> length (splice i bs p) = length p"
  by (simp add: splice_def)

lemma splice_nth:
  "i + length bs \<le> length p \<Longrightarrow> k < length p \<Longrightarrow>
     splice i bs p ! k = (if i \<le> k \<and> k < i + length bs then bs ! (k - i) else p ! k)"
  by (auto simp: splice_def nth_append min_def not_less)

definition slice_of :: "signal_field \<Rightarrow> byte list \<Rightarrow> byte list" where
  "slice_of f p = take (sf_byte_length f) (drop (sf_byte_offset f) p)"

lemma slice_of_splice_same:
  "sf_end_byte f \<le> length p \<Longrightarrow> length bs = sf_byte_length f \<Longrightarrow>
     slice_of f (splice (sf_byte_offset f) bs p) = bs"
  by (simp add: slice_of_def splice_def sf_end_byte_def)

lemma slice_of_splice_apart:
  assumes "apart f g" "sf_end_byte f \<le> length p" "sf_end_byte g \<le> length p"
    and "length bs = sf_byte_length g"
  shows "slice_of f (splice (sf_byte_offset g) bs p) = slice_of f p"
  using assms
  by (intro nth_equalityI) (auto simp: slice_of_def splice_nth length_splice apart_def sf_end_byte_def)

lemma pack_field_Inr:
  "pack_field values f p = Inr q \<longleftrightarrow>
     (\<exists>bs. pack_value f (the (map_of values (sf_name f))) = Inr bs \<and>
        q = splice (sf_byte_offset f) bs p)"
  by (auto simp: pack_field_def res_bind_eq_Inr)

lemma pack_fields_run:
  assumes "\<forall>f \<in> set fs. sf_wf f \<and> sf_end_byte f \<le> length p"
    and "\<forall>f \<in> set fs. \<forall>g \<in> set fs. sf_name f \<noteq> sf_name g \<longrightarrow> apart f g"
    and "distinct (map sf_name fs)" "res_fold (pack_field values) fs p = Inr p'"
  shows "length p' = length p \<and>
     (\<forall>f \<in> set fs. pack_value f (the (map_of values (sf_name f))) = Inr (slice_of f p')) \<and>
     (\<forall>g. sf_end_byte g \<le> length p \<and> (\<forall>f \<in> set fs. apart g f) \<longrightarrow> slice_of g p' = slice_of g p)"
  using assms
proof (induction fs arbitrary: p)
  case Nil
  then show ?case by simp
next
  case (Cons f fs)
  from Cons.prems(4) obtain bs where bs: "pack_value f (the (map_of values (sf_name f))) = Inr bs"
    and rest: "res_fold (pack_field values) fs (splice (sf_byte_offset f) bs p) = Inr p'"
    by (auto simp: pack_field_Inr res_bind_eq_Inr)
  have wf: "sf_wf f" "sf_end_byte f \<le> length p" using Cons.prems(1) by auto
  have len: "length bs = sf_byte_length f" using pack_value_length[OF wf(1) bs] .
  let ?p = "splice (sf_byte_offset f) bs p"
  have lp: "length ?p = length p" using wf(2) len by (simp add: length_splice sf_end_byte_def)
  have ih: "length p' = length ?p \<and>
     (\<forall>f \<in> set fs. pack_value f (the (map_of values (sf_name f))) = Inr (slice_of f p')) \<and>
     (\<forall>g. sf_end_byte g \<le> length ?p \<and> (\<forall>f \<in> set fs. apart g f) \<longrightarrow> slice_of g p' = slice_of g ?p)"
    using Cons.prems rest lp by (intro Cons.IH) auto
  have "\<forall>g \<in> set fs. apart f g" using Cons.prems(2,3) by (auto simp: image_iff)
  then have "slice_of f p' = bs"
    using ih wf lp len slice_of_splice_same by simp
  moreover have "slice_of g ?p = slice_of g p" if "sf_end_byte g \<le> length p" "apart g f" for g
    using slice_of_splice_apart[OF that(2,1) wf(2) len] .
  ultimately show ?case using ih bs lp by auto
qed

lemma layout_pack_slices:
  assumes "layout_wf l" "layout_pack l values = Inr payload"
  shows "length payload = encoded_length l \<and>
     (\<forall>f \<in> set (sl_fields l).
        pack_value f (the (map_of values (sf_name f))) = Inr (slice_of f payload))"
proof -
  have "res_fold (pack_field values) (sl_fields l) (replicate (encoded_length l) 0) = Inr payload"
    using assms(2) by (auto simp: layout_pack_def Let_def res_bind_eq_Inr)
  from pack_fields_run[OF _ _ _ this] assms(1) show ?thesis by (auto simp: layout_wf_def)
qed

lemma layout_unpack_slices:
  assumes "layout_wf l" "length payload = encoded_length l"
  shows "layout_unpack l payload =
     res_mapM (\<lambda>f. res_bind (unpack_raw f (slice_of f payload)) (\<lambda>v. Inr (sf_name f, v))) (sl_fields l)"
proof -
  have "unpack_value f payload = unpack_raw f (slice_of f payload)" if "f \<in> set (sl_fields l)" for f
    using assms that by (auto simp: unpack_value_def unpack_raw_def slice_of_def layout_wf_def Let_def)
  then have "res_mapM (\<lambda>f. res_bind (unpack_value f payload) (\<lambda>v. Inr (sf_name f, v))) (sl_fields l) =
      res_mapM (\<lambda>f. res_bind (unpack_raw f (slice_of f payload)) (\<lambda>v. Inr (sf_name f, v))) (sl_fields l)"
    by (intro res_mapM_cong) simp_all
  with assms show ?thesis by (simp add: layout_unpack_def layout_wf_def)
qed

lemma layout_roundtrip:
  assumes "layout_wf l" "layout_pack l values = Inr payload"
    and "\<forall>f \<in> set (sl_fields l). \<exists>bs w. pack_value f (the (map_of values (sf_name f))) = Inr bs \<and>
      unpack_raw f bs = Inr w \<and> P f w"
  shows "\<exists>outs. layout_unpack l payload = Inr outs \<and> map fst outs = map sf_name (sl_fields l) \<and>
     (\<forall>f \<in> set (sl_fields l). \<exists>w. map_of outs (sf_name f) = Some w \<and> P f w)"
proof -
  let ?w = "\<lambda>f. projr (unpack_raw f (slice_of f payload))"
  let ?outs = "map (\<lambda>f. (sf_name f, ?w f)) (sl_fields l)"
  note packed = layout_pack_slices[OF assms(1,2)]
  have w: "unpack_raw f (slice_of f payload) = Inr (?w f) \<and> P f (?w f)"
    if "f \<in> set (sl_fields l)" for f
    using assms(3) packed that by fastforce
  have "layout_unpack l payload = Inr ?outs"
    unfolding layout_unpack_slices[OF assms(1) conjunct1[OF packed]]
    by (rule res_mapM_map) (metis w res_bind_Inr)
  moreover have "map_of ?outs (sf_name f) = Some (?w f)" if "f \<in> set (sl_fields l)" for f
  proof -
    have "distinct (map fst ?outs)" using assms(1) by (simp add: layout_wf_def comp_def)
    moreover have "(sf_name f, ?w f) \<in> set ?outs" using that by simp
    ultimately show ?thesis by (rule map_of_is_SomeI)
  qed
  ultimately show ?thesis using w by (intro exI[of _ ?outs]) (auto simp: comp_def)
qed

text \<open>What a field without scaling gives back for a value.\<close>

definition same_on_wire :: "signal_field \<Rightarrow> py_val \<Rightarrow> py_val \<Rightarrow> bool" where
  "same_on_wire f v w =
     (if sf_data_type f = SIG_FLOAT
      then \<exists>x y. py_float v = Inr x \<and> w = PFloat y \<and> fl_eq y (wire_rounded (sf_byte_length f) x)
      else w = v)"

lemma layout_values_roundtrip:
  assumes "mk_signal_layout fs fl = Inr l" "\<forall>f \<in> set fs. sf_wf f \<and> sf_plain f"
    and "\<forall>(n, v) \<in> set values. pv_wf v" "layout_pack l values = Inr payload"
  shows "length payload = encoded_length l \<and>
     (\<exists>outs. layout_unpack l payload = Inr outs \<and> map fst outs = map sf_name fs \<and>
        (\<forall>f \<in> set fs. \<exists>w. map_of outs (sf_name f) = Some w \<and>
           same_on_wire f (the (map_of values (sf_name f))) w))"
proof -
  have l: "layout_wf l" "sl_fields l = fs" using mk_signal_layout_wf[OF assms(1)] assms(2) by auto
  have "\<exists>bs w. pack_value f (the (map_of values (sf_name f))) = Inr bs \<and> unpack_raw f bs = Inr w \<and>
      same_on_wire f (the (map_of values (sf_name f))) w" if f: "f \<in> set fs" for f
  proof -
    let ?v = "the (map_of values (sf_name f))"
    have bs: "pack_value f ?v = Inr (slice_of f payload)"
      using layout_pack_slices[OF l(1) assms(4)] f l(2) by auto
    have "sf_name f \<in> set (map fst values)"
      using assms(4) f l(2) by (auto simp: layout_pack_def Let_def res_bind_eq_Inr filter_empty_conv)
    then have "(sf_name f, ?v) \<in> set values"
      by (metis map_of_SomeD map_of_eq_None_iff option.collapse set_map)
    then have v: "pv_wf ?v" using assms(3) by blast
    show ?thesis
    proof (cases "sf_data_type f = SIG_FLOAT")
      case True
      with plain_float_roundtrip[of f ?v] bs v assms(2) f show ?thesis
        by (fastforce simp: same_on_wire_def)
    next
      case False
      with plain_integer_roundtrip[of f ?v] bs assms(2) f show ?thesis
        by (auto simp: same_on_wire_def)
    qed
  qed
  then show ?thesis
    using layout_roundtrip[OF l(1) assms(4), of "\<lambda>f. same_on_wire f (the (map_of values (sf_name f)))"]
      layout_pack_slices[OF l(1) assms(4)] l(2) by simp
qed

text \<open>The telemetry bridge: one field, one value.\<close>

lemma signal_field_for_mapping_wf:
  assumes "signal_field_for_mapping name m = Inr f" "fl_wf (tm_scale m)" "fl_wf (tm_offset_value m)"
  shows "sf_wf f \<and> sf_name f = name \<and> sf_data_type f = tm_type m \<and>
     sf_scale f = tm_scale m \<and> sf_offset f = tm_offset_value m"
proof -
  have "mk_signal_field name (tm_offset m) (tm_length m) (tm_type m) (tm_endian m)
      (PFloat (tm_scale m)) (PFloat (tm_offset_value m)) (tm_units m) (tm_min m) (tm_max m) = Inr f"
    using assms(1)
    by (auto simp: signal_field_for_mapping_def split: sum.splits signal_error.splits)
  from mk_signal_field_wf[OF this] assms(2,3) show ?thesis by simp
qed

lemma single_layout: "sf_wf f \<Longrightarrow> \<exists>l. mk_signal_layout [f] None = Inr l"
proof -
  have "\<exists>occ'. res_fold (occupy name) offs occ = Inr occ'" if "\<forall>x n. map_of occ x = Some n \<longrightarrow> n = name"
    for name offs and occ :: "(nat \<times> string) list"
    using that
  proof (induction offs arbitrary: occ)
    case (Cons x xs)
    show ?case
    proof (cases "map_of occ x")
      case None
      have "\<exists>occ'. res_fold (occupy name) xs (AList.update x name occ) = Inr occ'"
        using Cons.prems by (intro Cons.IH) (auto simp: update_conv')
      moreover have "occupy name x occ = Inr (AList.update x name occ)"
        using None by (simp add: occupy_def)
      ultimately show ?thesis by simp
    next
      case (Some n)
      with Cons.prems have "occupy name x occ = Inr occ" by (simp add: occupy_def)
      with Cons show ?thesis by simp
    qed
  qed simp
  from this[of "[]"] obtain occ where
    "res_fold (occupy (sf_name f)) [sf_byte_offset f..<sf_end_byte f] [] = Inr occ" by fastforce
  then show ?thesis by (simp add: mk_signal_layout_def validate_non_overlapping_def)
qed

lemma encode_telemetry_Inr:
  assumes "encode_telemetry_value name m v = Inr bs"
  shows "\<exists>f l raw. signal_field_for_mapping name m = Inr f \<and> tel_to_raw name m v = Inr raw \<and>
     mk_signal_layout [f] None = Inr l \<and> layout_pack l [(name, raw)] = Inr bs"
proof -
  obtain f raw where f: "signal_field_for_mapping name m = Inr f"
    and raw: "tel_to_raw name m v = Inr raw"
    and bs: "(case res_bind (mk_signal_layout [f] None) (\<lambda>l. layout_pack l [(name, raw)]) of
          Inl (SigUncaught e) \<Rightarrow> Inl (TelUncaught e)
        | Inl e \<Rightarrow> Inl (TelCannotEncode name e)
        | Inr bs \<Rightarrow> Inr bs) = Inr bs"
    using assms unfolding encode_telemetry_value_def res_bind_eq_Inr by blast
  have "res_bind (mk_signal_layout [f] None) (\<lambda>l. layout_pack l [(name, raw)]) = Inr bs"
    using bs
    by (cases "res_bind (mk_signal_layout [f] None) (\<lambda>l. layout_pack l [(name, raw)])")
      (auto split: signal_error.splits)
  with f raw show ?thesis by (auto simp: res_bind_eq_Inr)
qed

lemma telemetry_plain_run:
  assumes "encode_telemetry_value name m v = Inr bs" "fl_wf (tm_scale m)" "fl_wf (tm_offset_value m)"
    and "fl_eq (tm_scale m) FL_ONE" "fl_eq (tm_offset_value m) FL_ZERO"
    and "tel_to_raw name m v = Inr raw" "pv_wf raw"
  shows "\<exists>f w. signal_field_for_mapping name m = Inr f \<and>
     decode_telemetry_value name m bs = tel_from_raw name m w \<and> same_on_wire f raw w"
proof -
  from encode_telemetry_Inr[OF assms(1)] assms(6) obtain f l where
    f: "signal_field_for_mapping name m = Inr f" and l: "mk_signal_layout [f] None = Inr l"
    and bs: "layout_pack l [(name, raw)] = Inr bs" by auto
  note wf = signal_field_for_mapping_wf[OF f assms(2,3)]
  have "\<exists>outs. layout_unpack l bs = Inr outs \<and> map fst outs = map sf_name [f] \<and>
      (\<forall>f \<in> set [f]. \<exists>w. map_of outs (sf_name f) = Some w \<and>
         same_on_wire f (the (map_of [(name, raw)] (sf_name f))) w)"
    using layout_values_roundtrip[OF l _ _ bs] assms wf by (simp add: sf_plain_def)
  then obtain outs w where "layout_unpack l bs = Inr outs" "map_of outs name = Some w"
    "same_on_wire f raw w"
    using wf by auto
  with f l show ?thesis by (auto simp: decode_telemetry_value_def)
qed

section \<open>Properties\<close>

definition demo_signals :: "signal_field list" where
  "demo_signals = map projr
     [mk_signal_field ''mode'' 0 1 SIG_UINT SIG_BIG (PInt 1) (PInt 0) None None None,
      mk_signal_field ''current'' 2 2 SIG_INT SIG_LITTLE (PInt 1) (PInt 0) None None None,
      mk_signal_field ''voltage'' 4 8 SIG_FLOAT SIG_BIG (PFloat FL_ONE) (PFloat FL_ZERO) None None None]"

definition demo_signal_values :: "(string \<times> py_val) list" where
  "demo_signal_values = [(''mode'', PInt 3), (''current'', PInt (- 2)), (''voltage'', PFloat (FFin False (25 / 2)))]"

definition demo_layout :: signal_layout where
  "demo_layout = projr (mk_signal_layout demo_signals (Some 14))"

definition demo_signal_payload :: "byte list" where
  "demo_signal_payload = projr (layout_pack demo_layout demo_signal_values)"

text \<open>
  C25: In a valid layout of unscaled fields, whatever their order, widths and byte orders, unpacking
  what was packed gives every field its own value back: integers exactly, floats rounded to the width
  of the field (no field overwrites another), and the payload has the length of the layout.
\<close>

theorem signal_layout_roundtrip:
  assumes "mk_signal_layout fs fl = Inr l" "\<forall>f \<in> set fs. sf_wf f \<and> sf_plain f"
    and "\<forall>(n, v) \<in> set values. pv_wf v" "layout_pack l values = Inr payload"
  shows "length payload = encoded_length l \<and>
     (\<exists>outs. layout_unpack l payload = Inr outs \<and> map fst outs = map sf_name fs \<and>
        (\<forall>f \<in> set fs. \<exists>w. map_of outs (sf_name f) = Some w \<and>
           same_on_wire f (the (map_of values (sf_name f))) w))"
  using assms by (rule layout_values_roundtrip)

lemma demo_signals_ok:
  "mk_signal_layout demo_signals (Some 14) = Inr demo_layout"
  "layout_pack demo_layout demo_signal_values = Inr demo_signal_payload"
  by code_simp+

lemma signal_layout_roundtrip_witness:
  "\<exists>outs. layout_unpack demo_layout demo_signal_payload = Inr outs \<and>
     map fst outs = [''mode'', ''current'', ''voltage'']"
proof -
  have "\<forall>f \<in> set demo_signals. sf_wf f \<and> sf_plain f" by code_simp
  moreover have "\<forall>(n, v) \<in> set demo_signal_values. pv_wf v" by code_simp
  moreover have "map sf_name demo_signals = [''mode'', ''current'', ''voltage'']" by code_simp
  ultimately show ?thesis
    using signal_layout_roundtrip[OF demo_signals_ok(1) _ _ demo_signals_ok(2)] by metis
qed

definition demo_mapping :: telemetry_mapping where
  "demo_mapping = \<lparr>tm_source_port = 1, tm_destination_port = 2, tm_priority = 2, tm_flags = 0,
     tm_signal = None, tm_units = None, tm_min = None, tm_max = None, tm_offset = 0, tm_length = 1,
     tm_type = SIG_UINT, tm_endian = SIG_BIG, tm_scale = FL_ONE, tm_offset_value = FL_ZERO,
     tm_enum = Some [(''0'', ''offline''), (''1'', ''online'')]\<rparr>"

text \<open>
  A telemetry value with enum labels survives the wire: if the labels are distinct and every
  enum key is written the way Python prints an integer, decoding the encoded bytes gives the label
  back.
\<close>

theorem telemetry_enum_roundtrip:
  assumes "tm_enum m = Some enum" "distinct (map fst enum)"
    and "\<forall>(key, label) \<in> set enum. \<exists>n. key = int_str n"
    and "tm_type m \<noteq> SIG_FLOAT" "fl_eq (tm_scale m) FL_ONE" "fl_eq (tm_offset_value m) FL_ZERO"
    and "fl_wf (tm_scale m)" "fl_wf (tm_offset_value m)"
    and "py_str v = Some label" "encode_telemetry_value name m v = Inr bs"
  shows "decode_telemetry_value name m bs = Inr (PStr label)"
proof -
  from encode_telemetry_Inr[OF assms(10)] obtain raw where raw: "tel_to_raw name m v = Inr raw" by auto
  let ?p = "\<lambda>(k :: string, l). Some l = py_str v"
  obtain key l where found: "find ?p enum = Some (key, l)"
    using raw assms(1) by (cases "find ?p enum") (auto simp: tel_to_raw_def)
  then have "?p (key, l)" unfolding find_Some_iff by metis
  with found assms(9) have find: "find ?p enum = Some (key, label)" by simp
  then obtain n where n: "py_int_of_str key = Some n" "raw = PInt n"
    using raw assms(1) by (cases "py_int_of_str key") (auto simp: tel_to_raw_def)
  from find have mem: "(key, label) \<in> set enum"
    unfolding find_Some_iff by (metis nth_mem)
  then have "map_of enum key = Some label" using assms(2) mem by simp
  moreover have "key = int_str n"
    using assms(3) mem n(1) by (auto simp: py_int_of_int_str)
  ultimately have label_back: "tel_from_raw name m (PInt n) = Inr (PStr label)"
    using assms(1) by (simp add: tel_from_raw_def)
  from telemetry_plain_run[OF assms(10,7,8,5,6) raw] n(2) obtain f w where
    f: "signal_field_for_mapping name m = Inr f"
    and "decode_telemetry_value name m bs = tel_from_raw name m w" "same_on_wire f raw w" by auto
  moreover have "sf_data_type f \<noteq> SIG_FLOAT"
    using signal_field_for_mapping_wf[OF f assms(7,8)] assms(4) by simp
  ultimately show ?thesis using label_back n(2) by (simp add: same_on_wire_def)
qed

lemma demo_mapping_ok:
  "tm_enum demo_mapping = Some [(''0'', ''offline''), (''1'', ''online'')]"
  "encode_telemetry_value ''power'' demo_mapping (PStr ''online'') = Inr [1]"
  "fl_eq (tm_scale demo_mapping) FL_ONE" "fl_eq (tm_offset_value demo_mapping) FL_ZERO"
  "fl_wf (tm_scale demo_mapping)" "fl_wf (tm_offset_value demo_mapping)"
  "tm_type demo_mapping = SIG_UINT"
  by code_simp+

lemma telemetry_enum_roundtrip_witness:
  "decode_telemetry_value ''power'' demo_mapping [1] = Inr (PStr ''online'')"
proof (rule telemetry_enum_roundtrip[OF demo_mapping_ok(1) _ _ _ demo_mapping_ok(3,4,5,6) _
      demo_mapping_ok(2)])
  have "''0'' = int_str 0" "''1'' = int_str 1" by code_simp+
  then show "\<forall>(key, label) \<in> set [(''0'', ''offline''), (''1'', ''online'')]. \<exists>n. key = int_str n"
    by auto
qed (simp_all add: demo_mapping_ok)

text \<open>
  A label whose enum key parses as an integer but is not printed that way (\<^verbatim>\<open>"01"\<close>, \<^verbatim>\<open>"+1"\<close>), with
  no entry under the printed key, can be encoded and never decoded: the decoder raises for the very
  bytes the encoder produced.
\<close>

theorem telemetry_noncanonical_key_undecodable:
  assumes "tm_enum m = Some enum" "find (\<lambda>(k, l). l = label) enum = Some (key, label)"
    and "py_int_of_str key = Some n" "map_of enum (int_str n) = None"
    and "tm_type m \<noteq> SIG_FLOAT" "fl_eq (tm_scale m) FL_ONE" "fl_eq (tm_offset_value m) FL_ZERO"
    and "fl_wf (tm_scale m)" "fl_wf (tm_offset_value m)"
    and "encode_telemetry_value name m (PStr label) = Inr bs"
  shows "decode_telemetry_value name m bs = Inl (TelNoLabel name (PInt n))"
proof -
  have eq: "(\<lambda>(k, l). Some l = py_str (PStr label)) = (\<lambda>(k :: string, l). l = label)"
    by auto
  have raw: "tel_to_raw name m (PStr label) = Inr (PInt n)"
    using assms(1-3) unfolding tel_to_raw_def eq by simp
  from telemetry_plain_run[OF assms(10,8,9,6,7) raw] obtain f w where
    f: "signal_field_for_mapping name m = Inr f"
    and "decode_telemetry_value name m bs = tel_from_raw name m w" "same_on_wire f (PInt n) w" by auto
  moreover have "sf_data_type f \<noteq> SIG_FLOAT"
    using signal_field_for_mapping_wf[OF f assms(8,9)] assms(5) by simp
  ultimately show ?thesis using assms(1,4) by (simp add: same_on_wire_def tel_from_raw_def)
qed

definition odd_mapping :: telemetry_mapping where
  "odd_mapping = demo_mapping\<lparr>tm_enum := Some [(''00'', ''offline''), (''01'', ''online'')]\<rparr>"

lemma telemetry_noncanonical_key_undecodable_witness:
  "decode_telemetry_value ''power'' odd_mapping [1] = Inl (TelNoLabel ''power'' (PInt 1))"
proof (rule telemetry_noncanonical_key_undecodable)
  show "tm_enum odd_mapping = Some [(''00'', ''offline''), (''01'', ''online'')]"
    "encode_telemetry_value ''power'' odd_mapping (PStr ''online'') = Inr [1]"
    "find (\<lambda>(k, l). l = ''online'') [(''00'', ''offline''), (''01'', ''online'')] = Some (''01'', ''online'')"
    "py_int_of_str ''01'' = Some 1"
    "map_of [(''00'', ''offline''), (''01'', ''online'')] (int_str 1) = None"
    "tm_type odd_mapping \<noteq> SIG_FLOAT" "fl_eq (tm_scale odd_mapping) FL_ONE"
    "fl_eq (tm_offset_value odd_mapping) FL_ZERO" "fl_wf (tm_scale odd_mapping)"
    "fl_wf (tm_offset_value odd_mapping)"
    by code_simp+
qed

text \<open>
  Packing an int too large for a double into a float or scaled field escapes the codec as an
  \<^verbatim>\<open>OverflowError\<close> instead of the \<^verbatim>\<open>SignalValueError\<close> that every other unencodable value gets.
\<close>

theorem pack_value_overflow_escapes:
  assumes "2 ^ 1024 \<le> \<bar>n\<bar>" "sf_data_type f = SIG_FLOAT \<or> \<not> sf_plain f"
  shows "pack_value f (PInt n) = Inl (SigUncaught PyOverflow)"
proof -
  have "fl_repr 53 (- 1074) fl_limit"
    unfolding fl_repr_def
    using fl_round_grid_id'[of 53 1 "- 1074" 1024 fl_limit] by (simp add: fl_limit_def)
  then have "fl_limit \<le> fl_round 53 (- 1074) (of_int \<bar>n\<bar>)"
    using fl_round_mono[of 53 fl_limit "of_int \<bar>n\<bar>" "- 1074"] assms(1)
    unfolding fl_repr_def fl_limit_def
    by (metis (mono_tags, lifting) of_int_le_iff of_int_numeral of_int_power one_le_numeral)
  then have "int_to_float n = Inl PyOverflow" by (simp add: int_to_float_def fl64_def)
  then have "coerce_real name (PInt n) = Inl (SigUncaught PyOverflow)" for name
    by (simp add: coerce_real_def lift_exn_def)
  with assms(2) show ?thesis
    by (auto simp: pack_value_def pack_float_def pack_integer_def physical_to_raw_integer_def)
qed

lemma pack_value_overflow_escapes_witness:
  "pack_value (demo_signals ! 2) (PInt (2 ^ 1024)) = Inl (SigUncaught PyOverflow)"
proof (rule pack_value_overflow_escapes)
  show "sf_data_type (demo_signals ! 2) = SIG_FLOAT \<or> \<not> sf_plain (demo_signals ! 2)" by code_simp
qed simp

end
