(* ===== verification/Transport.thy ===== *)
theory Transport
  imports CspLink
begin

text \<open>
  The transport boundary: \<^verbatim>\<open>transport/base.py\<close> (endpoints, envelopes, the packet senders and the
  \<^verbatim>\<open>drain\<close> loop), the deterministic bus of \<^verbatim>\<open>transport/in_memory.py\<close> and the KISS serial adapter of
  \<^verbatim>\<open>transport/kiss.py\<close>. A blocking \<^verbatim>\<open>receive(timeout=...)\<close> waits in real time only, which is not part
  of the state; the bytes a serial line has delivered when it is read are an argument, and the bytes
  written to it are a result. \<open>receive_stream\<close> is the contract of a receive queue, and gives what
  \<^verbatim>\<open>drain\<close> returns on any adapter that keeps it.
\<close>

section \<open>Endpoints, frames, envelopes\<close>

datatype endpoint_id = EpName string | EpNumber int

datatype frame = CanFrame can_frame | PacketFrame csp_packet_frame

datatype transport_error =
    TrNoCanIdentifier
  | TrNoCanData
  | TrEmptyEndpoint
  | TrNegativeEndpoint int
  | TrAlreadyConnected endpoint_id
  | TrNotConnected endpoint_id
  | TrNotWholePacket
  | TrCannotSend csp_error
  | TrLineClosed

record transport_envelope =
  env_frame :: frame
  env_sequence :: nat
  env_source :: "endpoint_id option"

definition env_can_id :: "transport_envelope \<Rightarrow> transport_error + int" where
  "env_can_id env =
     (case env_frame env of CanFrame fr \<Rightarrow> Inr (fr_can_id fr) | _ \<Rightarrow> Inl TrNoCanIdentifier)"

definition env_data :: "transport_envelope \<Rightarrow> transport_error + byte list" where
  "env_data env = (case env_frame env of CanFrame fr \<Rightarrow> Inr (fr_data fr) | _ \<Rightarrow> Inl TrNoCanData)"

definition validate_endpoint :: "endpoint_id \<Rightarrow> transport_error + endpoint_id" where
  "validate_endpoint ep =
     (case ep of
        EpName s \<Rightarrow> if s = [] then Inl TrEmptyEndpoint else Inr ep
      | EpNumber n \<Rightarrow> if n < 0 then Inl (TrNegativeEndpoint n) else Inr ep)"

section \<open>Packet senders\<close>

datatype packet_sender = CanPacketSender fragmenter | WholePacketSender int

definition mk_can_sender :: "int \<Rightarrow> csp_error + packet_sender" where
  "mk_can_sender max_packet_bytes = map_sum id CanPacketSender (mk_fragmenter max_packet_bytes)"

definition whole_sender_frames :: "int \<Rightarrow> csp_fields \<Rightarrow> byte list \<Rightarrow> csp_error + frame list" where
  "whole_sender_frames max_packet_bytes f payload =
     (if int (length payload) > max_packet_bytes
      then Inl (PayloadOverLimit (length payload) max_packet_bytes)
      else Inr [PacketFrame \<lparr>cp_fields = f, cp_payload = payload, cp_wire = []\<rparr>])"

definition sender_frames ::
  "packet_sender \<Rightarrow> csp_fields \<Rightarrow> byte list \<Rightarrow> csp_error + frame list \<times> packet_sender" where
  "sender_frames sender f payload =
     (case sender of
        CanPacketSender fg \<Rightarrow>
          res_bind (fragmenter_fragment fg f payload None) (\<lambda>(frames, fg').
            Inr (map CanFrame frames, CanPacketSender fg'))
      | WholePacketSender m \<Rightarrow>
          res_bind (whole_sender_frames m f payload) (\<lambda>frames. Inr (frames, sender)))"

section \<open>Draining a stream\<close>

text \<open>\<^verbatim>\<open>TransportAdapter.drain\<close>: it returns only if \<open>receive\<close> reports an empty stream at last.\<close>

partial_function (option) drain_loop ::
  "('s \<Rightarrow> transport_envelope option \<times> 's) \<Rightarrow> 's \<Rightarrow> transport_envelope list
    \<Rightarrow> (transport_envelope list \<times> 's) option" where
  "drain_loop receive s envelopes =
     (case receive s of
        (None, s') \<Rightarrow> Some (envelopes, s')
      | (Some env, s') \<Rightarrow> drain_loop receive s' (envelopes @ [env]))"

definition drain ::
  "('s \<Rightarrow> transport_envelope option \<times> 's) \<Rightarrow> 's \<Rightarrow> (transport_envelope list \<times> 's) option" where
  "drain receive s = drain_loop receive s []"

locale receive_stream =
  fixes view :: "'s \<Rightarrow> transport_envelope list"
    and receive :: "'s \<Rightarrow> transport_envelope option \<times> 's"
  assumes receive_none: "view s = [] \<Longrightarrow> receive s = (None, s)"
    and receive_some: "view s = env # envs \<Longrightarrow> \<exists>s'. receive s = (Some env, s') \<and> view s' = envs"
begin

lemma drain_loop_returns:
  "\<exists>s'. drain_loop receive s acc = Some (acc @ view s, s') \<and> view s' = []"
proof (induction "view s" arbitrary: s acc)
  case Nil
  then show ?case by (simp add: drain_loop.simps receive_none)
next
  case (Cons env envs)
  obtain s1 where s1: "receive s = (Some env, s1)" "view s1 = envs"
    using receive_some Cons.hyps(2) by metis
  then obtain s' where "drain_loop receive s1 (acc @ [env]) = Some ((acc @ [env]) @ view s1, s')"
    "view s' = []"
    using Cons.hyps(1) by blast
  with s1 show ?case by (simp add: drain_loop.simps flip: Cons.hyps(2))
qed

lemma drain_all: "\<exists>s'. drain receive s = Some (view s, s') \<and> view s' = []"
  using drain_loop_returns[of s "[]"] by (simp add: drain_def)

end

section \<open>The in-memory bus\<close>

record in_memory_bus =
  bus_monitor :: "transport_envelope list"
  bus_queues :: "(endpoint_id \<times> transport_envelope list) list"
  bus_next_sequence :: nat

definition empty_bus :: in_memory_bus where
  "empty_bus = \<lparr>bus_monitor = [], bus_queues = [], bus_next_sequence = 0\<rparr>"

definition bus_connect :: "endpoint_id \<Rightarrow> in_memory_bus \<Rightarrow> transport_error + in_memory_bus" where
  "bus_connect ep bus =
     res_bind (validate_endpoint ep) (\<lambda>ep.
     res_bind (res_check (map_of (bus_queues bus) ep = None) (TrAlreadyConnected ep)) (\<lambda>_.
       Inr (bus\<lparr>bus_queues := AList.update ep [] (bus_queues bus)\<rparr>)))"

definition mk_bus :: "endpoint_id list \<Rightarrow> transport_error + in_memory_bus" where
  "mk_bus endpoints = res_fold bus_connect endpoints empty_bus"

definition bus_endpoints :: "in_memory_bus \<Rightarrow> endpoint_id list" where
  "bus_endpoints bus = map fst (bus_queues bus)"

definition bus_disconnect :: "endpoint_id \<Rightarrow> in_memory_bus \<Rightarrow> transport_error + in_memory_bus" where
  "bus_disconnect ep bus =
     res_bind (validate_endpoint ep) (\<lambda>ep.
     res_bind (res_check (map_of (bus_queues bus) ep \<noteq> None) (TrNotConnected ep)) (\<lambda>_.
       Inr (bus\<lparr>bus_queues := AList.delete ep (bus_queues bus)\<rparr>)))"

definition bus_send ::
  "frame \<Rightarrow> endpoint_id option \<Rightarrow> in_memory_bus
    \<Rightarrow> transport_error + transport_envelope \<times> in_memory_bus" where
  "bus_send fr source bus =
     res_bind (case source of None \<Rightarrow> Inr None | Some ep \<Rightarrow> map_sum id Some (validate_endpoint ep))
       (\<lambda>source.
         let env = \<lparr>env_frame = fr, env_sequence = bus_next_sequence bus, env_source = source\<rparr>
         in Inr (env,
              \<lparr>bus_monitor = bus_monitor bus @ [env],
               bus_queues = map (\<lambda>(ep, q). (ep, if Some ep \<noteq> source then q @ [env] else q))
                 (bus_queues bus),
               bus_next_sequence = bus_next_sequence bus + 1\<rparr>))"

definition bus_queue_for ::
  "endpoint_id option \<Rightarrow> in_memory_bus \<Rightarrow> transport_error + transport_envelope list" where
  "bus_queue_for ep bus =
     (case ep of
        None \<Rightarrow> Inr (bus_monitor bus)
      | Some e \<Rightarrow>
          res_bind (validate_endpoint e) (\<lambda>e.
            (case map_of (bus_queues bus) e of
               Some q \<Rightarrow> Inr q
             | None \<Rightarrow> Inl (TrNotConnected e))))"

definition bus_set_queue ::
  "endpoint_id option \<Rightarrow> transport_envelope list \<Rightarrow> in_memory_bus \<Rightarrow> in_memory_bus" where
  "bus_set_queue ep q bus =
     (case ep of
        None \<Rightarrow> bus\<lparr>bus_monitor := q\<rparr>
      | Some e \<Rightarrow> bus\<lparr>bus_queues := AList.update e q (bus_queues bus)\<rparr>)"

definition bus_receive ::
  "endpoint_id option \<Rightarrow> in_memory_bus
    \<Rightarrow> transport_error + transport_envelope option \<times> in_memory_bus" where
  "bus_receive ep bus =
     res_bind (bus_queue_for ep bus) (\<lambda>queue.
       (case queue of
          [] \<Rightarrow> Inr (None, bus)
        | env # rest \<Rightarrow> Inr (Some env, bus_set_queue ep rest bus)))"

definition bus_pending_count :: "endpoint_id option \<Rightarrow> in_memory_bus \<Rightarrow> transport_error + nat" where
  "bus_pending_count ep bus = map_sum id length (bus_queue_for ep bus)"

definition bus_clear :: "endpoint_id option \<Rightarrow> in_memory_bus \<Rightarrow> transport_error + in_memory_bus" where
  "bus_clear ep bus = map_sum id (\<lambda>_. bus_set_queue ep [] bus) (bus_queue_for ep bus)"

section \<open>The KISS serial adapter\<close>

record transport_drop =
  td_reason :: kiss_drop_reason
  td_detail :: kiss_detail
  td_source :: "int option"
  td_destination :: "int option"
  td_limit :: "int option"

record kiss_adapter =
  ka_local_addresses :: "int list"
  ka_max_packet_bytes :: int
  ka_monitor :: "transport_envelope list"
  ka_queues :: "(int \<times> transport_envelope list) list"
  ka_next_sequence :: nat
  ka_decoder :: kiss_decoder
  ka_drops :: "transport_drop list"
  ka_closed :: bool

definition mk_kiss_adapter :: "int list \<Rightarrow> int \<Rightarrow> csp_error + kiss_adapter" where
  "mk_kiss_adapter local_addresses max_packet_bytes =
     res_bind (mk_kiss_decoder max_packet_bytes) (\<lambda>decoder.
       Inr \<lparr>ka_local_addresses = local_addresses, ka_max_packet_bytes = max_packet_bytes,
            ka_monitor = [], ka_queues = map (\<lambda>a. (a, [])) (sort (remdups local_addresses)),
            ka_next_sequence = 0, ka_decoder = decoder, ka_drops = [], ka_closed = False\<rparr>)"

definition ka_envelope ::
  "csp_packet_frame \<Rightarrow> endpoint_id option \<Rightarrow> kiss_adapter \<Rightarrow> transport_envelope \<times> kiss_adapter" where
  "ka_envelope fr source a =
     (\<lparr>env_frame = PacketFrame fr, env_sequence = ka_next_sequence a, env_source = source\<rparr>,
      a\<lparr>ka_next_sequence := ka_next_sequence a + 1\<rparr>)"

definition ka_deliver ::
  "csp_packet_frame \<Rightarrow> endpoint_id option \<Rightarrow> kiss_adapter \<Rightarrow> transport_envelope \<times> kiss_adapter" where
  "ka_deliver fr source a =
     (let (env, a1) = ka_envelope fr source a;
          a2 = a1\<lparr>ka_monitor := ka_monitor a1 @ [env]\<rparr>;
          destination = cf_destination (cp_fields fr)
      in (env,
          case map_of (ka_queues a2) destination of
            Some q \<Rightarrow>
              if Some (EpNumber destination) \<noteq> source
              then a2\<lparr>ka_queues := AList.update destination (q @ [env]) (ka_queues a2)\<rparr>
              else a2
          | None \<Rightarrow> a2))"

text \<open>\<open>kiss_send\<close> returns the envelope, the new state and the bytes written to the line.\<close>

definition kiss_send ::
  "frame \<Rightarrow> endpoint_id option \<Rightarrow> kiss_adapter
    \<Rightarrow> transport_error + transport_envelope \<times> kiss_adapter \<times> byte list" where
  "kiss_send fr source a =
     (if ka_closed a then Inl TrLineClosed
      else case fr of
             CanFrame _ \<Rightarrow> Inl TrNotWholePacket
           | PacketFrame packet \<Rightarrow>
               if cf_destination (cp_fields packet) \<in> set (ka_local_addresses a)
               then let (env, a1) = ka_deliver packet source a in Inr (env, a1, [])
               else case encode_kiss_frame (cp_fields packet) (cp_payload packet)
                           (ka_max_packet_bytes a) of
                      Inl e \<Rightarrow> Inl (TrCannotSend e)
                    | Inr wire \<Rightarrow>
                        let (env, a1) = ka_envelope
                              \<lparr>cp_fields = cp_fields packet, cp_payload = cp_payload packet,
                               cp_wire = wire\<rparr> source a
                        in Inr (env, a1, wire))"

definition ka_handle_event :: "kiss_event \<Rightarrow> kiss_adapter \<Rightarrow> kiss_adapter" where
  "ka_handle_event e a =
     (case e of
        KissPacket p \<Rightarrow> snd (ka_deliver p None a)
      | KissDropped reason detail wire fs limit \<Rightarrow>
          a\<lparr>ka_drops := ka_drops a @
             [\<lparr>td_reason = reason, td_detail = detail, td_source = map_option cf_source fs,
               td_destination = map_option cf_destination fs, td_limit = limit\<rparr>]\<rparr>)"

definition ka_pump :: "byte list \<Rightarrow> kiss_adapter \<Rightarrow> kiss_adapter" where
  "ka_pump data a =
     (if data = [] then a
      else let (events, d) = kiss_feed (ka_decoder a) data
           in fold ka_handle_event events (a\<lparr>ka_decoder := d\<rparr>))"

definition ka_queue_for ::
  "endpoint_id option \<Rightarrow> kiss_adapter \<Rightarrow> transport_error + transport_envelope list" where
  "ka_queue_for ep a =
     (case ep of
        None \<Rightarrow> Inr (ka_monitor a)
      | Some (EpNumber n) \<Rightarrow>
          (case map_of (ka_queues a) n of
             Some q \<Rightarrow> Inr q
           | None \<Rightarrow> Inl (TrNotConnected (EpNumber n)))
      | Some (EpName s) \<Rightarrow> Inl (TrNotConnected (EpName s)))"

definition ka_set_queue ::
  "endpoint_id option \<Rightarrow> transport_envelope list \<Rightarrow> kiss_adapter \<Rightarrow> kiss_adapter" where
  "ka_set_queue ep q a =
     (case ep of
        None \<Rightarrow> a\<lparr>ka_monitor := q\<rparr>
      | Some (EpNumber n) \<Rightarrow> a\<lparr>ka_queues := AList.update n q (ka_queues a)\<rparr>
      | Some (EpName s) \<Rightarrow> a)"

text \<open>
  \<open>polled\<close> is what the line has ready, \<open>waited\<close> what it delivers within the timeout, read only when
  the queue is still empty and \<open>wait\<close> (a positive timeout) was asked for.
\<close>

definition kiss_receive ::
  "endpoint_id option \<Rightarrow> bool \<Rightarrow> byte list \<Rightarrow> byte list \<Rightarrow> kiss_adapter
    \<Rightarrow> transport_error + transport_envelope option \<times> kiss_adapter" where
  "kiss_receive ep wait polled waited a =
     (if ka_closed a then Inl TrLineClosed
      else
        res_bind (ka_queue_for ep a) (\<lambda>_.
          let a1 = ka_pump polled a in
          res_bind (ka_queue_for ep a1) (\<lambda>queue1.
            let a2 = (if queue1 = [] \<and> wait then ka_pump waited a1 else a1) in
            res_bind (ka_queue_for ep a2) (\<lambda>queue.
              (case queue of
                 [] \<Rightarrow> Inr (None, a2)
               | env # rest \<Rightarrow> Inr (Some env, ka_set_queue ep rest a2))))))"

definition kiss_take_drops :: "kiss_adapter \<Rightarrow> transport_drop list \<times> kiss_adapter" where
  "kiss_take_drops a = (ka_drops a, a\<lparr>ka_drops := []\<rparr>)"

definition kiss_close :: "kiss_adapter \<Rightarrow> kiss_adapter" where
  "kiss_close a = a\<lparr>ka_closed := True\<rparr>"

section \<open>Sending packets through an adapter\<close>

text \<open>What the modules and the runner use of a transport adapter to send.\<close>

record 't adapter_ops =
  ad_new_sender :: "int \<Rightarrow> csp_error + packet_sender"
  ad_send :: "frame \<Rightarrow> endpoint_id option \<Rightarrow> 't \<Rightarrow> transport_error + transport_envelope \<times> 't"

definition bus_adapter :: "in_memory_bus adapter_ops" where
  "bus_adapter = \<lparr>ad_new_sender = mk_can_sender, ad_send = bus_send\<rparr>"

text \<open>The serial adapter's state is the adapter and the bytes written to the line so far.\<close>

definition kiss_line_adapter :: "(kiss_adapter \<times> byte list) adapter_ops" where
  "kiss_line_adapter =
     \<lparr>ad_new_sender = (\<lambda>m. Inr (WholePacketSender m)),
      ad_send = (\<lambda>fr source (a, out).
        map_sum id (\<lambda>(env, a', wire). (env, (a', out @ wire))) (kiss_send fr source a))\<rparr>"

fun send_frames ::
  "'t adapter_ops \<Rightarrow> endpoint_id \<Rightarrow> frame list \<Rightarrow> 't \<Rightarrow> (transport_error + transport_envelope list) \<times> 't" where
  "send_frames ops source [] t = (Inr [], t)"
| "send_frames ops source (fr # frs) t =
     (case ad_send ops fr (Some source) t of
        Inl e \<Rightarrow> (Inl e, t)
      | Inr (env, t1) \<Rightarrow>
          (case send_frames ops source frs t1 of
             (Inl e, t2) \<Rightarrow> (Inl e, t2)
           | (Inr envs, t2) \<Rightarrow> (Inr (env # envs), t2)))"

lemma bus_send_ok:
  assumes "is_ok (validate_endpoint ep)"
  shows "\<exists>env bus'. bus_send fr (Some ep) bus = Inr (env, bus') \<and> env_frame env = fr \<and>
     bus_monitor bus' = bus_monitor bus @ [env]"
  using assms by (cases ep) (auto simp: bus_send_def Let_def validate_endpoint_def is_ok_def split: if_splits)

lemma send_frames_bus:
  assumes "is_ok (validate_endpoint ep)"
  shows "\<exists>envs bus'. send_frames bus_adapter ep frames bus = (Inr envs, bus') \<and>
     map env_frame envs = frames \<and> bus_monitor bus' = bus_monitor bus @ envs"
proof (induction frames arbitrary: bus)
  case (Cons fr frames)
  obtain env bus1 where one: "bus_send fr (Some ep) bus = Inr (env, bus1)" "env_frame env = fr"
    "bus_monitor bus1 = bus_monitor bus @ [env]"
    using bus_send_ok[OF assms] by blast
  obtain envs bus2 where rest: "send_frames bus_adapter ep frames bus1 = (Inr envs, bus2)"
    "map env_frame envs = frames" "bus_monitor bus2 = bus_monitor bus1 @ envs"
    using Cons by blast
  show ?case using one rest by (simp add: bus_adapter_def)
qed simp

section \<open>What the streams hold\<close>

definition bus_view :: "endpoint_id option \<Rightarrow> in_memory_bus \<Rightarrow> transport_envelope list" where
  "bus_view ep bus = (case bus_queue_for ep bus of Inr q \<Rightarrow> q | Inl _ \<Rightarrow> [])"

definition bus_stream ::
  "endpoint_id option \<Rightarrow> in_memory_bus \<Rightarrow> transport_envelope option \<times> in_memory_bus" where
  "bus_stream ep bus = (case bus_receive ep bus of Inr r \<Rightarrow> r | Inl _ \<Rightarrow> (None, bus))"

lemma validate_endpoint_Inr: "validate_endpoint e = Inr e' \<Longrightarrow> e' = e"
  by (auto simp: validate_endpoint_def split: endpoint_id.splits if_splits)

interpretation bus_stream: receive_stream "bus_view ep" "bus_stream ep" for ep
proof unfold_locales
  fix bus assume "bus_view ep bus = []"
  then show "bus_stream ep bus = (None, bus)"
    by (cases "bus_queue_for ep bus") (auto simp: bus_view_def bus_stream_def bus_receive_def)
next
  fix bus env envs assume v: "bus_view ep bus = env # envs"
  then have q: "bus_queue_for ep bus = Inr (env # envs)"
    by (cases "bus_queue_for ep bus") (auto simp: bus_view_def)
  then have "bus_queue_for ep (bus_set_queue ep envs bus) = Inr envs"
    by (auto simp: bus_queue_for_def bus_set_queue_def update_conv' res_bind_eq_Inr
        split: option.splits dest: validate_endpoint_Inr)
  with q show "\<exists>bus'. bus_stream ep bus = (Some env, bus') \<and> bus_view ep bus' = envs"
    by (simp add: bus_stream_def bus_receive_def bus_view_def)
qed

fun bus_send_all ::
  "(frame \<times> endpoint_id option) list \<Rightarrow> in_memory_bus
    \<Rightarrow> transport_error + transport_envelope list \<times> in_memory_bus" where
  "bus_send_all [] bus = Inr ([], bus)"
| "bus_send_all ((fr, source) # sends) bus =
     res_bind (bus_send fr source bus) (\<lambda>(env, bus1).
     res_bind (bus_send_all sends bus1) (\<lambda>(envs, bus2). Inr (env # envs, bus2)))"

lemma bus_send_Inr:
  assumes "bus_send fr source bus = Inr (env, bus')"
  shows "env = \<lparr>env_frame = fr, env_sequence = bus_next_sequence bus, env_source = source\<rparr> \<and>
     bus_next_sequence bus' = Suc (bus_next_sequence bus) \<and>
     bus_monitor bus' = bus_monitor bus @ [env] \<and>
     bus_queues bus' = map (\<lambda>(ep, q). (ep, if Some ep \<noteq> source then q @ [env] else q)) (bus_queues bus)"
  using assms
  by (cases source)
    (auto simp: bus_send_def Let_def validate_endpoint_def map_sum_def
      split: endpoint_id.splits if_splits)

lemma map_of_map_value:
  "map_of (map (\<lambda>(k, v). (k, g k v)) ps) k = map_option (g k) (map_of ps k)"
  by (induction ps) auto

lemma bus_view_send:
  assumes "bus_send fr source bus = Inr (env, bus')"
  shows "bus_view None bus' = bus_view None bus @ [env]"
    and "map_of (bus_queues bus) e \<noteq> None \<Longrightarrow> is_ok (validate_endpoint e) \<Longrightarrow>
      bus_view (Some e) bus' = bus_view (Some e) bus @ (if Some e = source then [] else [env])"
    and "map fst (bus_queues bus') = map fst (bus_queues bus)"
proof -
  note s = bus_send_Inr[OF assms]
  show "bus_view None bus' = bus_view None bus @ [env]"
    using s by (simp add: bus_view_def bus_queue_for_def)
  show "map fst (bus_queues bus') = map fst (bus_queues bus)"
    using s by (simp add: case_prod_beta comp_def)
  assume m: "map_of (bus_queues bus) e \<noteq> None" and "is_ok (validate_endpoint e)"
  then have "validate_endpoint e = Inr e"
    by (auto simp: validate_endpoint_def split: endpoint_id.splits if_splits)
  moreover have "map_of (bus_queues bus') e =
      map_option (\<lambda>q. if Some e \<noteq> source then q @ [env] else q) (map_of (bus_queues bus) e)"
    using s map_of_map_value[of "\<lambda>k q. if Some k \<noteq> source then q @ [env] else q" "bus_queues bus" e]
    by simp
  ultimately show "bus_view (Some e) bus' =
      bus_view (Some e) bus @ (if Some e = source then [] else [env])"
    using m by (auto simp: bus_view_def bus_queue_for_def)
qed

lemma bus_send_all_views:
  assumes "bus_send_all sends bus = Inr (envs, bus')"
  shows "map env_frame envs = map fst sends \<and> map env_source envs = map snd sends \<and>
     map env_sequence envs = [bus_next_sequence bus..<bus_next_sequence bus + length sends] \<and>
     bus_view None bus' = bus_view None bus @ envs \<and>
     map fst (bus_queues bus') = map fst (bus_queues bus) \<and>
     (\<forall>e \<in> set (bus_endpoints bus). is_ok (validate_endpoint e) \<longrightarrow>
        bus_view (Some e) bus' =
          bus_view (Some e) bus @ filter (\<lambda>env. env_source env \<noteq> Some e) envs)"
  using assms
proof (induction sends bus arbitrary: envs bus' rule: bus_send_all.induct)
  case (1 bus)
  then show ?case by simp
next
  case (2 fr source sends bus)
  from 2(2) obtain env bus1 envs1 where s: "bus_send fr source bus = Inr (env, bus1)"
    and rest: "bus_send_all sends bus1 = Inr (envs1, bus')" and envs: "envs = env # envs1"
    by (auto simp: res_bind_eq_Inr split: prod.splits)
  note ih = 2(1)[OF rest]
  note inr = bus_send_Inr[OF s]
  have e: "bus_view (Some e) bus' = bus_view (Some e) bus @
      filter (\<lambda>env. env_source env \<noteq> Some e) envs"
    if "e \<in> set (bus_endpoints bus)" "is_ok (validate_endpoint e)" for e
  proof -
    have "map_of (bus_queues bus) e \<noteq> None"
      using that(1) by (simp add: bus_endpoints_def map_of_eq_None_iff)
    moreover have "e \<in> set (bus_endpoints bus1)"
      using that(1) bus_view_send(3)[OF s] by (metis bus_endpoints_def)
    ultimately show ?thesis
      using ih bus_view_send(2)[OF s, of e] that(2) inr envs by auto
  qed
  have "map env_sequence envs =
      bus_next_sequence bus # [Suc (bus_next_sequence bus)..<Suc (bus_next_sequence bus) + length sends]"
    using ih inr envs by simp
  also have "\<dots> = [bus_next_sequence bus..<bus_next_sequence bus + length ((fr, source) # sends)]"
    using upt_conv_Cons[of "bus_next_sequence bus" "Suc (bus_next_sequence bus) + length sends"]
    by (simp del: upt_Suc)
  finally have sq: "map env_sequence envs = \<dots>" .
  have "map env_frame envs = map fst ((fr, source) # sends)"
    "map env_source envs = map snd ((fr, source) # sends)"
    "bus_view None bus' = bus_view None bus @ envs"
    "map fst (bus_queues bus') = map fst (bus_queues bus)"
    using ih inr envs bus_view_send[OF s] by simp_all
  with sq e show ?case by blast
qed

definition bus_idle :: "in_memory_bus \<Rightarrow> bool" where
  "bus_idle bus \<longleftrightarrow>
     (\<forall>e q. map_of (bus_queues bus) e = Some q \<longrightarrow> q = [] \<and> is_ok (validate_endpoint e))"

lemma bus_connect_Inr:
  assumes "bus_connect ep bus = Inr bus1"
  shows "set (bus_endpoints bus1) = insert ep (set (bus_endpoints bus)) \<and>
     bus_next_sequence bus1 = bus_next_sequence bus \<and> bus_monitor bus1 = bus_monitor bus \<and>
     (bus_idle bus \<longrightarrow> bus_idle bus1)"
proof -
  have v: "validate_endpoint ep = Inr ep"
    and b1: "bus1 = bus\<lparr>bus_queues := AList.update ep [] (bus_queues bus)\<rparr>"
    using assms by (auto simp: bus_connect_def res_bind_eq_Inr validate_endpoint_def
        split: endpoint_id.splits if_splits)
  have "set (bus_endpoints bus1) = insert ep (set (bus_endpoints bus))"
    using b1 dom_update[of ep "[]" "bus_queues bus"]
    by (simp add: bus_endpoints_def dom_map_of_conv_image_fst)
  moreover have "bus_idle bus \<longrightarrow> bus_idle bus1"
    using v by (simp add: b1 bus_idle_def update_conv')
  ultimately show ?thesis by (simp add: b1)
qed

lemma bus_connect_all_Inr:
  assumes "res_fold bus_connect endpoints bus = Inr bus'"
  shows "set (bus_endpoints bus') = set (bus_endpoints bus) \<union> set endpoints \<and>
     bus_next_sequence bus' = bus_next_sequence bus \<and> bus_monitor bus' = bus_monitor bus \<and>
     (bus_idle bus \<longrightarrow> bus_idle bus')"
  using assms
proof (induction endpoints arbitrary: bus)
  case (Cons ep eps)
  from Cons.prems obtain bus1 where c: "bus_connect ep bus = Inr bus1"
    and rest: "res_fold bus_connect eps bus1 = Inr bus'" by (auto simp: res_bind_eq_Inr)
  show ?case using bus_connect_Inr[OF c] Cons.IH[OF rest] by simp
qed simp

lemma mk_bus_Inr:
  assumes "mk_bus endpoints = Inr bus" "e \<in> set endpoints"
  shows "bus_view (Some e) bus = [] \<and> bus_view None bus = [] \<and> bus_next_sequence bus = 0 \<and>
     e \<in> set (bus_endpoints bus) \<and> is_ok (validate_endpoint e)"
proof -
  have c: "res_fold bus_connect endpoints empty_bus = Inr bus" using assms(1) by (simp add: mk_bus_def)
  note all = bus_connect_all_Inr[OF c]
  have idle: "bus_idle bus" using all by (simp add: bus_idle_def empty_bus_def)
  have mem: "e \<in> set (bus_endpoints bus)" using all assms(2) by simp
  then obtain q where "map_of (bus_queues bus) e = Some q"
    by (metis bus_endpoints_def map_of_eq_None_iff option.exhaust set_map)
  moreover from this have "q = []" and ok: "is_ok (validate_endpoint e)"
    using idle by (auto simp: bus_idle_def)
  ultimately have "bus_view (Some e) bus = []"
    by (auto simp: bus_view_def bus_queue_for_def is_ok_def dest: validate_endpoint_Inr
        split: sum.splits)
  moreover have "bus_view None bus = []"
    using all by (simp add: bus_view_def bus_queue_for_def empty_bus_def)
  ultimately show ?thesis using ok mem all by (simp add: empty_bus_def)
qed

lemma bus_broadcast_lemma:
  assumes "mk_bus endpoints = Inr bus" "bus_send_all sends bus = Inr (envs, bus')"
    and "e \<in> set endpoints"
  shows "map env_frame envs = map fst sends \<and> map env_source envs = map snd sends \<and>
     map env_sequence envs = [0..<length sends] \<and>
     (\<exists>b. drain (bus_stream None) bus' = Some (envs, b)) \<and>
     (\<exists>b. drain (bus_stream (Some e)) bus' =
            Some (filter (\<lambda>env. env_source env \<noteq> Some e) envs, b) \<and>
          bus_view (Some e) b = [])"
proof -
  note empty = mk_bus_Inr[OF assms(1,3)]
  note views = bus_send_all_views[OF assms(2)]
  have e: "bus_view (Some e) bus' = filter (\<lambda>env. env_source env \<noteq> Some e) envs"
    using views empty by auto
  have m: "bus_view None bus' = envs" using views empty by simp
  show ?thesis
    using views empty bus_stream.drain_all[of "Some e" bus'] bus_stream.drain_all[of None bus'] e m
    by auto
qed

section \<open>What the serial adapter delivers\<close>

lemma ka_deliver_decoder:
  "ka_deliver fr source (a\<lparr>ka_decoder := d\<rparr>) =
     (let (env, a') = ka_deliver fr source a in (env, a'\<lparr>ka_decoder := d\<rparr>))"
  by (simp add: ka_deliver_def ka_envelope_def Let_def split: option.splits)

lemma ka_handle_event_decoder:
  "ka_handle_event e (a\<lparr>ka_decoder := d\<rparr>) = (ka_handle_event e a)\<lparr>ka_decoder := d\<rparr>"
  by (cases e) (simp_all add: ka_handle_event_def ka_deliver_decoder Let_def case_prod_beta)

lemma ka_handle_events_decoder:
  "fold ka_handle_event es (a\<lparr>ka_decoder := d\<rparr>) = (fold ka_handle_event es a)\<lparr>ka_decoder := d\<rparr>"
  by (induction es arbitrary: a) (simp_all add: ka_handle_event_decoder)

lemma ka_handle_event_keeps [simp]: "ka_decoder (ka_handle_event e a) = ka_decoder a"
  by (cases e) (simp_all add: ka_handle_event_def ka_deliver_def ka_envelope_def Let_def split: option.splits)

lemma ka_handle_events_keep [simp]: "ka_decoder (fold ka_handle_event es a) = ka_decoder a"
  by (induction es arbitrary: a) simp_all

lemma ka_pump_events:
  "ka_pump data a = (let (events, d) = kiss_feed (ka_decoder a) data
     in (fold ka_handle_event events a)\<lparr>ka_decoder := d\<rparr>)"
proof (cases "data = []")
  case True
  then show ?thesis by (simp add: ka_pump_def kiss_feed_def)
next
  case False
  then show ?thesis
    by (cases "kiss_feed (ka_decoder a) data") (simp add: ka_pump_def ka_handle_events_decoder)
qed

lemma kiss_feed_append:
  "kiss_feed d (bs @ cs) =
     (let (evs, d1) = kiss_feed d bs; (evs', d2) = kiss_feed d1 cs in (evs @ evs', d2))"
  by (simp add: kiss_feed_def recv_all_append Let_def)

lemma ka_pump_append: "ka_pump cs (ka_pump bs a) = ka_pump (bs @ cs) a"
  by (simp add: ka_pump_events kiss_feed_append case_prod_beta Let_def ka_handle_events_decoder)

lemma ka_pump_chunks: "fold ka_pump chunks a = ka_pump (concat chunks) a"
proof (induction chunks arbitrary: a)
  case Nil
  then show ?case by (simp add: ka_pump_def)
next
  case (Cons c cs)
  then show ?case by (simp add: ka_pump_append)
qed

definition packet_events :: "kiss_event list \<Rightarrow> csp_packet_frame list" where
  "packet_events es = List.map_filter (\<lambda>e. case e of KissPacket p \<Rightarrow> Some p | _ \<Rightarrow> None) es"

definition drop_events :: "kiss_event list \<Rightarrow> transport_drop list" where
  "drop_events es = List.map_filter (\<lambda>e. case e of KissPacket p \<Rightarrow> None
     | KissDropped reason detail wire fs limit \<Rightarrow>
         Some \<lparr>td_reason = reason, td_detail = detail, td_source = map_option cf_source fs,
               td_destination = map_option cf_destination fs, td_limit = limit\<rparr>) es"

lemma event_counts: "length (packet_events es) + length (drop_events es) = length es"
  by (induction es) (auto simp: packet_events_def drop_events_def map_filter_simps split: kiss_event.splits)

definition env_destination :: "transport_envelope \<Rightarrow> int" where
  "env_destination env =
     (case env_frame env of PacketFrame p \<Rightarrow> cf_destination (cp_fields p) | _ \<Rightarrow> -1)"

lemma ka_handle_events_account:
  "\<exists>envs. map env_frame envs = map PacketFrame (packet_events es) \<and>
     map env_sequence envs = [ka_next_sequence a..<ka_next_sequence a + length envs] \<and>
     (\<forall>env \<in> set envs. env_source env = None) \<and>
     ka_next_sequence (fold ka_handle_event es a) = ka_next_sequence a + length envs \<and>
     ka_monitor (fold ka_handle_event es a) = ka_monitor a @ envs \<and>
     ka_drops (fold ka_handle_event es a) = ka_drops a @ drop_events es \<and>
     (\<forall>n. map_of (ka_queues (fold ka_handle_event es a)) n =
        map_option (\<lambda>q. q @ filter (\<lambda>env. env_destination env = n) envs) (map_of (ka_queues a) n))"
  (is "\<exists>envs. ?P es a envs")
proof (induction es arbitrary: a)
  case Nil
  have "?P [] a []" by (simp add: packet_events_def drop_events_def map_filter_simps option.map_id0[unfolded id_def])
  then show ?case by blast
next
  case (Cons e es)
  let ?a1 = "ka_handle_event e a"
  obtain envs where ih: "?P es ?a1 envs" using Cons.IH[of ?a1] by blast
  show ?case
  proof (cases e)
    case (KissPacket p)
    let ?env = "\<lparr>env_frame = PacketFrame p, env_sequence = ka_next_sequence a, env_source = None\<rparr>"
    have a1: "ka_next_sequence ?a1 = Suc (ka_next_sequence a)" "ka_monitor ?a1 = ka_monitor a @ [?env]"
      "ka_drops ?a1 = ka_drops a"
      by (simp_all add: KissPacket ka_handle_event_def ka_deliver_def ka_envelope_def Let_def split: option.splits)
    have q1: "map_of (ka_queues ?a1) n =
        map_option (\<lambda>q. q @ filter (\<lambda>env. env_destination env = n) [?env]) (map_of (ka_queues a) n)" for n
      by (auto simp: KissPacket ka_handle_event_def ka_deliver_def ka_envelope_def Let_def
          env_destination_def update_conv' option.map_id0[unfolded id_def] split: option.splits)
    have len: "Suc (ka_next_sequence a) + length envs = ka_next_sequence a + length (?env # envs)" by simp
    have ev: "packet_events (e # es) = p # packet_events es" "drop_events (e # es) = drop_events es"
      by (simp_all add: KissPacket packet_events_def drop_events_def map_filter_simps)
    have sq: "map env_sequence (?env # envs) = [ka_next_sequence a..<ka_next_sequence a + length (?env # envs)]"
      using ih a1(1) upt_conv_Cons[of "ka_next_sequence a" "Suc (ka_next_sequence a) + length envs"]
      by (simp del: upt_Suc)
    have q: "map_of (ka_queues (fold ka_handle_event (e # es) a)) n =
        map_option (\<lambda>q. q @ filter (\<lambda>env. env_destination env = n) (?env # envs)) (map_of (ka_queues a) n)" for n
      using ih q1[of n] by (simp add: option.map_comp comp_def)
    have "?P (e # es) a (?env # envs)"
      using ih a1 ev sq q by simp
    then show ?thesis by blast
  next
    case (KissDropped reason detail wire fs limit)
    have "?P (e # es) a envs"
      using ih by (simp add: KissDropped ka_handle_event_def packet_events_def drop_events_def map_filter_simps)
    then show ?thesis by blast
  qed
qed

lemma ka_pump_account:
  assumes "kiss_feed (ka_decoder a) data = (es, d)"
  shows "\<exists>envs. map env_frame envs = map PacketFrame (packet_events es) \<and>
     map env_sequence envs = [ka_next_sequence a..<ka_next_sequence a + length envs] \<and>
     ka_monitor (ka_pump data a) = ka_monitor a @ envs \<and>
     ka_drops (ka_pump data a) = ka_drops a @ drop_events es \<and>
     (\<forall>n. map_of (ka_queues (ka_pump data a)) n =
        map_option (\<lambda>q. q @ filter (\<lambda>env. env_destination env = n) envs) (map_of (ka_queues a) n)) \<and>
     length envs + length (drop_events es) = length es"
proof -
  have pump: "ka_pump data a = (fold ka_handle_event es a)\<lparr>ka_decoder := d\<rparr>"
    using assms by (simp add: ka_pump_events)
  obtain envs where envs: "map env_frame envs = map PacketFrame (packet_events es)"
    "map env_sequence envs = [ka_next_sequence a..<ka_next_sequence a + length envs]"
    "ka_monitor (fold ka_handle_event es a) = ka_monitor a @ envs"
    "ka_drops (fold ka_handle_event es a) = ka_drops a @ drop_events es"
    "\<forall>n. map_of (ka_queues (fold ka_handle_event es a)) n =
        map_option (\<lambda>q. q @ filter (\<lambda>env. env_destination env = n) envs) (map_of (ka_queues a) n)"
    using ka_handle_events_account[of es a] by blast
  have "length envs = length (packet_events es)"
    using envs(1) by (metis length_map)
  then have "length envs + length (drop_events es) = length es"
    using event_counts[of es] by simp
  then show ?thesis using envs by (intro exI[of _ envs]) (simp add: pump)
qed

lemma kiss_adapter_transfer:
  assumes "kiss_send (PacketFrame p) source a = Inr (env, a', wire)"
    and "cf_destination (cp_fields p) \<notin> set (ka_local_addresses a)"
    and "wf_csp_fields (cp_fields p)" "cf_flags (cp_fields p) AND CSP_FLAG_FRAGMENT = 0"
    and "kiss_idle (ka_decoder b)"
    and "int (length (cp_payload p)) + 4 < kd_max_packet_bytes (ka_decoder b)"
    and "map_of (ka_queues b) (cf_destination (cp_fields p)) = Some q"
    and "concat chunks = wire"
  shows "\<exists>w. let env' = \<lparr>env_frame = PacketFrame (p\<lparr>cp_wire := w\<rparr>),
           env_sequence = ka_next_sequence b, env_source = None\<rparr>; b' = fold ka_pump chunks b in
     map_of (ka_queues b') (cf_destination (cp_fields p)) = Some (q @ [env']) \<and>
     ka_monitor b' = ka_monitor b @ [env'] \<and> ka_drops b' = ka_drops b \<and>
     kiss_idle (ka_decoder b')"
proof -
  let ?f = "cp_fields p"
  have e: "encode_kiss_frame ?f (cp_payload p) (ka_max_packet_bytes a) = Inr wire"
    using assms(1,2) by (auto simp: kiss_send_def ka_envelope_def split: if_splits sum.splits)
  obtain w d' where feed: "kiss_feed (ka_decoder b) wire =
      ([KissPacket \<lparr>cp_fields = ?f, cp_payload = cp_payload p, cp_wire = w\<rparr>], d')"
    and d': "kd_mode d' = NOT_STARTED" "kd_max_packet_bytes d' = kd_max_packet_bytes (ka_decoder b)"
    using kiss_decode_encode[OF assms(5,3,4) e assms(6)] by blast
  let ?p = "p\<lparr>cp_wire := w\<rparr>"
  have feed': "kiss_feed (ka_decoder b) wire = ([KissPacket ?p], d')" using feed by simp
  have b': "fold ka_pump chunks b = (ka_handle_event (KissPacket ?p) b)\<lparr>ka_decoder := d'\<rparr>"
    using feed' by (simp add: ka_pump_chunks assms(8) ka_pump_events)
  show ?thesis
    using assms(5,7) d' by (intro exI[of _ w])
      (simp add: b' ka_handle_event_def ka_deliver_def ka_envelope_def Let_def update_conv' kiss_idle_def)
qed

section \<open>Properties\<close>

definition demo_bus_sends :: "(frame \<times> endpoint_id option) list" where
  "demo_bus_sends = [(PacketFrame \<lparr>cp_fields = kiss_demo_fields, cp_payload = [1], cp_wire = []\<rparr>, Some (EpNumber 1)),
     (PacketFrame \<lparr>cp_fields = kiss_demo_fields, cp_payload = [2], cp_wire = []\<rparr>, Some (EpName ''eps'')),
     (PacketFrame \<lparr>cp_fields = kiss_demo_fields, cp_payload = [3], cp_wire = []\<rparr>, None)]"

definition demo_bus :: in_memory_bus where
  "demo_bus = \<lparr>bus_monitor = [], bus_queues = [(EpNumber 1, []), (EpName ''eps'', [])], bus_next_sequence = 0\<rparr>"

text \<open>
  the in-memory bus broadcasts in order and loses nothing. After any sequence of successful
  sends on a bus built from a list of endpoints, \<^verbatim>\<open>drain\<close> on an endpoint returns (it terminates) with
  exactly the envelopes sent by others, in send order, and leaves that queue empty; \<^verbatim>\<open>drain\<close> on the
  monitor returns every envelope; the envelopes carry the sent frames and sources and the sequence
  numbers 0, 1, 2, ...\<close>

theorem bus_broadcast_drained:
  assumes "mk_bus endpoints = Inr bus" "bus_send_all sends bus = Inr (envs, bus')"
    and "e \<in> set endpoints"
  shows "map env_frame envs = map fst sends \<and> map env_source envs = map snd sends \<and>
     map env_sequence envs = [0..<length sends] \<and>
     (\<exists>b. drain (bus_stream None) bus' = Some (envs, b)) \<and>
     (\<exists>b. drain (bus_stream (Some e)) bus' =
            Some (filter (\<lambda>env. env_source env \<noteq> Some e) envs, b) \<and>
          bus_view (Some e) b = [])"
  using assms by (rule bus_broadcast_lemma)

lemma bus_broadcast_drained_witness:
  "\<exists>envs bus' b. bus_send_all demo_bus_sends demo_bus = Inr (envs, bus') \<and>
     drain (bus_stream (Some (EpNumber 1))) bus' =
       Some (filter (\<lambda>env. env_source env \<noteq> Some (EpNumber 1)) envs, b) \<and>
     map env_sequence envs = [0..<3]"
proof -
  have bus: "mk_bus [EpNumber 1, EpName ''eps''] = Inr demo_bus"
    by (simp add: mk_bus_def bus_connect_def validate_endpoint_def empty_bus_def demo_bus_def)
  obtain envs bus' where sends: "bus_send_all demo_bus_sends demo_bus = Inr (envs, bus')"
    by (simp add: demo_bus_sends_def demo_bus_def bus_send_def validate_endpoint_def Let_def)
  have n: "length demo_bus_sends = 3" by (simp add: demo_bus_sends_def)
  have "EpNumber 1 \<in> set [EpNumber 1, EpName ''eps'']" by simp
  from bus_broadcast_drained[OF bus sends this] sends show ?thesis unfolding n by blast
qed

text \<open>
  a packet sent by one KISS adapter to an address it does not host is delivered by the adapter
  that does, however the serial line cuts the byte stream into reads: exactly one envelope, holding
  the sender's fields and payload, is appended to the destination's queue and to the monitor; nothing
  is dropped and the decoder is ready for the next packet.\<close>

theorem kiss_adapters_end_to_end:
  assumes "kiss_send (PacketFrame p) source a = Inr (env, a', wire)"
    and "cf_destination (cp_fields p) \<notin> set (ka_local_addresses a)"
    and "wf_csp_fields (cp_fields p)" "cf_flags (cp_fields p) AND CSP_FLAG_FRAGMENT = 0"
    and "kiss_idle (ka_decoder b)"
    and "int (length (cp_payload p)) + 4 < kd_max_packet_bytes (ka_decoder b)"
    and "map_of (ka_queues b) (cf_destination (cp_fields p)) = Some q"
    and "concat chunks = wire"
  shows "\<exists>w. let env' = \<lparr>env_frame = PacketFrame (p\<lparr>cp_wire := w\<rparr>),
           env_sequence = ka_next_sequence b, env_source = None\<rparr>; b' = fold ka_pump chunks b in
     map_of (ka_queues b') (cf_destination (cp_fields p)) = Some (q @ [env']) \<and>
     ka_monitor b' = ka_monitor b @ [env'] \<and> ka_drops b' = ka_drops b \<and>
     kiss_idle (ka_decoder b')"
  using assms by (rule kiss_adapter_transfer)

definition demo_adapter :: "int \<Rightarrow> kiss_adapter" where
  "demo_adapter n = \<lparr>ka_local_addresses = [n], ka_max_packet_bytes = 64, ka_monitor = [],
     ka_queues = [(n, [])], ka_next_sequence = 0, ka_decoder = kiss_demo_decoder, ka_drops = [],
     ka_closed = False\<rparr>"

definition demo_packet :: csp_packet_frame where
  "demo_packet = \<lparr>cp_fields = kiss_demo_fields, cp_payload = kiss_demo_payload, cp_wire = []\<rparr>"

lemma kiss_adapters_end_to_end_witness:
  "\<exists>env a' wire w. kiss_send (PacketFrame demo_packet) None (demo_adapter 3) = Inr (env, a', wire) \<and>
     (let env' = \<lparr>env_frame = PacketFrame (demo_packet\<lparr>cp_wire := w\<rparr>), env_sequence = 0,
           env_source = None\<rparr>; b' = fold ka_pump [take 5 wire, drop 5 wire] (demo_adapter 192) in
     map_of (ka_queues b') 192 = Some [env'] \<and> ka_monitor b' = [env'] \<and> ka_drops b' = [])"
proof -
  have dest: "cf_destination (cp_fields demo_packet) = 192"
    by (simp add: demo_packet_def kiss_demo_fields_def)
  have wf: "wf_csp_fields (cp_fields demo_packet)" "cf_flags (cp_fields demo_packet) AND CSP_FLAG_FRAGMENT = 0"
    using kiss_demo(1,2) by (simp_all add: demo_packet_def)
  obtain wire where wire: "encode_kiss_frame (cp_fields demo_packet) (cp_payload demo_packet) 64 = Inr wire"
    by (simp add: encode_kiss_frame_def demo_packet_def kiss_demo_payload_def Let_def)
  then obtain env a' where send:
    "kiss_send (PacketFrame demo_packet) None (demo_adapter 3) = Inr (env, a', wire)"
    by (simp add: kiss_send_def demo_adapter_def dest ka_envelope_def)
  have dst: "cf_destination (cp_fields demo_packet) \<notin> set (ka_local_addresses (demo_adapter 3))"
    by (simp add: dest demo_adapter_def)
  have idle: "kiss_idle (ka_decoder (demo_adapter 192))" using kiss_demo by (simp add: demo_adapter_def)
  have lim: "int (length (cp_payload demo_packet)) + 4 < kd_max_packet_bytes (ka_decoder (demo_adapter 192))"
    by (simp add: demo_packet_def kiss_demo_payload_def demo_adapter_def kiss_demo)
  have q: "map_of (ka_queues (demo_adapter 192)) (cf_destination (cp_fields demo_packet)) = Some []"
    by (simp add: dest demo_adapter_def)
  have cut: "concat [take 5 wire, drop 5 wire] = wire" by simp
  show ?thesis
    using kiss_adapters_end_to_end[OF send dst wf idle lim q cut] send
    by (simp add: dest demo_adapter_def Let_def) blast
qed

text \<open>
  one pump of the serial line accounts for every event of the decoder: the decoded packets, in
  order and with consecutive sequence numbers, are exactly what the monitor gains, each local queue
  gains exactly those addressed to it, every dropped frame is recorded with its reason, and
  deliveries and drops together are all the events.\<close>

theorem kiss_pump_accounts:
  assumes "kiss_feed (ka_decoder a) data = (es, d)"
  shows "\<exists>envs. map env_frame envs = map PacketFrame (packet_events es) \<and>
     map env_sequence envs = [ka_next_sequence a..<ka_next_sequence a + length envs] \<and>
     ka_monitor (ka_pump data a) = ka_monitor a @ envs \<and>
     ka_drops (ka_pump data a) = ka_drops a @ drop_events es \<and>
     (\<forall>n. map_of (ka_queues (ka_pump data a)) n =
        map_option (\<lambda>q. q @ filter (\<lambda>env. env_destination env = n) envs) (map_of (ka_queues a) n)) \<and>
     length envs + length (drop_events es) = length es"
  using assms by (rule ka_pump_account)

lemma kiss_pump_accounts_witness:
  "\<exists>es d envs. kiss_feed kiss_demo_decoder (kiss_demo_bytes @ [0xC0, 1, 0xC0]) = (es, d) \<and>
     ka_monitor (ka_pump (kiss_demo_bytes @ [0xC0, 1, 0xC0]) (demo_adapter 192)) = envs \<and>
     ka_drops (ka_pump (kiss_demo_bytes @ [0xC0, 1, 0xC0]) (demo_adapter 192)) = drop_events es \<and>
     length envs + length (drop_events es) = length es"
proof -
  obtain es d where feed: "kiss_feed (ka_decoder (demo_adapter 192)) (kiss_demo_bytes @ [0xC0, 1, 0xC0]) = (es, d)"
    by (cases "kiss_feed (ka_decoder (demo_adapter 192)) (kiss_demo_bytes @ [0xC0, 1, 0xC0])")
  show ?thesis
    using kiss_pump_accounts[OF feed] feed by (auto simp: demo_adapter_def)
qed

end
