(* ===== verification/Engine.thy ===== *)
theory Engine
  imports PyValue Transport "HOL-Library.Multiset"
begin

text \<open>
  The discrete-event engine of \<^verbatim>\<open>engine.py\<close>: payloads, the virtual timeline, scheduling, dispatch
  and the two run loops.

  \<^verbatim>\<open>heapq\<close> keeps the queue so that \<^verbatim>\<open>queue[0]\<close> and \<^verbatim>\<open>heappop\<close> are the least item by
  (time, sequence); the model keeps the queue as the list in that order, which is also what
  \<^verbatim>\<open>sorted(queue)\<close> shows. A handler is a value of type \<open>'h\<close> and \<open>exec\<close> says what calling it does to
  the engine and to the rest of the program (\<open>'s\<close>), or which exception (\<open>'x\<close>) leaves it. A scheduling
  method that raises may still have changed the engine, so these methods return the new engine
  beside their result. A run loop need not end, and is a partial function into \<open>option\<close>.
\<close>

section \<open>Events\<close>

datatype event_kind = TIMER | BUS | TELEMETRY | COMMAND | FAULT | ASSERTION

definition kind_value :: "event_kind \<Rightarrow> string" where
  "kind_value k = (case k of TIMER \<Rightarrow> ''timer'' | BUS \<Rightarrow> ''bus'' | TELEMETRY \<Rightarrow> ''telemetry''
     | COMMAND \<Rightarrow> ''command'' | FAULT \<Rightarrow> ''fault'' | ASSERTION \<Rightarrow> ''assertion'')"

datatype kind_arg = Kind event_kind | KindName string

datatype engine_error =
    NegativeTime string int
  | SchedulePast int int
  | UnsupportedKind string
  | HandlerNotRegistered event_kind
  | EmptyName string
  | RunBackward int int
  | AdvanceBackward int int
  | AdvancePastPending int

record timer_payload =
  tp_name :: "string option"

record bus_payload =
  bp_envelope :: transport_envelope
  bp_endpoint :: "endpoint_id option"

record telemetry_payload =
  tlm_signal :: string
  tlm_value :: py_val
  tlm_source :: "endpoint_id option"

record command_payload =
  cmd_command :: string
  cmd_payload :: py_val
  cmd_source :: "endpoint_id option"
  cmd_target :: "endpoint_id option"

record fault_payload =
  fp_fault_type :: string
  fp_target :: string
  fp_value :: py_val
  fp_duration :: "int option"
  fp_cycles :: "int option"

record assertion_payload =
  ap_name :: string
  ap_passed :: "bool option"
  ap_detail :: "string option"

datatype event_payload =
    PlainPayload py_val
  | TimerPayload timer_payload
  | BusPayload bus_payload
  | TelemetryPayload telemetry_payload
  | CommandPayload command_payload
  | FaultPayload fault_payload
  | AssertionPayload assertion_payload

definition check_non_empty_str :: "string \<Rightarrow> string \<Rightarrow> engine_error + string" where
  "check_non_empty_str name value = (if str_strip value = [] then Inl (EmptyName name) else Inr value)"

definition check_virtual_time :: "string \<Rightarrow> int \<Rightarrow> engine_error + int" where
  "check_virtual_time name value = (if value < 0 then Inl (NegativeTime name value) else Inr value)"

definition check_optional_count :: "string \<Rightarrow> int option \<Rightarrow> engine_error + int option" where
  "check_optional_count name value =
     (case value of
        None \<Rightarrow> Inr None
      | Some n \<Rightarrow> if n < 0 then Inl (NegativeTime name n) else Inr (Some n))"

definition check_optional_time :: "string \<Rightarrow> int option \<Rightarrow> engine_error + int option" where
  "check_optional_time name value =
     (case value of None \<Rightarrow> Inr None | Some n \<Rightarrow> map_sum id Some (check_virtual_time name n))"

definition mk_timer_payload :: "string option \<Rightarrow> engine_error + timer_payload" where
  "mk_timer_payload name =
     (case name of
        None \<Rightarrow> Inr \<lparr>tp_name = None\<rparr>
      | Some s \<Rightarrow> res_bind (check_non_empty_str ''timer name'' s) (\<lambda>s. Inr \<lparr>tp_name = Some s\<rparr>))"

definition mk_telemetry_payload ::
  "string \<Rightarrow> py_val \<Rightarrow> endpoint_id option \<Rightarrow> engine_error + telemetry_payload" where
  "mk_telemetry_payload signal value source =
     res_bind (check_non_empty_str ''telemetry signal'' signal) (\<lambda>signal.
       Inr \<lparr>tlm_signal = signal, tlm_value = value, tlm_source = source\<rparr>)"

definition mk_command_payload ::
  "string \<Rightarrow> py_val \<Rightarrow> endpoint_id option \<Rightarrow> endpoint_id option \<Rightarrow> engine_error + command_payload" where
  "mk_command_payload command payload source target =
     res_bind (check_non_empty_str ''command'' command) (\<lambda>command.
       Inr \<lparr>cmd_command = command, cmd_payload = payload, cmd_source = source, cmd_target = target\<rparr>)"

definition mk_fault_payload ::
  "string \<Rightarrow> string \<Rightarrow> py_val \<Rightarrow> int option \<Rightarrow> int option \<Rightarrow> engine_error + fault_payload" where
  "mk_fault_payload fault_type target value duration cycles =
     res_bind (check_non_empty_str ''fault type'' fault_type) (\<lambda>fault_type.
     res_bind (check_non_empty_str ''fault target'' target) (\<lambda>target.
     res_bind (check_optional_time ''fault duration'' duration) (\<lambda>duration.
     res_bind (check_optional_time ''fault cycles'' cycles) (\<lambda>cycles.
       Inr \<lparr>fp_fault_type = fault_type, fp_target = target, fp_value = value,
            fp_duration = duration, fp_cycles = cycles\<rparr>))))"

definition mk_assertion_payload ::
  "string \<Rightarrow> bool option \<Rightarrow> string option \<Rightarrow> engine_error + assertion_payload" where
  "mk_assertion_payload name passed detail =
     res_bind (check_non_empty_str ''assertion name'' name) (\<lambda>name.
       Inr \<lparr>ap_name = name, ap_passed = passed, ap_detail = detail\<rparr>)"

record simulation_event =
  ev_time :: int
  ev_sequence :: nat
  ev_kind :: event_kind
  ev_payload :: event_payload

section \<open>The timeline\<close>

text \<open>\<^verbatim>\<open>_QueuedEvent\<close> compares by time, then sequence.\<close>

datatype queue_key = QueueKey (key_time: int) (key_sequence: nat)

instantiation queue_key :: linorder
begin

definition less_eq_queue_key :: "queue_key \<Rightarrow> queue_key \<Rightarrow> bool" where
  "less_eq_queue_key a b \<longleftrightarrow>
     key_time a < key_time b \<or> key_time a = key_time b \<and> key_sequence a \<le> key_sequence b"

definition less_queue_key :: "queue_key \<Rightarrow> queue_key \<Rightarrow> bool" where
  "less_queue_key a b \<longleftrightarrow>
     key_time a < key_time b \<or> key_time a = key_time b \<and> key_sequence a < key_sequence b"

instance
  by standard (auto simp: less_eq_queue_key_def less_queue_key_def queue_key.expand)

end

lemma queue_key_less [simp]:
  "QueueKey t n < QueueKey t' n' \<longleftrightarrow> t < t' \<or> t = t' \<and> n < n'"
  "QueueKey t n \<le> QueueKey t' n' \<longleftrightarrow> t < t' \<or> t = t' \<and> n \<le> n'"
  by (simp_all add: less_queue_key_def less_eq_queue_key_def)

record 'h queued_event =
  qe_time :: int
  qe_sequence :: nat
  qe_event :: simulation_event
  qe_handler :: "'h option"

definition qe_key :: "'h queued_event \<Rightarrow> queue_key" where
  "qe_key q = QueueKey (qe_time q) (qe_sequence q)"

definition ev_key :: "simulation_event \<Rightarrow> queue_key" where
  "ev_key ev = QueueKey (ev_time ev) (ev_sequence ev)"

record 'h engine =
  eng_now :: int
  eng_next_sequence :: nat
  eng_queue :: "'h queued_event list"
  eng_handlers :: "(event_kind \<times> 'h list) list"

definition mk_engine :: "int \<Rightarrow> engine_error + 'h engine" where
  "mk_engine start_time =
     res_bind (check_virtual_time ''start_time'' start_time) (\<lambda>t.
       Inr \<lparr>eng_now = t, eng_next_sequence = 0, eng_queue = [], eng_handlers = []\<rparr>)"

definition engine_pending_count :: "'h engine \<Rightarrow> nat" where
  "engine_pending_count e = length (eng_queue e)"

definition next_event_time :: "'h engine \<Rightarrow> int option" where
  "next_event_time e = (case eng_queue e of [] \<Rightarrow> None | q # _ \<Rightarrow> Some (qe_time q))"

definition pending_events :: "'h engine \<Rightarrow> simulation_event list" where
  "pending_events e = map qe_event (sort_key qe_key (eng_queue e))"

definition coerce_event_kind :: "kind_arg \<Rightarrow> engine_error + event_kind" where
  "coerce_event_kind kind =
     (case kind of
        Kind k \<Rightarrow> Inr k
      | KindName s \<Rightarrow>
          (case find (\<lambda>k. kind_value k = s) [TIMER, BUS, TELEMETRY, COMMAND, FAULT, ASSERTION] of
             Some k \<Rightarrow> Inr k
           | None \<Rightarrow> Inl (UnsupportedKind s)))"

definition kind_handlers :: "event_kind \<Rightarrow> 'h engine \<Rightarrow> 'h list" where
  "kind_handlers k e = (case map_of (eng_handlers e) k of Some hs \<Rightarrow> hs | None \<Rightarrow> [])"

definition add_handler :: "kind_arg \<Rightarrow> 'h \<Rightarrow> 'h engine \<Rightarrow> engine_error + 'h engine" where
  "add_handler kind h e =
     res_bind (coerce_event_kind kind) (\<lambda>k.
       Inr (e\<lparr>eng_handlers := AList.update k (kind_handlers k e @ [h]) (eng_handlers e)\<rparr>))"

definition remove_handler :: "kind_arg \<Rightarrow> 'h \<Rightarrow> 'h engine \<Rightarrow> engine_error + 'h engine" where
  "remove_handler kind h e =
     res_bind (coerce_event_kind kind) (\<lambda>k.
       (case map_of (eng_handlers e) k of
          None \<Rightarrow> Inl (HandlerNotRegistered k)
        | Some hs \<Rightarrow>
            if h \<notin> set hs then Inl (HandlerNotRegistered k)
            else let hs' = remove1 h hs
                 in if hs' = [] then Inr (e\<lparr>eng_handlers := AList.delete k (eng_handlers e)\<rparr>)
                    else Inr (e\<lparr>eng_handlers := AList.update k hs' (eng_handlers e)\<rparr>)))"

section \<open>Scheduling\<close>

definition schedule_at ::
  "int \<Rightarrow> kind_arg \<Rightarrow> event_payload \<Rightarrow> 'h option \<Rightarrow> 'h engine
    \<Rightarrow> (engine_error + simulation_event) \<times> 'h engine" where
  "schedule_at time kind payload handler e =
     (case check_virtual_time ''event time'' time of
        Inl err \<Rightarrow> (Inl err, e)
      | Inr t \<Rightarrow>
          if t < eng_now e then (Inl (SchedulePast t (eng_now e)), e)
          else
            let sequence = eng_next_sequence e;
                e1 = e\<lparr>eng_next_sequence := eng_next_sequence e + 1\<rparr>
            in (case coerce_event_kind kind of
                  Inl err \<Rightarrow> (Inl err, e1)
                | Inr k \<Rightarrow>
                    let ev = \<lparr>ev_time = t, ev_sequence = sequence, ev_kind = k, ev_payload = payload\<rparr>
                    in (Inr ev,
                        e1\<lparr>eng_queue := insort_key qe_key
                             \<lparr>qe_time = t, qe_sequence = sequence, qe_event = ev, qe_handler = handler\<rparr>
                             (eng_queue e1)\<rparr>)))"

definition schedule_after ::
  "int \<Rightarrow> kind_arg \<Rightarrow> event_payload \<Rightarrow> 'h option \<Rightarrow> 'h engine
    \<Rightarrow> (engine_error + simulation_event) \<times> 'h engine" where
  "schedule_after delay kind payload handler e =
     (case check_virtual_time ''event delay'' delay of
        Inl err \<Rightarrow> (Inl err, e)
      | Inr d \<Rightarrow> schedule_at (eng_now e + d) kind payload handler e)"

definition schedule_payload ::
  "int \<Rightarrow> event_kind \<Rightarrow> engine_error + event_payload \<Rightarrow> 'h option \<Rightarrow> 'h engine
    \<Rightarrow> (engine_error + simulation_event) \<times> 'h engine" where
  "schedule_payload delay k payload handler e =
     (case payload of
        Inl err \<Rightarrow> (Inl err, e)
      | Inr p \<Rightarrow> schedule_after delay (Kind k) p handler e)"

definition schedule_timer ::
  "int \<Rightarrow> string option \<Rightarrow> 'h option \<Rightarrow> 'h engine \<Rightarrow> (engine_error + simulation_event) \<times> 'h engine" where
  "schedule_timer delay name handler =
     schedule_payload delay TIMER (map_sum id TimerPayload (mk_timer_payload name)) handler"

definition schedule_bus ::
  "transport_envelope \<Rightarrow> int \<Rightarrow> endpoint_id option \<Rightarrow> 'h option \<Rightarrow> 'h engine
    \<Rightarrow> (engine_error + simulation_event) \<times> 'h engine" where
  "schedule_bus envelope delay endpoint handler =
     schedule_payload delay BUS
       (Inr (BusPayload \<lparr>bp_envelope = envelope, bp_endpoint = endpoint\<rparr>)) handler"

definition schedule_telemetry ::
  "string \<Rightarrow> py_val \<Rightarrow> int \<Rightarrow> endpoint_id option \<Rightarrow> 'h option \<Rightarrow> 'h engine
    \<Rightarrow> (engine_error + simulation_event) \<times> 'h engine" where
  "schedule_telemetry signal value delay source handler =
     schedule_payload delay TELEMETRY
       (map_sum id TelemetryPayload (mk_telemetry_payload signal value source)) handler"

definition schedule_command ::
  "string \<Rightarrow> int \<Rightarrow> py_val \<Rightarrow> endpoint_id option \<Rightarrow> endpoint_id option \<Rightarrow> 'h option \<Rightarrow> 'h engine
    \<Rightarrow> (engine_error + simulation_event) \<times> 'h engine" where
  "schedule_command command delay payload source target handler =
     schedule_payload delay COMMAND
       (map_sum id CommandPayload (mk_command_payload command payload source target)) handler"

definition schedule_fault ::
  "string \<Rightarrow> string \<Rightarrow> int \<Rightarrow> py_val \<Rightarrow> int option \<Rightarrow> int option \<Rightarrow> 'h option \<Rightarrow> 'h engine
    \<Rightarrow> (engine_error + simulation_event) \<times> 'h engine" where
  "schedule_fault fault_type target delay value duration cycles handler =
     schedule_payload delay FAULT
       (map_sum id FaultPayload (mk_fault_payload fault_type target value duration cycles)) handler"

definition schedule_assertion ::
  "string \<Rightarrow> int \<Rightarrow> bool option \<Rightarrow> string option \<Rightarrow> 'h option \<Rightarrow> 'h engine
    \<Rightarrow> (engine_error + simulation_event) \<times> 'h engine" where
  "schedule_assertion name delay passed detail handler =
     schedule_payload delay ASSERTION
       (map_sum id AssertionPayload (mk_assertion_payload name passed detail)) handler"

section \<open>Dispatch and the run loops\<close>

type_synonym ('h, 's, 'x) handler_exec =
  "'h \<Rightarrow> simulation_event \<Rightarrow> 'h engine \<times> 's \<Rightarrow> ('x + unit) \<times> ('h engine \<times> 's)"

fun run_handlers ::
  "('h, 's, 'x) handler_exec \<Rightarrow> simulation_event \<Rightarrow> 'h list \<Rightarrow> 'h engine \<times> 's
    \<Rightarrow> ('x + unit) \<times> ('h engine \<times> 's)" where
  "run_handlers exec ev [] st = (Inr (), st)"
| "run_handlers exec ev (h # hs) st =
     (case exec h ev st of
        (Inl x, st1) \<Rightarrow> (Inl x, st1)
      | (Inr _, st1) \<Rightarrow> run_handlers exec ev hs st1)"

definition dispatch ::
  "('h, 's, 'x) handler_exec \<Rightarrow> 'h queued_event \<Rightarrow> 'h engine \<times> 's
    \<Rightarrow> ('x + unit) \<times> ('h engine \<times> 's)" where
  "dispatch exec item st =
     (let ev = qe_event item in
      case (case qe_handler item of None \<Rightarrow> (Inr (), st) | Some h \<Rightarrow> exec h ev st) of
        (Inl x, st1) \<Rightarrow> (Inl x, st1)
      | (Inr _, st1) \<Rightarrow> run_handlers exec ev (kind_handlers (ev_kind ev) (fst st1)) st1)"

definition run_next ::
  "('h, 's, 'x) handler_exec \<Rightarrow> 'h engine \<times> 's
    \<Rightarrow> ('x + simulation_event option) \<times> ('h engine \<times> 's)" where
  "run_next exec st =
     (case eng_queue (fst st) of
        [] \<Rightarrow> (Inr None, st)
      | item # rest \<Rightarrow>
          (case dispatch exec item ((fst st)\<lparr>eng_queue := rest, eng_now := qe_time item\<rparr>, snd st) of
             (Inl x, st1) \<Rightarrow> (Inl x, st1)
           | (Inr _, st1) \<Rightarrow> (Inr (Some (qe_event item)), st1)))"

text \<open>The loop condition: any event pending, or one due at or before the horizon.\<close>

definition due :: "int option \<Rightarrow> 'h engine \<Rightarrow> bool" where
  "due horizon e =
     (case eng_queue e of
        [] \<Rightarrow> False
      | q # _ \<Rightarrow> (case horizon of None \<Rightarrow> True | Some h \<Rightarrow> qe_time q \<le> h))"

text \<open>The body both loops share; the boolean result is \<^verbatim>\<open>stopped_by_limit\<close>.\<close>

partial_function (option) run_loop ::
  "('h, 's, 'x) handler_exec \<Rightarrow> int option \<Rightarrow> nat option \<Rightarrow> 'h engine \<times> 's \<Rightarrow> simulation_event list
    \<Rightarrow> (('x + simulation_event list \<times> bool) \<times> ('h engine \<times> 's)) option" where
  "run_loop exec horizon remaining st dispatched =
     (if \<not> due horizon (fst st) then Some (Inr (dispatched, False), st)
      else if remaining = Some 0 then Some (Inr (dispatched, True), st)
      else
        (case run_next exec st of
           (Inl x, st1) \<Rightarrow> Some (Inl x, st1)
         | (Inr None, st1) \<Rightarrow> Some (Inr (dispatched, False), st1)
         | (Inr (Some ev), st1) \<Rightarrow>
             run_loop exec horizon (map_option (\<lambda>n. n - 1) remaining) st1 (dispatched @ [ev])))"

datatype 'x run_error = EngineFailed engine_error | HandlerRaised 'x

definition run_until_idle ::
  "('h, 's, 'x) handler_exec \<Rightarrow> int option \<Rightarrow> 'h engine \<times> 's
    \<Rightarrow> (('x run_error + simulation_event list) \<times> ('h engine \<times> 's)) option" where
  "run_until_idle exec max_events st =
     (case check_optional_count ''max_events'' max_events of
        Inl err \<Rightarrow> Some (Inl (EngineFailed err), st)
      | Inr remaining \<Rightarrow>
          map_option (\<lambda>(r, st1). (map_sum HandlerRaised fst r, st1))
            (run_loop exec None (map_option nat remaining) st []))"

definition run_until ::
  "('h, 's, 'x) handler_exec \<Rightarrow> int \<Rightarrow> int option \<Rightarrow> 'h engine \<times> 's
    \<Rightarrow> (('x run_error + simulation_event list) \<times> ('h engine \<times> 's)) option" where
  "run_until exec time max_events st =
     (case check_virtual_time ''run horizon'' time of
        Inl err \<Rightarrow> Some (Inl (EngineFailed err), st)
      | Inr horizon \<Rightarrow>
          if horizon < eng_now (fst st) then Some (Inl (EngineFailed (RunBackward horizon (eng_now (fst st)))), st)
          else
            (case check_optional_count ''max_events'' max_events of
               Inl err \<Rightarrow> Some (Inl (EngineFailed err), st)
             | Inr remaining \<Rightarrow>
                 map_option
                   (\<lambda>(r, st1).
                      (case r of
                         Inl x \<Rightarrow> (Inl (HandlerRaised x), st1)
                       | Inr (dispatched, stopped_by_limit) \<Rightarrow>
                           (Inr dispatched,
                            if stopped_by_limit then st1
                            else ((fst st1)\<lparr>eng_now := horizon\<rparr>, snd st1))))
                   (run_loop exec (Some horizon) (map_option nat remaining) st [])))"

definition advance_to :: "int \<Rightarrow> 'h engine \<Rightarrow> engine_error + 'h engine" where
  "advance_to time e =
     res_bind (check_virtual_time ''advance target'' time) (\<lambda>target.
       if target < eng_now e then Inl (AdvanceBackward target (eng_now e))
       else
         (case eng_queue e of
            [] \<Rightarrow> Inr (e\<lparr>eng_now := target\<rparr>)
          | q # _ \<Rightarrow>
              if qe_time q < target then Inl (AdvancePastPending (qe_time q))
              else Inr (e\<lparr>eng_now := target\<rparr>)))"

section \<open>The invariant of the timeline\<close>

definition qe_ok :: "'h queued_event \<Rightarrow> bool" where
  "qe_ok q \<longleftrightarrow> ev_time (qe_event q) = qe_time q \<and> ev_sequence (qe_event q) = qe_sequence q"

definition engine_inv :: "'h engine \<Rightarrow> bool" where
  "engine_inv e \<longleftrightarrow>
     0 \<le> eng_now e \<and> sorted_wrt (<) (map qe_key (eng_queue e)) \<and>
     (\<forall>q \<in> set (eng_queue e).
        qe_ok q \<and> eng_now e \<le> qe_time q \<and> qe_sequence q < eng_next_sequence e) \<and>
     distinct (map fst (eng_handlers e)) \<and> [] \<notin> snd ` set (eng_handlers e)"

text \<open>
  \<open>engine_extends d e e'\<close>: \<open>e'\<close> has the clock of \<open>e\<close> and its queue with more events, with fresh
  sequence numbers, due at least \<open>d\<close> from now.
\<close>

definition engine_extends :: "int \<Rightarrow> 'h engine \<Rightarrow> 'h engine \<Rightarrow> bool" where
  "engine_extends d e e' \<longleftrightarrow>
     eng_now e' = eng_now e \<and> eng_next_sequence e \<le> eng_next_sequence e' \<and>
     (engine_inv e \<longrightarrow> engine_inv e') \<and>
     (\<exists>new. mset (eng_queue e') = mset (eng_queue e) + new \<and>
        (\<forall>q \<in># new. eng_now e + d \<le> qe_time q \<and>
           eng_next_sequence e \<le> qe_sequence q \<and> qe_sequence q < eng_next_sequence e'))"

lemma engine_extends_refl [simp]: "engine_extends d e e"
  unfolding engine_extends_def by (auto intro: exI[of _ "{#}"])

lemma engine_extends_trans:
  assumes "engine_extends d e e1" "engine_extends d e1 e2"
  shows "engine_extends d e e2"
proof -
  obtain new1 where n1: "mset (eng_queue e1) = mset (eng_queue e) + new1"
    "\<forall>q \<in># new1. eng_now e + d \<le> qe_time q \<and> eng_next_sequence e \<le> qe_sequence q \<and>
       qe_sequence q < eng_next_sequence e1"
    using assms(1) by (auto simp: engine_extends_def)
  obtain new2 where n2: "mset (eng_queue e2) = mset (eng_queue e1) + new2"
    "\<forall>q \<in># new2. eng_now e1 + d \<le> qe_time q \<and> eng_next_sequence e1 \<le> qe_sequence q \<and>
       qe_sequence q < eng_next_sequence e2"
    using assms(2) by (auto simp: engine_extends_def)
  have base: "eng_now e1 = eng_now e" "eng_now e2 = eng_now e1"
    "eng_next_sequence e \<le> eng_next_sequence e1" "eng_next_sequence e1 \<le> eng_next_sequence e2"
    "engine_inv e \<longrightarrow> engine_inv e2"
    using assms by (auto simp: engine_extends_def)
  have "mset (eng_queue e2) = mset (eng_queue e) + (new1 + new2)" using n1(1) n2(1) by simp
  moreover have "\<forall>q \<in># new1 + new2. eng_now e + d \<le> qe_time q \<and>
      eng_next_sequence e \<le> qe_sequence q \<and> qe_sequence q < eng_next_sequence e2"
    using n1(2) n2(2) base by fastforce
  ultimately show ?thesis using base unfolding engine_extends_def by auto
qed

lemma engine_extends_mono: "engine_extends d e e' \<Longrightarrow> d' \<le> d \<Longrightarrow> engine_extends d' e e'"
  unfolding engine_extends_def by fastforce

lemma insort_key_strict:
  assumes "sorted_wrt (<) (map f xs)" "\<And>y. y \<in> set xs \<Longrightarrow> f y \<noteq> f x"
  shows "sorted_wrt (<) (map f (insort_key f x xs))"
  using assms
proof (induction xs)
  case (Cons a xs)
  have "f a \<noteq> f x" "sorted_wrt (<) (map f (insort_key f x xs))" using Cons by simp_all
  then show ?case using Cons.prems(1) by (fastforce simp: set_insort_key)
qed simp

lemma no_empty_handlers:
  "[] \<notin> snd ` set ps \<Longrightarrow> hs \<noteq> [] \<Longrightarrow> [] \<notin> snd ` set (AList.update k hs ps)"
  "[] \<notin> snd ` set ps \<Longrightarrow> [] \<notin> snd ` set (AList.delete k ps)"
  by (induction ps) auto

lemma schedule_at_extends:
  assumes "eng_now e + d \<le> time"
  shows "engine_extends d e (snd (schedule_at time kind payload handler e))"
proof (cases "time < 0 \<or> time < eng_now e")
  case True
  then show ?thesis by (auto simp: schedule_at_def check_virtual_time_def)
next
  case False
  let ?e1 = "e\<lparr>eng_next_sequence := eng_next_sequence e + 1\<rparr>"
  have e1: "engine_extends d e ?e1"
    unfolding engine_extends_def by (auto simp: engine_inv_def less_Suc_eq)
  show ?thesis
  proof (cases "coerce_event_kind kind")
    case (Inl err)
    with False e1 show ?thesis by (simp add: schedule_at_def check_virtual_time_def Let_def)
  next
    case (Inr k)
    define q where "q = \<lparr>qe_time = time, qe_sequence = eng_next_sequence e,
        qe_event = \<lparr>ev_time = time, ev_sequence = eng_next_sequence e, ev_kind = k, ev_payload = payload\<rparr>,
        qe_handler = handler\<rparr>"
    have e': "snd (schedule_at time kind payload handler e) =
        ?e1\<lparr>eng_queue := insort_key qe_key q (eng_queue e)\<rparr>"
      using False Inr by (simp add: schedule_at_def check_virtual_time_def Let_def q_def)
    have q: "qe_time q = time" "qe_sequence q = eng_next_sequence e" "qe_ok q"
      by (simp_all add: q_def qe_ok_def)
    have "engine_inv (?e1\<lparr>eng_queue := insort_key qe_key q (eng_queue e)\<rparr>)" if inv: "engine_inv e"
    proof -
      have "qe_key y \<noteq> qe_key q" if "y \<in> set (eng_queue e)" for y
        using inv that q by (auto simp: engine_inv_def qe_key_def)
      then have "sorted_wrt (<) (map qe_key (insort_key qe_key q (eng_queue e)))"
        using inv by (intro insort_key_strict) (auto simp: engine_inv_def)
      then show ?thesis
        using inv q False by (auto simp: engine_inv_def set_insort_key less_Suc_eq)
    qed
    moreover have "mset (insort_key qe_key q (eng_queue e)) = mset (eng_queue e) + {#q#}"
      by simp
    ultimately show ?thesis
      using assms q unfolding e' engine_extends_def by (auto intro!: exI[of _ "{#q#}"])
  qed
qed

lemma add_handler_extends: "add_handler kind h e = Inr e' \<Longrightarrow> engine_extends d e e'"
proof -
  assume "add_handler kind h e = Inr e'"
  then obtain k where e': "e' = e\<lparr>eng_handlers := AList.update k (kind_handlers k e @ [h]) (eng_handlers e)\<rparr>"
    by (auto simp: add_handler_def res_bind_eq_Inr)
  have "engine_inv e \<longrightarrow> engine_inv e'"
    using no_empty_handlers(1)[of "eng_handlers e" "kind_handlers k e @ [h]" k]
    by (simp add: e' engine_inv_def distinct_update)
  then show ?thesis unfolding engine_extends_def by (auto simp: e' intro!: exI[of _ "{#}"])
qed

lemma remove_handler_extends: "remove_handler kind h e = Inr e' \<Longrightarrow> engine_extends d e e'"
proof -
  assume r: "remove_handler kind h e = Inr e'"
  from r obtain k where k: "coerce_event_kind kind = Inr k"
    by (auto simp: remove_handler_def res_bind_eq_Inr)
  then obtain hs where "e' = e\<lparr>eng_handlers := AList.delete k (eng_handlers e)\<rparr> \<or>
      hs \<noteq> [] \<and> e' = e\<lparr>eng_handlers := AList.update k hs (eng_handlers e)\<rparr>"
    using r by (auto simp: remove_handler_def Let_def split: option.splits if_splits)
  then have "engine_inv e \<longrightarrow> engine_inv e'"
    using no_empty_handlers(1)[of "eng_handlers e" hs k] no_empty_handlers(2)[of "eng_handlers e" k]
    by (elim disjE conjE) (simp_all add: engine_inv_def distinct_update distinct_delete)
  moreover have "eng_now e' = eng_now e \<and> eng_next_sequence e' = eng_next_sequence e \<and> eng_queue e' = eng_queue e"
    using r k by (auto simp: remove_handler_def Let_def split: option.splits if_splits)
  ultimately show ?thesis unfolding engine_extends_def by (auto intro!: exI[of _ "{#}"])
qed

section \<open>Handlers that use the engine through its interface\<close>

text \<open>What a handler may do to the engine: schedule (at least \<open>d\<close> from now), register, unregister.\<close>

inductive engine_api :: "int \<Rightarrow> 'h engine \<Rightarrow> 'h engine \<Rightarrow> bool" for d :: int where
  api_schedule: "eng_now e + d \<le> time \<Longrightarrow>
     engine_api d e (snd (schedule_at time kind payload handler e))"
| api_add: "add_handler kind h e = Inr e' \<Longrightarrow> engine_api d e e'"
| api_remove: "remove_handler kind h e = Inr e' \<Longrightarrow> engine_api d e e'"

lemma engine_api_extends: "engine_api d e e' \<Longrightarrow> engine_extends d e e'"
  by (induction rule: engine_api.induct)
    (auto intro: schedule_at_extends add_handler_extends remove_handler_extends)

lemma engine_apis_extend: "(engine_api d)\<^sup>*\<^sup>* e e' \<Longrightarrow> engine_extends d e e'"
  by (induction rule: rtranclp_induct) (auto intro: engine_extends_trans engine_api_extends)

lemma schedule_after_api:
  assumes "d \<le> delay"
  shows "(engine_api d)\<^sup>*\<^sup>* e (snd (schedule_after delay kind payload handler e))"
proof (cases "delay < 0")
  case True
  then show ?thesis by (simp add: schedule_after_def check_virtual_time_def)
next
  case False
  then show ?thesis
    using api_schedule[of e d "eng_now e + delay" kind payload handler] assms
    by (simp add: schedule_after_def check_virtual_time_def r_into_rtranclp)
qed

lemma schedule_payload_api:
  "d \<le> delay \<Longrightarrow> (engine_api d)\<^sup>*\<^sup>* e (snd (schedule_payload delay k payload handler e))"
  by (cases payload) (simp_all add: schedule_payload_def schedule_after_api)

lemma run_loop_simps:
  "\<not> due horizon e \<Longrightarrow> run_loop exec horizon remaining (e, s) disp = Some (Inr (disp, False), (e, s))"
  "due horizon e \<Longrightarrow> run_loop exec horizon (Some 0) (e, s) disp = Some (Inr (disp, True), (e, s))"
  by (simp_all add: run_loop.simps)

lemma run_loop_step:
  assumes "due horizon e" "remaining \<noteq> Some 0"
  shows "run_loop exec horizon remaining (e, s) disp =
     (case run_next exec (e, s) of
        (Inl x, st1) \<Rightarrow> Some (Inl x, st1)
      | (Inr None, st1) \<Rightarrow> Some (Inr (disp, False), st1)
      | (Inr (Some ev), st1) \<Rightarrow>
          run_loop exec horizon (map_option (\<lambda>n. n - 1) remaining) st1 (disp @ [ev]))"
  using assms by (subst run_loop.simps) simp

lemma due_head: "due horizon e \<Longrightarrow> \<exists>q rest. eng_queue e = q # rest \<and> (\<forall>h. horizon = Some h \<longrightarrow> qe_time q \<le> h)"
  by (auto simp: due_def split: list.splits option.splits)

text \<open>What one run of the loop has done, from engine \<open>e\<close> to \<open>e'\<close> with the new events \<open>evs\<close> dispatched.\<close>

definition after_key :: "queue_key \<Rightarrow> 'h engine \<Rightarrow> bool" where
  "after_key k e \<longleftrightarrow> key_time k \<le> eng_now e \<and> key_sequence k < eng_next_sequence e \<and>
     (\<forall>q \<in> set (eng_queue e). k < qe_key q)"

definition ran :: "int option \<Rightarrow> 'h engine \<Rightarrow> simulation_event list \<Rightarrow> 'h engine \<Rightarrow> bool" where
  "ran horizon e evs e' \<longleftrightarrow>
     engine_inv e' \<and> eng_now e \<le> eng_now e' \<and> eng_next_sequence e \<le> eng_next_sequence e' \<and>
     sorted_wrt (<) (map ev_key evs) \<and>
     (\<forall>ev \<in> set evs. eng_now e \<le> ev_time ev \<and> ev_time ev \<le> eng_now e' \<and>
        (\<forall>h. horizon = Some h \<longrightarrow> ev_time ev \<le> h)) \<and>
     (\<forall>h. horizon = Some h \<longrightarrow> eng_now e \<le> h \<longrightarrow> eng_now e' \<le> h) \<and>
     (\<forall>k. after_key k e \<longrightarrow> (\<forall>ev \<in> set evs. k < ev_key ev)) \<and>
     (\<exists>added. mset (map qe_event (eng_queue e)) + added = mset evs + mset (map qe_event (eng_queue e')) \<and>
        (\<forall>ev \<in># added. eng_now e \<le> ev_time ev \<and> eng_next_sequence e \<le> ev_sequence ev))"

locale api_handlers =
  fixes exec :: "('h, 's, 'x) handler_exec" and d :: int
  assumes exec_api: "exec h ev (e, s) = (r, (e', s')) \<Longrightarrow> (engine_api d)\<^sup>*\<^sup>* e e'"
    and d_nonneg: "0 \<le> d"
begin

lemma run_handlers_extends: "run_handlers exec ev hs (e, s) = (r, (e', s')) \<Longrightarrow> engine_extends d e e'"
proof (induction hs arbitrary: e s)
  case (Cons h hs)
  obtain r1 e1 s1 where h: "exec h ev (e, s) = (r1, (e1, s1))"
    by (cases "exec h ev (e, s)") auto
  then have x: "engine_extends d e e1" using exec_api engine_apis_extend by blast
  show ?case
    using Cons h x by (cases r1) (auto intro: engine_extends_trans)
qed simp

lemma dispatch_extends: "dispatch exec item (e, s) = (r, (e', s')) \<Longrightarrow> engine_extends d e e'"
proof -
  assume a: "dispatch exec item (e, s) = (r, (e', s'))"
  let ?one = "case qe_handler item of None \<Rightarrow> (Inr (), (e, s)) | Some h \<Rightarrow> exec h (qe_event item) (e, s)"
  obtain r1 e1 s1 where one: "?one = (r1, (e1, s1))" by (cases ?one) auto
  then have x: "engine_extends d e e1"
    by (cases "qe_handler item") (auto dest: exec_api engine_apis_extend)
  show ?thesis
    using a one x run_handlers_extends
    by (cases r1) (auto simp: dispatch_def Let_def intro: engine_extends_trans)
qed

lemma run_next_extends:
  assumes "run_next exec (e, s) = (r, (e', s'))" "eng_queue e = q # rest" "engine_inv e"
  shows "engine_inv (e\<lparr>eng_queue := rest, eng_now := qe_time q\<rparr>) \<and>
     engine_extends d (e\<lparr>eng_queue := rest, eng_now := qe_time q\<rparr>) e' \<and>
     after_key (qe_key q) e' \<and>
     (case r of Inl _ \<Rightarrow> True | Inr ev \<Rightarrow> ev = Some (qe_event q))"
proof -
  let ?e1 = "e\<lparr>eng_queue := rest, eng_now := qe_time q\<rparr>"
  obtain r1 where dis: "dispatch exec q (?e1, s) = (r1, (e', s'))"
    using assms(1,2) by (cases "dispatch exec q (?e1, s)") (auto simp: run_next_def split: sum.splits)
  have inv: "engine_inv ?e1"
    using assms(2,3) by (auto simp: engine_inv_def qe_key_def)
  have ext: "engine_extends d ?e1 e'" by (rule dispatch_extends[OF dis])
  then obtain new where new: "mset (eng_queue e') = mset rest + new"
    "\<forall>x \<in># new. qe_time q + d \<le> qe_time x \<and> eng_next_sequence e \<le> qe_sequence x"
    by (auto simp: engine_extends_def)
  have q: "qe_sequence q < eng_next_sequence e" "\<forall>x \<in> set rest. qe_key q < qe_key x"
    using assms(2,3) by (auto simp: engine_inv_def)
  have "qe_key q < qe_key x" if "x \<in> set (eng_queue e')" for x
  proof -
    have "x \<in># mset (eng_queue e')" using that by simp
    then consider "x \<in> set rest" | "x \<in># new" unfolding new(1) by auto
    then show ?thesis
    proof cases
      case 1
      then show ?thesis using q by blast
    next
      case 2
      then show ?thesis using new(2) q(1) d_nonneg by (fastforce simp: qe_key_def)
    qed
  qed
  then have "after_key (qe_key q) e'"
    using ext q(1) by (auto simp: after_key_def engine_extends_def qe_key_def)
  with inv ext show ?thesis
    using assms(1,2) dis by (auto simp: run_next_def split: sum.splits prod.splits)
qed

lemma ran_nil: "engine_inv e \<Longrightarrow> ran horizon e [] e"
  by (auto simp: ran_def intro: exI[of _ "{#}"])

lemma ran_step:
  assumes inv: "engine_inv e" and q: "eng_queue e = q # rest"
    and h: "\<forall>h. horizon = Some h \<longrightarrow> qe_time q \<le> h"
    and nxt: "engine_extends d (e\<lparr>eng_queue := rest, eng_now := qe_time q\<rparr>) e1"
    and inv1: "engine_inv e1" and after: "after_key (qe_key q) e1"
    and rest: "ran horizon e1 evs e'"
  shows "ran horizon e (qe_event q # evs) e'"
proof -
  let ?ev = "qe_event q"
  have ok: "qe_ok q" "eng_now e \<le> qe_time q" "qe_sequence q < eng_next_sequence e"
    using inv q by (auto simp: engine_inv_def)
  have key: "ev_key ?ev = qe_key q" "ev_time ?ev = qe_time q"
    using ok(1) by (auto simp: qe_ok_def ev_key_def qe_key_def)
  have now1: "eng_now e1 = qe_time q" "eng_next_sequence e \<le> eng_next_sequence e1"
    using nxt by (auto simp: engine_extends_def)
  obtain new where new: "mset (eng_queue e1) = mset rest + new"
    "\<forall>x \<in># new. qe_time q + d \<le> qe_time x \<and> eng_next_sequence e \<le> qe_sequence x"
    using nxt by (auto simp: engine_extends_def)
  obtain added where added:
    "mset (map qe_event (eng_queue e1)) + added = mset evs + mset (map qe_event (eng_queue e'))"
    "\<forall>ev \<in># added. eng_now e1 \<le> ev_time ev \<and> eng_next_sequence e1 \<le> ev_sequence ev"
    using rest by (auto simp: ran_def)
  have later: "\<forall>ev \<in> set evs. qe_key q < ev_key ev"
    using rest after by (auto simp: ran_def)
  have new_ok: "\<forall>x \<in># new. qe_ok x"
  proof
    fix x assume "x \<in># new"
    then have "x \<in># mset (eng_queue e1)" using new(1) by simp
    then show "qe_ok x" using inv1 by (auto simp: engine_inv_def)
  qed
  have "mset (map qe_event (eng_queue e)) + (image_mset qe_event new + added) =
      mset (?ev # evs) + mset (map qe_event (eng_queue e'))"
    using added(1) by (simp add: q new(1) ac_simps)
  moreover have "\<forall>ev \<in># image_mset qe_event new + added.
      eng_now e \<le> ev_time ev \<and> eng_next_sequence e \<le> ev_sequence ev"
    using new(2) new_ok added(2) ok(2) now1 d_nonneg by (fastforce simp: qe_ok_def)
  ultimately have acc: "\<exists>added. mset (map qe_event (eng_queue e)) + added =
        mset (?ev # evs) + mset (map qe_event (eng_queue e')) \<and>
      (\<forall>ev \<in># added. eng_now e \<le> ev_time ev \<and> eng_next_sequence e \<le> ev_sequence ev)"
    by blast
  have k: "\<forall>k. after_key k e \<longrightarrow> (\<forall>ev \<in> set (?ev # evs). k < ev_key ev)"
    using later key(1) q by (fastforce simp: after_key_def)
  have r: "engine_inv e'" "eng_now e1 \<le> eng_now e'" "eng_next_sequence e1 \<le> eng_next_sequence e'"
    "sorted_wrt (<) (map ev_key evs)"
    "\<forall>ev \<in> set evs. eng_now e1 \<le> ev_time ev \<and> ev_time ev \<le> eng_now e' \<and>
        (\<forall>h. horizon = Some h \<longrightarrow> ev_time ev \<le> h)"
    "\<forall>h. horizon = Some h \<longrightarrow> eng_now e1 \<le> h \<longrightarrow> eng_now e' \<le> h"
    using rest by (auto simp: ran_def)
  have srt: "sorted_wrt (<) (map ev_key (?ev # evs))" using r(4) later key(1) by simp
  have bounds: "\<forall>ev \<in> set (?ev # evs). eng_now e \<le> ev_time ev \<and> ev_time ev \<le> eng_now e' \<and>
        (\<forall>h. horizon = Some h \<longrightarrow> ev_time ev \<le> h)"
    using r(2,5) key(2) ok(2) now1(1) h by fastforce
  show ?thesis
    unfolding ran_def using acc k r(1,2,3,6) srt bounds ok(2) now1 h by (intro conjI) auto
qed

definition loop_post :: "int option \<Rightarrow> 'h engine \<Rightarrow> nat option \<Rightarrow> simulation_event list \<Rightarrow>
    'x + simulation_event list \<times> bool \<Rightarrow> 'h engine \<Rightarrow> bool" where
  "loop_post horizon e remaining disp res e' \<longleftrightarrow>
     (case res of
        Inl _ \<Rightarrow> engine_inv e' \<and> eng_now e \<le> eng_now e'
      | Inr (dispatched, limited) \<Rightarrow>
          (\<exists>evs. dispatched = disp @ evs \<and> ran horizon e evs e' \<and>
             (\<forall>n. remaining = Some n \<longrightarrow> length evs \<le> n) \<and>
             (if limited then remaining = Some (length evs) \<and> due horizon e' else \<not> due horizon e')))"

lemma run_loop_post:
  assumes "run_loop exec horizon remaining st disp = Some out" "engine_inv (fst st)"
  shows "loop_post horizon (fst st) remaining disp (fst out) (fst (snd out))"
proof -
  define P where "P ex hz remaining st disp out \<longleftrightarrow> ex = exec \<and> engine_inv (fst st) \<longrightarrow>
      loop_post hz (fst st) remaining disp (fst out) (fst (snd out))"
    for ex :: "('h, 's, 'x) handler_exec" and hz remaining disp
      and st :: "'h engine \<times> 's" and out :: "('x + simulation_event list \<times> bool) \<times> ('h engine \<times> 's)"
  have "P exec horizon remaining st disp out"
  proof (rule run_loop.raw_induct[OF _ assms(1)])
    fix loop ex hz remaining st disp out
    assume ih: "\<And>ex hz remaining st disp out.
        loop ex hz remaining st disp = Some out \<Longrightarrow> P ex hz remaining st disp out"
      and body: "(if \<not> due hz (fst st) then Some (Inr (disp, False), st)
        else if remaining = Some 0 then Some (Inr (disp, True), st)
        else (case run_next ex st of
           (Inl x, st1) \<Rightarrow> Some (Inl x, st1)
         | (Inr None, st1) \<Rightarrow> Some (Inr (disp, False), st1)
         | (Inr (Some ev), st1) \<Rightarrow>
             loop ex hz (map_option (\<lambda>n. n - 1) remaining) st1 (disp @ [ev]))) = Some out"
    show "P ex hz remaining st disp out"
      unfolding P_def
    proof (intro impI, elim conjE)
      assume ex: "ex = exec" and inv: "engine_inv (fst st)"
      show "loop_post hz (fst st) remaining disp (fst out) (fst (snd out))"
      proof (cases "due hz (fst st) \<and> remaining \<noteq> Some 0")
        case False
        then show ?thesis
          using body ran_nil[OF inv, of hz] by (auto simp: loop_post_def split: if_splits)
      next
        case True
        obtain e s where st: "st = (e, s)" by (cases st)
        obtain q rest where q: "eng_queue e = q # rest" "\<forall>h. hz = Some h \<longrightarrow> qe_time q \<le> h"
          using True due_head[of hz e] by (auto simp: st)
        obtain r e1 s1 where n: "run_next exec (e, s) = (r, (e1, s1))" by (cases "run_next exec (e, s)") auto
        have inv_e: "engine_inv e" using inv by (simp add: st)
        note nx = run_next_extends[OF n q(1) inv_e]
        then have inv1: "engine_inv e1" by (simp add: engine_extends_def)
        have now1: "eng_now e1 = qe_time q" using nx by (simp add: engine_extends_def)
        have qn: "eng_now e \<le> qe_time q" using inv_e q by (auto simp: engine_inv_def)
        show ?thesis
        proof (cases r)
          case (Inl x)
          then show ?thesis
            using body True n ex inv1 now1 qn by (auto simp: st loop_post_def)
        next
          case (Inr ev)
          then have ev: "ev = Some (qe_event q)" using nx by simp
          then have "loop exec hz (map_option (\<lambda>n. n - 1) remaining) (e1, s1) (disp @ [qe_event q]) = Some out"
            using body True n ex Inr by (simp add: st)
          from ih[OF this] have
            post: "loop_post hz e1 (map_option (\<lambda>n. n - 1) remaining) (disp @ [qe_event q]) (fst out) (fst (snd out))"
            using inv1 by (simp add: P_def)
          show ?thesis
          proof (cases "fst out")
            case Inl
            then show ?thesis using post now1 qn by (simp add: loop_post_def st)
          next
            case (Inr p)
            obtain dl lim where p: "p = (dl, lim)" by (cases p)
            obtain evs where evs: "dl = (disp @ [qe_event q]) @ evs" "ran hz e1 evs (fst (snd out))"
              "if lim then map_option (\<lambda>n. n - 1) remaining = Some (length evs) \<and> due hz (fst (snd out))
               else \<not> due hz (fst (snd out))"
              "\<forall>n. map_option (\<lambda>n. n - 1) remaining = Some n \<longrightarrow> length evs \<le> n"
              using post by (auto simp: loop_post_def Inr p)
            have "ran hz e (qe_event q # evs) (fst (snd out))"
              using ran_step[OF inv_e q _ inv1 _ evs(2)] nx by blast
            moreover have "lim \<Longrightarrow> remaining = Some (Suc (length evs))"
              using evs(3) True by (cases remaining) auto
            moreover have "\<forall>n. remaining = Some n \<longrightarrow> Suc (length evs) \<le> n"
              using evs(4) True by (cases remaining) auto
            ultimately show ?thesis
              using evs by (auto simp: loop_post_def Inr p st intro!: exI[of _ "qe_event q # evs"])
          qed
        qed
      qed
    qed
  qed
  then show ?thesis using assms(2) by (simp add: P_def)
qed

end

text \<open>A loop with a bound on the events returns, whatever the handlers do.\<close>

lemma run_loop_bounded: "\<exists>out. run_loop exec horizon (Some n) st disp = Some out"
proof (induction n arbitrary: st disp)
  case 0
  then show ?case by (cases "due horizon (fst st)") (simp_all add: run_loop.simps)
next
  case (Suc n)
  show ?case
    using Suc.IH
    by (subst run_loop.simps) (auto split: prod.splits sum.splits option.splits)
qed

text \<open>
  With handlers that only schedule in the future (\<open>d > 0\<close>), the loop up to a horizon returns without
  any bound: each dispatched event is replaced by finitely many later ones, all within the horizon.
\<close>

definition work_left :: "int \<Rightarrow> 'h engine \<Rightarrow> nat multiset" where
  "work_left h e = {# nat (h + 1 - qe_time q). q \<in># filter_mset (\<lambda>q. qe_time q \<le> h) (mset (eng_queue e)) #}"

locale future_handlers = api_handlers +
  assumes d_pos: "0 < d"
begin

lemma work_left_decreases:
  assumes "eng_queue e = q # rest" "qe_time q \<le> h"
    and "engine_extends d (e\<lparr>eng_queue := rest, eng_now := qe_time q\<rparr>) e'"
  shows "(work_left h e', work_left h e) \<in> mult less_than"
proof -
  obtain new where new: "mset (eng_queue e') = mset rest + new" "\<forall>x \<in># new. qe_time q + d \<le> qe_time x"
    using assms(3) by (auto simp: engine_extends_def)
  let ?w = "\<lambda>M. {# nat (h + 1 - qe_time x). x \<in># filter_mset (\<lambda>x. qe_time x \<le> h) M #}"
  have l: "work_left h e' = ?w (mset rest) + ?w new" by (simp add: work_left_def new(1))
  have r: "work_left h e = ?w (mset rest) + {# nat (h + 1 - qe_time q) #}"
    using assms(2) by (simp add: work_left_def assms(1))
  have "\<exists>j \<in># {# nat (h + 1 - qe_time q) #}. (k, j) \<in> less_than" if "k \<in># ?w new" for k
    using that new(2) d_pos assms(2) by fastforce
  then show ?thesis unfolding l r by (intro one_step_implies_mult) auto
qed

lemma run_loop_horizon_returns:
  "engine_inv (fst st) \<Longrightarrow> \<exists>out. run_loop exec (Some h) remaining st disp = Some out"
proof (induction "work_left h (fst st)" arbitrary: st remaining disp rule: wf_induct_rule[OF wf_mult[OF wf_less_than]])
  case (1 st)
  obtain e s where st: "st = (e, s)" by (cases st)
  show ?case
  proof (cases "due (Some h) e \<and> remaining \<noteq> Some 0")
    case False
    then show ?thesis by (subst run_loop.simps) (auto simp: st)
  next
    case True
    obtain q rest where q: "eng_queue e = q # rest" "qe_time q \<le> h"
      using True due_head[of "Some h" e] by auto
    obtain r e1 s1 where n: "run_next exec (e, s) = (r, (e1, s1))" by (cases "run_next exec (e, s)") auto
    have inv: "engine_inv e" using "1.prems" by (simp add: st)
    note nx = run_next_extends[OF n q(1) inv]
    have "(work_left h e1, work_left h e) \<in> mult less_than"
      using work_left_decreases[OF q] nx by blast
    moreover have "engine_inv e1" using nx by (simp add: engine_extends_def)
    ultimately have "\<exists>out. run_loop exec (Some h) rem' (e1, s1) disp' = Some out" for rem' disp'
      using "1.hyps"[of "(e1, s1)"] by (simp add: st)
    then show ?thesis
      using True n by (simp add: st run_loop_step split: sum.splits option.splits)
  qed
qed

end

section \<open>The two loops\<close>

lemma not_due_all:
  assumes "engine_inv e" "\<not> due (Some h) e" "q \<in> set (eng_queue e)"
  shows "h < qe_time q"
proof (cases "eng_queue e")
  case (Cons q0 rest)
  then have "h < qe_time q0" using assms(2) by (simp add: due_def)
  moreover have "q = q0 \<or> qe_key q0 < qe_key q" using assms(1,3) Cons by (auto simp: engine_inv_def)
  ultimately show ?thesis by (auto simp: qe_key_def)
qed (use assms in simp)

lemma inv_at_horizon:
  assumes "engine_inv e" "\<not> due (Some h) e" "0 \<le> h"
  shows "engine_inv (e\<lparr>eng_now := h\<rparr>)"
  using assms not_due_all[OF assms(1,2)] by (fastforce simp: engine_inv_def)

lemma run_until_cases:
  assumes "run_until exec time max_events st = Some (Inr evs, st')"
  obtains limited st1 where "0 \<le> time" "eng_now (fst st) \<le> time"
    "max_events = None \<or> (\<exists>n. max_events = Some n \<and> 0 \<le> n)"
    "run_loop exec (Some time) (map_option nat max_events) st [] = Some (Inr (evs, limited), st1)"
    "st' = (if limited then st1 else ((fst st1)\<lparr>eng_now := time\<rparr>, snd st1))"
proof -
  let ?loop = "run_loop exec (Some time) (map_option nat max_events) st []"
  have ok: "0 \<le> time" "eng_now (fst st) \<le> time"
    "max_events = None \<or> (\<exists>n. max_events = Some n \<and> 0 \<le> n)"
    using assms by (auto simp: run_until_def check_virtual_time_def check_optional_count_def
        split: if_splits option.splits)
  have "check_optional_count ''max_events'' max_events = Inr max_events"
    using ok(3) by (auto simp: check_optional_count_def)
  then obtain r st1 where loop: "?loop = Some (r, st1)"
    and r: "(case r of Inl x \<Rightarrow> (Inl (HandlerRaised x), st1)
       | Inr (dispatched, stopped_by_limit) \<Rightarrow>
           (Inr dispatched, if stopped_by_limit then st1 else ((fst st1)\<lparr>eng_now := time\<rparr>, snd st1))) =
       (Inr evs, st')"
    using assms ok by (auto simp: run_until_def check_virtual_time_def)
  then obtain limited where "r = Inr (evs, limited)" by (auto split: sum.splits prod.splits)
  with r loop ok show ?thesis by (intro that) auto
qed

lemma run_until_raises:
  assumes "run_until exec time max_events st = Some (Inl x, st')"
  obtains "st' = st" | y where
    "run_loop exec (Some time) (map_option nat max_events) st [] = Some (Inl y, st')"
proof -
  let ?loop = "run_loop exec (Some time) (map_option nat max_events) st []"
  consider "st' = st" | out where "?loop = Some out"
    "(case out of (r, st1) \<Rightarrow>
       (case r of Inl x \<Rightarrow> (Inl (HandlerRaised x), st1)
        | Inr (dispatched, stopped_by_limit) \<Rightarrow>
           (Inr dispatched, if stopped_by_limit then st1 else ((fst st1)\<lparr>eng_now := time\<rparr>, snd st1)))) =
       (Inl x, st')"
    using assms by (cases max_events)
      (auto simp: run_until_def check_virtual_time_def check_optional_count_def split: if_splits)
  then show ?thesis
  proof cases
    case (2 out)
    then obtain y where "out = (Inl y, st')" by (cases out) (auto split: sum.splits prod.splits)
    with 2 that(2) show ?thesis by blast
  qed (use that(1) in blast)
qed

lemma due_None: "due None e \<longleftrightarrow> eng_queue e \<noteq> []"
  by (simp add: due_def split: list.splits)

lemma ran_pending:
  assumes "ran horizon e evs e'" "q \<in> set (eng_queue e)"
  shows "qe_event q \<in> set evs \<or> qe_event q \<in> qe_event ` set (eng_queue e')"
proof -
  obtain added where "mset (map qe_event (eng_queue e)) + added = mset evs + mset (map qe_event (eng_queue e'))"
    using assms(1) by (auto simp: ran_def)
  moreover have "qe_event q \<in># mset (map qe_event (eng_queue e))" using assms(2) by auto
  ultimately have "qe_event q \<in># mset evs + mset (map qe_event (eng_queue e'))"
    by (metis union_iff)
  then show ?thesis by auto
qed

definition timeline_run :: "'h engine \<Rightarrow> int \<Rightarrow> simulation_event list \<Rightarrow> 'h engine \<Rightarrow> bool" where
  "timeline_run e t evs e' \<longleftrightarrow>
     engine_inv e' \<and> eng_now e' = t \<and> sorted_wrt (<) (map ev_key evs) \<and>
     (\<forall>ev \<in> set evs. eng_now e \<le> ev_time ev \<and> ev_time ev \<le> t) \<and>
     (\<forall>q \<in> set (eng_queue e). qe_time q \<le> t \<longrightarrow> qe_event q \<in> set evs) \<and>
     (\<forall>q \<in> set (eng_queue e'). t < qe_time q) \<and>
     (\<exists>added. mset (map qe_event (eng_queue e)) + added = mset evs + mset (map qe_event (eng_queue e')) \<and>
        (\<forall>ev \<in># added. eng_now e \<le> ev_time ev \<and> eng_next_sequence e \<le> ev_sequence ev))"

context api_handlers
begin

lemma run_until_timeline:
  assumes "run_until exec time None (e, s) = Some (Inr evs, (e', s'))" "engine_inv e"
  shows "timeline_run e time evs e'"
proof -
  obtain limited e1 s1 where t: "0 \<le> time" "eng_now e \<le> time"
    and loop: "run_loop exec (Some time) None (e, s) [] = Some (Inr (evs, limited), (e1, s1))"
    and e': "(e', s') = (if limited then (e1, s1) else (e1\<lparr>eng_now := time\<rparr>, s1))"
    using assms(1) by (elim run_until_cases) auto
  have "loop_post (Some time) e None [] (Inr (evs, limited) :: 'x + _) e1"
    using run_loop_post[OF loop] assms(2) by simp
  then have ran: "ran (Some time) e evs e1" and nl: "\<not> limited" and nd: "\<not> due (Some time) e1"
    by (auto simp: loop_post_def split: if_splits)
  have e1: "e' = e1\<lparr>eng_now := time\<rparr>" using e' nl by simp
  have inv1: "engine_inv e1" using ran by (simp add: ran_def)
  have later: "\<forall>q \<in> set (eng_queue e1). time < qe_time q" using not_due_all[OF inv1 nd] by blast
  have "qe_event q \<in> set evs" if q: "q \<in> set (eng_queue e)" "qe_time q \<le> time" for q
  proof (rule ccontr)
    assume "qe_event q \<notin> set evs"
    then obtain q' where q': "q' \<in> set (eng_queue e1)" "qe_event q' = qe_event q"
      using ran_pending[OF ran q(1)] by auto
    then have "qe_time q' = qe_time q"
      using inv1 assms(2) q(1) unfolding engine_inv_def qe_ok_def by metis
    then show False using later q' q(2) by auto
  qed
  then show ?thesis
    using ran later inv_at_horizon[OF inv1 nd t(1)] unfolding timeline_run_def e1 ran_def by simp
qed

lemma run_until_limited:
  assumes "run_until exec time (Some n) (e, s) = Some (Inr evs, (e', s'))" "engine_inv e"
  shows "int (length evs) \<le> n \<and> engine_inv e' \<and> eng_now e \<le> eng_now e' \<and> eng_now e' \<le> time \<and>
     sorted_wrt (<) (map ev_key evs) \<and>
     (eng_now e' < time \<longrightarrow> int (length evs) = n \<and> (\<exists>q rest. eng_queue e' = q # rest \<and> qe_time q \<le> time))"
proof -
  obtain limited e1 s1 where t: "0 \<le> time" "eng_now e \<le> time" "0 \<le> n"
    and loop: "run_loop exec (Some time) (Some (nat n)) (e, s) [] = Some (Inr (evs, limited), (e1, s1))"
    and e': "(e', s') = (if limited then (e1, s1) else (e1\<lparr>eng_now := time\<rparr>, s1))"
    using assms(1) by (elim run_until_cases) auto
  have "loop_post (Some time) e (Some (nat n)) [] (Inr (evs, limited) :: 'x + _) e1"
    using run_loop_post[OF loop] assms(2) by simp
  then have ran: "ran (Some time) e evs e1"
    and len: "length evs \<le> nat n" and lim: "if limited then nat n = length evs \<and> due (Some time) e1 else \<not> due (Some time) e1"
    by (auto simp: loop_post_def split: if_splits)
  have base: "engine_inv e1" "eng_now e \<le> eng_now e1" "eng_now e1 \<le> time" "sorted_wrt (<) (map ev_key evs)"
    using ran t(2) by (auto simp: ran_def)
  show ?thesis
  proof (cases limited)
    case True
    then have "e' = e1" "nat n = length evs" "due (Some time) e1" using e' lim by auto
    then show ?thesis using base t(3) due_head[of "Some time" e1] by auto
  next
    case False
    then have e1: "e' = e1\<lparr>eng_now := time\<rparr>" and nd: "\<not> due (Some time) e1" using e' lim by auto
    show ?thesis
      using base t inv_at_horizon[OF base(1) nd t(1)] len e1 by auto
  qed
qed

end

lemma run_until_returns_if:
  assumes "\<exists>out. run_loop exec (Some time) (map_option nat max_events) st [] = Some out"
  shows "run_until exec time max_events st \<noteq> None"
proof -
  have "run_loop exec (Some time) (map_option nat max_events) st [] \<noteq> None" using assms by blast
  then show ?thesis
    by (cases max_events) (simp_all add: run_until_def check_virtual_time_def check_optional_count_def
        del: not_None_eq)
qed

context future_handlers
begin

lemma run_until_returns: "engine_inv (fst st) \<Longrightarrow> run_until exec time max_events st \<noteq> None"
  using run_loop_horizon_returns by (intro run_until_returns_if) blast

end

lemma run_until_bounded_returns: "run_until exec time (Some n) st \<noteq> None"
  using run_loop_bounded by (intro run_until_returns_if) (simp only: option.map)

section \<open>Errors of the scheduling interface\<close>

lemma schedule_at_outcome:
  "case schedule_at time kind payload handler e of
     (Inl err, e') \<Rightarrow>
       (time < 0 \<or> time < eng_now e \<or> (\<exists>s. kind = KindName s \<and> s \<notin> range kind_value)) \<and>
       eng_now e' = eng_now e \<and> eng_queue e' = eng_queue e \<and> eng_handlers e' = eng_handlers e \<and>
       eng_next_sequence e' = eng_next_sequence e + (if 0 \<le> time \<and> eng_now e \<le> time then 1 else 0)
   | (Inr ev, e') \<Rightarrow>
       0 \<le> time \<and> eng_now e \<le> time \<and> ev_time ev = time \<and> ev_sequence ev = eng_next_sequence e \<and>
       coerce_event_kind kind = Inr (ev_kind ev) \<and> ev_payload ev = payload \<and>
       eng_now e' = eng_now e \<and> eng_next_sequence e' = eng_next_sequence e + 1 \<and>
       mset (eng_queue e') = mset (eng_queue e) +
         {# \<lparr>qe_time = time, qe_sequence = eng_next_sequence e, qe_event = ev, qe_handler = handler\<rparr> #}"
proof -
  have all: "set [TIMER, BUS, TELEMETRY, COMMAND, FAULT, ASSERTION] = UNIV"
    using event_kind.exhaust by auto
  have kinds: "coerce_event_kind kind = Inl err \<Longrightarrow> \<exists>s. kind = KindName s \<and> s \<notin> range kind_value" for err
  proof (cases kind)
    case (KindName s)
    assume "coerce_event_kind kind = Inl err"
    then have "find (\<lambda>k. kind_value k = s) [TIMER, BUS, TELEMETRY, COMMAND, FAULT, ASSERTION] = None"
      by (simp add: coerce_event_kind_def KindName del: find.simps split: option.splits)
    then have "s \<notin> range kind_value" unfolding find_None_iff all by blast
    then show ?thesis using KindName by blast
  qed (simp add: coerce_event_kind_def)
  show ?thesis
  proof (cases "time < 0 \<or> time < eng_now e")
    case True
    then show ?thesis by (auto simp: schedule_at_def check_virtual_time_def)
  next
    case False
    then show ?thesis
      using kinds by (cases "coerce_event_kind kind")
        (auto simp: schedule_at_def check_virtual_time_def Let_def)
  qed
qed

lemma advance_to_iff:
  assumes "engine_inv e"
  shows "advance_to time e = Inr e' \<longleftrightarrow>
     0 \<le> time \<and> eng_now e \<le> time \<and> (\<forall>q \<in> set (eng_queue e). time \<le> qe_time q) \<and>
     e' = e\<lparr>eng_now := time\<rparr>"
proof (cases "eng_queue e")
  case Nil
  then show ?thesis by (auto simp: advance_to_def check_virtual_time_def)
next
  case (Cons q rest)
  have "\<forall>x \<in> set rest. qe_time q \<le> qe_time x"
    using assms Cons by (auto simp: engine_inv_def qe_key_def)
  then show ?thesis
    using Cons by (auto simp: advance_to_def check_virtual_time_def)
qed

lemma mk_engine_inv: "mk_engine t = Inr e \<Longrightarrow> engine_inv e"
  by (auto simp: mk_engine_def check_virtual_time_def engine_inv_def split: if_splits)

lemma advance_to_inv: "engine_inv e \<Longrightarrow> advance_to t e = Inr e' \<Longrightarrow> engine_inv e'"
  by (auto simp: advance_to_iff engine_inv_def)

lemma run_next_none: "run_next exec (e, s) = (Inr None, st') \<Longrightarrow> st' = (e, s)"
  by (auto simp: run_next_def split: list.splits sum.splits prod.splits)

lemma pending_events_in_order:
  assumes "engine_inv e"
  shows "pending_events e = map qe_event (eng_queue e)"
proof -
  have "sorted (map qe_key (eng_queue e))"
    using assms strict_sorted_imp_sorted by (auto simp: engine_inv_def)
  then show ?thesis by (simp add: pending_events_def sort_key_id_if_sorted)
qed

context api_handlers
begin

lemma run_next_inv:
  assumes "run_next exec (e, s) = (r, (e', s'))" "engine_inv e"
  shows "engine_inv e' \<and> eng_now e \<le> eng_now e'"
proof (cases "eng_queue e")
  case Nil
  then show ?thesis using assms by (simp add: run_next_def)
next
  case (Cons q rest)
  note nx = run_next_extends[OF assms(1) Cons assms(2)]
  have "eng_now e \<le> qe_time q" using assms(2) Cons by (simp add: engine_inv_def)
  then show ?thesis using nx by (simp add: engine_extends_def)
qed

lemma run_until_inv:
  assumes "run_until exec time m (e, s) = Some (r, (e', s'))" "engine_inv e"
  shows "engine_inv e' \<and> eng_now e \<le> eng_now e'"
proof (cases r)
  case (Inl x)
  then consider "e' = e"
    | y where "run_loop exec (Some time) (map_option nat m) (e, s) [] = Some (Inl y, (e', s'))"
    using assms(1) by (auto elim!: run_until_raises)
  then show ?thesis
  proof cases
    case 2
    then show ?thesis using run_loop_post[OF 2] assms(2) by (simp add: loop_post_def)
  qed (use assms in simp)
next
  case (Inr evs)
  show ?thesis
  proof (cases m)
    case None
    have r: "run_until exec time None (e, s) = Some (Inr evs, (e', s'))" using assms(1) Inr None by simp
    then have "eng_now e \<le> time" by (elim run_until_cases) simp
    then show ?thesis using run_until_timeline[OF r assms(2)] by (simp add: timeline_run_def)
  next
    case (Some n)
    have r: "run_until exec time (Some n) (e, s) = Some (Inr evs, (e', s'))" using assms(1) Inr Some by simp
    show ?thesis using run_until_limited[OF r assms(2)] by simp
  qed
qed

lemma run_until_idle_inv:
  assumes "run_until_idle exec m (e, s) = Some (r, (e', s'))" "engine_inv e"
  shows "engine_inv e' \<and> eng_now e \<le> eng_now e' \<and> (\<forall>evs. r = Inr evs \<longrightarrow> m = None \<longrightarrow> eng_queue e' = [])"
proof -
  consider "e' = e" "\<exists>x. r = Inl x"
    | y where "run_loop exec None (map_option nat m) (e, s) [] = Some (y, (e', s'))" "r = map_sum HandlerRaised fst y"
    using assms(1)
    by (cases m) (auto simp: run_until_idle_def check_optional_count_def split: if_splits)
  then show ?thesis
  proof cases
    case 2
    then show ?thesis using run_loop_post[OF 2(1)] assms(2)
      by (cases y) (auto simp: loop_post_def ran_def due_None split: if_splits)
  qed (use assms in auto)
qed

end

section \<open>Properties\<close>

text \<open>A handler for the examples: it counts its calls and schedules itself again after 1000 ticks.\<close>

definition demo_tick :: "(unit, nat, engine_error) handler_exec" where
  "demo_tick h ev st =
     (Inr (), (snd (schedule_timer 1000 (Some ''tick'') (Some h) (fst st)), snd st + 1))"

definition demo_engine :: "unit engine" where
  "demo_engine = snd (schedule_timer 5 (Some ''tick'') (Some ())
     (snd (schedule_telemetry ''bus.v'' (PInt 3) 2500 None None
        \<lparr>eng_now = 10, eng_next_sequence = 0, eng_queue = [], eng_handlers = []\<rparr>)))"

lemma demo_tick_api:
  "d \<le> 1000 \<Longrightarrow> demo_tick h ev (e, s) = (r, (e', s')) \<Longrightarrow> (engine_api d)\<^sup>*\<^sup>* e e'"
  using schedule_payload_api[of d 1000 e TIMER] by (auto simp: demo_tick_def schedule_timer_def)

lemmas schedule_defs = schedule_timer_def schedule_telemetry_def schedule_payload_def
  mk_timer_payload_def mk_telemetry_payload_def check_non_empty_str_def schedule_after_def
  schedule_at_def check_virtual_time_def coerce_event_kind_def str_strip_def is_space_def

definition tick_event :: "int \<Rightarrow> nat \<Rightarrow> simulation_event" where
  "tick_event t n = \<lparr>ev_time = t, ev_sequence = n, ev_kind = TIMER,
     ev_payload = TimerPayload \<lparr>tp_name = Some ''tick''\<rparr>\<rparr>"

definition tick_item :: "int \<Rightarrow> nat \<Rightarrow> unit queued_event" where
  "tick_item t n = \<lparr>qe_time = t, qe_sequence = n, qe_event = tick_event t n, qe_handler = Some ()\<rparr>"

definition demo_item :: "unit queued_event" where
  "demo_item = \<lparr>qe_time = 2510, qe_sequence = 0, qe_event =
     \<lparr>ev_time = 2510, ev_sequence = 0, ev_kind = TELEMETRY, ev_payload =
        TelemetryPayload \<lparr>tlm_signal = ''bus.v'', tlm_value = PInt 3, tlm_source = None\<rparr>\<rparr>,
     qe_handler = None\<rparr>"

lemma demo_engine_value:
  "demo_engine = \<lparr>eng_now = 10, eng_next_sequence = 2, eng_queue = [tick_item 15 1, demo_item],
     eng_handlers = []\<rparr>"
  by (simp add: demo_engine_def schedule_defs Let_def qe_key_def tick_item_def tick_event_def demo_item_def)

lemma demo_engine_inv: "engine_inv demo_engine"
  by (simp add: demo_engine_value engine_inv_def qe_key_def qe_ok_def tick_item_def tick_event_def demo_item_def)

lemma demo_tick_step:
  assumes "0 \<le> eng_now e"
  shows "demo_tick () ev (e, s) = (Inr (), (e\<lparr>eng_next_sequence := eng_next_sequence e + 1,
     eng_queue := insort_key qe_key (tick_item (eng_now e + 1000) (eng_next_sequence e)) (eng_queue e)\<rparr>, s + 1))"
  using assms
  by (simp add: demo_tick_def schedule_defs Let_def tick_item_def tick_event_def)

lemma demo_run_until:
  "run_until demo_tick 1500 None (demo_engine, 0) =
     Some (Inr [tick_event 15 1, tick_event 1015 2],
       (\<lparr>eng_now = 1500, eng_next_sequence = 4, eng_queue = [tick_item 2015 3, demo_item],
         eng_handlers = []\<rparr>, 2))"
  by (simp add: run_until_def check_virtual_time_def check_optional_count_def demo_engine_value
      run_loop_step run_loop_simps run_next_def dispatch_def due_def kind_handlers_def demo_tick_step
      tick_item_def tick_event_def qe_key_def demo_item_def)

text \<open>
  C13: the run loop up to a horizon keeps the timeline. If the handlers use the engine only through
  its scheduling and registration methods, a \<^verbatim>\<open>run_until\<close> that is not cut off by \<^verbatim>\<open>max_events\<close> and
  raises nothing ends with the clock exactly at the horizon; the dispatched events are strictly
  increasing in (time, sequence) and lie between the old clock and the horizon; every event that was
  pending and due has been dispatched and nothing due is left; and the events that were pending or
  were scheduled meanwhile (never in the past, with fresh sequence numbers) are exactly those
  dispatched or still pending, so none is lost or dispatched twice.\<close>

theorem engine_run_until_timeline:
  assumes "\<forall>h ev e s r e' s'. exec h ev (e, s) = (r, (e', s')) \<longrightarrow> (engine_api 0)\<^sup>*\<^sup>* e e'"
    and "engine_inv e" "run_until exec time None (e, s) = Some (Inr evs, (e', s'))"
  shows "engine_inv e' \<and> eng_now e' = time \<and> sorted_wrt (<) (map ev_key evs) \<and>
     (\<forall>ev \<in> set evs. eng_now e \<le> ev_time ev \<and> ev_time ev \<le> time) \<and>
     (\<forall>q \<in> set (eng_queue e). qe_time q \<le> time \<longrightarrow> qe_event q \<in> set evs) \<and>
     (\<forall>q \<in> set (eng_queue e'). time < qe_time q) \<and>
     (\<exists>added. mset (map qe_event (eng_queue e)) + added = mset evs + mset (map qe_event (eng_queue e')) \<and>
        (\<forall>ev \<in># added. eng_now e \<le> ev_time ev \<and> eng_next_sequence e \<le> ev_sequence ev))"
proof -
  have "api_handlers exec 0" by unfold_locales (use assms(1) in blast, simp_all)
  from api_handlers.run_until_timeline[OF this assms(3,2)] show ?thesis unfolding timeline_run_def .
qed

lemma engine_run_until_timeline_witness:
  "\<exists>e'. run_until demo_tick 1500 None (demo_engine, 0) =
      Some (Inr [tick_event 15 1, tick_event 1015 2], (e', 2)) \<and>
     eng_now e' = 1500 \<and> (\<forall>q \<in> set (eng_queue e'). 1500 < qe_time q)"
proof -
  have api: "\<forall>h ev e s r e' s'. demo_tick h ev (e, s) = (r, (e', s')) \<longrightarrow> (engine_api 0)\<^sup>*\<^sup>* e e'"
    using demo_tick_api[of 0] by auto
  from engine_run_until_timeline[OF api demo_engine_inv demo_run_until] demo_run_until
  show ?thesis by (intro exI conjI) (assumption | simp)+
qed

text \<open>
  C14: the run loops return. With \<^verbatim>\<open>max_events\<close>, \<^verbatim>\<open>run_until\<close> returns whatever the handlers do; without
  it, \<^verbatim>\<open>run_until\<close> still returns when every handler schedules only strictly in the future, however
  many events each one schedules.\<close>

theorem engine_run_until_returns:
  assumes "\<forall>h ev e s r e' s'. exec h ev (e, s) = (r, (e', s')) \<longrightarrow> (engine_api 1)\<^sup>*\<^sup>* e e'"
    and "engine_inv e"
  shows "run_until exec time max_events (e, s) \<noteq> None \<and>
     run_until any_exec time (Some n) (e, s) \<noteq> None"
proof -
  have "future_handlers exec 1" by unfold_locales (use assms(1) in blast, simp_all)
  from future_handlers.run_until_returns[OF this, of "(e, s)"] assms(2)
  show ?thesis using run_until_bounded_returns by auto
qed

lemma engine_run_until_returns_witness:
  "run_until demo_tick 1000000 None (demo_engine, 0) \<noteq> None"
proof -
  have api: "\<forall>h ev e s r e' s'. demo_tick h ev (e, s) = (r, (e', s')) \<longrightarrow> (engine_api 1)\<^sup>*\<^sup>* e e'"
    using demo_tick_api[of 1] by auto
  show ?thesis using engine_run_until_returns[OF api demo_engine_inv] by blast
qed

text \<open>
  the timeline invariant (clock non-negative; queue strictly ordered by (time, sequence), no event
  in the past, every sequence number already issued; no empty handler list) holds of a new engine and
  is kept by scheduling (also when it fails), registering and unregistering handlers, \<^verbatim>\<open>advance_to\<close>,
  \<^verbatim>\<open>run_next\<close>, \<^verbatim>\<open>run_until\<close> and \<^verbatim>\<open>run_until_idle\<close>, also when a handler raises, and none of the last four
  moves the clock backward.\<close>

theorem engine_invariant_kept:
  assumes "\<forall>h ev e s r e' s'. exec h ev (e, s) = (r, (e', s')) \<longrightarrow> (engine_api 0)\<^sup>*\<^sup>* e e'"
    and "engine_inv e"
  shows "(\<forall>t e0. mk_engine t = Inr e0 \<longrightarrow> engine_inv e0) \<and>
     engine_inv (snd (schedule_at time kind payload handler e)) \<and>
     engine_inv (snd (schedule_after time kind payload handler e)) \<and>
     (\<forall>e'. add_handler kind h e = Inr e' \<or> remove_handler kind h e = Inr e' \<longrightarrow> engine_inv e') \<and>
     (\<forall>e'. advance_to time e = Inr e' \<longrightarrow> engine_inv e' \<and> eng_now e \<le> eng_now e') \<and>
     (\<forall>r e' s'. run_next exec (e, s) = (r, (e', s')) \<longrightarrow> engine_inv e' \<and> eng_now e \<le> eng_now e') \<and>
     (\<forall>r e' s'. run_until exec time m (e, s) = Some (r, (e', s')) \<longrightarrow>
        engine_inv e' \<and> eng_now e \<le> eng_now e') \<and>
     (\<forall>r e' s'. run_until_idle exec m (e, s) = Some (r, (e', s')) \<longrightarrow>
        engine_inv e' \<and> eng_now e \<le> eng_now e')"
proof -
  have api: "api_handlers exec 0" by unfold_locales (use assms(1) in blast, simp_all)
  have at: "engine_inv (snd (schedule_at time kind payload handler e))" for time
  proof -
    have "engine_extends (time - eng_now e) e (snd (schedule_at time kind payload handler e))"
      by (rule schedule_at_extends) simp
    then show ?thesis using assms(2) by (simp add: engine_extends_def)
  qed
  have after: "engine_inv (snd (schedule_after time kind payload handler e))"
    using at assms(2) by (simp add: schedule_after_def split: sum.splits)
  have reg: "add_handler kind h e = Inr e' \<or> remove_handler kind h e = Inr e' \<Longrightarrow> engine_inv e'" for e'
    using add_handler_extends[of kind h e e' 0] remove_handler_extends[of kind h e e' 0] assms(2)
    by (auto simp: engine_extends_def)
  have adv: "advance_to time e = Inr e' \<Longrightarrow> engine_inv e' \<and> eng_now e \<le> eng_now e'" for e'
    using advance_to_inv[OF assms(2)] advance_to_iff[OF assms(2)] by fastforce
  show ?thesis
    using at after reg adv mk_engine_inv api_handlers.run_next_inv[OF api _ assms(2)]
      api_handlers.run_until_inv[OF api _ assms(2)] api_handlers.run_until_idle_inv[OF api _ assms(2)]
    by blast
qed

lemma engine_invariant_kept_witness:
  "engine_inv (snd (schedule_at 20 (KindName ''bogus'') (PlainPayload PNone) None demo_engine)) \<and>
   (\<exists>evs e' n. run_until demo_tick 1500 None (demo_engine, 0) = Some (Inr evs, (e', n)) \<and> engine_inv e')"
proof -
  have api: "\<forall>h ev e s r e' s'. demo_tick h ev (e, s) = (r, (e', s')) \<longrightarrow> (engine_api 0)\<^sup>*\<^sup>* e e'"
    using demo_tick_api[of 0] by auto
  show ?thesis using engine_invariant_kept[OF api demo_engine_inv] demo_run_until by blast
qed

text \<open>
  scheduling either adds exactly one event, at the asked time, with the next sequence number and
  the named kind, or raises and leaves clock, queue and handlers as they were; it raises exactly for
  a negative time, a time in the past or an unknown kind name, and in the last case it has still
  consumed a sequence number.\<close>

theorem engine_schedule_outcome:
  "case schedule_at time kind payload handler e of
     (Inl err, e') \<Rightarrow>
       (time < 0 \<or> time < eng_now e \<or> (\<exists>s. kind = KindName s \<and> s \<notin> range kind_value)) \<and>
       eng_now e' = eng_now e \<and> eng_queue e' = eng_queue e \<and> eng_handlers e' = eng_handlers e \<and>
       eng_next_sequence e' = eng_next_sequence e + (if 0 \<le> time \<and> eng_now e \<le> time then 1 else 0)
   | (Inr ev, e') \<Rightarrow>
       0 \<le> time \<and> eng_now e \<le> time \<and> ev_time ev = time \<and> ev_sequence ev = eng_next_sequence e \<and>
       coerce_event_kind kind = Inr (ev_kind ev) \<and> ev_payload ev = payload \<and>
       eng_now e' = eng_now e \<and> eng_next_sequence e' = eng_next_sequence e + 1 \<and>
       mset (eng_queue e') = mset (eng_queue e) +
         {# \<lparr>qe_time = time, qe_sequence = eng_next_sequence e, qe_event = ev, qe_handler = handler\<rparr> #}"
  by (rule schedule_at_outcome)

text \<open>
  \<^verbatim>\<open>advance_to\<close> succeeds exactly when the target is not before the clock and no pending event would
  be skipped (one due exactly at the target is allowed), and then changes the clock only.\<close>

theorem engine_advance_skips_nothing:
  assumes "engine_inv e"
  shows "advance_to time e = Inr e' \<longleftrightarrow>
     0 \<le> time \<and> eng_now e \<le> time \<and> (\<forall>q \<in> set (eng_queue e). time \<le> qe_time q) \<and>
     e' = e\<lparr>eng_now := time\<rparr>"
  using assms by (rule advance_to_iff)

lemma engine_advance_skips_nothing_witness:
  "advance_to 15 demo_engine = Inr (demo_engine\<lparr>eng_now := 15\<rparr>) \<and>
   advance_to 16 demo_engine \<noteq> Inr (demo_engine\<lparr>eng_now := 16\<rparr>)"
  using engine_advance_skips_nothing[OF demo_engine_inv, of 15] 
    engine_advance_skips_nothing[OF demo_engine_inv, of 16]
  by (simp add: demo_engine_value tick_item_def demo_item_def)

text \<open>A handler that calls \<^verbatim>\<open>advance_to\<close> while a run loop is dispatching it.\<close>

definition demo_jump :: "(unit, unit, engine_error) handler_exec" where
  "demo_jump h ev st =
     (case advance_to 50 (fst st) of Inl err \<Rightarrow> (Inl err, st) | Inr e \<Rightarrow> (Inr (), (e, snd st)))"

definition demo_jump_engine :: "unit engine" where
  "demo_jump_engine =
     \<lparr>eng_now = 0, eng_next_sequence = 1, eng_queue = [tick_item 15 0], eng_handlers = []\<rparr>"

text \<open>
  the run loop does not refuse a handler that moves the clock itself: with a handler that calls
  \<^verbatim>\<open>advance_to(50)\<close> at time 15, the clock is 50 after the dispatch, and \<^verbatim>\<open>run_until(20)\<close> then sets it
  back to 20. The premise of the other properties, that handlers only schedule and register, is
  therefore needed.\<close>

theorem engine_reentrant_advance_rewinds:
  "\<exists>e1. run_next demo_jump (demo_jump_engine, ()) = (Inr (Some (tick_event 15 0)), (e1, ())) \<and>
     eng_now e1 = 50 \<and>
     run_until demo_jump 20 None (demo_jump_engine, ()) =
       Some (Inr [tick_event 15 0], (e1\<lparr>eng_now := 20\<rparr>, ()))"
  by (simp add: run_until_def check_virtual_time_def check_optional_count_def demo_jump_engine_def
      run_loop_step run_loop_simps run_next_def dispatch_def due_def kind_handlers_def demo_jump_def
      advance_to_def tick_item_def)

end
