(* ===== verification/FaultInjection.thy ===== *)
theory FaultInjection
  imports Engine
begin

text \<open>
  The passive fault engine of \<^verbatim>\<open>fault_injection.py\<close>: state and signal overrides with their expiry
  boundaries, named module faults, and the handler by which a simulation engine's FAULT events reach
  it. A method that raises leaves the fault engine as it was and is a function into
  \<open>fault_error + _\<close>; \<^verbatim>\<open>advance_cycles\<close> can raise after it has counted, so it returns the new engine
  beside its result. \<open>clock\<close> is the time of the simulation engine, read when one is attached; the
  model has one simulation engine, so being attached is a flag.
\<close>

section \<open>Paths\<close>

definition ident_char :: "char \<Rightarrow> bool" where
  "ident_char c \<longleftrightarrow> is_letter c \<or> is_digit c \<or> c = CHR ''_'' \<or> c = CHR ''-''"

definition is_identifier :: "string \<Rightarrow> bool" where
  "is_identifier s = (case s of [] \<Rightarrow> False | c # cs \<Rightarrow> is_letter c \<and> list_all ident_char cs)"

definition is_path :: "string \<Rightarrow> bool" where
  "is_path s = (let segments = str_split CHR ''.'' s
     in 2 \<le> length segments \<and> list_all is_identifier segments)"

fun str_contains :: "string \<Rightarrow> string \<Rightarrow> bool" where
  "str_contains needle [] = (needle = [])"
| "str_contains needle (c # cs) =
     (take (length needle) (c # cs) = needle \<or> str_contains needle cs)"

datatype fault_error =
    UnsupportedFaultType string
  | NamedFaultTiming
  | NamedFaultValue
  | NotAPath string string
  | TooFewSegments string nat
  | NoModelSegment string
  | NoTelemetrySegment string
  | NotAModuleFlag string
  | NotAnIdentifier string string
  | NegativeFaultNumber string int
  | NotAFaultEvent event_kind
  | NotAFaultPayload

definition validate_path :: "string \<Rightarrow> string \<Rightarrow> nat \<Rightarrow> fault_error + string" where
  "validate_path kind value min_segments =
     (if \<not> is_path value then Inl (NotAPath kind value)
      else if length (str_split CHR ''.'' value) < min_segments
      then Inl (TooFewSegments kind min_segments)
      else Inr value)"

definition validate_identifier :: "string \<Rightarrow> string \<Rightarrow> fault_error + string" where
  "validate_identifier kind value =
     (if is_identifier value then Inr value else Inl (NotAnIdentifier kind value))"

definition validate_state_target :: "string \<Rightarrow> fault_error + string" where
  "validate_state_target value =
     res_bind (validate_path ''state_override target'' value 3) (\<lambda>target.
       if str_contains ''.model.'' target then Inr target else Inl (NoModelSegment target))"

definition validate_signal_target :: "string \<Rightarrow> fault_error + string" where
  "validate_signal_target value =
     res_bind (validate_path ''signal_override target'' value 3) (\<lambda>target.
       if str_contains ''.telemetry.'' target then Inr target else Inl (NoTelemetrySegment target))"

definition parse_named_fault_target :: "string \<Rightarrow> fault_error + string \<times> string" where
  "parse_named_fault_target value =
     res_bind (validate_path ''named_fault target'' value 2) (\<lambda>target.
       if str_contains ''.model.'' target \<or> str_contains ''.telemetry.'' target
       then Inl (NotAModuleFlag target)
       else Inr (takeWhile (\<lambda>c. c \<noteq> CHR ''.'') target, tl (dropWhile (\<lambda>c. c \<noteq> CHR ''.'') target)))"

definition check_non_negative :: "string \<Rightarrow> int \<Rightarrow> fault_error + int" where
  "check_non_negative name value =
     (if value < 0 then Inl (NegativeFaultNumber name value) else Inr value)"

definition check_optional_non_negative :: "string \<Rightarrow> int option \<Rightarrow> fault_error + int option" where
  "check_optional_non_negative name value =
     (case value of None \<Rightarrow> Inr None | Some n \<Rightarrow> map_sum id Some (check_non_negative name n))"

section \<open>Overrides and flags\<close>

datatype fault_kind = STATE_OVERRIDE | SIGNAL_OVERRIDE | NAMED_FAULT

definition coerce_fault_kind :: "string \<Rightarrow> fault_error + fault_kind" where
  "coerce_fault_kind value =
     (if value = ''state_override'' then Inr STATE_OVERRIDE
      else if value = ''signal_override'' then Inr SIGNAL_OVERRIDE
      else if value = ''named_fault'' then Inr NAMED_FAULT
      else Inl (UnsupportedFaultType value))"

record active_override =
  ao_kind :: fault_kind
  ao_target :: string
  ao_value :: py_val
  ao_activated_at :: int
  ao_activated_cycle :: int
  ao_expires_at :: "int option"
  ao_expires_after_cycle :: "int option"

definition is_expired :: "int \<Rightarrow> int \<Rightarrow> active_override \<Rightarrow> bool" where
  "is_expired now cycle ov \<longleftrightarrow>
     (case ao_expires_at ov of None \<Rightarrow> False | Some t \<Rightarrow> t \<le> now) \<or>
     (case ao_expires_after_cycle ov of None \<Rightarrow> False | Some c \<Rightarrow> c \<le> cycle)"

record named_fault_flag =
  nf_module :: string
  nf_name :: string
  nf_activated_at :: int
  nf_activated_cycle :: int

definition nf_target :: "named_fault_flag \<Rightarrow> string" where
  "nf_target flag = nf_module flag @ ''.'' @ nf_name flag"

record fault_engine =
  fe_attached :: bool
  fe_cycle :: int
  fe_state_overrides :: "(string \<times> active_override) list"
  fe_signal_overrides :: "(string \<times> active_override) list"
  fe_named_faults :: "(string \<times> named_fault_flag) list"

definition new_fault_engine :: fault_engine where
  "new_fault_engine = \<lparr>fe_attached = False, fe_cycle = 0, fe_state_overrides = [],
     fe_signal_overrides = [], fe_named_faults = []\<rparr>"

definition current_time :: "int \<Rightarrow> fault_engine \<Rightarrow> int option \<Rightarrow> fault_error + int" where
  "current_time clock fe now =
     (case now of
        Some t \<Rightarrow> check_non_negative ''virtual time'' t
      | None \<Rightarrow> Inr (if fe_attached fe then clock else 0))"

definition make_override ::
  "int \<Rightarrow> fault_kind \<Rightarrow> string \<Rightarrow> py_val \<Rightarrow> int option \<Rightarrow> int option \<Rightarrow> int option \<Rightarrow> fault_engine
    \<Rightarrow> fault_error + active_override" where
  "make_override clock kind target value duration cycles now fe =
     res_bind (current_time clock fe now) (\<lambda>start_time.
     res_bind (check_optional_non_negative ''duration'' duration) (\<lambda>duration.
     res_bind (check_optional_non_negative ''cycles'' cycles) (\<lambda>cycles.
       Inr \<lparr>ao_kind = kind, ao_target = target, ao_value = value, ao_activated_at = start_time,
            ao_activated_cycle = fe_cycle fe,
            ao_expires_at = map_option (\<lambda>d. start_time + d) duration,
            ao_expires_after_cycle = map_option (\<lambda>c. fe_cycle fe + c) cycles\<rparr>)))"

definition state_override ::
  "int \<Rightarrow> string \<Rightarrow> py_val \<Rightarrow> int option \<Rightarrow> int option \<Rightarrow> int option \<Rightarrow> fault_engine
    \<Rightarrow> fault_error + active_override \<times> fault_engine" where
  "state_override clock target value duration cycles now fe =
     res_bind (validate_state_target target) (\<lambda>target.
     res_bind (make_override clock STATE_OVERRIDE target value duration cycles now fe) (\<lambda>ov.
       Inr (ov, fe\<lparr>fe_state_overrides := AList.update target ov (fe_state_overrides fe)\<rparr>)))"

definition signal_override ::
  "int \<Rightarrow> string \<Rightarrow> py_val \<Rightarrow> int option \<Rightarrow> int option \<Rightarrow> int option \<Rightarrow> fault_engine
    \<Rightarrow> fault_error + active_override \<times> fault_engine" where
  "signal_override clock target value duration cycles now fe =
     res_bind (validate_signal_target target) (\<lambda>target.
     res_bind (make_override clock SIGNAL_OVERRIDE target value duration cycles now fe) (\<lambda>ov.
       Inr (ov, fe\<lparr>fe_signal_overrides := AList.update target ov (fe_signal_overrides fe)\<rparr>)))"

definition live_overrides ::
  "int \<Rightarrow> int \<Rightarrow> (string \<times> active_override) list \<Rightarrow> (string \<times> active_override) list" where
  "live_overrides now cycle overrides = filter (\<lambda>(_, ov). \<not> is_expired now cycle ov) overrides"

definition clear_expired ::
  "int \<Rightarrow> int option \<Rightarrow> fault_engine \<Rightarrow> fault_error + active_override list \<times> fault_engine" where
  "clear_expired clock now fe =
     res_bind (current_time clock fe now) (\<lambda>t.
       let expired = (\<lambda>overrides. map snd (filter (\<lambda>(_, ov). is_expired t (fe_cycle fe) ov) overrides))
       in Inr (expired (fe_state_overrides fe) @ expired (fe_signal_overrides fe),
               fe\<lparr>fe_state_overrides := live_overrides t (fe_cycle fe) (fe_state_overrides fe),
                  fe_signal_overrides := live_overrides t (fe_cycle fe) (fe_signal_overrides fe)\<rparr>))"

definition get_state_override ::
  "int \<Rightarrow> string \<Rightarrow> int option \<Rightarrow> fault_engine \<Rightarrow> fault_error + active_override option \<times> fault_engine" where
  "get_state_override clock target now fe =
     res_bind (validate_state_target target) (\<lambda>target.
     res_bind (clear_expired clock now fe) (\<lambda>(_, fe1).
       Inr (map_of (fe_state_overrides fe1) target, fe1)))"

definition get_signal_override ::
  "int \<Rightarrow> string \<Rightarrow> int option \<Rightarrow> fault_engine \<Rightarrow> fault_error + active_override option \<times> fault_engine" where
  "get_signal_override clock target now fe =
     res_bind (validate_signal_target target) (\<lambda>target.
     res_bind (clear_expired clock now fe) (\<lambda>(_, fe1).
       Inr (map_of (fe_signal_overrides fe1) target, fe1)))"

definition has_state_override ::
  "int \<Rightarrow> string \<Rightarrow> int option \<Rightarrow> fault_engine \<Rightarrow> fault_error + bool \<times> fault_engine" where
  "has_state_override clock target now fe =
     map_sum id (\<lambda>(ov, fe1). (ov \<noteq> None, fe1)) (get_state_override clock target now fe)"

definition has_signal_override ::
  "int \<Rightarrow> string \<Rightarrow> int option \<Rightarrow> fault_engine \<Rightarrow> fault_error + bool \<times> fault_engine" where
  "has_signal_override clock target now fe =
     map_sum id (\<lambda>(ov, fe1). (ov \<noteq> None, fe1)) (get_signal_override clock target now fe)"

definition resolve_state_value ::
  "int \<Rightarrow> string \<Rightarrow> py_val \<Rightarrow> int option \<Rightarrow> fault_engine \<Rightarrow> fault_error + py_val \<times> fault_engine" where
  "resolve_state_value clock target current_value now fe =
     res_bind (get_state_override clock target now fe) (\<lambda>(ov, fe1).
       Inr (case ov of None \<Rightarrow> current_value | Some ov \<Rightarrow> ao_value ov, fe1))"

definition resolve_signal_value ::
  "int \<Rightarrow> string \<Rightarrow> py_val \<Rightarrow> int option \<Rightarrow> fault_engine \<Rightarrow> fault_error + py_val \<times> fault_engine" where
  "resolve_signal_value clock target current_value now fe =
     res_bind (get_signal_override clock target now fe) (\<lambda>(ov, fe1).
       Inr (case ov of None \<Rightarrow> current_value | Some ov \<Rightarrow> ao_value ov, fe1))"

definition active_state_overrides ::
  "int \<Rightarrow> int option \<Rightarrow> fault_engine \<Rightarrow> fault_error + (string \<times> active_override) list \<times> fault_engine" where
  "active_state_overrides clock now fe =
     res_bind (clear_expired clock now fe) (\<lambda>(_, fe1). Inr (fe_state_overrides fe1, fe1))"

definition active_signal_overrides ::
  "int \<Rightarrow> int option \<Rightarrow> fault_engine \<Rightarrow> fault_error + (string \<times> active_override) list \<times> fault_engine" where
  "active_signal_overrides clock now fe =
     res_bind (clear_expired clock now fe) (\<lambda>(_, fe1). Inr (fe_signal_overrides fe1, fe1))"

definition clear_state_override ::
  "string \<Rightarrow> fault_engine \<Rightarrow> fault_error + active_override option \<times> fault_engine" where
  "clear_state_override target fe =
     res_bind (validate_state_target target) (\<lambda>target.
       Inr (map_of (fe_state_overrides fe) target,
            fe\<lparr>fe_state_overrides := AList.delete target (fe_state_overrides fe)\<rparr>))"

definition clear_signal_override ::
  "string \<Rightarrow> fault_engine \<Rightarrow> fault_error + active_override option \<times> fault_engine" where
  "clear_signal_override target fe =
     res_bind (validate_signal_target target) (\<lambda>target.
       Inr (map_of (fe_signal_overrides fe) target,
            fe\<lparr>fe_signal_overrides := AList.delete target (fe_signal_overrides fe)\<rparr>))"

definition activate_named_fault ::
  "int \<Rightarrow> string \<Rightarrow> int option \<Rightarrow> fault_engine \<Rightarrow> fault_error + named_fault_flag \<times> fault_engine" where
  "activate_named_fault clock target now fe =
     res_bind (parse_named_fault_target target) (\<lambda>(owner, name).
     res_bind (current_time clock fe now) (\<lambda>t.
       let flag = \<lparr>nf_module = owner, nf_name = name, nf_activated_at = t,
                   nf_activated_cycle = fe_cycle fe\<rparr>
       in Inr (flag, fe\<lparr>fe_named_faults := AList.update (nf_target flag) flag (fe_named_faults fe)\<rparr>)))"

definition clear_named_fault ::
  "string \<Rightarrow> fault_engine \<Rightarrow> fault_error + named_fault_flag option \<times> fault_engine" where
  "clear_named_fault target fe =
     res_bind (parse_named_fault_target target) (\<lambda>(owner, name).
       let key = owner @ ''.'' @ name
       in Inr (map_of (fe_named_faults fe) key,
               fe\<lparr>fe_named_faults := AList.delete key (fe_named_faults fe)\<rparr>))"

definition clear_module_faults ::
  "string \<Rightarrow> fault_engine \<Rightarrow> fault_error + named_fault_flag list \<times> fault_engine" where
  "clear_module_faults owner fe =
     res_bind (validate_identifier ''module'' owner) (\<lambda>owner.
       Inr (map snd (filter (\<lambda>(_, flag). nf_module flag = owner) (fe_named_faults fe)),
            fe\<lparr>fe_named_faults := filter (\<lambda>(_, flag). nf_module flag \<noteq> owner) (fe_named_faults fe)\<rparr>))"

definition is_named_fault_active :: "string \<Rightarrow> fault_engine \<Rightarrow> fault_error + bool" where
  "is_named_fault_active target fe =
     res_bind (parse_named_fault_target target) (\<lambda>(owner, name).
       Inr (map_of (fe_named_faults fe) (owner @ ''.'' @ name) \<noteq> None))"

definition is_module_fault_active :: "string \<Rightarrow> string \<Rightarrow> fault_engine \<Rightarrow> fault_error + bool" where
  "is_module_fault_active owner name fe = is_named_fault_active (owner @ ''.'' @ name) fe"

definition active_named_faults :: "string option \<Rightarrow> fault_engine \<Rightarrow> fault_error + string set" where
  "active_named_faults owner fe =
     (case owner of
        None \<Rightarrow> Inr (set (map fst (fe_named_faults fe)))
      | Some m \<Rightarrow>
          res_bind (validate_identifier ''module'' m) (\<lambda>m.
            Inr (set (map (nf_name \<circ> snd) (filter (\<lambda>(_, flag). nf_module flag = m) (fe_named_faults fe))))))"

definition advance_cycles ::
  "int \<Rightarrow> int \<Rightarrow> int option \<Rightarrow> fault_engine
    \<Rightarrow> (fault_error + active_override list) \<times> fault_engine" where
  "advance_cycles clock number now fe =
     (case check_non_negative ''cycle advance'' number of
        Inl err \<Rightarrow> (Inl err, fe)
      | Inr n \<Rightarrow>
          let fe1 = fe\<lparr>fe_cycle := fe_cycle fe + n\<rparr>
          in (case clear_expired clock now fe1 of
                Inl err \<Rightarrow> (Inl err, fe1)
              | Inr (expired, fe2) \<Rightarrow> (Inr expired, fe2)))"

definition clear_all :: "fault_engine \<Rightarrow> fault_engine" where
  "clear_all fe = fe\<lparr>fe_state_overrides := [], fe_signal_overrides := [], fe_named_faults := []\<rparr>"

section \<open>Fault requests\<close>

definition named_fault_value_is_active :: "py_val \<Rightarrow> fault_error + bool" where
  "named_fault_value_is_active value =
     (case value of
        PNone \<Rightarrow> Inr True
      | PBool b \<Rightarrow> Inr b
      | PDict d \<Rightarrow> (case dict_get d ''active'' of Some (PBool b) \<Rightarrow> Inr b | _ \<Rightarrow> Inl NamedFaultValue)
      | _ \<Rightarrow> Inl NamedFaultValue)"

datatype fault_applied =
    AppliedOverride active_override
  | AppliedFlag named_fault_flag
  | ClearedFlag "named_fault_flag option"

definition apply_fault ::
  "int \<Rightarrow> string \<Rightarrow> string \<Rightarrow> py_val \<Rightarrow> int option \<Rightarrow> int option \<Rightarrow> int option \<Rightarrow> fault_engine
    \<Rightarrow> fault_error + fault_applied \<times> fault_engine" where
  "apply_fault clock fault_type target value duration cycles now fe =
     res_bind (coerce_fault_kind fault_type) (\<lambda>kind.
       (case kind of
          STATE_OVERRIDE \<Rightarrow>
            map_sum id (map_prod AppliedOverride id)
              (state_override clock target value duration cycles now fe)
        | SIGNAL_OVERRIDE \<Rightarrow>
            map_sum id (map_prod AppliedOverride id)
              (signal_override clock target value duration cycles now fe)
        | NAMED_FAULT \<Rightarrow>
            if duration \<noteq> None \<or> cycles \<noteq> None then Inl NamedFaultTiming
            else
              res_bind (named_fault_value_is_active value) (\<lambda>active.
                if active
                then map_sum id (map_prod AppliedFlag id) (activate_named_fault clock target now fe)
                else map_sum id (map_prod ClearedFlag id) (clear_named_fault target fe))))"

definition apply_payload ::
  "int \<Rightarrow> fault_payload \<Rightarrow> int option \<Rightarrow> fault_engine \<Rightarrow> fault_error + fault_applied \<times> fault_engine" where
  "apply_payload clock p now fe =
     apply_fault clock (fp_fault_type p) (fp_target p) (fp_value p) (fp_duration p) (fp_cycles p) now fe"

definition handle_fault_event ::
  "simulation_event \<Rightarrow> int \<Rightarrow> fault_engine \<Rightarrow> fault_error + fault_applied \<times> fault_engine" where
  "handle_fault_event ev clock fe =
     (if ev_kind ev \<noteq> FAULT then Inl (NotAFaultEvent (ev_kind ev))
      else case ev_payload ev of
             FaultPayload p \<Rightarrow> apply_payload clock p (Some clock) fe
           | _ \<Rightarrow> Inl NotAFaultPayload)"

text \<open>\<open>h\<close> is the identity of the bound method the fault engine registers.\<close>

definition fe_attach :: "'h \<Rightarrow> 'h engine \<times> fault_engine \<Rightarrow> engine_error + 'h engine \<times> fault_engine" where
  "fe_attach h st =
     (if fe_attached (snd st) then Inr st
      else res_bind (add_handler (Kind FAULT) h (fst st)) (\<lambda>e.
             Inr (e, (snd st)\<lparr>fe_attached := True\<rparr>)))"

definition fe_detach :: "'h \<Rightarrow> 'h engine \<times> fault_engine \<Rightarrow> engine_error + 'h engine \<times> fault_engine" where
  "fe_detach h st =
     (if \<not> fe_attached (snd st) then Inr st
      else res_bind (remove_handler (Kind FAULT) h (fst st)) (\<lambda>e.
             Inr (e, (snd st)\<lparr>fe_attached := False\<rparr>)))"

text \<open>Calling the registered handler, for a run whose only handler it is.\<close>

datatype fault_handler = HandleEvent

definition exec_fault :: "(fault_handler, fault_engine, fault_error) handler_exec" where
  "exec_fault h ev st =
     (case handle_fault_event ev (eng_now (fst st)) (snd st) of
        Inl err \<Rightarrow> (Inl err, st)
      | Inr (_, fe) \<Rightarrow> (Inr (), (fst st, fe)))"

section \<open>Override tables\<close>

lemma map_of_filter_snd:
  "distinct (map fst ps) \<Longrightarrow>
   map_of (filter (\<lambda>(_, x). P x) ps) k =
     (case map_of ps k of None \<Rightarrow> None | Some x \<Rightarrow> if P x then Some x else None)"
proof (induction ps)
  case (Cons p ps)
  then have "fst p \<notin> fst ` set ps" "distinct (map fst ps)" by auto
  then have "map_of (filter (\<lambda>(_, x). P x) ps) (fst p) = None" by (auto simp: map_of_eq_None_iff)
  then show ?case using Cons by (cases p) auto
qed simp

lemma distinct_filter_fst: "distinct (map fst ps) \<Longrightarrow> distinct (map fst (filter P ps))"
  by (induction ps) auto

lemma set_update_subset: "set (AList.update k v ps) \<subseteq> insert (k, v) (set ps)"
  by (induction ps) auto

lemma set_delete_subset: "set (AList.delete k ps) \<subseteq> set ps"
  by (induction ps) auto

definition time_ok :: "int option \<Rightarrow> bool" where
  "time_ok now \<longleftrightarrow> (\<forall>t. now = Some t \<longrightarrow> 0 \<le> t)"

definition time_at :: "int \<Rightarrow> fault_engine \<Rightarrow> int option \<Rightarrow> int" where
  "time_at clock fe now = (case now of Some t \<Rightarrow> t | None \<Rightarrow> if fe_attached fe then clock else 0)"

lemma current_time_Inr: "current_time clock fe now = Inr t \<longleftrightarrow> time_ok now \<and> t = time_at clock fe now"
  by (auto simp: current_time_def time_ok_def time_at_def check_non_negative_def split: option.splits)

lemma check_optional_Inr:
  "check_optional_non_negative name x = Inr y \<longleftrightarrow> time_ok x \<and> y = x"
  by (auto simp: check_optional_non_negative_def check_non_negative_def time_ok_def split: option.splits)

lemma make_override_Inr:
  "make_override clock kind target value duration cycles now fe = Inr ov \<longleftrightarrow>
     time_ok now \<and> time_ok duration \<and> time_ok cycles \<and>
     ov = \<lparr>ao_kind = kind, ao_target = target, ao_value = value,
           ao_activated_at = time_at clock fe now, ao_activated_cycle = fe_cycle fe,
           ao_expires_at = map_option (\<lambda>d. time_at clock fe now + d) duration,
           ao_expires_after_cycle = map_option (\<lambda>c. fe_cycle fe + c) cycles\<rparr>"
  by (auto simp: make_override_def res_bind_eq_Inr current_time_Inr check_optional_Inr)

lemma clear_expired_Inr:
  "clear_expired clock now fe = Inr (gone, fe') \<Longrightarrow>
     time_ok now \<and>
     fe' = fe\<lparr>fe_state_overrides := live_overrides (time_at clock fe now) (fe_cycle fe) (fe_state_overrides fe),
              fe_signal_overrides := live_overrides (time_at clock fe now) (fe_cycle fe) (fe_signal_overrides fe)\<rparr>"
  by (auto simp: clear_expired_def res_bind_eq_Inr current_time_Inr Let_def)

lemma clear_expired_ok: "time_ok now \<Longrightarrow> \<exists>gone fe'. clear_expired clock now fe = Inr (gone, fe')"
  by (simp add: clear_expired_def res_bind_eq_Inr current_time_Inr Let_def)

lemma advance_cycles_Inr:
  "advance_cycles clock n now fe = (Inr gone, fe') \<Longrightarrow>
     0 \<le> n \<and> time_ok now \<and> fe_cycle fe' = fe_cycle fe + n \<and>
     fe_state_overrides fe' =
       live_overrides (time_at clock fe now) (fe_cycle fe + n) (fe_state_overrides fe) \<and>
     fe_signal_overrides fe' =
       live_overrides (time_at clock fe now) (fe_cycle fe + n) (fe_signal_overrides fe) \<and>
     fe_named_faults fe' = fe_named_faults fe \<and> fe_attached fe' = fe_attached fe"
proof -
  assume a: "advance_cycles clock n now fe = (Inr gone, fe')"
  then have n: "0 \<le> n" and c: "clear_expired clock now (fe\<lparr>fe_cycle := fe_cycle fe + n\<rparr>) = Inr (gone, fe')"
    by (auto simp: advance_cycles_def check_non_negative_def Let_def split: if_splits sum.splits)
  show ?thesis using n clear_expired_Inr[OF c] by (simp add: time_at_def split: option.splits)
qed

text \<open>
  What the two kinds of override promise: a request that succeeds stores exactly the asked value
  with its boundaries under the target, and a lookup sees the entries of the table that have not
  expired.
\<close>

locale override_channel =
  fixes valid :: "string \<Rightarrow> bool"
    and table :: "fault_engine \<Rightarrow> (string \<times> active_override) list"
    and put :: "int \<Rightarrow> string \<Rightarrow> py_val \<Rightarrow> int option \<Rightarrow> int option \<Rightarrow> int option \<Rightarrow> fault_engine
       \<Rightarrow> fault_error + active_override \<times> fault_engine"
    and resolve :: "int \<Rightarrow> string \<Rightarrow> py_val \<Rightarrow> int option \<Rightarrow> fault_engine
       \<Rightarrow> fault_error + py_val \<times> fault_engine"
  assumes put_Inr: "put clock target value duration cycles now fe = Inr (ov, fe') \<Longrightarrow>
      valid target \<and> time_ok now \<and> time_ok duration \<and> time_ok cycles \<and> ao_value ov = value \<and>
      ao_expires_at ov = map_option (\<lambda>d. time_at clock fe now + d) duration \<and>
      ao_expires_after_cycle ov = map_option (\<lambda>c. fe_cycle fe + c) cycles \<and>
      table fe' = AList.update target ov (table fe) \<and> fe_cycle fe' = fe_cycle fe"
    and resolve_Inr: "valid target \<Longrightarrow> time_ok now \<Longrightarrow>
      \<exists>fe'. resolve clock target current now fe =
        Inr (case map_of (live_overrides (time_at clock fe now) (fe_cycle fe) (table fe)) target of
               None \<Rightarrow> current | Some ov \<Rightarrow> ao_value ov, fe')"
    and advance_table: "advance_cycles clock n now fe = (Inr gone, fe') \<Longrightarrow>
      table fe' = live_overrides (time_at clock fe now) (fe_cycle fe + n) (table fe)"
begin

lemma window:
  assumes d: "distinct (map fst (table fe))"
    and p: "put clock target value duration cycles (Some t0) fe = Inr (ov, fe1)"
    and a: "advance_cycles clock n (Some t1) fe1 = (Inr gone, fe2)"
    and t: "t0 \<le> t1" "t1 \<le> t2"
  shows "\<exists>fe3. resolve clock target current (Some t2) fe2 =
     Inr (if (\<forall>d. duration = Some d \<longrightarrow> t2 < t0 + d) \<and> (\<forall>c. cycles = Some c \<longrightarrow> n < c)
          then value else current, fe3)"
proof -
  note put = put_Inr[OF p]
  note adv = advance_cycles_Inr[OF a]
  have t0: "0 \<le> t0" using put by (simp add: time_ok_def)
  have d1: "distinct (map fst (table fe1))" using put d by (simp add: distinct_update)
  have t2: "table fe2 = live_overrides t1 (fe_cycle fe + n) (table fe1)"
    using advance_table[OF a] put by (simp add: time_at_def)
  have d2: "distinct (map fst (table fe2))"
    unfolding t2 live_overrides_def by (rule distinct_filter_fst[OF d1])
  have look1: "map_of (table fe1) target = Some ov" using put by (simp add: update_conv')
  have look2: "map_of (table fe2) target = (if is_expired t1 (fe_cycle fe + n) ov then None else Some ov)"
    unfolding t2 live_overrides_def using look1 by (subst map_of_filter_snd[OF d1]) simp
  have look3: "map_of (live_overrides t2 (fe_cycle fe2) (table fe2)) target =
      (if is_expired t1 (fe_cycle fe + n) ov \<or> is_expired t2 (fe_cycle fe + n) ov then None else Some ov)"
    unfolding live_overrides_def using look2 adv put by (subst map_of_filter_snd[OF d2]) simp
  have ex: "is_expired s (fe_cycle fe + n) ov \<longleftrightarrow>
      \<not> ((\<forall>d. duration = Some d \<longrightarrow> s < t0 + d) \<and> (\<forall>c. cycles = Some c \<longrightarrow> n < c))" for s
    using put by (auto simp: is_expired_def time_at_def not_less split: option.splits)
  have mono: "is_expired t1 (fe_cycle fe + n) ov \<Longrightarrow> is_expired t2 (fe_cycle fe + n) ov"
    using t unfolding ex by force
  have "time_ok (Some t2)" using t t0 by (simp add: time_ok_def)
  with put obtain fe3 where "resolve clock target current (Some t2) fe2 =
      Inr (case map_of (live_overrides (time_at clock fe2 (Some t2)) (fe_cycle fe2) (table fe2)) target of
             None \<Rightarrow> current | Some ov \<Rightarrow> ao_value ov, fe3)"
    using resolve_Inr by blast
  then have "resolve clock target current (Some t2) fe2 =
      Inr (if is_expired t2 (fe_cycle fe + n) ov then current else value, fe3)"
    using look3 mono put by (auto simp: time_at_def)
  then show ?thesis unfolding ex by auto
qed

end

definition valid_state :: "string \<Rightarrow> bool" where
  "valid_state target \<longleftrightarrow> is_path target \<and> 3 \<le> length (str_split CHR ''.'' target) \<and>
     str_contains ''.model.'' target"

definition valid_signal :: "string \<Rightarrow> bool" where
  "valid_signal target \<longleftrightarrow> is_path target \<and> 3 \<le> length (str_split CHR ''.'' target) \<and>
     str_contains ''.telemetry.'' target"

lemma validate_state_target_Inr: "validate_state_target s = Inr t \<longleftrightarrow> valid_state s \<and> t = s"
  by (auto simp: validate_state_target_def validate_path_def valid_state_def res_bind_eq_Inr)

lemma validate_signal_target_Inr: "validate_signal_target s = Inr t \<longleftrightarrow> valid_signal s \<and> t = s"
  by (auto simp: validate_signal_target_def validate_path_def valid_signal_def res_bind_eq_Inr)

interpretation state_channel: override_channel valid_state fe_state_overrides state_override resolve_state_value
proof unfold_locales
  fix clock target now current fe
  assume a: "valid_state target" "time_ok now"
  obtain gone fe' where c: "clear_expired clock now fe = Inr (gone, fe')" using clear_expired_ok[OF a(2)] by blast
  show "\<exists>fe'. resolve_state_value clock target current now fe =
      Inr (case map_of (live_overrides (time_at clock fe now) (fe_cycle fe) (fe_state_overrides fe)) target of
             None \<Rightarrow> current | Some ov \<Rightarrow> ao_value ov, fe')"
    using a c clear_expired_Inr[OF c] validate_state_target_Inr[of target target]
    by (simp add: resolve_state_value_def get_state_override_def)
qed (auto simp: state_override_def res_bind_eq_Inr validate_state_target_Inr make_override_Inr
    dest: advance_cycles_Inr)

interpretation signal_channel: override_channel valid_signal fe_signal_overrides signal_override resolve_signal_value
proof unfold_locales
  fix clock target now current fe
  assume a: "valid_signal target" "time_ok now"
  obtain gone fe' where c: "clear_expired clock now fe = Inr (gone, fe')" using clear_expired_ok[OF a(2)] by blast
  show "\<exists>fe'. resolve_signal_value clock target current now fe =
      Inr (case map_of (live_overrides (time_at clock fe now) (fe_cycle fe) (fe_signal_overrides fe)) target of
             None \<Rightarrow> current | Some ov \<Rightarrow> ao_value ov, fe')"
    using a c clear_expired_Inr[OF c] validate_signal_target_Inr[of target target]
    by (simp add: resolve_signal_value_def get_signal_override_def)
qed (auto simp: signal_override_def res_bind_eq_Inr validate_signal_target_Inr make_override_Inr
    dest: advance_cycles_Inr)

section \<open>The fault engine as a handler\<close>

lemma exec_fault_engine: "exec_fault h ev (e, fe) = (r, (e', fe')) \<Longrightarrow> e' = e"
  by (auto simp: exec_fault_def split: sum.splits prod.splits)

interpretation fault_run: future_handlers exec_fault 1
  by unfold_locales (auto dest: exec_fault_engine)

section \<open>The reachable states\<close>

definition override_ok :: "(string \<Rightarrow> bool) \<Rightarrow> fault_kind \<Rightarrow> int \<Rightarrow> string \<times> active_override \<Rightarrow> bool" where
  "override_ok valid kind cycle entry \<longleftrightarrow>
     (case entry of (target, ov) \<Rightarrow>
        valid target \<and> ao_kind ov = kind \<and> ao_target ov = target \<and>
        0 \<le> ao_activated_cycle ov \<and> ao_activated_cycle ov \<le> cycle \<and>
        (\<forall>t. ao_expires_at ov = Some t \<longrightarrow> ao_activated_at ov \<le> t) \<and>
        (\<forall>c. ao_expires_after_cycle ov = Some c \<longrightarrow> ao_activated_cycle ov \<le> c))"

definition owner_of :: "string \<Rightarrow> string" where
  "owner_of target = takeWhile (\<lambda>c. c \<noteq> CHR ''.'') target"

definition flag_ok :: "string \<times> named_fault_flag \<Rightarrow> bool" where
  "flag_ok entry \<longleftrightarrow> fst entry = nf_target (snd entry) \<and> is_path (fst entry) \<and>
     nf_module (snd entry) = owner_of (fst entry)"

definition fault_inv :: "fault_engine \<Rightarrow> bool" where
  "fault_inv fe \<longleftrightarrow>
     0 \<le> fe_cycle fe \<and>
     distinct (map fst (fe_state_overrides fe)) \<and> distinct (map fst (fe_signal_overrides fe)) \<and>
     distinct (map fst (fe_named_faults fe)) \<and>
     (\<forall>x \<in> set (fe_state_overrides fe). override_ok valid_state STATE_OVERRIDE (fe_cycle fe) x) \<and>
     (\<forall>x \<in> set (fe_signal_overrides fe). override_ok valid_signal SIGNAL_OVERRIDE (fe_cycle fe) x) \<and>
     (\<forall>x \<in> set (fe_named_faults fe). flag_ok x)"

datatype fault_op =
    OpState string
  | OpSignal string
  | OpActivate string
  | OpClearFlag string
  | OpClearModule string
  | OpExpire
  | OpAdvance int
  | OpClearState string
  | OpClearSignal string
  | OpClearAll

inductive fault_step :: "fault_engine \<Rightarrow> fault_op \<Rightarrow> fault_engine \<Rightarrow> bool" where
  step_state: "state_override clock target value duration cycles now fe = Inr (ov, fe') \<Longrightarrow>
     fault_step fe (OpState target) fe'"
| step_signal: "signal_override clock target value duration cycles now fe = Inr (ov, fe') \<Longrightarrow>
     fault_step fe (OpSignal target) fe'"
| step_activate: "activate_named_fault clock target now fe = Inr (flag, fe') \<Longrightarrow>
     fault_step fe (OpActivate target) fe'"
| step_clear_flag: "clear_named_fault target fe = Inr (old, fe') \<Longrightarrow>
     fault_step fe (OpClearFlag target) fe'"
| step_clear_module: "clear_module_faults owner fe = Inr (olds, fe') \<Longrightarrow>
     fault_step fe (OpClearModule owner) fe'"
| step_expire: "clear_expired clock now fe = Inr (gone, fe') \<Longrightarrow> fault_step fe OpExpire fe'"
| step_advance: "advance_cycles clock n now fe = (r, fe') \<Longrightarrow> fault_step fe (OpAdvance n) fe'"
| step_clear_state: "clear_state_override target fe = Inr (old_ov, fe') \<Longrightarrow>
     fault_step fe (OpClearState target) fe'"
| step_clear_signal: "clear_signal_override target fe = Inr (old_ov, fe') \<Longrightarrow>
     fault_step fe (OpClearSignal target) fe'"
| step_clear_all: "fault_step fe OpClearAll (clear_all fe)"

inductive fault_run_to :: "fault_engine \<Rightarrow> fault_op list \<Rightarrow> fault_engine \<Rightarrow> bool" where
  run_none: "fault_run_to fe [] fe"
| run_snoc: "fault_run_to fe ops fe1 \<Longrightarrow> fault_step fe1 op fe2 \<Longrightarrow> fault_run_to fe (ops @ [op]) fe2"

inductive_cases fault_stepE: "fault_step fe op fe'"

lemma override_ok_mono: "override_ok valid kind c x \<Longrightarrow> c \<le> c' \<Longrightarrow> override_ok valid kind c' x"
  by (auto simp: override_ok_def split: prod.splits)

lemma made_override_ok:
  "make_override clock kind target value duration cycles now fe = Inr ov \<Longrightarrow> valid target \<Longrightarrow>
   0 \<le> fe_cycle fe \<Longrightarrow> override_ok valid kind (fe_cycle fe) (target, ov)"
  by (auto simp: make_override_Inr override_ok_def time_ok_def)

lemma fault_inv_update:
  assumes "fault_inv fe"
  shows "override_ok valid_state STATE_OVERRIDE (fe_cycle fe) (k, ov) \<Longrightarrow>
      fault_inv (fe\<lparr>fe_state_overrides := AList.update k ov (fe_state_overrides fe)\<rparr>)"
    and "override_ok valid_signal SIGNAL_OVERRIDE (fe_cycle fe) (k, ov) \<Longrightarrow>
      fault_inv (fe\<lparr>fe_signal_overrides := AList.update k ov (fe_signal_overrides fe)\<rparr>)"
    and "flag_ok (k, flag) \<Longrightarrow>
      fault_inv (fe\<lparr>fe_named_faults := AList.update k flag (fe_named_faults fe)\<rparr>)"
  using assms set_update_subset[of k ov] set_update_subset[of k flag]
  by (fastforce simp: fault_inv_def distinct_update)+

lemma fault_inv_shrink:
  assumes "fault_inv fe" "fe_cycle fe \<le> fe_cycle fe'"
    and "distinct (map fst (fe_state_overrides fe'))" "distinct (map fst (fe_signal_overrides fe'))"
    and "distinct (map fst (fe_named_faults fe'))"
    and "set (fe_state_overrides fe') \<subseteq> set (fe_state_overrides fe)"
    and "set (fe_signal_overrides fe') \<subseteq> set (fe_signal_overrides fe)"
    and "set (fe_named_faults fe') \<subseteq> set (fe_named_faults fe)"
  shows "fault_inv fe'"
proof -
  have "override_ok valid_state STATE_OVERRIDE (fe_cycle fe') x" if "x \<in> set (fe_state_overrides fe')" for x
    using assms(1,2,6) that unfolding fault_inv_def by (blast intro: override_ok_mono)
  moreover have "override_ok valid_signal SIGNAL_OVERRIDE (fe_cycle fe') x" if "x \<in> set (fe_signal_overrides fe')" for x
    using assms(1,2,7) that unfolding fault_inv_def by (blast intro: override_ok_mono)
  moreover have "0 \<le> fe_cycle fe'" using assms(1,2) by (simp add: fault_inv_def)
  moreover have "\<forall>x \<in> set (fe_named_faults fe'). flag_ok x"
    using assms(1,8) unfolding fault_inv_def by blast
  ultimately show ?thesis using assms(3,4,5) unfolding fault_inv_def by blast
qed

lemma split_at_dot:
  "CHR ''.'' \<in> set s \<Longrightarrow>
   takeWhile (\<lambda>c. c \<noteq> CHR ''.'') s @ CHR ''.'' # tl (dropWhile (\<lambda>c. c \<noteq> CHR ''.'') s) = s"
  by (induction s) auto

lemma split_no_dot: "CHR ''.'' \<notin> set s \<Longrightarrow> str_split CHR ''.'' s = [s]"
  by (induction s) auto

lemma is_path_dot: "is_path s \<Longrightarrow> CHR ''.'' \<in> set s"
  by (rule ccontr) (simp add: is_path_def split_no_dot)

definition valid_flag :: "string \<Rightarrow> bool" where
  "valid_flag target \<longleftrightarrow> is_path target \<and> \<not> str_contains ''.model.'' target \<and>
     \<not> str_contains ''.telemetry.'' target"

lemma path_split_owner:
  assumes "is_path target"
  shows "target = owner_of target @ ''.'' @ name \<longleftrightarrow> name = tl (dropWhile (\<lambda>c. c \<noteq> CHR ''.'') target)"
proof -
  have "owner_of target @ ''.'' @ tl (dropWhile (\<lambda>c. c \<noteq> CHR ''.'') target) = target"
    using split_at_dot[OF is_path_dot[OF assms]] by (simp add: owner_of_def)
  then show ?thesis by (metis same_append_eq)
qed

lemma parse_named_fault_target_value:
  "parse_named_fault_target target =
     (if is_path target
      then if valid_flag target
           then Inr (owner_of target, tl (dropWhile (\<lambda>c. c \<noteq> CHR ''.'') target))
           else Inl (NotAModuleFlag target)
      else Inl (NotAPath ''named_fault target'' target))"
  by (simp add: parse_named_fault_target_def validate_path_def valid_flag_def owner_of_def is_path_def Let_def)

lemma parse_named_fault_target_Inr:
  "parse_named_fault_target target = Inr (owner, name) \<longleftrightarrow>
     valid_flag target \<and> owner = owner_of target \<and> target = owner @ ''.'' @ name"
  using path_split_owner[of target name]
  by (auto simp: parse_named_fault_target_value valid_flag_def simp del: append.simps)

lemma parse_named_fault_target_ok: "valid_flag target \<Longrightarrow>
    \<exists>name. parse_named_fault_target target = Inr (owner_of target, name) \<and> target = owner_of target @ ''.'' @ name"
  using path_split_owner[of target]
  by (simp add: parse_named_fault_target_value valid_flag_def del: append.simps)

lemma fault_step_inv: "fault_step fe op fe' \<Longrightarrow> fault_inv fe \<Longrightarrow> fault_inv fe'"
proof (induction rule: fault_step.induct)
  case (step_state clock target v duration cycles now fe ov fe')
  then have v: "valid_state target" "make_override clock STATE_OVERRIDE target v duration cycles now fe = Inr ov"
    and fe': "fe' = fe\<lparr>fe_state_overrides := AList.update target ov (fe_state_overrides fe)\<rparr>"
    by (auto simp: state_override_def res_bind_eq_Inr validate_state_target_Inr)
  have "0 \<le> fe_cycle fe" using step_state.prems by (simp add: fault_inv_def)
  with v have "override_ok valid_state STATE_OVERRIDE (fe_cycle fe) (target, ov)"
    by (intro made_override_ok)
  from fault_inv_update(1)[OF step_state.prems this] show ?case by (simp add: fe')
next
  case (step_signal clock target v duration cycles now fe ov fe')
  then have v: "valid_signal target" "make_override clock SIGNAL_OVERRIDE target v duration cycles now fe = Inr ov"
    and fe': "fe' = fe\<lparr>fe_signal_overrides := AList.update target ov (fe_signal_overrides fe)\<rparr>"
    by (auto simp: signal_override_def res_bind_eq_Inr validate_signal_target_Inr)
  have "0 \<le> fe_cycle fe" using step_signal.prems by (simp add: fault_inv_def)
  with v have "override_ok valid_signal SIGNAL_OVERRIDE (fe_cycle fe) (target, ov)"
    by (intro made_override_ok)
  from fault_inv_update(2)[OF step_signal.prems this] show ?case by (simp add: fe')
next
  case (step_activate clock target now fe flag fe')
  then have p: "valid_flag target"
    and f: "nf_target flag = target" "nf_module flag = owner_of target"
    and fe': "fe' = fe\<lparr>fe_named_faults := AList.update target flag (fe_named_faults fe)\<rparr>"
    by (auto simp: activate_named_fault_def res_bind_eq_Inr parse_named_fault_target_Inr Let_def nf_target_def)
  have "flag_ok (target, flag)" using p f by (simp add: flag_ok_def valid_flag_def)
  then show ?case unfolding fe' by (rule fault_inv_update(3)[OF step_activate.prems])
next
  case (step_clear_flag target fe old fe')
  obtain owner name where p: "parse_named_fault_target target = Inr (owner, name)"
    using step_clear_flag.hyps by (cases "parse_named_fault_target target")
      (auto simp only: clear_named_fault_def res_bind_Inl)
  have fe': "fe' = fe\<lparr>fe_named_faults := AList.delete (owner @ ''.'' @ name) (fe_named_faults fe)\<rparr>"
    using step_clear_flag.hyps by (simp only: clear_named_fault_def p res_bind_Inr prod.case Let_def
        sum.inject prod.inject)
  show ?case
    unfolding fe' by (rule fault_inv_shrink[OF step_clear_flag.prems])
      (use step_clear_flag.prems in \<open>simp_all add: fault_inv_def distinct_delete set_delete_subset\<close>)
next
  case (step_clear_module owner fe olds fe')
  show ?case
    by (rule fault_inv_shrink[OF step_clear_module.prems])
      (use step_clear_module in \<open>auto simp: clear_module_faults_def res_bind_eq_Inr
        fault_inv_def distinct_filter_fst\<close>)
next
  case (step_expire clock now fe gone fe')
  show ?case
    by (rule fault_inv_shrink[OF step_expire.prems])
      (use step_expire clear_expired_Inr[OF step_expire.hyps] in
        \<open>auto simp: fault_inv_def distinct_filter_fst live_overrides_def\<close>)
next
  case (step_advance clock n now fe r fe')
  have n: "fe_cycle fe \<le> fe_cycle (fe\<lparr>fe_cycle := fe_cycle fe + n\<rparr>)" if "0 \<le> n" using that by simp
  show ?case
  proof (cases r)
    case (Inl err)
    then have "fe' = fe \<or> fe' = fe\<lparr>fe_cycle := fe_cycle fe + n\<rparr> \<and> 0 \<le> n"
      using step_advance.hyps by (auto simp: advance_cycles_def check_non_negative_def Let_def
          split: if_splits sum.splits)
    then show ?thesis
      using step_advance.prems fault_inv_shrink[OF step_advance.prems, of fe']
      by (auto simp: fault_inv_def)
  next
    case (Inr gone)
    then have "advance_cycles clock n now fe = (Inr gone, fe')" using step_advance.hyps by simp
    note adv = advance_cycles_Inr[OF this]
    show ?thesis
      by (rule fault_inv_shrink[OF step_advance.prems])
        (use step_advance.prems adv in
          \<open>auto simp: fault_inv_def distinct_filter_fst live_overrides_def\<close>)
  qed
next
  case (step_clear_state target fe old_ov fe')
  then have fe': "fe' = fe\<lparr>fe_state_overrides := AList.delete target (fe_state_overrides fe)\<rparr>"
    by (auto simp: clear_state_override_def res_bind_eq_Inr validate_state_target_Inr)
  show ?case
    unfolding fe' by (rule fault_inv_shrink[OF step_clear_state.prems])
      (use step_clear_state.prems in \<open>simp_all add: fault_inv_def distinct_delete set_delete_subset\<close>)
next
  case (step_clear_signal target fe old_ov fe')
  then have fe': "fe' = fe\<lparr>fe_signal_overrides := AList.delete target (fe_signal_overrides fe)\<rparr>"
    by (auto simp: clear_signal_override_def res_bind_eq_Inr validate_signal_target_Inr)
  show ?case
    unfolding fe' by (rule fault_inv_shrink[OF step_clear_signal.prems])
      (use step_clear_signal.prems in \<open>simp_all add: fault_inv_def distinct_delete set_delete_subset\<close>)
next
  case (step_clear_all fe)
  then show ?case by (simp add: clear_all_def fault_inv_def)
qed

lemma new_fault_engine_inv: "fault_inv new_fault_engine"
  by (simp add: new_fault_engine_def fault_inv_def)

lemma fault_run_inv: "fault_run_to fe ops fe' \<Longrightarrow> fault_inv fe \<Longrightarrow> fault_inv fe'"
  by (induction rule: fault_run_to.induct) (auto intro: fault_step_inv)

section \<open>Named faults\<close>

lemma flag_active_iff:
  "is_named_fault_active target fe = Inr True \<longleftrightarrow>
     valid_flag target \<and> target \<in> fst ` set (fe_named_faults fe)"
proof -
  have "map_of (fe_named_faults fe) target \<noteq> None \<longleftrightarrow> target \<in> fst ` set (fe_named_faults fe)"
    by (simp add: map_of_eq_None_iff)
  then show ?thesis
    using parse_named_fault_target_ok[of target]
    by (cases "valid_flag target")
      (auto simp: is_named_fault_active_def res_bind_eq_Inr parse_named_fault_target_Inr simp del: append.simps)
qed

definition clears_flag :: "string \<Rightarrow> fault_op \<Rightarrow> bool" where
  "clears_flag target op \<longleftrightarrow>
     op = OpClearFlag target \<or> op = OpClearModule (owner_of target) \<or> op = OpClearAll"

lemma flag_keys:
  "fst ` set (AList.update k v ps) = insert k (fst ` set ps)"
  "fst ` set (AList.delete k ps) = fst ` set ps - {k}"
  by (induction ps) auto

lemma deleted_entry:
  "Inr (x, fe\<lparr>fe_named_faults := AList.delete key (fe_named_faults fe)\<rparr>) = (Inr (old, fe') :: fault_error + _) \<Longrightarrow>
   fe_named_faults fe' = AList.delete key (fe_named_faults fe)"
  by auto

lemma clear_named_fault_keys:
  "clear_named_fault target fe = Inr (old, fe') \<Longrightarrow>
   fst ` set (fe_named_faults fe') = fst ` set (fe_named_faults fe) - {target}"
proof -
  assume c: "clear_named_fault target fe = Inr (old, fe')"
  then obtain q where q: "parse_named_fault_target target = Inr q"
    by (cases "parse_named_fault_target target") (simp_all add: clear_named_fault_def)
  obtain owner name where "q = (owner, name)" by (cases q)
  with q have p: "parse_named_fault_target target = Inr (owner, name)" by simp
  then have "target = owner @ ''.'' @ name" using parse_named_fault_target_Inr[THEN iffD1] by blast
  moreover have "fe_named_faults fe' = AList.delete (owner @ ''.'' @ name) (fe_named_faults fe)"
    using c p unfolding clear_named_fault_def
    by (simp only: res_bind_Inr prod.case Let_def) (rule deleted_entry)
  ultimately show ?thesis by (simp add: flag_keys)
qed

lemma clear_module_faults_Inr:
  "clear_module_faults owner fe = Inr (olds, fe') \<Longrightarrow>
   fe' = fe\<lparr>fe_named_faults := filter (\<lambda>(_, flag). nf_module flag \<noteq> owner) (fe_named_faults fe)\<rparr>"
  by (auto simp: clear_module_faults_def validate_identifier_def split: if_splits)

lemma fault_step_keeps_flag:
  assumes "fault_step fe op fe'" "\<not> clears_flag target op" "fault_inv fe"
    and "target \<in> fst ` set (fe_named_faults fe)"
  shows "target \<in> fst ` set (fe_named_faults fe')"
  using assms
proof (induction rule: fault_step.induct)
  case (step_activate clock tgt now fe flag fe')
  then have "fe_named_faults fe' = AList.update (nf_target flag) flag (fe_named_faults fe)"
    by (auto simp: activate_named_fault_def res_bind_eq_Inr Let_def)
  then show ?case using step_activate.prems by (simp add: flag_keys)
next
  case (step_clear_flag tgt fe old fe')
  then show ?case by (auto simp: clear_named_fault_keys clears_flag_def)
next
  case (step_clear_module owner fe olds fe')
  obtain flag where f: "(target, flag) \<in> set (fe_named_faults fe)" using step_clear_module.prems by auto
  then have "flag_ok (target, flag)" using step_clear_module.prems by (auto simp: fault_inv_def)
  then have "nf_module flag \<noteq> owner"
    using step_clear_module.prems by (auto simp: flag_ok_def clears_flag_def)
  then show ?case
    using clear_module_faults_Inr[OF step_clear_module.hyps] f by force
next
  case (step_advance clock n now fe r fe')
  show ?case
  proof (cases r)
    case (Inl err)
    then have "fe_named_faults fe' = fe_named_faults fe"
      using step_advance.hyps by (auto simp: advance_cycles_def Let_def split: sum.splits)
    then show ?thesis using step_advance.prems by simp
  next
    case (Inr gone)
    then have "fe_named_faults fe' = fe_named_faults fe"
      using step_advance.hyps advance_cycles_Inr[of clock n now fe gone fe'] by simp
    then show ?thesis using step_advance.prems by simp
  qed
qed (auto simp: state_override_def signal_override_def res_bind_eq_Inr clear_state_override_def
    clear_signal_override_def clears_flag_def dest!: clear_expired_Inr)

lemma fault_run_keeps_flag:
  assumes "fault_run_to fe ops fe'" "\<forall>op \<in> set ops. \<not> clears_flag target op" "fault_inv fe"
    and "target \<in> fst ` set (fe_named_faults fe)"
  shows "target \<in> fst ` set (fe_named_faults fe')"
  using assms
  by (induction rule: fault_run_to.induct) (auto intro: fault_step_keeps_flag fault_run_inv)

lemma cleared_flag_inactive:
  assumes "fault_step fe op fe'" "clears_flag target op" "fault_inv fe"
  shows "target \<notin> fst ` set (fe_named_faults fe')"
  using assms
proof (induction rule: fault_step.induct)
  case (step_clear_flag tgt fe old fe')
  then show ?case by (auto simp: clear_named_fault_keys clears_flag_def)
next
  case (step_clear_module owner fe olds fe')
  then show ?case
    by (fastforce dest!: clear_module_faults_Inr simp: clears_flag_def fault_inv_def flag_ok_def)
qed (auto simp: clears_flag_def clear_all_def)

section \<open>A fault request through the simulation engine\<close>

lemma scheduled_override_run:
  assumes e: "engine_inv e" "eng_queue e = []" "kind_handlers FAULT e = [HandleEvent]"
    and fe: "fault_inv fe" "fe_attached fe" and target: "valid_state target"
    and s: "schedule_fault ''state_override'' target delay v (Some d) None None e = (Inr ev, e1)"
    and T: "eng_now e + delay \<le> T"
  shows "\<exists>e2 fe2 fe3. run_until exec_fault T None (e1, fe) = Some (Inr [ev], (e2, fe2)) \<and>
     resolve_state_value (eng_now e2) target cur None fe2 =
       Inr (if T < eng_now e + delay + d then v else cur, fe3)"
proof -
  let ?t = "eng_now e + delay"
  obtain p where p: "mk_fault_payload ''state_override'' target v (Some d) None = Inr p"
    using s by (cases "mk_fault_payload ''state_override'' target v (Some d) None")
      (auto simp: schedule_fault_def schedule_payload_def)
  then have pf: "fp_fault_type p = ''state_override''" "fp_target p = target" "fp_value p = v"
      "fp_duration p = Some d" "fp_cycles p = None" and d: "0 \<le> d"
    by (auto simp: mk_fault_payload_def res_bind_eq_Inr check_non_empty_str_def check_optional_time_def
        check_virtual_time_def split: if_splits)
  have t: "0 \<le> delay" "0 \<le> eng_now e"
    using s e(1) p by (auto simp: schedule_fault_def schedule_payload_def schedule_after_def
        check_virtual_time_def engine_inv_def split: if_splits)
  have ev: "ev = \<lparr>ev_time = ?t, ev_sequence = eng_next_sequence e, ev_kind = FAULT, ev_payload = FaultPayload p\<rparr>"
    and e1: "e1 = e\<lparr>eng_next_sequence := eng_next_sequence e + 1, eng_queue :=
        [\<lparr>qe_time = ?t, qe_sequence = eng_next_sequence e, qe_event = ev, qe_handler = None\<rparr>]\<rparr>"
    using s p t e(2) by (auto simp: schedule_fault_def schedule_payload_def schedule_after_def
        schedule_at_def check_virtual_time_def coerce_event_kind_def Let_def)
  have okt: "time_ok (Some ?t)" "time_ok (Some d)" "time_ok None" using t d by (simp_all add: time_ok_def)
  obtain ov fe2 where put: "state_override ?t target v (Some d) None (Some ?t) fe = Inr (ov, fe2)"
    using target okt by (simp add: state_override_def res_bind_eq_Inr validate_state_target_Inr make_override_Inr)
  then have h: "handle_fault_event ev ?t fe = Inr (AppliedOverride ov, fe2)"
    by (simp add: handle_fault_event_def ev apply_payload_def apply_fault_def coerce_fault_kind_def pf)
  define e2 where "e2 = e1\<lparr>eng_queue := [], eng_now := ?t\<rparr>"
  have handlers: "kind_handlers FAULT e2 = [HandleEvent]" "eng_now e2 = ?t" "eng_queue e2 = []"
    using e(3) by (simp_all add: e2_def e1 kind_handlers_def)
  have ex: "exec_fault HandleEvent ev (e2, fe) = (Inr (), (e2, fe2))"
    using h handlers by (simp add: exec_fault_def)
  have next_e: "run_next exec_fault (e1, fe) = (Inr (Some ev), (e2, fe2))"
    using ex handlers by (simp add: run_next_def e1 dispatch_def e2_def ev Let_def)
  have due1: "due (Some T) e1" "\<not> due (Some T) e2" using T handlers by (simp_all add: due_def e1)
  have run: "run_until exec_fault T None (e1, fe) = Some (Inr [ev], (e2\<lparr>eng_now := T\<rparr>, fe2))"
    using t T due1 by (simp add: run_until_def check_virtual_time_def check_optional_count_def
        run_loop_step next_e run_loop_simps) (simp add: e1)
  have fe2: "fe2 = fe\<lparr>fe_state_overrides := AList.update target ov (fe_state_overrides fe)\<rparr>"
    using put by (auto simp: state_override_def res_bind_eq_Inr validate_state_target_Inr)
  note stored = state_channel.put_Inr[OF put]
  have dist: "distinct (map fst (fe_state_overrides fe2))"
    using stored fe(1) by (simp add: fault_inv_def distinct_update)
  have "map_of (live_overrides T (fe_cycle fe2) (fe_state_overrides fe2)) target =
      (if T < ?t + d then Some ov else None)"
    unfolding live_overrides_def
    using stored by (subst map_of_filter_snd[OF dist])
      (simp add: update_conv' is_expired_def time_at_def not_less)
  moreover have "time_at T fe2 None = T" using fe(2) by (simp add: time_at_def fe2)
  moreover obtain fe3 where "resolve_state_value T target cur None fe2 =
      Inr (case map_of (live_overrides (time_at T fe2 None) (fe_cycle fe2) (fe_state_overrides fe2)) target of
             None \<Rightarrow> cur | Some ov \<Rightarrow> ao_value ov, fe3)"
    using state_channel.resolve_Inr[OF target okt(3)] by blast
  ultimately have "resolve_state_value (eng_now (e2\<lparr>eng_now := T\<rparr>)) target cur None fe2 =
      Inr (if T < ?t + d then v else cur, fe3)"
    using stored by simp
  with run show ?thesis by blast
qed

section \<open>Which requests are accepted\<close>

lemma apply_fault_ok_iff:
  "is_ok (apply_fault clock fault_type target v duration cycles now fe) \<longleftrightarrow>
     (fault_type = ''state_override'' \<and> valid_state target \<or>
      fault_type = ''signal_override'' \<and> valid_signal target) \<and>
       time_ok duration \<and> time_ok cycles \<and> time_ok now \<or>
     fault_type = ''named_fault'' \<and> valid_flag target \<and> duration = None \<and> cycles = None \<and>
       (\<exists>active. named_fault_value_is_active v = Inr active \<and> (active \<longrightarrow> time_ok now))"
proof -
  have ok: "is_ok (map_sum id f r) = is_ok r" for f :: "'a \<Rightarrow> 'b" and r :: "fault_error + 'a"
    by (cases r) (simp_all add: is_ok_def)
  have ok': "is_ok r \<longleftrightarrow> (\<exists>x. r = Inr x)" for r :: "fault_error + 'a"
    by (cases r) (simp_all add: is_ok_def)
  have st: "is_ok (state_override clock target v duration cycles now fe) \<longleftrightarrow>
      valid_state target \<and> time_ok duration \<and> time_ok cycles \<and> time_ok now"
    by (auto simp: ok' state_override_def res_bind_eq_Inr validate_state_target_Inr make_override_Inr)
  have sg: "is_ok (signal_override clock target v duration cycles now fe) \<longleftrightarrow>
      valid_signal target \<and> time_ok duration \<and> time_ok cycles \<and> time_ok now"
    by (auto simp: ok' signal_override_def res_bind_eq_Inr validate_signal_target_Inr make_override_Inr)
  have act: "is_ok (activate_named_fault clock target now fe) \<longleftrightarrow> valid_flag target \<and> time_ok now"
    by (auto simp: ok' activate_named_fault_def res_bind_eq_Inr current_time_Inr Let_def
        parse_named_fault_target_Inr simp del: append.simps dest: parse_named_fault_target_ok)
  have clr: "is_ok (clear_named_fault target fe) \<longleftrightarrow> valid_flag target"
    by (auto simp: ok' clear_named_fault_def res_bind_eq_Inr Let_def
        parse_named_fault_target_Inr simp del: append.simps dest: parse_named_fault_target_ok)
  have named: "is_ok (if duration \<noteq> None \<or> cycles \<noteq> None then Inl NamedFaultTiming
      else res_bind (named_fault_value_is_active v) (\<lambda>active.
        if active then map_sum id (map_prod AppliedFlag id) (activate_named_fault clock target now fe)
        else map_sum id (map_prod ClearedFlag id) (clear_named_fault target fe))) \<longleftrightarrow>
     valid_flag target \<and> duration = None \<and> cycles = None \<and>
       (\<exists>active. named_fault_value_is_active v = Inr active \<and> (active \<longrightarrow> time_ok now))"
    by (cases "named_fault_value_is_active v") (auto simp: ok act clr is_ok_def[of "Inl _"])
  consider "fault_type = ''state_override''" | "fault_type = ''signal_override''"
    | "fault_type = ''named_fault''"
    | "fault_type \<notin> {''state_override'', ''signal_override'', ''named_fault''}" by blast
  then show ?thesis
  proof cases
    case 1
    then show ?thesis by (simp add: apply_fault_def coerce_fault_kind_def ok st)
  next
    case 2
    then show ?thesis by (simp add: apply_fault_def coerce_fault_kind_def ok sg)
  next
    case 3
    then show ?thesis using named by (simp add: apply_fault_def coerce_fault_kind_def)
  next
    case 4
    then show ?thesis by (simp add: apply_fault_def coerce_fault_kind_def is_ok_def)
  qed
qed

section \<open>Properties\<close>

definition demo_fault_engine :: fault_engine where
  "demo_fault_engine = \<lparr>fe_attached = True, fe_cycle = 4, fe_state_overrides = [],
     fe_signal_overrides = [], fe_named_faults = []\<rparr>"

definition demo_state_target :: string where "demo_state_target = ''eps.model.temp''"

lemma demo_fault_inv: "fault_inv demo_fault_engine"
  by (simp add: demo_fault_engine_def fault_inv_def)

lemma demo_state_target_valid: "valid_state demo_state_target"
  by (simp add: valid_state_def demo_state_target_def is_path_def is_identifier_def ident_char_def
      is_letter_def is_digit_def Let_def)

text \<open>
  C6: an override is in force exactly inside its window. After a state (or signal) override requested
  at time \<open>t0\<close>, whatever the clock, an advance of the cycle counter by \<open>n\<close> at a later time, and a
  lookup at a still later time \<open>t2\<close>, the resolved value is the override's exactly when \<open>t2\<close> is before
  \<open>t0 + duration\<close> (if a duration was given) and \<open>n\<close> is less than \<open>cycles\<close> (if given), whichever
  boundary comes first; otherwise it is the module's own value.\<close>

theorem fault_override_window:
  assumes "fault_inv fe"
    and "(valid_put, resolve) \<in> {(state_override, resolve_state_value), (signal_override, resolve_signal_value)}"
    and "valid_put clock target v duration cycles (Some t0) fe = Inr (ov, fe1)"
    and "advance_cycles clock n (Some t1) fe1 = (Inr gone, fe2)"
    and "t0 \<le> t1" "t1 \<le> t2"
  shows "\<exists>fe3. resolve clock target current (Some t2) fe2 =
     Inr (if (\<forall>d. duration = Some d \<longrightarrow> t2 < t0 + d) \<and> (\<forall>c. cycles = Some c \<longrightarrow> n < c)
          then v else current, fe3)"
proof -
  have "distinct (map fst (fe_state_overrides fe))" "distinct (map fst (fe_signal_overrides fe))"
    using assms(1) by (simp_all add: fault_inv_def)
  then show ?thesis
    using assms(2-6) state_channel.window[of fe clock target v duration cycles t0 ov fe1 n t1 gone fe2 t2 current]
      signal_channel.window[of fe clock target v duration cycles t0 ov fe1 n t1 gone fe2 t2 current]
    by blast
qed

lemma fault_override_window_witness:
  "\<exists>ov fe1 gone fe2 fe3. state_override 0 demo_state_target (PInt 90) (Some 500) (Some 3) (Some 1000)
        demo_fault_engine = Inr (ov, fe1) \<and>
     advance_cycles 0 2 (Some 1200) fe1 = (Inr gone, fe2) \<and>
     resolve_state_value 0 demo_state_target (PInt 20) (Some 1499) fe2 = Inr (PInt 90, fe3)"
proof -
  obtain ov fe1 where put: "state_override 0 demo_state_target (PInt 90) (Some 500) (Some 3) (Some 1000)
      demo_fault_engine = Inr (ov, fe1)"
    using demo_state_target_valid
    by (simp add: state_override_def res_bind_eq_Inr validate_state_target_Inr make_override_Inr time_ok_def)
  obtain gone fe2 where adv: "advance_cycles 0 2 (Some 1200) fe1 = (Inr gone, fe2)"
    by (simp add: advance_cycles_def check_non_negative_def clear_expired_def current_time_def Let_def)
  show ?thesis
    using fault_override_window[of demo_fault_engine state_override resolve_state_value, OF demo_fault_inv _ put adv,
        of 1499 "PInt 20"] put adv by simp
qed

text \<open>
  C29: a fault request scheduled on the simulation engine takes effect at its time and ends by itself.
  On an engine with an empty timeline whose only FAULT handler is the attached fault engine, a
  \<^verbatim>\<open>state_override\<close> request scheduled with a delay and a duration is dispatched once by
  \<^verbatim>\<open>run_until\<close> up to any horizon not before it (the run returns and raises nothing), and a lookup at the
  horizon sees the override exactly when the horizon is before request time plus duration.\<close>

theorem scheduled_fault_takes_effect:
  assumes "engine_inv e" "eng_queue e = []" "kind_handlers FAULT e = [HandleEvent]"
    and "fault_inv fe" "fe_attached fe" "valid_state target"
    and "schedule_fault ''state_override'' target delay v (Some d) None None e = (Inr ev, e1)"
    and "eng_now e + delay \<le> T"
  shows "\<exists>e2 fe2 fe3. run_until exec_fault T None (e1, fe) = Some (Inr [ev], (e2, fe2)) \<and>
     resolve_state_value (eng_now e2) target cur None fe2 =
       Inr (if T < eng_now e + delay + d then v else cur, fe3)"
  using assms by (rule scheduled_override_run)

definition demo_fault_timeline :: "fault_handler engine" where
  "demo_fault_timeline =
     \<lparr>eng_now = 10, eng_next_sequence = 0, eng_queue = [], eng_handlers = [(FAULT, [HandleEvent])]\<rparr>"

lemma scheduled_fault_takes_effect_witness:
  "\<exists>ev e1 e2 fe2 fe3.
     schedule_fault ''state_override'' demo_state_target 5 (PInt 90) (Some 100) None None demo_fault_timeline = (Inr ev, e1) \<and>
     run_until exec_fault 50 None (e1, demo_fault_engine) = Some (Inr [ev], (e2, fe2)) \<and>
     resolve_state_value (eng_now e2) demo_state_target (PInt 20) None fe2 = Inr (PInt 90, fe3)"
proof -
  have e: "engine_inv demo_fault_timeline" "eng_queue demo_fault_timeline = []"
    "kind_handlers FAULT demo_fault_timeline = [HandleEvent]"
    by (simp_all add: demo_fault_timeline_def engine_inv_def kind_handlers_def)
  have at: "fe_attached demo_fault_engine" by (simp add: demo_fault_engine_def)
  obtain ev e1 where s:
    "schedule_fault ''state_override'' demo_state_target 5 (PInt 90) (Some 100) None None demo_fault_timeline = (Inr ev, e1)"
    by (simp add: schedule_fault_def mk_fault_payload_def schedule_defs check_optional_time_def Let_def
        demo_fault_timeline_def demo_state_target_def)
  have T: "eng_now demo_fault_timeline + 5 \<le> 50" by (simp add: demo_fault_timeline_def)
  show ?thesis
    using scheduled_fault_takes_effect[OF e demo_fault_inv at demo_state_target_valid s T, of "PInt 20"] s
    by (auto simp: demo_fault_timeline_def)
qed

text \<open>
  every state the fault engine can reach from its initial one, by any sequence of its operations
  (also an \<^verbatim>\<open>advance_cycles\<close> that raises), is well formed: the three dictionaries have no duplicate
  keys, every override is of its dictionary's kind, is stored under its own valid target, was
  activated no later than the current cycle and does not expire before its activation, and every flag
  is stored under \<^verbatim>\<open>module.name\<close>.\<close>

theorem fault_states_well_formed:
  assumes "fault_run_to new_fault_engine ops fe"
  shows "fault_inv fe"
  using assms new_fault_engine_inv by (rule fault_run_inv)

lemma fault_states_well_formed_witness:
  "\<exists>r fe. fault_run_to new_fault_engine [OpAdvance 3] fe \<and> fault_inv fe \<and> fe_cycle fe = 3"
proof -
  let ?fe = "snd (advance_cycles 0 3 None new_fault_engine)"
  have s: "fault_step new_fault_engine (OpAdvance 3) ?fe"
    by (rule step_advance[of 0 3 None _ "fst (advance_cycles 0 3 None new_fault_engine)"]) simp
  have r: "fault_run_to new_fault_engine [OpAdvance 3] ?fe"
    using run_snoc[OF run_none s] by simp
  moreover have "fe_cycle ?fe = 3"
    by (simp add: advance_cycles_def check_non_negative_def clear_expired_def current_time_def
        new_fault_engine_def Let_def)
  ultimately show ?thesis using fault_states_well_formed[OF r] by blast
qed

text \<open>
  a named fault stays active until it is cleared. Once its flag is set, no override request, expiry,
  cycle advance or other flag's operation ends it, and an explicit clear of the flag, of its module or of
  everything does.\<close>

theorem named_fault_until_cleared:
  assumes "fault_inv fe" "is_named_fault_active target fe = Inr True" "fault_run_to fe ops fe1"
    and "\<forall>op \<in> set ops. \<not> clears_flag target op"
  shows "is_named_fault_active target fe1 = Inr True \<and>
     (\<forall>op fe2. fault_step fe1 op fe2 \<longrightarrow>
        is_named_fault_active target fe2 = Inr (\<not> clears_flag target op))"
proof -
  have v: "valid_flag target" and k: "target \<in> fst ` set (fe_named_faults fe)"
    using assms(2) by (auto simp: flag_active_iff)
  have k1: "target \<in> fst ` set (fe_named_faults fe1)"
    by (rule fault_run_keeps_flag[OF assms(3,4,1) k])
  have inv1: "fault_inv fe1" by (rule fault_run_inv[OF assms(3,1)])
  have total: "\<exists>b. is_named_fault_active target fe' = Inr b" for fe'
    using parse_named_fault_target_ok[OF v] by (auto simp: is_named_fault_active_def)
  have "is_named_fault_active target fe2 = Inr (\<not> clears_flag target op)" if s: "fault_step fe1 op fe2" for op fe2
  proof (cases "clears_flag target op")
    case True
    then have "is_named_fault_active target fe2 \<noteq> Inr True"
      using cleared_flag_inactive[OF s True inv1] by (simp add: flag_active_iff)
    then show ?thesis using True total[of fe2] by auto
  next
    case False
    then show ?thesis using fault_step_keeps_flag[OF s False inv1 k1] v by (simp add: flag_active_iff)
  qed
  then show ?thesis using k1 v by (simp add: flag_active_iff)
qed

definition demo_flag_engine :: fault_engine where
  "demo_flag_engine = demo_fault_engine\<lparr>fe_named_faults := [(''eps.cell_dead'',
     \<lparr>nf_module = ''eps'', nf_name = ''cell_dead'', nf_activated_at = 7, nf_activated_cycle = 1\<rparr>)]\<rparr>"

lemma named_fault_until_cleared_witness:
  "is_named_fault_active ''eps.cell_dead'' (snd (advance_cycles 0 9 (Some 99) demo_flag_engine)) = Inr True \<and>
   is_named_fault_active ''eps.cell_dead'' (clear_all (snd (advance_cycles 0 9 (Some 99) demo_flag_engine))) = Inr False"
proof -
  let ?fe = "snd (advance_cycles 0 9 (Some 99) demo_flag_engine)"
  have inv: "fault_inv demo_flag_engine"
    by (simp add: demo_flag_engine_def demo_fault_engine_def fault_inv_def flag_ok_def nf_target_def
        owner_of_def is_path_def is_identifier_def ident_char_def is_letter_def is_digit_def Let_def)
  have act: "is_named_fault_active ''eps.cell_dead'' demo_flag_engine = Inr True"
    by (simp add: flag_active_iff valid_flag_def demo_flag_engine_def is_path_def is_identifier_def
        ident_char_def is_letter_def is_digit_def Let_def)
  have s: "fault_step demo_flag_engine (OpAdvance 9) ?fe"
    by (rule step_advance[of 0 9 "Some 99" _ "fst (advance_cycles 0 9 (Some 99) demo_flag_engine)"]) simp
  have r: "fault_run_to demo_flag_engine [OpAdvance 9] ?fe" using run_snoc[OF run_none s] by simp
  have "\<forall>op \<in> set [OpAdvance 9]. \<not> clears_flag ''eps.cell_dead'' op" by (simp add: clears_flag_def)
  from named_fault_until_cleared[OF inv act r this] show ?thesis
    using step_clear_all[of ?fe] by (auto simp: clears_flag_def)
qed

text \<open>
  C30: exactly these fault requests are accepted: a \<^verbatim>\<open>state_override\<close> or \<^verbatim>\<open>signal_override\<close> whose target is a
  path of at least three identifiers holding \<^verbatim>\<open>.model.\<close> (or \<^verbatim>\<open>.telemetry.\<close>), with no negative duration,
  cycle count or time; and a \<^verbatim>\<open>named_fault\<close> without duration and cycles whose target is a path holding
  neither and whose value says whether it is set or cleared (clearing does not look at the time).
  Everything else is an error.\<close>

theorem fault_request_accepted_iff:
  "is_ok (apply_fault clock fault_type target v duration cycles now fe) \<longleftrightarrow>
     (fault_type = ''state_override'' \<and> valid_state target \<or>
      fault_type = ''signal_override'' \<and> valid_signal target) \<and>
       time_ok duration \<and> time_ok cycles \<and> time_ok now \<or>
     fault_type = ''named_fault'' \<and> valid_flag target \<and> duration = None \<and> cycles = None \<and>
       (\<exists>active. named_fault_value_is_active v = Inr active \<and> (active \<longrightarrow> time_ok now))"
  by (rule apply_fault_ok_iff)

lemma fault_request_accepted_iff_witness:
  "is_ok (apply_fault 0 ''named_fault'' ''eps.cell_dead'' (PBool False) None None (Some (-1)) new_fault_engine)"
proof -
  have "valid_flag ''eps.cell_dead''" by code_simp
  moreover have "named_fault_value_is_active (PBool False) = Inr False" by code_simp
  ultimately show ?thesis unfolding fault_request_accepted_iff by (simp add: ex_bool_eq)
qed

end
