(* ===== verification/Config.thy ===== *)
theory Config
  imports FaultInjection SignalCodec
begin

text \<open>
  The setup and scenario contracts of \<^verbatim>\<open>config/parser.py\<close>. Reading TOML and YAML and turning the
  parsed tables into typed field values is the work of \<^verbatim>\<open>tomllib\<close>, \<^verbatim>\<open>yaml\<close> and \<^verbatim>\<open>pydantic\<close>, which are
  not part of the repository; the model starts from the typed values (strings already stripped) and
  holds every validator the module declares: the value parsers, the field constraints, the model
  validators and the reference check of a scenario against a setup. \<^verbatim>\<open>pydantic\<close> collects all errors of
  an object, the model reports the first. The module registry is live global state, so its answer for
  a module type is an argument.
\<close>

section \<open>Errors\<close>

datatype config_error =
    CfgDuration
  | CfgDurationNegative
  | CfgDurationNeedsUnit int
  | CfgDurationText string
  | CfgDurationUnit string
  | CfgCycles
  | CfgCyclesNegative
  | CfgCyclesText string
  | CfgCyclesUnit string
  | CfgTooManyDigits nat
  | CfgHexPairs string
  | CfgHexType
  | CfgRange string int
  | CfgIdentifier string string
  | CfgPath string string
  | CfgSegments string nat
  | CfgModelTarget string
  | CfgTelemetryTarget string
  | CfgFlagTarget string
  | CfgFlagTiming
  | CfgWireLayout signal_error
  | CfgUncaught py_exn
  | CfgEnumFloat
  | CfgEnumEmpty
  | CfgEnumKey string
  | CfgEnumLabel string
  | CfgEmpty string
  | CfgUnknownModule string
  | CfgNeedsModule
  | CfgModuleNotSimulated
  | CfgRulesModule
  | CfgParamsNotSimulated
  | CfgNoParams string
  | CfgReservedParams "string list"
  | CfgParams string string
  | CfgSharedAddress string string int
  | CfgHardwareInMemory "string list"
  | CfgCommandTarget string string string
  | CfgCommandPayload string string nat int
  | CfgTelemetryLength string string int int
  | CfgTelemetryOwner string string string
  | CfgTelemetryShared string string string

section \<open>Values\<close>

text \<open>\<^verbatim>\<open>int(text)\<close> of a digit string; CPython refuses more than 4300 digits.\<close>

definition int_of_amount :: "string \<Rightarrow> config_error + int" where
  "int_of_amount ds =
     (if length ds > 4300 then Inl (CfgTooManyDigits (length ds)) else Inr (digits_value ds))"

text \<open>
  The match of \<^verbatim>\<open>^([0-9]+)\s*(UNIT*)$\<close> on a whole string; the three character classes are disjoint, so
  the match is unique.
\<close>

definition match_amount :: "(char \<Rightarrow> bool) \<Rightarrow> string \<Rightarrow> (string \<times> string) option" where
  "match_amount unit_char s =
     (let amount = takeWhile is_digit s;
          unit_text = dropWhile is_space (dropWhile is_digit s)
      in if amount \<noteq> [] \<and> list_all unit_char unit_text then Some (amount, unit_text) else None)"

definition micro_sign :: char where
  "micro_sign = char_of (181 :: nat)"

definition duration_units :: "(string \<times> int) list" where
  "duration_units =
     [(''s'', 1000000), (''sec'', 1000000), (''secs'', 1000000), (''second'', 1000000),
      (''seconds'', 1000000), (''ms'', 1000), (''msec'', 1000), (''msecs'', 1000),
      (''millisecond'', 1000), (''milliseconds'', 1000), (''us'', 1), (micro_sign # ''s'', 1),
      (''usec'', 1), (''usecs'', 1), (''microsecond'', 1), (''microseconds'', 1)]"

definition parse_virtual_duration :: "py_val \<Rightarrow> config_error + int" where
  "parse_virtual_duration v =
     (case v of
        PInt n \<Rightarrow>
          if n < 0 then Inl CfgDurationNegative
          else if n \<noteq> 0 then Inl (CfgDurationNeedsUnit n)
          else Inr 0
      | PStr s \<Rightarrow>
          (case match_amount (\<lambda>c. is_letter c \<or> c = micro_sign) (str_strip s) of
             None \<Rightarrow> Inl (CfgDurationText s)
           | Some (amount_text, unit_text) \<Rightarrow>
               let normalized = str_lower unit_text in
               if normalized = [] \<and> amount_text = ''0'' then Inr 0
               else (case map_of duration_units normalized of
                       None \<Rightarrow> Inl (CfgDurationUnit normalized)
                     | Some multiplier \<Rightarrow>
                         res_bind (int_of_amount amount_text) (\<lambda>n. Inr (n * multiplier))))
      | _ \<Rightarrow> Inl CfgDuration)"

definition parse_cycle_count :: "py_val \<Rightarrow> config_error + int" where
  "parse_cycle_count v =
     (case v of
        PInt n \<Rightarrow> if n < 0 then Inl CfgCyclesNegative else Inr n
      | PStr s \<Rightarrow>
          (case match_amount is_letter (str_strip s) of
             None \<Rightarrow> Inl (CfgCyclesText s)
           | Some (amount_text, unit_text) \<Rightarrow>
               if str_lower unit_text \<notin> {[], ''cycle'', ''cycles''}
               then Inl (CfgCyclesUnit (str_lower unit_text))
               else int_of_amount amount_text)
      | _ \<Rightarrow> Inl CfgCycles)"

definition hex_value :: "char \<Rightarrow> nat option" where
  "hex_value c =
     (let n = of_char c :: nat in
      if 48 \<le> n \<and> n \<le> 57 then Some (n - 48)
      else if 65 \<le> n \<and> n \<le> 70 then Some (n - 55)
      else if 97 \<le> n \<and> n \<le> 102 then Some (n - 87)
      else None)"

definition ascii_space :: "char \<Rightarrow> bool" where
  "ascii_space c = (let n = of_char c :: nat in (9 \<le> n \<and> n \<le> 13) \<or> n = 32)"

text \<open>\<^verbatim>\<open>bytes.fromhex\<close>: pairs of digits, with whitespace between pairs.\<close>

fun bytes_fromhex :: "string \<Rightarrow> byte list option" where
  "bytes_fromhex [] = Some []"
| "bytes_fromhex [c] = (if ascii_space c then Some [] else None)"
| "bytes_fromhex (c # d # cs) =
     (if ascii_space c then bytes_fromhex (d # cs)
      else case (hex_value c, hex_value d) of
             (Some a, Some b) \<Rightarrow> map_option (Cons (of_nat (16 * a + b))) (bytes_fromhex cs)
           | _ \<Rightarrow> None)"

definition coerce_hex_bytes :: "py_val \<Rightarrow> config_error + byte list" where
  "coerce_hex_bytes v =
     (case v of
        PNone \<Rightarrow> Inr []
      | PBytes bs \<Rightarrow> Inr bs
      | PStr s \<Rightarrow>
          (let stripped = str_strip s in
           if stripped = [] then Inr []
           else
             let compact = (if take 2 stripped \<in> {''0x'', ''0X''} then drop 2 stripped else stripped);
                 compact = filter (\<lambda>c. c \<notin> {CHR ''_'', CHR '':'', CHR ''-''}) compact
             in (case bytes_fromhex compact of
                   Some bs \<Rightarrow> Inr bs
                 | None \<Rightarrow> Inl (CfgHexPairs s)))
      | _ \<Rightarrow> Inl CfgHexType)"

definition cfg_identifier :: "string \<Rightarrow> string \<Rightarrow> config_error + string" where
  "cfg_identifier kind s = (if is_identifier s then Inr s else Inl (CfgIdentifier kind s))"

definition cfg_path :: "string \<Rightarrow> string \<Rightarrow> nat \<Rightarrow> config_error + string" where
  "cfg_path kind s min_segments =
     (if \<not> is_path s then Inl (CfgPath kind s)
      else if length (str_split CHR ''.'' s) < min_segments then Inl (CfgSegments kind min_segments)
      else Inr s)"

definition path_root :: "string \<Rightarrow> string" where
  "path_root path = takeWhile (\<lambda>c. c \<noteq> CHR ''.'') path"

text \<open>A declared field constraint \<^verbatim>\<open>Field(ge=lower, le=upper)\<close>.\<close>

definition cfg_range :: "string \<Rightarrow> int \<Rightarrow> int \<Rightarrow> int \<Rightarrow> config_error + int" where
  "cfg_range name lower upper n = (if n < lower \<or> upper < n then Inl (CfgRange name n) else Inr n)"

definition check_fault_type_target ::
  "fault_kind \<Rightarrow> string \<Rightarrow> int option \<Rightarrow> int option \<Rightarrow> config_error + unit" where
  "check_fault_type_target kind target duration cycles =
     (if kind = STATE_OVERRIDE \<and> \<not> str_contains ''.model.'' target then Inl (CfgModelTarget target)
      else if kind = SIGNAL_OVERRIDE \<and> \<not> str_contains ''.telemetry.'' target
      then Inl (CfgTelemetryTarget target)
      else if kind = NAMED_FAULT \<and> (str_contains ''.model.'' target \<or> str_contains ''.telemetry.'' target)
      then Inl (CfgFlagTarget target)
      else if kind = NAMED_FAULT \<and> (duration \<noteq> None \<or> cycles \<noteq> None) then Inl CfgFlagTiming
      else Inr ())"

definition parse_optional :: "(py_val \<Rightarrow> config_error + int) \<Rightarrow> py_val \<Rightarrow> config_error + int option" where
  "parse_optional parse v = (case v of PNone \<Rightarrow> Inr None | _ \<Rightarrow> map_sum id Some (parse v))"

section \<open>Setup\<close>

datatype node_mode = MODE_SIMULATED | MODE_SOFTWARE | MODE_HARDWARE

datatype assertion_op = AOP_EQ | AOP_NE | AOP_GT | AOP_GTE | AOP_LT | AOP_LTE

datatype threshold_op = TH_LT | TH_LTE | TH_GT | TH_GTE

datatype transport_config =
    InMemoryTransport
  | SocketCanTransport string bool
  | KissTransport string int

definition mk_socketcan_transport :: "string \<Rightarrow> bool \<Rightarrow> config_error + transport_config" where
  "mk_socketcan_transport iface receive_own =
     res_bind (cfg_identifier ''SocketCAN interface'' iface) (\<lambda>iface.
       Inr (SocketCanTransport iface receive_own))"

definition mk_kiss_transport :: "string \<Rightarrow> int \<Rightarrow> config_error + transport_config" where
  "mk_kiss_transport device baudrate =
     (if device = [] then Inl (CfgEmpty ''device'')
      else if baudrate < 1 then Inl (CfgRange ''baudrate'' baudrate)
      else Inr (KissTransport device baudrate))"

record command_mapping =
  cm_target :: string
  cm_destination_port :: int
  cm_source_port :: int
  cm_priority :: int
  cm_flags :: int
  cm_payload_hex :: "byte list"

definition mk_command_mapping ::
  "string \<Rightarrow> int \<Rightarrow> int \<Rightarrow> int \<Rightarrow> int \<Rightarrow> py_val \<Rightarrow> config_error + command_mapping" where
  "mk_command_mapping target dport sport priority flags payload =
     res_bind (cfg_identifier ''command target'' target) (\<lambda>target.
     res_bind (cfg_range ''destination_port'' 0 CSP_V2_PORT_MAX dport) (\<lambda>dport.
     res_bind (cfg_range ''source_port'' 0 CSP_V2_PORT_MAX sport) (\<lambda>sport.
     res_bind (cfg_range ''priority'' 0 CSP_V2_PRIORITY_MAX priority) (\<lambda>priority.
     res_bind (cfg_range ''flags'' 0 CSP_V2_FLAGS_MAX flags) (\<lambda>flags.
     res_bind (coerce_hex_bytes payload) (\<lambda>payload.
       Inr \<lparr>cm_target = target, cm_destination_port = dport, cm_source_port = sport,
            cm_priority = priority, cm_flags = flags, cm_payload_hex = payload\<rparr>))))))"

fun check_enum_entries :: "string list \<Rightarrow> (string \<times> string) list \<Rightarrow> config_error + unit" where
  "check_enum_entries labels_seen [] = Inr ()"
| "check_enum_entries labels_seen ((raw_key, label) # entries) =
     (case py_int_of_str raw_key of
        None \<Rightarrow> Inl (CfgEnumKey raw_key)
      | Some _ \<Rightarrow>
          if label \<in> set labels_seen then Inl (CfgEnumLabel label)
          else check_enum_entries (label # labels_seen) entries)"

definition check_enum :: "telemetry_mapping \<Rightarrow> config_error + unit" where
  "check_enum m =
     (case tm_enum m of
        None \<Rightarrow> Inr ()
      | Some entries \<Rightarrow>
          if tm_type m = SIG_FLOAT then Inl CfgEnumFloat
          else if entries = [] then Inl CfgEnumEmpty
          else check_enum_entries [] entries)"

definition check_wire_layout :: "telemetry_mapping \<Rightarrow> config_error + unit" where
  "check_wire_layout m =
     (case mk_signal_field ''telemetry-field-check'' (tm_offset m) (tm_length m) (tm_type m) (tm_endian m)
             (PFloat (tm_scale m)) (PFloat (tm_offset_value m)) None None None of
        Inl (SigUncaught e) \<Rightarrow> Inl (CfgUncaught e)
      | Inl e \<Rightarrow> Inl (CfgWireLayout e)
      | Inr _ \<Rightarrow> check_enum m)"

definition check_telemetry_mapping :: "telemetry_mapping \<Rightarrow> config_error + telemetry_mapping" where
  "check_telemetry_mapping m =
     res_bind (cfg_range ''source_port'' 0 CSP_V2_PORT_MAX (tm_source_port m)) (\<lambda>_.
     res_bind (cfg_range ''destination_port'' 0 CSP_V2_PORT_MAX (tm_destination_port m)) (\<lambda>_.
     res_bind (cfg_range ''priority'' 0 CSP_V2_PRIORITY_MAX (tm_priority m)) (\<lambda>_.
     res_bind (cfg_range ''flags'' 0 CSP_V2_FLAGS_MAX (tm_flags m)) (\<lambda>_.
     res_bind (case tm_signal m of
                 None \<Rightarrow> Inr [] | Some s \<Rightarrow> cfg_path ''telemetry signal'' s 3) (\<lambda>_.
     res_bind (check_wire_layout m) (\<lambda>_. Inr m))))))"

definition resolved_signal :: "telemetry_mapping \<Rightarrow> string \<Rightarrow> string \<Rightarrow> string" where
  "resolved_signal m node_name mapping_name =
     (case tm_signal m of
        Some s \<Rightarrow> s
      | None \<Rightarrow> node_name @ ''.telemetry.'' @ mapping_name)"

datatype obc_action =
    RuleSendCommand string
  | RuleInjectFault fault_kind string py_val "int option" "int option"

definition mk_rule_command :: "string \<Rightarrow> config_error + obc_action" where
  "mk_rule_command command =
     map_sum id RuleSendCommand (cfg_identifier ''rule action command'' command)"

definition mk_rule_fault ::
  "fault_kind \<Rightarrow> string \<Rightarrow> py_val \<Rightarrow> py_val \<Rightarrow> py_val \<Rightarrow> config_error + obc_action" where
  "mk_rule_fault kind target v duration cycles =
     res_bind (cfg_path ''rule action fault target'' target 2) (\<lambda>target.
     res_bind (parse_optional parse_virtual_duration duration) (\<lambda>duration.
     res_bind (parse_optional parse_cycle_count cycles) (\<lambda>cycles.
     res_bind (check_fault_type_target kind target duration cycles) (\<lambda>_.
       Inr (RuleInjectFault kind target v duration cycles)))))"

record obc_rule =
  or_signal :: string
  or_op :: threshold_op
  or_threshold :: pyfloat
  or_for :: int
  or_cooldown :: int
  or_actions :: "obc_action list"

definition mk_obc_rule ::
  "string \<Rightarrow> threshold_op \<Rightarrow> pyfloat \<Rightarrow> py_val \<Rightarrow> py_val \<Rightarrow> obc_action list \<Rightarrow> config_error + obc_rule" where
  "mk_obc_rule signal opr threshold hold cooldown actions =
     res_bind (cfg_path ''rule signal'' signal 3) (\<lambda>signal.
     res_bind (parse_virtual_duration hold) (\<lambda>hold.
     res_bind (parse_virtual_duration cooldown) (\<lambda>cooldown.
     res_bind (res_check (actions \<noteq> []) (CfgEmpty ''actions'')) (\<lambda>_.
       Inr \<lparr>or_signal = signal, or_op = opr, or_threshold = threshold, or_for = hold,
            or_cooldown = cooldown, or_actions = actions\<rparr>))))"

record node_config =
  nc_mode :: node_mode
  nc_address :: int
  nc_max_packet_bytes :: int
  nc_module_type :: "string option"
  nc_commands :: "(string \<times> command_mapping) list"
  nc_telemetry :: "(string \<times> telemetry_mapping) list"
  nc_rules :: "(string \<times> obc_rule) list"
  nc_params :: "(string \<times> py_val) list"

text \<open>
  What the registry knows of a module type: \<open>None\<close> if it is not registered, else its parameter class,
  \<open>None\<close> for a type without one, or what constructing it with the parameters does.
\<close>

type_synonym module_lookup = "string \<Rightarrow> ((string \<times> py_val) list \<Rightarrow> string + unit) option option"

definition check_params :: "module_lookup \<Rightarrow> string \<Rightarrow> (string \<times> py_val) list \<Rightarrow> config_error + unit" where
  "check_params registry module_type params =
     (case registry module_type of
        None \<Rightarrow> Inl (CfgUnknownModule module_type)
      | Some None \<Rightarrow> Inl (CfgNoParams module_type)
      | Some (Some config_cls) \<Rightarrow>
          let reserved = filter (\<lambda>k. k \<in> set (map fst params)) [''endpoint'', ''name''] in
          if reserved \<noteq> [] then Inl (CfgReservedParams reserved)
          else (case config_cls params of
                  Inl message \<Rightarrow> Inl (CfgParams module_type message)
                | Inr _ \<Rightarrow> Inr ()))"

definition check_node_config :: "module_lookup \<Rightarrow> node_config \<Rightarrow> config_error + node_config" where
  "check_node_config registry node =
     res_bind (cfg_range ''address'' 0 CSP_V2_ADDRESS_MAX (nc_address node)) (\<lambda>_.
     res_bind (res_check (1 \<le> nc_max_packet_bytes node)
                 (CfgRange ''max_packet_bytes'' (nc_max_packet_bytes node))) (\<lambda>_.
     res_bind (case nc_module_type node of
                 None \<Rightarrow> Inr ()
               | Some t \<Rightarrow> res_check (registry t \<noteq> None) (CfgUnknownModule t)) (\<lambda>_.
     res_bind (res_check (\<not> (nc_mode node = MODE_SIMULATED \<and> nc_module_type node = None)) CfgNeedsModule) (\<lambda>_.
     res_bind (res_check (\<not> (nc_mode node \<noteq> MODE_SIMULATED \<and> nc_module_type node \<noteq> None))
                 CfgModuleNotSimulated) (\<lambda>_.
     res_bind (res_check (\<not> (nc_rules node \<noteq> [] \<and> nc_module_type node \<noteq> Some ''obc_peer''))
                 CfgRulesModule) (\<lambda>_.
     res_bind (res_check (\<not> (nc_mode node \<noteq> MODE_SIMULATED \<and> nc_params node \<noteq> []))
                 CfgParamsNotSimulated) (\<lambda>_.
     res_bind (if nc_params node = [] then Inr ()
               else case nc_module_type node of
                      None \<Rightarrow> Inl CfgNeedsModule
                    | Some t \<Rightarrow> check_params registry t (nc_params node)) (\<lambda>_.
       Inr node))))))))"

record testbed_config =
  tc_transport :: transport_config
  tc_nodes :: "(string \<times> node_config) list"

definition check_node_names :: "testbed_config \<Rightarrow> config_error + unit" where
  "check_node_names setup =
     map_sum id (\<lambda>_. ()) (res_mapM (\<lambda>(name, _). cfg_identifier ''node name'' name) (tc_nodes setup))"

fun check_unique_addresses ::
  "(int \<times> string) list \<Rightarrow> (string \<times> node_config) list \<Rightarrow> config_error + unit" where
  "check_unique_addresses owners [] = Inr ()"
| "check_unique_addresses owners ((name, node) # nodes) =
     (case map_of owners (nc_address node) of
        None \<Rightarrow> check_unique_addresses ((nc_address node, name) # owners) nodes
      | Some previous \<Rightarrow>
          if previous \<noteq> name then Inl (CfgSharedAddress previous name (nc_address node))
          else check_unique_addresses owners nodes)"

definition check_transport_modes :: "testbed_config \<Rightarrow> config_error + unit" where
  "check_transport_modes setup =
     (case tc_transport setup of
        InMemoryTransport \<Rightarrow>
          (case [name. (name, node) \<leftarrow> tc_nodes setup, nc_mode node = MODE_HARDWARE] of
             [] \<Rightarrow> Inr ()
           | names \<Rightarrow> Inl (CfgHardwareInMemory names))
      | _ \<Rightarrow> Inr ())"

definition check_command ::
  "testbed_config \<Rightarrow> string \<Rightarrow> node_config \<Rightarrow> string \<times> command_mapping \<Rightarrow> config_error + unit" where
  "check_command setup node_name node entry =
     (case entry of (command_name, command) \<Rightarrow>
        res_bind (cfg_identifier ''command name'' command_name) (\<lambda>_.
        res_bind (res_check (map_of (tc_nodes setup) (cm_target command) \<noteq> None)
                    (CfgCommandTarget node_name command_name (cm_target command))) (\<lambda>_.
          res_check (int (length (cm_payload_hex command)) \<le> nc_max_packet_bytes node)
            (CfgCommandPayload node_name command_name (length (cm_payload_hex command))
               (nc_max_packet_bytes node)))))"

definition check_command_mappings :: "testbed_config \<Rightarrow> config_error + unit" where
  "check_command_mappings setup =
     map_sum id (\<lambda>_. ())
       (res_mapM (\<lambda>(node_name, node). res_mapM (check_command setup node_name node) (nc_commands node))
          (tc_nodes setup))"

definition str_starts_with :: "string \<Rightarrow> string \<Rightarrow> bool" where
  "str_starts_with start s \<longleftrightarrow> take (length start) s = start"

text \<open>\<open>owners\<close> is the dictionary of the signals mapped so far.\<close>

definition check_telemetry ::
  "string \<Rightarrow> node_config \<Rightarrow> string \<times> telemetry_mapping \<Rightarrow> (string \<times> string) list
    \<Rightarrow> config_error + (string \<times> string) list" where
  "check_telemetry node_name node entry owners =
     (case entry of (telemetry_name, mapping) \<Rightarrow>
        let signal = resolved_signal mapping node_name telemetry_name;
            wire_length = tm_offset mapping + tm_length mapping;
            current_owner = node_name @ ''.'' @ telemetry_name
        in
        res_bind (cfg_identifier ''telemetry mapping name'' telemetry_name) (\<lambda>_.
        res_bind (cfg_path ''telemetry signal'' signal 3) (\<lambda>_.
        res_bind (res_check (wire_length \<le> nc_max_packet_bytes node)
                    (CfgTelemetryLength node_name telemetry_name wire_length
                       (nc_max_packet_bytes node))) (\<lambda>_.
        res_bind (res_check (str_starts_with (node_name @ ''.telemetry.'') signal)
                    (CfgTelemetryOwner node_name telemetry_name signal)) (\<lambda>_.
          (case map_of owners signal of
             None \<Rightarrow> Inr ((signal, current_owner) # owners)
           | Some previous \<Rightarrow>
               if previous \<noteq> current_owner then Inl (CfgTelemetryShared signal previous current_owner)
               else Inr owners))))))"

definition check_telemetry_mappings :: "testbed_config \<Rightarrow> config_error + unit" where
  "check_telemetry_mappings setup =
     map_sum id (\<lambda>_. ())
       (res_fold (\<lambda>(node_name, node). res_fold (check_telemetry node_name node) (nc_telemetry node))
          (tc_nodes setup) [])"

definition check_testbed_config :: "testbed_config \<Rightarrow> config_error + testbed_config" where
  "check_testbed_config setup =
     res_bind (res_check (tc_nodes setup \<noteq> []) (CfgEmpty ''nodes'')) (\<lambda>_.
     res_bind (check_node_names setup) (\<lambda>_.
     res_bind (check_unique_addresses [] (tc_nodes setup)) (\<lambda>_.
     res_bind (check_transport_modes setup) (\<lambda>_.
     res_bind (check_command_mappings setup) (\<lambda>_.
     res_bind (check_telemetry_mappings setup) (\<lambda>_.
       Inr setup))))))"

definition command_mappings :: "testbed_config \<Rightarrow> ((string \<times> string) \<times> command_mapping) list" where
  "command_mappings setup =
     [((node_name, command_name), command).
        (node_name, node) \<leftarrow> tc_nodes setup, (command_name, command) \<leftarrow> nc_commands node]"

definition commands_named :: "testbed_config \<Rightarrow> string \<Rightarrow> (string \<times> command_mapping) list" where
  "commands_named setup command_name =
     List.map_filter (\<lambda>(node_name, node).
        map_option (Pair node_name) (map_of (nc_commands node) command_name)) (tc_nodes setup)"

definition telemetry_signal_names :: "testbed_config \<Rightarrow> string list" where
  "telemetry_signal_names setup =
     [resolved_signal mapping node_name telemetry_name.
        (node_name, node) \<leftarrow> tc_nodes setup, (telemetry_name, mapping) \<leftarrow> nc_telemetry node]"

section \<open>Scenarios\<close>

datatype scenario_step =
    WaitStep int
  | InjectFaultStep fault_kind string py_val "int option" "int option"
  | SendCommandStep string "string option" "string option" py_val
  | AssertStep string assertion_op py_val "int option" "string option"

definition mk_wait_step :: "py_val \<Rightarrow> config_error + scenario_step" where
  "mk_wait_step virtual_time = map_sum id WaitStep (parse_virtual_duration virtual_time)"

definition mk_inject_fault_step ::
  "fault_kind \<Rightarrow> string \<Rightarrow> py_val \<Rightarrow> py_val \<Rightarrow> py_val \<Rightarrow> config_error + scenario_step" where
  "mk_inject_fault_step kind target v duration cycles =
     res_bind (cfg_path ''fault target'' target 2) (\<lambda>target.
     res_bind (parse_optional parse_virtual_duration duration) (\<lambda>duration.
     res_bind (parse_optional parse_cycle_count cycles) (\<lambda>cycles.
     res_bind (check_fault_type_target kind target duration cycles) (\<lambda>_.
       Inr (InjectFaultStep kind target v duration cycles)))))"

definition cfg_optional_identifier :: "string \<Rightarrow> string option \<Rightarrow> config_error + string option" where
  "cfg_optional_identifier kind s =
     (case s of None \<Rightarrow> Inr None | Some s \<Rightarrow> map_sum id Some (cfg_identifier kind s))"

definition mk_send_command_step ::
  "string \<Rightarrow> string option \<Rightarrow> string option \<Rightarrow> py_val \<Rightarrow> config_error + scenario_step" where
  "mk_send_command_step command source target payload =
     res_bind (cfg_identifier ''scenario command'' command) (\<lambda>command.
     res_bind (cfg_optional_identifier ''scenario command node'' source) (\<lambda>source.
     res_bind (cfg_optional_identifier ''scenario command node'' target) (\<lambda>target.
       Inr (SendCommandStep command source target payload))))"

definition mk_assert_step ::
  "string \<Rightarrow> assertion_op \<Rightarrow> py_val \<Rightarrow> py_val \<Rightarrow> string option \<Rightarrow> config_error + scenario_step" where
  "mk_assert_step signal opr v timeout name =
     res_bind (cfg_path ''assertion signal'' signal 3) (\<lambda>signal.
     res_bind (parse_optional parse_virtual_duration timeout) (\<lambda>timeout.
     res_bind (cfg_optional_identifier ''assertion name'' name) (\<lambda>name.
       Inr (AssertStep signal opr v timeout name))))"

record scenario_script =
  ss_name :: string
  ss_description :: "string option"
  ss_steps :: "scenario_step list"

definition check_scenario_script :: "scenario_script \<Rightarrow> config_error + scenario_script" where
  "check_scenario_script s =
     (if ss_name s = [] then Inl (CfgEmpty ''name'')
      else if ss_steps s = [] then Inl (CfgEmpty ''steps'')
      else Inr s)"

datatype reference_error =
    RefUnknownNode nat string
  | RefUnknownSource nat string
  | RefUnknownTarget nat string
  | RefNoCommand nat string
  | RefAmbiguous nat string "string list"
  | RefSourceNoCommand nat string string
  | RefOtherTarget nat string string string string
  | RefUnmappedSignal nat string

definition check_fault_reference :: "testbed_config \<Rightarrow> nat \<Rightarrow> string \<Rightarrow> reference_error list" where
  "check_fault_reference setup index target =
     (if path_root target \<in> set (map fst (tc_nodes setup)) then []
      else [RefUnknownNode index (path_root target)])"

definition check_command_target ::
  "nat \<Rightarrow> string \<Rightarrow> string option \<Rightarrow> string \<Rightarrow> command_mapping \<Rightarrow> reference_error list" where
  "check_command_target index command target source_node mapping =
     (case target of
        None \<Rightarrow> []
      | Some t \<Rightarrow>
          if t \<noteq> cm_target mapping
          then [RefOtherTarget index source_node command (cm_target mapping) t] else [])"

definition check_command_reference ::
  "testbed_config \<Rightarrow> nat \<Rightarrow> string \<Rightarrow> string option \<Rightarrow> string option \<Rightarrow> reference_error list" where
  "check_command_reference setup index command source target =
     (let nodes = set (map fst (tc_nodes setup)) in
      if \<exists>s \<in> set_option source. s \<notin> nodes then [RefUnknownSource index (the source)]
      else if \<exists>t \<in> set_option target. t \<notin> nodes then [RefUnknownTarget index (the target)]
      else
        (case source of
           None \<Rightarrow>
             (case commands_named setup command of
                [] \<Rightarrow> [RefNoCommand index command]
              | [(source_node, mapping)] \<Rightarrow>
                  check_command_target index command target source_node mapping
              | candidates \<Rightarrow> [RefAmbiguous index command (map fst candidates)])
         | Some source_node \<Rightarrow>
             (case Option.bind (map_of (tc_nodes setup) source_node)
                     (\<lambda>node. map_of (nc_commands node) command) of
                None \<Rightarrow> [RefSourceNoCommand index source_node command]
              | Some mapping \<Rightarrow>
                  check_command_target index command target source_node mapping)))"

definition check_step_references :: "testbed_config \<Rightarrow> nat \<Rightarrow> scenario_step \<Rightarrow> reference_error list" where
  "check_step_references setup index step =
     (case step of
        WaitStep _ \<Rightarrow> []
      | InjectFaultStep _ target _ _ _ \<Rightarrow> check_fault_reference setup index target
      | SendCommandStep command source target _ \<Rightarrow>
          check_command_reference setup index command source target
      | AssertStep signal _ _ _ _ \<Rightarrow>
          if signal \<in> set (telemetry_signal_names setup) then [] else [RefUnmappedSignal index signal])"

definition validate_scenario_references ::
  "scenario_script \<Rightarrow> testbed_config \<Rightarrow> reference_error list + unit" where
  "validate_scenario_references scenario setup =
     (let errors = concat (map (\<lambda>(i, step). check_step_references setup i step)
                             (enumerate 1 (ss_steps scenario)))
      in if errors = [] then Inr () else Inl errors)"

section \<open>Paths and durations\<close>

lemma str_contains_split: "str_contains needle s \<Longrightarrow> \<exists>a b. s = a @ needle @ b"
proof (induction s)
  case (Cons c cs)
  show ?case
  proof (cases "take (length needle) (c # cs) = needle")
    case True
    then have "c # cs = [] @ needle @ drop (length needle) (c # cs)"
      by (metis append_Nil append_take_drop_id)
    then show ?thesis by blast
  next
    case False
    then obtain a b where "cs = a @ needle @ b" using Cons by auto
    then have "c # cs = (c # a) @ needle @ b" by simp
    then show ?thesis by blast
  qed
qed simp

lemma length_str_split: "length (str_split sep s) = Suc (count_list s sep)"
  by (induction s) (auto split: list.splits)

lemma marked_path_segments:
  assumes "str_contains (CHR ''.'' # m @ ''.'') s"
  shows "3 \<le> length (str_split CHR ''.'' s)"
proof -
  obtain a b where "s = a @ (CHR ''.'' # m @ ''.'') @ b" using str_contains_split[OF assms] by blast
  then show ?thesis by (simp add: length_str_split)
qed

lemma digits_value_nonneg: "\<forall>c \<in> set ds. is_digit c \<Longrightarrow> 0 \<le> digits_value ds"
proof (induction ds rule: rev_induct)
  case Nil
  then show ?case by (simp add: digits_value_def)
next
  case (snoc d ds)
  have "48 \<le> (of_char d :: nat)" using snoc.prems by (simp add: is_digit_def Let_def)
  moreover have "int (of_char d :: nat) = (of_char d :: int)" by (rule of_nat_of_char)
  ultimately have "48 \<le> (of_char d :: int)" by linarith
  then have "0 \<le> digit_value d" by (simp add: digit_value_def)
  with snoc show ?case by (simp add: digits_value_snoc)
qed

lemma match_amount_digits:
  "match_amount uc s = Some (amount, u) \<Longrightarrow> \<forall>c \<in> set amount. is_digit c"
  by (auto simp: match_amount_def Let_def dest: set_takeWhileD split: if_splits)

lemma int_of_amount_nonneg: "int_of_amount ds = Inr n \<Longrightarrow> \<forall>c \<in> set ds. is_digit c \<Longrightarrow> 0 \<le> n"
  by (auto simp: int_of_amount_def digits_value_nonneg split: if_splits)

lemma duration_units_pos: "map_of duration_units u = Some m \<Longrightarrow> 0 < m"
  by (auto simp: duration_units_def split: if_splits)

lemma parse_virtual_duration_nonneg: "parse_virtual_duration v = Inr n \<Longrightarrow> 0 \<le> n"
proof -
  assume p: "parse_virtual_duration v = Inr n"
  show ?thesis
  proof (cases v)
    case (PStr s)
    show ?thesis
    proof (cases "match_amount (\<lambda>c. is_letter c \<or> c = micro_sign) (str_strip s)")
      case (Some au)
      obtain amount u where au: "au = (amount, u)" by (cases au)
      have ds: "\<forall>c \<in> set amount. is_digit c" using match_amount_digits Some au by blast
      show ?thesis
        using p PStr Some au int_of_amount_nonneg[OF _ ds] duration_units_pos
        by (fastforce simp: parse_virtual_duration_def Let_def res_bind_eq_Inr
            split: if_splits option.splits)
    qed (use p PStr in \<open>simp add: parse_virtual_duration_def\<close>)
  qed (use p in \<open>auto simp: parse_virtual_duration_def split: if_splits\<close>)
qed

lemma parse_cycle_count_nonneg: "parse_cycle_count v = Inr n \<Longrightarrow> 0 \<le> n"
proof -
  assume p: "parse_cycle_count v = Inr n"
  show ?thesis
  proof (cases v)
    case (PStr s)
    show ?thesis
    proof (cases "match_amount is_letter (str_strip s)")
      case (Some au)
      obtain amount u where au: "au = (amount, u)" by (cases au)
      have ds: "\<forall>c \<in> set amount. is_digit c" using match_amount_digits Some au by blast
      show ?thesis
        using p PStr Some au int_of_amount_nonneg[OF _ ds]
        by (auto simp: parse_cycle_count_def split: if_splits)
    qed (use p PStr in \<open>simp add: parse_cycle_count_def\<close>)
  qed (use p in \<open>auto simp: parse_cycle_count_def split: if_splits\<close>)
qed

lemma parse_optional_time_ok:
  assumes "parse_optional parse v = Inr d" "\<And>v n. parse v = Inr n \<Longrightarrow> 0 \<le> n"
  shows "time_ok d"
  using assms(1) by (cases v; cases "parse v") (auto simp: parse_optional_def time_ok_def dest: assms(2))

definition unit_text_ok :: "string \<Rightarrow> bool" where
  "unit_text_ok u \<longleftrightarrow> u \<noteq> [] \<and> list_all (\<lambda>c. (is_letter c \<or> c = micro_sign) \<and> \<not> is_digit c \<and> \<not> is_space c) u \<and>
     str_lower u = u"

lemma micro_sign_code [simp]: "(of_char micro_sign :: nat) = 181"
  by (simp add: micro_sign_def)

lemma duration_units_ok: "(u, m) \<in> set duration_units \<Longrightarrow> unit_text_ok u \<and> map_of duration_units u = Some m"
proof -
  assume "(u, m) \<in> set duration_units"
  moreover have "list_all (\<lambda>(u, m). unit_text_ok u) duration_units"
    by (simp add: duration_units_def unit_text_ok_def is_letter_def is_digit_def is_space_def str_lower_def
        char_lower_def Let_def)
  moreover have "distinct (map fst duration_units)"
    by (simp add: duration_units_def micro_sign_def char_of_def)
  ultimately show ?thesis by (auto simp: list_all_iff)
qed

lemma strip_ends:
  assumes "s \<noteq> []" "\<not> is_space (hd s)" "\<not> is_space (last s)"
  shows "str_strip s = s"
proof -
  have "dropWhile is_space s = s" using assms(1,2) by (cases s) auto
  moreover have "dropWhile is_space (rev s) = rev s"
    using assms(1,3) by (simp add: dropWhile_eq_self_iff hd_rev)
  ultimately show ?thesis by (simp add: str_strip_def)
qed

lemma match_amount_text:
  assumes ds: "ds \<noteq> []" "\<forall>c \<in> set ds. is_digit c" and sp: "\<forall>c \<in> set sp. is_space c"
    and u: "list_all (\<lambda>c. uc c \<and> \<not> is_digit c \<and> \<not> is_space c) u"
  shows "match_amount uc (ds @ sp @ u) = Some (ds, u)"
proof -
  have rest: "takeWhile is_digit (sp @ u) = []" "dropWhile is_digit (sp @ u) = sp @ u"
  proof -
    have "\<not> is_digit (hd (sp @ u))" if "sp @ u \<noteq> []"
      using that sp u digit_not_space by (cases sp; cases u) auto
    then show "takeWhile is_digit (sp @ u) = []" "dropWhile is_digit (sp @ u) = sp @ u"
      by (cases "sp @ u"; simp)+
  qed
  have "takeWhile is_digit (ds @ sp @ u) = ds" "dropWhile is_digit (ds @ sp @ u) = sp @ u"
    using ds(2) rest by (simp_all add: takeWhile_append2 dropWhile_append2)
  moreover have "dropWhile is_space (sp @ u) = u"
    using sp u by (cases u) (simp_all add: dropWhile_append2)
  ultimately show ?thesis using ds(1) u by (auto simp: match_amount_def Let_def list_all_iff)
qed

lemma duration_text_value:
  assumes "0 \<le> n" "length (int_str n) \<le> 4300" "(u, m) \<in> set duration_units" "\<forall>c \<in> set sp. is_space c"
  shows "parse_virtual_duration (PStr (int_str n @ sp @ u)) = Inr (n * m)"
proof -
  note u = duration_units_ok[OF assms(3), THEN conjunct1]
  have ds: "int_str n = int_digits n" "\<forall>c \<in> set (int_digits n). is_digit c"
    using assms(1) int_digits_digits by (simp_all add: int_str_def)
  let ?s = "int_str n @ sp @ u"
  have ne: "int_digits n \<noteq> []" "u \<noteq> []" using u by (simp_all add: unit_text_ok_def)
  have "is_digit (hd (int_digits n))" using ds(2) ne(1) by simp
  then have "\<not> is_space (hd ?s)" using ds(1) ne(1) digit_not_space by (simp add: hd_append)
  moreover have "\<not> is_space (last ?s)"
    using u ne(2) last_in_set[OF ne(2)] by (auto simp: unit_text_ok_def list_all_iff)
  ultimately have strip: "str_strip ?s = ?s" using ne ds(1) by (intro strip_ends) auto
  have m: "match_amount (\<lambda>c. is_letter c \<or> c = micro_sign) ?s = Some (int_digits n, u)"
    unfolding ds(1) using u ds(2) ne assms(4) by (intro match_amount_text) (auto simp: unit_text_ok_def)
  have "int_of_amount (int_digits n) = Inr n"
    using assms(1,2) ds(1) by (simp add: int_of_amount_def digits_value_int_digits)
  then show ?thesis
    using strip m u ne(2) duration_units_ok[OF assms(3)]
    by (simp add: parse_virtual_duration_def unit_text_ok_def)
qed

section \<open>Fault steps\<close>

definition fault_type_value :: "fault_kind \<Rightarrow> string" where
  "fault_type_value k = (case k of STATE_OVERRIDE \<Rightarrow> ''state_override''
     | SIGNAL_OVERRIDE \<Rightarrow> ''signal_override'' | NAMED_FAULT \<Rightarrow> ''named_fault'')"

lemma cfg_path_Inr: "cfg_path kind s n = Inr t \<longleftrightarrow> is_path s \<and> n \<le> length (str_split CHR ''.'' s) \<and> t = s"
  by (auto simp: cfg_path_def)

lemma fault_step_fields:
  assumes "mk_inject_fault_step kind target v duration cycles = Inr step"
  shows "\<exists>d c. step = InjectFaultStep kind target v d c \<and> is_path target \<and> time_ok d \<and> time_ok c \<and>
     check_fault_type_target kind target d c = Inr ()"
  using assms parse_virtual_duration_nonneg parse_cycle_count_nonneg
  by (auto simp: mk_inject_fault_step_def res_bind_eq_Inr cfg_path_Inr
      dest!: parse_optional_time_ok)

lemma fault_step_accepted:
  assumes "mk_inject_fault_step kind target v duration cycles = Inr (InjectFaultStep kind' target' v' d c)"
    and "0 \<le> now"
  shows "is_ok (apply_fault clock (fault_type_value kind') target' v' d c (Some now) fe) \<longleftrightarrow>
     (kind = NAMED_FAULT \<longrightarrow> is_ok (named_fault_value_is_active v))"
proof -
  note f = fault_step_fields[OF assms(1)]
  then have same: "kind' = kind" "target' = target" "v' = v" and p: "is_path target" "time_ok d" "time_ok c"
    and chk: "check_fault_type_target kind target d c = Inr ()" by auto
  have now: "time_ok (Some now)" using assms(2) by (simp add: time_ok_def)
  have ok: "is_ok r \<longleftrightarrow> (\<exists>x. r = Inr x)" for r :: "fault_error + bool"
    by (cases r) (simp_all add: is_ok_def)
  have seg: "str_contains ''.model.'' target \<Longrightarrow> 3 \<le> length (str_split CHR ''.'' target)"
    "str_contains ''.telemetry.'' target \<Longrightarrow> 3 \<le> length (str_split CHR ''.'' target)"
    using marked_path_segments[of "''model''" target] marked_path_segments[of "''telemetry''" target] by simp_all
  show ?thesis
    using chk p now seg unfolding same apply_fault_ok_iff
    by (cases kind) (auto simp: fault_type_value_def check_fault_type_target_def valid_state_def
        valid_signal_def valid_flag_def ok split: if_splits)
qed

section \<open>Setups\<close>

definition telemetry_entries :: "testbed_config \<Rightarrow> (string \<times> node_config \<times> string \<times> telemetry_mapping) list" where
  "telemetry_entries setup =
     concat (map (\<lambda>(n, node). map (\<lambda>e. (n, node, e)) (nc_telemetry node)) (tc_nodes setup))"

definition entry_owner :: "string \<times> node_config \<times> string \<times> telemetry_mapping \<Rightarrow> string" where
  "entry_owner e = (case e of (n, _, t, _) \<Rightarrow> n @ ''.'' @ t)"

definition entry_signal :: "string \<times> node_config \<times> string \<times> telemetry_mapping \<Rightarrow> string" where
  "entry_signal e = (case e of (n, _, t, m) \<Rightarrow> resolved_signal m n t)"

lemma res_fold_map: "res_fold f (map g xs) s = res_fold (\<lambda>x. f (g x)) xs s"
  by (induction xs arbitrary: s) (simp_all add: res_bind_def split: sum.splits)

lemma res_fold_concat: "res_fold f (concat xss) s = res_fold (\<lambda>xs. res_fold f xs) xss s"
proof (induction xss arbitrary: s)
  case (Cons xs xss)
  have "res_fold f (concat xss) = res_fold (res_fold f) xss" by (rule ext) (rule Cons)
  then show ?case by (simp add: res_fold_append)
qed simp

lemma telemetry_fold:
  "res_fold (\<lambda>(n, node). res_fold (check_telemetry n node) (nc_telemetry node)) (tc_nodes setup) owners =
   res_fold (\<lambda>(n, node, e). check_telemetry n node e) (telemetry_entries setup) owners"
  unfolding telemetry_entries_def res_fold_concat res_fold_map
  by (rule arg_cong[where f = "\<lambda>g. res_fold g (tc_nodes setup) owners"])
    (auto simp: fun_eq_iff res_fold_map)

lemma check_telemetry_Inr:
  assumes "check_telemetry n node (t, m) owners = Inr owners'"
  shows "is_identifier t \<and> is_path (resolved_signal m n t) \<and>
     3 \<le> length (str_split CHR ''.'' (resolved_signal m n t)) \<and>
     tm_offset m + tm_length m \<le> nc_max_packet_bytes node \<and>
     str_starts_with (n @ ''.telemetry.'') (resolved_signal m n t) \<and>
     (owners' = (resolved_signal m n t, n @ ''.'' @ t) # owners \<and> map_of owners (resolved_signal m n t) = None \<or>
      owners' = owners \<and> map_of owners (resolved_signal m n t) = Some (n @ ''.'' @ t))"
  using assms
  by (auto simp: check_telemetry_def Let_def res_bind_eq_Inr cfg_path_Inr cfg_identifier_def
      split: if_splits option.splits)

lemma telemetry_entries_ok:
  assumes "res_fold (\<lambda>(n, node, e). check_telemetry n node e) es owners = Inr owners'"
    and "distinct (map entry_owner es)" "snd ` set owners \<inter> entry_owner ` set es = {}"
  shows "distinct (map entry_signal es) \<and> fst ` set owners \<inter> entry_signal ` set es = {} \<and>
     (\<forall>(n, node, t, m) \<in> set es. is_identifier t \<and> is_path (resolved_signal m n t) \<and>
        tm_offset m + tm_length m \<le> nc_max_packet_bytes node \<and>
        str_starts_with (n @ ''.telemetry.'') (resolved_signal m n t))"
  using assms
proof (induction es arbitrary: owners)
  case (Cons e es)
  obtain n node t m where e: "e = (n, node, t, m)" by (cases e)
  obtain owners1 where c: "check_telemetry n node (t, m) owners = Inr owners1"
    and rest: "res_fold (\<lambda>(n, node, e). check_telemetry n node e) es owners1 = Inr owners'"
    using Cons.prems(1) by (auto simp: e res_bind_eq_Inr)
  note chk = check_telemetry_Inr[OF c]
  have own: "entry_owner e = n @ ''.'' @ t" and sig: "entry_signal e = resolved_signal m n t"
    by (simp_all add: e entry_owner_def entry_signal_def)
  have "map_of owners (resolved_signal m n t) \<noteq> Some (n @ ''.'' @ t)"
    using Cons.prems(3) own by (auto dest!: map_of_SomeD simp del: append.simps)
      (metis IntI empty_iff image_eqI insertI1 snd_conv)
  then have o1: "owners1 = (entry_signal e, entry_owner e) # owners" and new: "map_of owners (entry_signal e) = None"
    using chk own sig by auto
  have disj: "snd ` set owners1 \<inter> entry_owner ` set es = {}"
    using Cons.prems(2,3) by (auto simp: o1)
  have d: "distinct (map entry_owner es)" using Cons.prems(2) by simp
  note ih = Cons.IH[OF rest d disj]
  have "entry_signal e \<notin> fst ` set owners" using new by (simp add: map_of_eq_None_iff)
  then show ?case using ih chk by (auto simp: o1 e sig[unfolded e])
qed simp

lemma unique_addresses_ok:
  assumes "check_unique_addresses owners nodes = Inr ()" "distinct (map fst nodes)"
    and "snd ` set owners \<inter> fst ` set nodes = {}"
  shows "distinct (map (nc_address \<circ> snd) nodes) \<and>
     fst ` set owners \<inter> (nc_address \<circ> snd) ` set nodes = {}"
  using assms
proof (induction nodes arbitrary: owners)
  case (Cons p nodes)
  obtain name node where p: "p = (name, node)" by (cases p)
  have "map_of owners (nc_address node) \<noteq> Some previous" for previous
  proof
    assume m: "map_of owners (nc_address node) = Some previous"
    then have "previous \<in> snd ` set owners" by (force dest: map_of_SomeD)
    then have "previous \<noteq> name" using Cons.prems(3) p by auto
    then show False using Cons.prems(1) m p by simp
  qed
  then have new: "map_of owners (nc_address node) = None" by (cases "map_of owners (nc_address node)") auto
  then have rest: "check_unique_addresses ((nc_address node, name) # owners) nodes = Inr ()"
    using Cons.prems(1) p by simp
  have "nc_address node \<notin> fst ` set owners" using new by (simp add: map_of_eq_None_iff)
  then show ?case using Cons.IH[OF rest] Cons.prems(2,3) p by auto
qed simp

lemma identifier_no_dot: "is_identifier n \<Longrightarrow> CHR ''.'' \<notin> set n"
proof -
  have "\<not> ident_char CHR ''.''" "\<not> is_letter CHR ''.''"
    by (simp_all add: ident_char_def is_letter_def is_digit_def Let_def)
  then show "is_identifier n \<Longrightarrow> CHR ''.'' \<notin> set n"
    by (auto simp: is_identifier_def list_all_iff split: list.splits)
qed

lemma owner_of_key: "CHR ''.'' \<notin> set n \<Longrightarrow> owner_of (n @ ''.'' @ t) = n"
  by (induction n) (auto simp: owner_of_def)

lemma distinct_entry_owners:
  assumes "distinct (map fst nodes)" "\<forall>(n, node) \<in> set nodes. is_identifier n \<and> distinct (map fst (nc_telemetry node))"
  shows "distinct (map entry_owner (concat (map (\<lambda>(n, node). map (\<lambda>e. (n, node, e)) (nc_telemetry node)) nodes)))"
  using assms
proof (induction nodes)
  case (Cons p nodes)
  obtain n node where p: "p = (n, node)" by (cases p)
  have n: "CHR ''.'' \<notin> set n" using Cons.prems(2) p identifier_no_dot by auto
  have own: "owner_of (entry_owner e) = fst e" if "e \<in> set (concat (map (\<lambda>(n, node). map (\<lambda>e. (n, node, e)) (nc_telemetry node)) nodes))" for e
    using that Cons.prems(2) identifier_no_dot owner_of_key by (fastforce simp: entry_owner_def)
  have "distinct (map (\<lambda>e. n @ ''.'' @ fst e) (nc_telemetry node))"
    using Cons.prems(2) p by (simp add: distinct_map inj_on_def)
  then have first: "distinct (map entry_owner (map (\<lambda>e. (n, node, e)) (nc_telemetry node)))"
    by (simp add: comp_def entry_owner_def case_prod_beta)
  have new: "n \<notin> fst ` set nodes" using Cons.prems(1) p by simp
  have "entry_owner (n, node, e) \<noteq> entry_owner e'"
    if e': "e' \<in> set (concat (map (\<lambda>(n, node). map (\<lambda>e. (n, node, e)) (nc_telemetry node)) nodes))" for e e'
  proof
    assume "entry_owner (n, node, e) = entry_owner e'"
    then have "n = fst e'"
      using own[OF e'] owner_of_key[OF n, of "fst e"]
      by (simp add: entry_owner_def[of "(n, node, e)"] case_prod_unfold)
    moreover have "fst e' \<in> fst ` set nodes" using e' by force
    ultimately show False using new by simp
  qed
  then have "entry_owner ` set (map (\<lambda>e. (n, node, e)) (nc_telemetry node)) \<inter>
      entry_owner ` set (concat (map (\<lambda>(n, node). map (\<lambda>e. (n, node, e)) (nc_telemetry node)) nodes)) = {}"
    unfolding set_map by blast
  moreover have "distinct (map entry_owner (concat (map (\<lambda>(n, node). map (\<lambda>e. (n, node, e)) (nc_telemetry node)) nodes)))"
    using Cons by simp
  ultimately show ?case
    unfolding p list.map prod.case concat.simps map_append distinct_append using first by (metis set_map)
qed simp

lemma res_mapM_Inr_all: "res_mapM f xs = Inr ys \<Longrightarrow> x \<in> set xs \<Longrightarrow> \<exists>y. f x = Inr y"
  by (induction xs arbitrary: ys) (auto simp: res_bind_eq_Inr)

lemma map_sum_unit_Inr: "map_sum id (\<lambda>_. ()) r = Inr u \<longleftrightarrow> (\<exists>y. r = Inr y)"
  by (cases r) auto

lemma testbed_checks:
  assumes "check_testbed_config setup = Inr setup'"
  shows "setup' = setup \<and> check_node_names setup = Inr () \<and>
     check_unique_addresses [] (tc_nodes setup) = Inr () \<and> check_transport_modes setup = Inr () \<and>
     check_command_mappings setup = Inr () \<and> check_telemetry_mappings setup = Inr ()"
  using assms by (auto simp: check_testbed_config_def res_bind_eq_Inr)

lemma testbed_consistent:
  assumes "check_testbed_config setup = Inr setup'" "distinct (map fst (tc_nodes setup))"
    and "\<forall>(n, node) \<in> set (tc_nodes setup). distinct (map fst (nc_telemetry node))"
  shows "distinct (map (nc_address \<circ> snd) (tc_nodes setup)) \<and> distinct (telemetry_signal_names setup) \<and>
     (\<forall>(n, node) \<in> set (tc_nodes setup). is_identifier n \<and>
        (tc_transport setup = InMemoryTransport \<longrightarrow> nc_mode node \<noteq> MODE_HARDWARE) \<and>
        (\<forall>(t, m) \<in> set (nc_telemetry node).
           is_path (resolved_signal m n t) \<and> str_starts_with (n @ ''.telemetry.'') (resolved_signal m n t) \<and>
           tm_offset m + tm_length m \<le> nc_max_packet_bytes node))"
proof -
  note chk = testbed_checks[OF assms(1)]
  have names: "is_identifier n" if "(n, node) \<in> set (tc_nodes setup)" for n node
  proof -
    have "\<exists>ys. res_mapM (\<lambda>(name, _). cfg_identifier ''node name'' name) (tc_nodes setup) = Inr ys"
      using chk by (simp add: check_node_names_def map_sum_unit_Inr)
    then show ?thesis
      using that by (auto dest!: res_mapM_Inr_all simp: cfg_identifier_def split: if_splits)
  qed
  have addr: "distinct (map (nc_address \<circ> snd) (tc_nodes setup))"
    using unique_addresses_ok[of "[]" "tc_nodes setup"] chk assms(2) by simp
  obtain owners where fold: "res_fold (\<lambda>(n, node, e). check_telemetry n node e) (telemetry_entries setup) [] = Inr owners"
    using chk by (auto simp: check_telemetry_mappings_def map_sum_unit_Inr telemetry_fold)
  have own: "distinct (map entry_owner (telemetry_entries setup))"
    unfolding telemetry_entries_def using names assms(2,3) by (intro distinct_entry_owners) auto
  have disj: "snd ` set ([] :: (string \<times> string) list) \<inter> entry_owner ` set (telemetry_entries setup) = {}" by simp
  note tel = telemetry_entries_ok[OF fold own disj]
  note tel_ok = conjunct2[OF conjunct2[OF tel]]
  have sig: "telemetry_signal_names setup = map entry_signal (telemetry_entries setup)"
    by (simp add: telemetry_signal_names_def telemetry_entries_def map_concat entry_signal_def comp_def
        case_prod_unfold)
  have hw: "nc_mode node \<noteq> MODE_HARDWARE"
    if "(n, node) \<in> set (tc_nodes setup)" "tc_transport setup = InMemoryTransport" for n node
    using chk that by (auto simp: check_transport_modes_def filter_empty_conv split: list.splits)
  have own_signals: "is_path (resolved_signal m n t) \<and> str_starts_with (n @ ''.telemetry.'') (resolved_signal m n t) \<and>
      tm_offset m + tm_length m \<le> nc_max_packet_bytes node"
    if "(n, node) \<in> set (tc_nodes setup)" "(t, m) \<in> set (nc_telemetry node)" for n node t m
  proof -
    have "(n, node, t, m) \<in> set (telemetry_entries setup)" 
      using that unfolding telemetry_entries_def set_concat set_map
      by (intro UN_I[of "(\<lambda>(n, node). map (\<lambda>e. (n, node, e)) (nc_telemetry node)) (n, node)"]) auto
    then show ?thesis using tel_ok by (auto dest: bspec)
  qed
  have "distinct (telemetry_signal_names setup)" using tel sig by simp
  moreover have "is_identifier n \<and> (tc_transport setup = InMemoryTransport \<longrightarrow> nc_mode node \<noteq> MODE_HARDWARE) \<and>
      (\<forall>(t, m) \<in> set (nc_telemetry node). is_path (resolved_signal m n t) \<and> str_starts_with (n @ ''.telemetry.'') (resolved_signal m n t) \<and>
         tm_offset m + tm_length m \<le> nc_max_packet_bytes node)" if "(n, node) \<in> set (tc_nodes setup)" for n node
    using names[OF that] hw[OF that] own_signals[OF that] by fast
  ultimately show ?thesis using addr by fast
qed

lemma command_encodes:
  assumes "check_testbed_config setup = Inr setup'"
    and "\<forall>(n, node) \<in> set (tc_nodes setup). check_node_config registry node = Inr node"
    and "(n, node) \<in> set (tc_nodes setup)" "(c, cm) \<in> set (nc_commands node)"
    and "mk_command_mapping tgt dp sp pr fl pay = Inr cm"
  shows "\<exists>target f sender. map_of (tc_nodes setup) (cm_target cm) = Some target \<and>
     mk_csp_fields (cm_priority cm) (nc_address node) (nc_address target) (cm_destination_port cm)
       (cm_source_port cm) (cm_flags cm) = Inr f \<and>
     mk_can_sender (nc_max_packet_bytes node) = Inr sender \<and>
     (is_ok (sender_frames sender f (cm_payload_hex cm)) \<longleftrightarrow> cm_flags cm AND CSP_FLAG_FRAGMENT = 0)"
proof -
  have "\<exists>ys. res_mapM (\<lambda>(node_name, node). res_mapM (check_command setup node_name node) (nc_commands node))
      (tc_nodes setup) = Inr ys"
    using testbed_checks[OF assms(1)] by (simp add: check_command_mappings_def map_sum_unit_Inr)
  then obtain ys where "res_mapM (check_command setup n node) (nc_commands node) = Inr ys"
    using res_mapM_Inr_all[OF _ assms(3)] by fastforce
  then have "\<exists>u. check_command setup n node (c, cm) = Inr u" using assms(4) by (auto dest: res_mapM_Inr_all)
  then obtain target where t: "map_of (tc_nodes setup) (cm_target cm) = Some target"
    and len: "int (length (cm_payload_hex cm)) \<le> nc_max_packet_bytes node"
    by (auto simp: check_command_def res_bind_eq_Inr)
  have "check_node_config registry target = Inr target" "check_node_config registry node = Inr node"
    using assms(2,3) map_of_SomeD[OF t] by auto
  then have addr: "0 \<le> nc_address target" "nc_address target \<le> CSP_V2_ADDRESS_MAX"
    "0 \<le> nc_address node" "nc_address node \<le> CSP_V2_ADDRESS_MAX" and m: "1 \<le> nc_max_packet_bytes node"
    by (auto simp: check_node_config_def res_bind_eq_Inr cfg_range_def split: if_splits)
  have cm: "0 \<le> cm_destination_port cm" "cm_destination_port cm \<le> CSP_V2_PORT_MAX"
    "0 \<le> cm_source_port cm" "cm_source_port cm \<le> CSP_V2_PORT_MAX"
    "0 \<le> cm_priority cm" "cm_priority cm \<le> CSP_V2_PRIORITY_MAX"
    "0 \<le> cm_flags cm" "cm_flags cm \<le> CSP_V2_FLAGS_MAX"
    using assms(5) by (auto simp: mk_command_mapping_def res_bind_eq_Inr cfg_range_def split: if_splits)
  define f where "f = \<lparr>cf_priority = cm_priority cm, cf_source = nc_address node,
      cf_destination = nc_address target, cf_destination_port = cm_destination_port cm,
      cf_source_port = cm_source_port cm, cf_flags = cm_flags cm\<rparr>"
  have wf: "wf_csp_fields f" using addr cm by (simp add: wf_csp_fields_def f_def)
  have fields: "mk_csp_fields (cm_priority cm) (nc_address node) (nc_address target) (cm_destination_port cm)
       (cm_source_port cm) (cm_flags cm) = Inr f"
    using wf by (simp add: mk_csp_fields_eq_Inr f_def)
  let ?fg = "\<lparr>fg_max_packet_bytes = nc_max_packet_bytes node, fg_packet_counts = []\<rparr>"
  have sender: "mk_can_sender (nc_max_packet_bytes node) = Inr (CanPacketSender ?fg)"
    using m by (simp add: mk_can_sender_def mk_fragmenter_def validate_max_packet_bytes_def)
  let ?s = "sender_or_default f None"
  have s: "valid_sender (Some ?s)" using sender_default_range[of f] by (simp add: valid_sender_def sender_or_default_def)
  have "is_ok (sender_frames (CanPacketSender ?fg) f (cm_payload_hex cm)) \<longleftrightarrow>
      is_ok (fragment_packet f (cm_payload_hex cm) (Some ?s) 0)"
    using len by (cases "fragment_packet f (cm_payload_hex cm) (Some ?s) 0")
      (simp_all add: sender_frames_def fragmenter_fragment_def Let_def is_ok_def)
  also have "\<dots> \<longleftrightarrow> cf_flags f AND CSP_FLAG_FRAGMENT = 0"
  proof (cases "cf_flags f AND CSP_FLAG_FRAGMENT = 0")
    case True
    then show ?thesis using fragment_packet_eq[OF wf True s, of 0] by (simp add: is_ok_def)
  next
    case False
    then show ?thesis by (simp add: fragment_packet_def validate_csp_fields_def is_ok_def)
  qed
  finally show ?thesis using t fields sender by (auto simp: f_def)
qed

section \<open>Properties\<close>

definition demo_command :: command_mapping where
  "demo_command = \<lparr>cm_target = ''eps'', cm_destination_port = 10, cm_source_port = 20, cm_priority = 2,
     cm_flags = 0, cm_payload_hex = [1, 2]\<rparr>"

definition demo_mapping :: telemetry_mapping where
  "demo_mapping = \<lparr>tm_source_port = 1, tm_destination_port = 2, tm_priority = 2, tm_flags = 0, tm_signal = None,
     tm_units = None, tm_min = None, tm_max = None, tm_offset = 0, tm_length = 2, tm_type = SIG_UINT,
     tm_endian = SIG_LITTLE, tm_scale = FL_ONE, tm_offset_value = FL_ZERO, tm_enum = None\<rparr>"

definition demo_obc :: node_config where
  "demo_obc = \<lparr>nc_mode = MODE_SOFTWARE, nc_address = 1, nc_max_packet_bytes = 64, nc_module_type = None,
     nc_commands = [(''reset'', demo_command)], nc_telemetry = [], nc_rules = [], nc_params = []\<rparr>"

definition demo_eps :: node_config where
  "demo_eps = \<lparr>nc_mode = MODE_SOFTWARE, nc_address = 2, nc_max_packet_bytes = 64, nc_module_type = None,
     nc_commands = [], nc_telemetry = [(''soc'', demo_mapping)], nc_rules = [], nc_params = []\<rparr>"

definition demo_setup :: testbed_config where
  "demo_setup = \<lparr>tc_transport = InMemoryTransport, tc_nodes = [(''obc'', demo_obc), (''eps'', demo_eps)]\<rparr>"

text \<open>
  The durations of setups and scenarios: a non-negative number written in decimal, optional
  whitespace, and any of the declared unit names is read as that many units in microseconds (up to
  the 4300 digits CPython converts).
\<close>

theorem duration_text_roundtrip:
  assumes "0 \<le> n" "length (int_str n) \<le> 4300" "(u, m) \<in> set duration_units" "\<forall>c \<in> set sp. is_space c"
  shows "parse_virtual_duration (PStr (int_str n @ sp @ u)) = Inr (n * m)"
  using assms by (rule duration_text_value)

lemma duration_text_roundtrip_witness:
  "parse_virtual_duration (PStr ''250 ms'') = Inr 250000"
  using duration_text_roundtrip[of 250 "''ms''" 1000 "'' ''"]
  by (simp add: duration_units_def int_str_def int_digits.simps is_space_def char_of_def)

text \<open>
  C31: A fault step that the scenario parser accepts is accepted by the fault engine at run time, at any
  virtual time, with one exception: a named fault whose value the parser did not look at. So every
  check of target, timing and kind agrees between the two components.
\<close>

theorem validated_fault_step_applies:
  assumes "mk_inject_fault_step kind target v duration cycles = Inr (InjectFaultStep kind' target' v' d c)"
    and "0 \<le> now"
  shows "is_ok (apply_fault clock (fault_type_value kind') target' v' d c (Some now) fe) \<longleftrightarrow>
     (kind = NAMED_FAULT \<longrightarrow> is_ok (named_fault_value_is_active v))"
  using assms by (rule fault_step_accepted)

lemma validated_fault_step_applies_witness:
  "is_ok (apply_fault 0 ''state_override'' ''eps.model.soc'' (PInt 3) (Some 2000000) None (Some 5) new_fault_engine)"
  using validated_fault_step_applies[of STATE_OVERRIDE "''eps.model.soc''" "PInt 3" "PStr ''2s''" PNone
      STATE_OVERRIDE "''eps.model.soc''" "PInt 3" "Some 2000000" None 5 0 new_fault_engine]
  by (simp add: fault_type_value_def) code_simp

text \<open>
  C32: In an accepted setup the node addresses are pairwise different, no two telemetry mappings feed the
  same signal, every mapping feeds a signal of its own node from a region inside the node's packet
  limit, and no hardware node is attached to the in-memory transport. The tables of the setup come
  from TOML, so their keys are distinct.
\<close>

theorem testbed_setup_consistent:
  assumes "check_testbed_config setup = Inr setup'" "distinct (map fst (tc_nodes setup))"
    and "\<forall>(n, node) \<in> set (tc_nodes setup). distinct (map fst (nc_telemetry node))"
  shows "distinct (map (nc_address \<circ> snd) (tc_nodes setup)) \<and> distinct (telemetry_signal_names setup) \<and>
     (\<forall>(n, node) \<in> set (tc_nodes setup). is_identifier n \<and>
        (tc_transport setup = InMemoryTransport \<longrightarrow> nc_mode node \<noteq> MODE_HARDWARE) \<and>
        (\<forall>(t, m) \<in> set (nc_telemetry node).
           str_starts_with (n @ ''.telemetry.'') (resolved_signal m n t) \<and>
           tm_offset m + tm_length m \<le> nc_max_packet_bytes node))"
  using testbed_consistent[OF assms] by fast

lemma demo_setup_accepted: "check_testbed_config demo_setup = Inr demo_setup"
  by code_simp

lemma testbed_setup_consistent_witness:
  "distinct (telemetry_signal_names demo_setup) \<and> distinct (map (nc_address \<circ> snd) (tc_nodes demo_setup))"
  using testbed_setup_consistent[OF demo_setup_accepted]
  by (simp add: demo_setup_def demo_obc_def demo_eps_def)

text \<open>
  C33: A command of an accepted setup can be put on the bus: its target resolves, its CSP fields are
  valid, and the CAN sender of its node encodes it, except that the configuration accepts flags with
  the fragmentation bit, which the encoder always refuses.
\<close>

theorem accepted_command_encodes:
  assumes "check_testbed_config setup = Inr setup'"
    and "\<forall>(n, node) \<in> set (tc_nodes setup). check_node_config registry node = Inr node"
    and "(n, node) \<in> set (tc_nodes setup)" "(c, cm) \<in> set (nc_commands node)"
    and "mk_command_mapping tgt dp sp pr fl pay = Inr cm"
  shows "\<exists>target f sender. map_of (tc_nodes setup) (cm_target cm) = Some target \<and>
     mk_csp_fields (cm_priority cm) (nc_address node) (nc_address target) (cm_destination_port cm)
       (cm_source_port cm) (cm_flags cm) = Inr f \<and>
     mk_can_sender (nc_max_packet_bytes node) = Inr sender \<and>
     (is_ok (sender_frames sender f (cm_payload_hex cm)) \<longleftrightarrow> cm_flags cm AND CSP_FLAG_FRAGMENT = 0)"
  using assms by (rule command_encodes)

lemma accepted_command_encodes_witness:
  "\<exists>target f sender. map_of (tc_nodes demo_setup) ''eps'' = Some target \<and>
     mk_csp_fields 2 1 (nc_address target) 10 20 0 = Inr f \<and> mk_can_sender 64 = Inr sender \<and>
     is_ok (sender_frames sender f [1, 2])"
proof -
  have nodes: "\<forall>(n, node) \<in> set (tc_nodes demo_setup). check_node_config (\<lambda>_. None) node = Inr node"
    by code_simp
  have cm: "mk_command_mapping ''eps'' 10 20 2 0 (PStr ''0102'') = Inr demo_command" by code_simp
  show ?thesis
    using accepted_command_encodes[OF demo_setup_accepted nodes _ _ cm, of "''obc''" demo_obc "''reset''"]
    by (simp add: demo_setup_def demo_obc_def demo_command_def)
qed

end
