(* ===== verification/ModuleBase.thy ===== *)
theory ModuleBase
  imports FaultInjection
begin

text \<open>
  The base contract of simulated modules (\<^verbatim>\<open>modules/base.py\<close>): the checks every module applies to
  numbers, names and endpoints, the paths of its values, the lookup of overrides in the fault engine
  and the scheduling of telemetry samples. A module holds a reference to the fault engine of its
  runtime or to none; the model keeps whether it holds one and passes the engine's state. Arguments
  typed \<^verbatim>\<open>str\<close> in the source are strings here.
\<close>

section \<open>Checked values\<close>

datatype module_error =
    ModIdentifier string string
  | ModEmptyEndpoint string
  | ModNegativeEndpoint string
  | ModNotBool string
  | ModNotNonNegativeInt string
  | ModNegative string
  | ModNotPositive string
  | ModNotNumber string
  | ModNotFinite string
  | ModOutOfRange string
  | ModFault fault_error
  | ModUnsupportedCommand string
  | ModCommandPayload string
  | ModTelemetryField string
  | ModParameter string
  | ModConfig string
  | ModUncaught py_exn

definition mod_identifier :: "string \<Rightarrow> string \<Rightarrow> module_error + string" where
  "mod_identifier kind s = (if is_identifier s then Inr s else Inl (ModIdentifier kind s))"

definition mod_endpoint :: "string \<Rightarrow> endpoint_id \<Rightarrow> module_error + endpoint_id" where
  "mod_endpoint kind ep =
     (case ep of
        EpName s \<Rightarrow> if s = [] then Inl (ModEmptyEndpoint kind) else Inr ep
      | EpNumber n \<Rightarrow> if n < 0 then Inl (ModNegativeEndpoint kind) else Inr ep)"

definition mod_optional_endpoint :: "string \<Rightarrow> endpoint_id option \<Rightarrow> module_error + endpoint_id option" where
  "mod_optional_endpoint kind ep =
     (case ep of None \<Rightarrow> Inr None | Some ep \<Rightarrow> map_sum id Some (mod_endpoint kind ep))"

definition coerce_bool :: "string \<Rightarrow> py_val \<Rightarrow> module_error + bool" where
  "coerce_bool kind v = (case v of PBool b \<Rightarrow> Inr b | _ \<Rightarrow> Inl (ModNotBool kind))"

definition coerce_non_negative_int :: "string \<Rightarrow> py_val \<Rightarrow> module_error + int" where
  "coerce_non_negative_int kind v =
     (case v of
        PInt n \<Rightarrow> if n < 0 then Inl (ModNegative kind) else Inr n
      | _ \<Rightarrow> Inl (ModNotNonNegativeInt kind))"

definition coerce_positive_int :: "string \<Rightarrow> py_val \<Rightarrow> module_error + int" where
  "coerce_positive_int kind v =
     res_bind (coerce_non_negative_int kind v) (\<lambda>n.
       if n = 0 then Inl (ModNotPositive kind) else Inr n)"

definition coerce_finite_float :: "string \<Rightarrow> py_val \<Rightarrow> module_error + pyfloat" where
  "coerce_finite_float kind v =
     (if \<not> is_real_number v then Inl (ModNotNumber kind)
      else case py_float v of
             Inl e \<Rightarrow> Inl (ModUncaught e)
           | Inr x \<Rightarrow> if fl_is_finite x then Inr x else Inl (ModNotFinite kind))"

definition coerce_non_negative_float :: "string \<Rightarrow> py_val \<Rightarrow> module_error + pyfloat" where
  "coerce_non_negative_float kind v =
     res_bind (coerce_finite_float kind v) (\<lambda>x.
       if fl_less x FL_ZERO then Inl (ModNegative kind) else Inr x)"

definition coerce_positive_float :: "string \<Rightarrow> py_val \<Rightarrow> module_error + pyfloat" where
  "coerce_positive_float kind v =
     res_bind (coerce_non_negative_float kind v) (\<lambda>x.
       if fl_eq x FL_ZERO then Inl (ModNotPositive kind) else Inr x)"

definition coerce_unit_interval :: "string \<Rightarrow> py_val \<Rightarrow> module_error + pyfloat" where
  "coerce_unit_interval kind v =
     res_bind (coerce_finite_float kind v) (\<lambda>x.
       if \<not> (fl_less FL_ZERO x \<and> fl_le x FL_ONE) then Inl (ModOutOfRange kind) else Inr x)"

definition coerce_percentage :: "string \<Rightarrow> py_val \<Rightarrow> module_error + pyfloat" where
  "coerce_percentage kind v =
     res_bind (coerce_finite_float kind v) (\<lambda>x.
       if \<not> (fl_le FL_ZERO x \<and> fl_le x (fl_lit 100)) then Inl (ModOutOfRange kind) else Inr x)"

definition clamp :: "pyfloat \<Rightarrow> pyfloat \<Rightarrow> pyfloat \<Rightarrow> pyfloat" where
  "clamp v lower upper = fl_max lower (fl_min upper v)"

section \<open>Modules\<close>

record sim_module =
  sm_name :: string
  sm_endpoint :: "endpoint_id option"
  sm_has_fault_engine :: bool

definition mk_sim_module :: "string \<Rightarrow> endpoint_id option \<Rightarrow> bool \<Rightarrow> module_error + sim_module" where
  "mk_sim_module name ep has_fault_engine =
     res_bind (mod_identifier ''module name'' name) (\<lambda>name.
     res_bind (mod_optional_endpoint ''module endpoint'' ep) (\<lambda>ep.
       Inr \<lparr>sm_name = name, sm_endpoint = ep, sm_has_fault_engine = has_fault_engine\<rparr>))"

definition default_source :: "sim_module \<Rightarrow> endpoint_id" where
  "default_source m = (case sm_endpoint m of Some ep \<Rightarrow> ep | None \<Rightarrow> EpName (sm_name m))"

definition model_path :: "sim_module \<Rightarrow> string \<Rightarrow> module_error + string" where
  "model_path m field =
     res_bind (mod_identifier ''model field'' field) (\<lambda>f. Inr (sm_name m @ ''.model.'' @ f))"

definition telemetry_path :: "sim_module \<Rightarrow> string \<Rightarrow> module_error + string" where
  "telemetry_path m field =
     res_bind (mod_identifier ''telemetry field'' field) (\<lambda>f. Inr (sm_name m @ ''.telemetry.'' @ f))"

record command_request =
  cr_command :: string
  cr_payload :: py_val
  cr_source :: "endpoint_id option"
  cr_target :: "endpoint_id option"

definition command_targets_module :: "sim_module \<Rightarrow> command_request \<Rightarrow> bool" where
  "command_targets_module m r =
     (case cr_target r of
        None \<Rightarrow> True
      | Some t \<Rightarrow> t = EpName (sm_name m) \<or> Some t = sm_endpoint m)"

definition normalize_payload :: "command_payload \<Rightarrow> command_request" where
  "normalize_payload p = \<lparr>cr_command = cmd_command p, cr_payload = cmd_payload p,
     cr_source = cmd_source p, cr_target = cmd_target p\<rparr>"

definition normalize_command ::
  "string \<Rightarrow> py_val \<Rightarrow> endpoint_id option \<Rightarrow> endpoint_id option \<Rightarrow> module_error + command_request" where
  "normalize_command command payload source target =
     res_bind (mod_identifier ''command'' command) (\<lambda>command.
     res_bind (mod_optional_endpoint ''command source'' source) (\<lambda>source.
     res_bind (mod_optional_endpoint ''command target'' target) (\<lambda>target.
       Inr \<lparr>cr_command = command, cr_payload = payload, cr_source = source, cr_target = target\<rparr>)))"

definition resolve_model_value ::
  "int \<Rightarrow> sim_module \<Rightarrow> string \<Rightarrow> py_val \<Rightarrow> int option \<Rightarrow> fault_engine
    \<Rightarrow> module_error + py_val \<times> fault_engine" where
  "resolve_model_value clock m field current_value now fe =
     (if \<not> sm_has_fault_engine m then Inr (current_value, fe)
      else res_bind (model_path m field) (\<lambda>path.
             map_sum ModFault id (resolve_state_value clock path current_value now fe)))"

definition resolve_telemetry_value ::
  "int \<Rightarrow> sim_module \<Rightarrow> string \<Rightarrow> py_val \<Rightarrow> int option \<Rightarrow> fault_engine
    \<Rightarrow> module_error + py_val \<times> fault_engine" where
  "resolve_telemetry_value clock m field current_value now fe =
     (if \<not> sm_has_fault_engine m then Inr (current_value, fe)
      else res_bind (telemetry_path m field) (\<lambda>path.
             map_sum ModFault id (resolve_signal_value clock path current_value now fe)))"

record telemetry_sample =
  ts_signal :: string
  ts_value :: py_val
  ts_source :: "endpoint_id option"

definition make_telemetry_sample ::
  "sim_module \<Rightarrow> string \<Rightarrow> py_val \<Rightarrow> endpoint_id option \<Rightarrow> module_error + telemetry_sample" where
  "make_telemetry_sample m field v source =
     res_bind (telemetry_path m field) (\<lambda>path.
       Inr \<lparr>ts_signal = path, ts_value = v,
            ts_source = (case source of None \<Rightarrow> Some (default_source m) | Some s \<Rightarrow> Some s)\<rparr>)"

definition schedule_telemetry_sample ::
  "sim_module \<Rightarrow> string \<Rightarrow> py_val \<Rightarrow> int \<Rightarrow> endpoint_id option \<Rightarrow> 'h engine
    \<Rightarrow> ((module_error + engine_error) + telemetry_sample) \<times> 'h engine" where
  "schedule_telemetry_sample m field v delay source e =
     (case make_telemetry_sample m field v source of
        Inl err \<Rightarrow> (Inl (Inl err), e)
      | Inr sample \<Rightarrow>
          (case schedule_telemetry (ts_signal sample) (ts_value sample) delay (ts_source sample) None e of
             (Inl err, e1) \<Rightarrow> (Inl (Inr err), e1)
           | (Inr _, e1) \<Rightarrow> (Inr sample, e1)))"

section \<open>What the checks establish\<close>

lemma coerce_finite_float_Inr: "coerce_finite_float kind v = Inr x \<Longrightarrow> fl_is_finite x"
  by (auto simp: coerce_finite_float_def split: if_splits sum.splits)

lemma coerce_non_negative_int_Inr: "coerce_non_negative_int kind v = Inr n \<longleftrightarrow> v = PInt n \<and> 0 \<le> n"
  by (cases v) (auto simp: coerce_non_negative_int_def)

end
