(* ===== verification/ObcPeer.thy ===== *)
theory ObcPeer
  imports ModuleBase Config
begin

text \<open>
  The OBC peer (\<^verbatim>\<open>modules/obc_peer.py\<close>): threshold rules over decoded telemetry with a holding time and
  a cooldown, whose actions send named CSP commands through the transport and call the fault engine.
  The objects the module holds references to, the transport and the fault engine, are threaded through
  its operations next to its own state; the transport is any adapter, given by its two operations. A
  Python exception leaves the effects made before it, so operations return the state in both cases.
\<close>

section \<open>Rules\<close>

datatype peer_error =
    PeerModule module_error
  | PeerOperator string
  | PeerPath string string
  | PeerSegments string nat
  | PeerFaultKind string
  | PeerModelTarget
  | PeerTelemetryTarget
  | PeerFlagTarget
  | PeerFlagTiming
  | PeerNoActions
  | PeerDuplicateRule string
  | PeerCspFields csp_error
  | PeerCannotEncode csp_error
  | PeerNoTransport
  | PeerUnknownCommand string
  | PeerNoFaultEngine
  | PeerUnknownRule string
  | PeerNotTelemetry event_kind
  | PeerNoPayload
  | PeerUnknownNode string
  | PeerUnknownTarget string string string
  | PeerFault fault_error
  | PeerTransport transport_error
  | PeerSender csp_error
  | PeerNoFrames

definition threshold_op_value :: "threshold_op \<Rightarrow> string" where
  "threshold_op_value opr =
     (case opr of TH_LT \<Rightarrow> ''<'' | TH_LTE \<Rightarrow> ''<='' | TH_GT \<Rightarrow> ''>'' | TH_GTE \<Rightarrow> ''>='')"

definition coerce_threshold_op :: "string \<Rightarrow> peer_error + threshold_op" where
  "coerce_threshold_op s =
     (case find (\<lambda>opr. threshold_op_value opr = s) [TH_LT, TH_LTE, TH_GT, TH_GTE] of
        Some opr \<Rightarrow> Inr opr
      | None \<Rightarrow> Inl (PeerOperator s))"

definition peer_path :: "string \<Rightarrow> string \<Rightarrow> nat \<Rightarrow> peer_error + string" where
  "peer_path kind s min_segments =
     (if \<not> is_path s then Inl (PeerPath kind s)
      else if length (str_split CHR ''.'' s) < min_segments then Inl (PeerSegments kind min_segments)
      else Inr s)"

record peer_condition =
  pc_signal :: string
  pc_op :: threshold_op
  pc_threshold :: pyfloat

definition mk_peer_condition :: "string \<Rightarrow> string \<Rightarrow> py_val \<Rightarrow> peer_error + peer_condition" where
  "mk_peer_condition signal opr threshold =
     res_bind (peer_path ''telemetry signal'' signal 3) (\<lambda>signal.
     res_bind (coerce_threshold_op opr) (\<lambda>opr.
     res_bind (map_sum PeerModule id (coerce_finite_float ''threshold'' threshold)) (\<lambda>threshold.
       Inr \<lparr>pc_signal = signal, pc_op = opr, pc_threshold = threshold\<rparr>)))"

definition threshold_holds :: "threshold_op \<Rightarrow> pyfloat \<Rightarrow> pyfloat \<Rightarrow> bool" where
  "threshold_holds opr x threshold =
     (case opr of
        TH_LT \<Rightarrow> fl_less x threshold
      | TH_LTE \<Rightarrow> fl_le x threshold
      | TH_GT \<Rightarrow> fl_less threshold x
      | TH_GTE \<Rightarrow> fl_le threshold x)"

definition condition_matches :: "peer_condition \<Rightarrow> string \<Rightarrow> py_val \<Rightarrow> peer_error + bool" where
  "condition_matches c signal v =
     (if signal \<noteq> pc_signal c then Inr False
      else res_bind (map_sum PeerModule id (coerce_finite_float ''telemetry value'' v)) (\<lambda>x.
             Inr (threshold_holds (pc_op c) x (pc_threshold c))))"

datatype peer_action =
    PeerCommandAction string
  | PeerFaultAction fault_kind string py_val "int option" "int option"

definition mk_command_action :: "string \<Rightarrow> peer_error + peer_action" where
  "mk_command_action command =
     map_sum PeerModule PeerCommandAction (mod_identifier ''command'' command)"

definition peer_fault_kind :: "string \<Rightarrow> peer_error + fault_kind" where
  "peer_fault_kind s = map_sum (\<lambda>_. PeerFaultKind s) id (coerce_fault_kind s)"

definition validate_fault_target :: "fault_kind \<Rightarrow> string \<Rightarrow> peer_error + string" where
  "validate_fault_target kind target =
     res_bind (peer_path ''fault target'' target (if kind = NAMED_FAULT then 2 else 3)) (\<lambda>target.
       if kind = STATE_OVERRIDE \<and> \<not> str_contains ''.model.'' target then Inl PeerModelTarget
       else if kind = SIGNAL_OVERRIDE \<and> \<not> str_contains ''.telemetry.'' target
       then Inl PeerTelemetryTarget
       else if kind = NAMED_FAULT \<and> (str_contains ''.model.'' target \<or> str_contains ''.telemetry.'' target)
       then Inl PeerFlagTarget
       else Inr target)"

definition peer_optional_count :: "string \<Rightarrow> int option \<Rightarrow> peer_error + int option" where
  "peer_optional_count name v =
     (case v of
        None \<Rightarrow> Inr None
      | Some n \<Rightarrow> map_sum PeerModule Some (coerce_non_negative_int name (PInt n)))"

definition mk_fault_action ::
  "string \<Rightarrow> string \<Rightarrow> py_val \<Rightarrow> int option \<Rightarrow> int option \<Rightarrow> peer_error + peer_action" where
  "mk_fault_action fault_type target v duration cycles =
     res_bind (peer_fault_kind fault_type) (\<lambda>kind.
     res_bind (validate_fault_target kind target) (\<lambda>target.
     res_bind (peer_optional_count ''fault duration'' duration) (\<lambda>duration.
     res_bind (peer_optional_count ''fault cycles'' cycles) (\<lambda>cycles.
       if kind = NAMED_FAULT \<and> (duration \<noteq> None \<or> cycles \<noteq> None) then Inl PeerFlagTiming
       else Inr (PeerFaultAction kind target v duration cycles)))))"

record peer_rule =
  pr_name :: string
  pr_condition :: peer_condition
  pr_actions :: "peer_action list"
  pr_for :: int
  pr_cooldown :: int

definition mk_peer_rule ::
  "string \<Rightarrow> peer_condition \<Rightarrow> peer_action list \<Rightarrow> int \<Rightarrow> int \<Rightarrow> peer_error + peer_rule" where
  "mk_peer_rule name condition actions hold cooldown =
     res_bind (map_sum PeerModule id (mod_identifier ''rule name'' name)) (\<lambda>name.
     res_bind (res_check (actions \<noteq> []) PeerNoActions) (\<lambda>_.
     res_bind (map_sum PeerModule id (coerce_non_negative_int ''rule for_duration'' (PInt hold))) (\<lambda>hold.
     res_bind (map_sum PeerModule id (coerce_non_negative_int ''rule cooldown'' (PInt cooldown))) (\<lambda>cooldown.
       Inr \<lparr>pr_name = name, pr_condition = condition, pr_actions = actions, pr_for = hold,
            pr_cooldown = cooldown\<rparr>))))"

section \<open>Named commands\<close>

record named_command =
  nd_source :: int
  nd_destination :: int
  nd_destination_port :: int
  nd_source_port :: int
  nd_priority :: int
  nd_flags :: int
  nd_payload :: "byte list"

definition command_fields :: "named_command \<Rightarrow> peer_error + csp_fields" where
  "command_fields c =
     map_sum PeerCspFields id
       (mk_csp_fields (nd_priority c) (nd_source c) (nd_destination c) (nd_destination_port c)
          (nd_source_port c) (nd_flags c))"

text \<open>With a sender its state advances; without one the packet is fragmented with packet counter 0.\<close>

definition encode_command ::
  "named_command \<Rightarrow> packet_sender option \<Rightarrow> peer_error + frame list \<times> packet_sender option" where
  "encode_command c sender =
     res_bind (command_fields c) (\<lambda>f.
       map_sum PeerCannotEncode id
         (case sender of
            Some s \<Rightarrow> map_sum id (map_prod id Some) (sender_frames s f (nd_payload c))
          | None \<Rightarrow>
              map_sum id (\<lambda>frames. (map CanFrame frames, None)) (fragment_packet f (nd_payload c) None 0)))"

definition mk_named_command :: "named_command \<Rightarrow> peer_error + named_command" where
  "mk_named_command c =
     res_bind (command_fields c) (\<lambda>_. res_bind (encode_command c None) (\<lambda>_. Inr c))"

section \<open>The module\<close>

record peer_config =
  pf_name :: string
  pf_endpoint :: "endpoint_id option"
  pf_rules :: "peer_rule list"
  pf_commands :: "(string \<times> named_command) list"
  pf_max_packet_bytes :: int

fun check_rule_names :: "string list \<Rightarrow> peer_rule list \<Rightarrow> peer_error + unit" where
  "check_rule_names seen [] = Inr ()"
| "check_rule_names seen (r # rs) =
     (if pr_name r \<in> set seen then Inl (PeerDuplicateRule (pr_name r))
      else check_rule_names (pr_name r # seen) rs)"

definition mk_peer_config :: "peer_config \<Rightarrow> peer_error + peer_config" where
  "mk_peer_config c =
     res_bind (map_sum PeerModule id (mod_identifier ''module name'' (pf_name c))) (\<lambda>_.
     res_bind (map_sum PeerModule id (mod_optional_endpoint ''module endpoint'' (pf_endpoint c))) (\<lambda>_.
     res_bind (check_rule_names [] (pf_rules c)) (\<lambda>_.
     res_bind (res_mapM (\<lambda>(name, _). map_sum PeerModule id (mod_identifier ''named command'' name))
                 (pf_commands c)) (\<lambda>_.
       Inr c))))"

record rule_runtime =
  rr_condition_since :: "int option"
  rr_last_triggered_at :: "int option"

record action_result =
  ar_action :: peer_action
  ar_command_envelope :: "transport_envelope option"
  ar_fault_result :: "fault_applied option"
  ar_command_envelopes :: "transport_envelope list"

record rule_result =
  rs_rule_name :: string
  rs_signal :: string
  rs_value :: py_val
  rs_triggered_at :: int
  rs_action_results :: "action_result list"

record obc_peer =
  op_module :: sim_module
  op_config :: peer_config
  op_has_transport :: bool
  op_sender :: "packet_sender option"
  op_attached :: bool
  op_runtimes :: "(string \<times> rule_runtime) list"
  op_last_results :: "rule_result list"

definition fresh_runtime :: rule_runtime where
  "fresh_runtime = \<lparr>rr_condition_since = None, rr_last_triggered_at = None\<rparr>"

definition mk_obc_peer :: "peer_config \<Rightarrow> bool \<Rightarrow> bool \<Rightarrow> peer_error + obc_peer" where
  "mk_obc_peer c has_transport has_fault_engine =
     res_bind (map_sum PeerModule id (mk_sim_module (pf_name c) (pf_endpoint c) has_fault_engine)) (\<lambda>m.
       Inr \<lparr>op_module = m, op_config = c, op_has_transport = has_transport, op_sender = None,
            op_attached = False, op_runtimes = map (\<lambda>r. (pr_name r, fresh_runtime)) (pf_rules c),
            op_last_results = []\<rparr>)"

definition set_transport :: "bool \<Rightarrow> obc_peer \<Rightarrow> obc_peer" where
  "set_transport has_transport p = p\<lparr>op_has_transport := has_transport, op_sender := None\<rparr>"

type_synonym 't peer_world = "obc_peer \<times> 't \<times> fault_engine"

definition emit_command ::
  "'t adapter_ops \<Rightarrow> string \<Rightarrow> 't peer_world \<Rightarrow> (peer_error + transport_envelope list) \<times> 't peer_world" where
  "emit_command ops command w =
     (case w of (p, t, fe) \<Rightarrow>
        if \<not> op_has_transport p then (Inl PeerNoTransport, w)
        else
          (case map_of (pf_commands (op_config p)) command of
             None \<Rightarrow> (Inl (PeerUnknownCommand command), w)
           | Some c \<Rightarrow>
               (case (case op_sender p of
                        Some s \<Rightarrow> Inr s
                      | None \<Rightarrow> ad_new_sender ops (pf_max_packet_bytes (op_config p))) of
                  Inl e \<Rightarrow> (Inl (PeerSender e), w)
                | Inr s \<Rightarrow>
                    let p1 = p\<lparr>op_sender := Some s\<rparr> in
                    (case encode_command c (Some s) of
                       Inl e \<Rightarrow> (Inl e, (p1, t, fe))
                     | Inr (frames, s') \<Rightarrow>
                         let (r, t1) = send_frames ops (default_source (op_module p)) frames t
                         in (map_sum PeerTransport id r, (p1\<lparr>op_sender := s'\<rparr>, t1, fe))))))"

definition peer_apply_fault ::
  "int \<Rightarrow> peer_action \<Rightarrow> int \<Rightarrow> 't peer_world \<Rightarrow> (peer_error + fault_applied) \<times> 't peer_world" where
  "peer_apply_fault clock action now w =
     (case (action, w) of
        (PeerFaultAction kind target v duration cycles, (p, t, fe)) \<Rightarrow>
          if \<not> sm_has_fault_engine (op_module p) then (Inl PeerNoFaultEngine, w)
          else (case apply_fault clock (fault_type_value kind) target v duration cycles (Some now) fe of
                  Inl e \<Rightarrow> (Inl (PeerFault e), w)
                | Inr (applied, fe1) \<Rightarrow> (Inr applied, (p, t, fe1)))
      | _ \<Rightarrow> (Inl PeerNoFaultEngine, w))"

definition execute_action ::
  "'t adapter_ops \<Rightarrow> int \<Rightarrow> int \<Rightarrow> peer_action \<Rightarrow> 't peer_world \<Rightarrow> (peer_error + action_result) \<times> 't peer_world" where
  "execute_action ops clock now action w =
     (case action of
        PeerCommandAction command \<Rightarrow>
          (case emit_command ops command w of
             (Inl e, w1) \<Rightarrow> (Inl e, w1)
           | (Inr envs, w1) \<Rightarrow>
               if envs = [] then (Inl PeerNoFrames, w1)
               else (Inr \<lparr>ar_action = action, ar_command_envelope = Some (last envs),
                          ar_fault_result = None, ar_command_envelopes = envs\<rparr>, w1))
      | PeerFaultAction _ _ _ _ _ \<Rightarrow>
          (case peer_apply_fault clock action now w of
             (Inl e, w1) \<Rightarrow> (Inl e, w1)
           | (Inr applied, w1) \<Rightarrow>
               (Inr \<lparr>ar_action = action, ar_command_envelope = None,
                     ar_fault_result = Some applied, ar_command_envelopes = []\<rparr>, w1)))"

fun execute_actions ::
  "'t adapter_ops \<Rightarrow> int \<Rightarrow> int \<Rightarrow> peer_action list \<Rightarrow> 't peer_world
    \<Rightarrow> (peer_error + action_result list) \<times> 't peer_world" where
  "execute_actions ops clock now [] w = (Inr [], w)"
| "execute_actions ops clock now (a # as) w =
     (case execute_action ops clock now a w of
        (Inl e, w1) \<Rightarrow> (Inl e, w1)
      | (Inr r, w1) \<Rightarrow>
          (case execute_actions ops clock now as w1 of
             (Inl e, w2) \<Rightarrow> (Inl e, w2)
           | (Inr rs, w2) \<Rightarrow> (Inr (r # rs), w2)))"

definition execute_rule ::
  "'t adapter_ops \<Rightarrow> int \<Rightarrow> peer_rule \<Rightarrow> string \<Rightarrow> py_val \<Rightarrow> int \<Rightarrow> 't peer_world
    \<Rightarrow> (peer_error + rule_result) \<times> 't peer_world" where
  "execute_rule ops clock r signal v now w =
     (case execute_actions ops clock now (pr_actions r) w of
        (Inl e, w1) \<Rightarrow> (Inl e, w1)
      | (Inr rs, w1) \<Rightarrow>
          (Inr \<lparr>rs_rule_name = pr_name r, rs_signal = signal, rs_value = v, rs_triggered_at = now,
                rs_action_results = rs\<rparr>, w1))"

definition is_in_cooldown :: "peer_rule \<Rightarrow> rule_runtime \<Rightarrow> int \<Rightarrow> bool" where
  "is_in_cooldown r rt now =
     (case rr_last_triggered_at rt of None \<Rightarrow> False | Some t \<Rightarrow> now - t < pr_cooldown r)"

text \<open>
  The gates of one rule for a sample of its signal: the runtime state after them and whether the rule
  triggers. The trigger time is recorded before the actions run.
\<close>

definition rule_gate :: "peer_rule \<Rightarrow> bool \<Rightarrow> int \<Rightarrow> rule_runtime \<Rightarrow> bool \<times> rule_runtime" where
  "rule_gate r matches now rt =
     (if \<not> matches then (False, rt\<lparr>rr_condition_since := None\<rparr>)
      else
        let since = (case rr_condition_since rt of None \<Rightarrow> now | Some t \<Rightarrow> t);
            rt1 = rt\<lparr>rr_condition_since := Some since\<rparr>
        in if now - since < pr_for r then (False, rt1)
           else if is_in_cooldown r rt1 now then (False, rt1)
           else (True, rt1\<lparr>rr_last_triggered_at := Some now\<rparr>))"

definition rule_runtime_of :: "string \<Rightarrow> obc_peer \<Rightarrow> rule_runtime" where
  "rule_runtime_of name p = (case map_of (op_runtimes p) name of Some rt \<Rightarrow> rt | None \<Rightarrow> fresh_runtime)"

definition set_runtime :: "string \<Rightarrow> rule_runtime \<Rightarrow> obc_peer \<Rightarrow> obc_peer" where
  "set_runtime name rt p = p\<lparr>op_runtimes := AList.update name rt (op_runtimes p)\<rparr>"

definition observe_rule ::
  "'t adapter_ops \<Rightarrow> int \<Rightarrow> string \<Rightarrow> py_val \<Rightarrow> int \<Rightarrow> peer_rule \<Rightarrow> 't peer_world
    \<Rightarrow> (peer_error + rule_result option) \<times> 't peer_world" where
  "observe_rule ops clock signal v now r w =
     (case w of (p, t, fe) \<Rightarrow>
        if pc_signal (pr_condition r) \<noteq> signal then (Inr None, w)
        else
          (case condition_matches (pr_condition r) signal v of
             Inl e \<Rightarrow> (Inl e, w)
           | Inr matches \<Rightarrow>
               let (fires, rt) = rule_gate r matches now (rule_runtime_of (pr_name r) p);
                   w1 = (set_runtime (pr_name r) rt p, t, fe)
               in if fires
                  then (case execute_rule ops clock r signal v now w1 of
                          (Inl e, w2) \<Rightarrow> (Inl e, w2)
                        | (Inr res, w2) \<Rightarrow> (Inr (Some res), w2))
                  else (Inr None, w1)))"

fun observe_rules ::
  "'t adapter_ops \<Rightarrow> int \<Rightarrow> string \<Rightarrow> py_val \<Rightarrow> int \<Rightarrow> peer_rule list \<Rightarrow> 't peer_world
    \<Rightarrow> (peer_error + rule_result list) \<times> 't peer_world" where
  "observe_rules ops clock signal v now [] w = (Inr [], w)"
| "observe_rules ops clock signal v now (r # rs) w =
     (case observe_rule ops clock signal v now r w of
        (Inl e, w1) \<Rightarrow> (Inl e, w1)
      | (Inr res, w1) \<Rightarrow>
          (case observe_rules ops clock signal v now rs w1 of
             (Inl e, w2) \<Rightarrow> (Inl e, w2)
           | (Inr ress, w2) \<Rightarrow> (Inr (case res of None \<Rightarrow> ress | Some x \<Rightarrow> x # ress), w2)))"

text \<open>\<open>clock\<close> is the virtual time of the simulation engine the module may be attached to.\<close>

definition resolve_time :: "int \<Rightarrow> obc_peer \<Rightarrow> int option \<Rightarrow> peer_error + int" where
  "resolve_time clock p now =
     (case now of
        Some t \<Rightarrow> map_sum PeerModule id (coerce_non_negative_int ''virtual time'' (PInt t))
      | None \<Rightarrow> Inr (if op_attached p then clock else 0))"

definition observe_telemetry ::
  "'t adapter_ops \<Rightarrow> int \<Rightarrow> string \<Rightarrow> py_val \<Rightarrow> int option \<Rightarrow> 't peer_world
    \<Rightarrow> (peer_error + rule_result list) \<times> 't peer_world" where
  "observe_telemetry ops clock signal v now w =
     (case peer_path ''telemetry signal'' signal 3 of
        Inl e \<Rightarrow> (Inl e, w)
      | Inr signal \<Rightarrow>
          (case resolve_time clock (fst w) now of
             Inl e \<Rightarrow> (Inl e, w)
           | Inr start \<Rightarrow>
               (case observe_rules ops clock signal v start (pf_rules (op_config (fst w))) w of
                  (Inl e, w1) \<Rightarrow> (Inl e, w1)
                | (Inr results, (p, t, fe)) \<Rightarrow>
                    (Inr results, (p\<lparr>op_last_results := results\<rparr>, t, fe)))))"

definition reset_rule_timing :: "string option \<Rightarrow> obc_peer \<Rightarrow> peer_error + obc_peer" where
  "reset_rule_timing name p =
     (case name of
        None \<Rightarrow> Inr (p\<lparr>op_runtimes := map (\<lambda>(n, _). (n, fresh_runtime)) (op_runtimes p)\<rparr>)
      | Some n \<Rightarrow>
          res_bind (map_sum PeerModule id (mod_identifier ''rule name'' n)) (\<lambda>n.
            (case map_of (op_runtimes p) n of
               None \<Rightarrow> Inl (PeerUnknownRule n)
             | Some _ \<Rightarrow> Inr (set_runtime n fresh_runtime p))))"

text \<open>Attaching registers the module as the handler of telemetry events.\<close>

definition peer_attach :: "'h \<Rightarrow> obc_peer \<Rightarrow> 'h engine \<Rightarrow> engine_error + obc_peer \<times> 'h engine" where
  "peer_attach h p e =
     (if op_attached p then Inr (p, e)
      else res_bind (add_handler (Kind TELEMETRY) h e) (\<lambda>e1. Inr (p\<lparr>op_attached := True\<rparr>, e1)))"

definition peer_detach :: "'h \<Rightarrow> obc_peer \<Rightarrow> 'h engine \<Rightarrow> engine_error + obc_peer \<times> 'h engine" where
  "peer_detach h p e =
     (if \<not> op_attached p then Inr (p, e)
      else res_bind (remove_handler (Kind TELEMETRY) h e) (\<lambda>e1. Inr (p\<lparr>op_attached := False\<rparr>, e1)))"

definition peer_handle_event ::
  "'t adapter_ops \<Rightarrow> simulation_event \<Rightarrow> int \<Rightarrow> 't peer_world \<Rightarrow> (peer_error + unit) \<times> 't peer_world" where
  "peer_handle_event ops ev clock w =
     (if ev_kind ev \<noteq> TELEMETRY then (Inl (PeerNotTelemetry (ev_kind ev)), w)
      else case ev_payload ev of
             TelemetryPayload tp \<Rightarrow>
               (case observe_telemetry ops clock (tlm_signal tp) (tlm_value tp) (Some clock) w of
                  (Inl e, w1) \<Rightarrow> (Inl e, w1)
                | (Inr _, w1) \<Rightarrow> (Inr (), w1))
           | _ \<Rightarrow> (Inl PeerNoPayload, w))"

section \<open>From the configuration\<close>

definition peer_action_from_config :: "obc_action \<Rightarrow> peer_error + peer_action" where
  "peer_action_from_config action =
     (case action of
        RuleSendCommand command \<Rightarrow> mk_command_action command
      | RuleInjectFault kind target v duration cycles \<Rightarrow>
          mk_fault_action (fault_type_value kind) target v duration cycles)"

definition peer_rule_from_config :: "string \<Rightarrow> obc_rule \<Rightarrow> peer_error + peer_rule" where
  "peer_rule_from_config name r =
     res_bind (mk_peer_condition (or_signal r) (threshold_op_value (or_op r)) (PFloat (or_threshold r))) (\<lambda>c.
     res_bind (res_mapM peer_action_from_config (or_actions r)) (\<lambda>actions.
       mk_peer_rule name c actions (or_for r) (or_cooldown r)))"

definition peer_rules_from_config :: "(string \<times> obc_rule) list \<Rightarrow> peer_error + peer_rule list" where
  "peer_rules_from_config rules = res_mapM (\<lambda>(name, r). peer_rule_from_config name r) rules"

definition peer_command_from_mapping ::
  "testbed_config \<Rightarrow> string \<Rightarrow> node_config \<Rightarrow> string \<times> command_mapping \<Rightarrow> peer_error + string \<times> named_command" where
  "peer_command_from_mapping setup source_node source entry =
     (case entry of (command_name, command) \<Rightarrow>
        (case map_of (tc_nodes setup) (cm_target command) of
           None \<Rightarrow> Inl (PeerUnknownTarget source_node command_name (cm_target command))
         | Some target \<Rightarrow>
             map_sum id (Pair command_name)
               (mk_named_command
                  \<lparr>nd_source = nc_address source, nd_destination = nc_address target,
                   nd_destination_port = cm_destination_port command,
                   nd_source_port = cm_source_port command, nd_priority = cm_priority command,
                   nd_flags = cm_flags command, nd_payload = cm_payload_hex command\<rparr>)))"

definition peer_commands_from_testbed_config ::
  "testbed_config \<Rightarrow> string \<Rightarrow> peer_error + (string \<times> named_command) list" where
  "peer_commands_from_testbed_config setup source_node =
     (case map_of (tc_nodes setup) source_node of
        None \<Rightarrow> Inl (PeerUnknownNode source_node)
      | Some source \<Rightarrow> res_mapM (peer_command_from_mapping setup source_node source) (nc_commands source))"

definition peer_from_testbed_config ::
  "testbed_config \<Rightarrow> string \<Rightarrow> peer_rule list \<Rightarrow> bool \<Rightarrow> bool \<Rightarrow> peer_error + obc_peer" where
  "peer_from_testbed_config setup source_node rules has_transport has_fault_engine =
     (case map_of (tc_nodes setup) source_node of
        None \<Rightarrow> Inl (PeerUnknownNode source_node)
      | Some node \<Rightarrow>
          res_bind (peer_commands_from_testbed_config setup source_node) (\<lambda>commands.
          res_bind (mk_peer_config
                      \<lparr>pf_name = source_node, pf_endpoint = Some (EpNumber (nc_address node)),
                       pf_rules = rules, pf_commands = commands,
                       pf_max_packet_bytes = nc_max_packet_bytes node\<rparr>) (\<lambda>c.
            mk_obc_peer c has_transport has_fault_engine)))"

definition build_obc_peer ::
  "testbed_config \<Rightarrow> string \<Rightarrow> (string \<times> peer_rule list) list option \<Rightarrow> 'h \<Rightarrow> 'h engine
    \<Rightarrow> peer_error + engine_error + obc_peer \<times> 'h engine" where
  "build_obc_peer setup node_name obc_rules h e =
     (case map_of (tc_nodes setup) node_name of
        None \<Rightarrow> Inl (PeerUnknownNode node_name)
      | Some node \<Rightarrow>
          res_bind (peer_rules_from_config (nc_rules node)) (\<lambda>rules.
            let rules = (case Option.bind obc_rules (\<lambda>m. map_of m node_name) of
                           None \<Rightarrow> rules | Some replacement \<Rightarrow> replacement)
            in map_sum id (\<lambda>p. peer_attach h p e)
                 (peer_from_testbed_config setup node_name rules True True)))"

section \<open>The gates over a history of samples\<close>

text \<open>
  What the two gates are for, on the whole history: \<open>t i\<close> is the time of the \<open>i\<close>-th observation and
  \<open>m i\<close> says whether it met the condition (\<open>None\<close> for another signal). The rule is due when its
  condition has held on every sample since one at least \<open>pr_for\<close> ago, and no earlier trigger is closer
  than \<open>pr_cooldown\<close>.
\<close>

definition held :: "int \<Rightarrow> (nat \<Rightarrow> int) \<Rightarrow> (nat \<Rightarrow> bool option) \<Rightarrow> nat \<Rightarrow> bool" where
  "held hold t m i \<longleftrightarrow>
     (\<exists>j \<le> i. m j \<noteq> None \<and> (\<forall>k. j \<le> k \<and> k \<le> i \<longrightarrow> m k \<noteq> Some False) \<and> hold \<le> t i - t j)"

definition rested :: "int \<Rightarrow> (nat \<Rightarrow> int) \<Rightarrow> (nat \<Rightarrow> bool) \<Rightarrow> nat \<Rightarrow> bool" where
  "rested cooldown t f i \<longleftrightarrow> (\<forall>k < i. f k \<longrightarrow> cooldown \<le> t i - t k)"

definition gate_step :: "peer_rule \<Rightarrow> bool option \<Rightarrow> int \<Rightarrow> rule_runtime \<Rightarrow> bool \<times> rule_runtime" where
  "gate_step r m now rt = (case m of None \<Rightarrow> (False, rt) | Some matches \<Rightarrow> rule_gate r matches now rt)"

definition since_ok :: "(nat \<Rightarrow> int) \<Rightarrow> (nat \<Rightarrow> bool option) \<Rightarrow> nat \<Rightarrow> int option \<Rightarrow> bool" where
  "since_ok t m n since \<longleftrightarrow>
     (\<forall>s. since = Some s \<longrightarrow> (\<exists>j < n. m j \<noteq> None \<and> t j = s \<and> (\<forall>k. j \<le> k \<and> k < n \<longrightarrow> m k \<noteq> Some False))) \<and>
     (\<forall>j < n. m j \<noteq> None \<and> (\<forall>k. j \<le> k \<and> k < n \<longrightarrow> m k \<noteq> Some False) \<longrightarrow> (\<exists>s. since = Some s \<and> s \<le> t j))"

definition last_ok :: "(nat \<Rightarrow> int) \<Rightarrow> (nat \<Rightarrow> bool) \<Rightarrow> nat \<Rightarrow> int option \<Rightarrow> bool" where
  "last_ok t f n latest \<longleftrightarrow>
     (\<forall>s. latest = Some s \<longrightarrow> (\<exists>k < n. f k \<and> t k = s)) \<and>
     (\<forall>k < n. f k \<longrightarrow> (\<exists>s. latest = Some s \<and> t k \<le> s))"

lemma since_ok_reset: "m n = Some False \<Longrightarrow> since_ok t m (Suc n) None"
  unfolding since_ok_def by (meson less_Suc_eq_le order_refl option.distinct(1))

lemma since_ok_other:
  assumes "since_ok t m n since" "m n = None"
  shows "since_ok t m (Suc n) since"
proof -
  have eq: "(\<forall>k. j \<le> k \<and> k < Suc n \<longrightarrow> m k \<noteq> Some False) \<longleftrightarrow> (\<forall>k. j \<le> k \<and> k < n \<longrightarrow> m k \<noteq> Some False)" for j
    using assms(2) by (auto simp: less_Suc_eq)
  show ?thesis using assms unfolding since_ok_def eq by (metis less_SucE less_SucI)
qed

lemma since_ok_match:
  assumes inv: "since_ok t m n since" and m: "m n = Some True" and mono: "\<forall>k \<le> n. t k \<le> t n"
  shows "since_ok t m (Suc n) (Some (case since of None \<Rightarrow> t n | Some s \<Rightarrow> s))"
proof -
  let ?s = "case since of None \<Rightarrow> t n | Some s \<Rightarrow> s"
  have run: "(\<forall>k. j \<le> k \<and> k < Suc n \<longrightarrow> m k \<noteq> Some False) \<longleftrightarrow> (\<forall>k. j \<le> k \<and> k < n \<longrightarrow> m k \<noteq> Some False)" for j
    using m by (auto simp: less_Suc_eq)
  have "\<exists>j < Suc n. m j \<noteq> None \<and> t j = ?s \<and> (\<forall>k. j \<le> k \<and> k < n \<longrightarrow> m k \<noteq> Some False)"
  proof (cases since)
    case None
    then show ?thesis using m by (intro exI[of _ n]) auto
  next
    case (Some s)
    then show ?thesis using inv unfolding since_ok_def by (metis less_SucI option.simps(5))
  qed
  moreover have "?s \<le> t j" if "j < Suc n" "m j \<noteq> None" "\<forall>k. j \<le> k \<and> k < n \<longrightarrow> m k \<noteq> Some False" for j
  proof (cases "j = n")
    case True
    have "?s \<le> t n"
    proof (cases since)
      case (Some s)
      then obtain i where "i < n" "t i = s" using inv unfolding since_ok_def by blast
      then show ?thesis using mono Some by fastforce
    qed simp
    then show ?thesis using True by simp
  next
    case False
    then show ?thesis using inv that unfolding since_ok_def by (metis less_SucE option.simps(5))
  qed
  ultimately show ?thesis unfolding since_ok_def run by auto
qed

lemma held_iff_since:
  assumes inv: "since_ok t m n since" and m: "m n = Some True" and mono: "\<forall>k \<le> n. t k \<le> t n"
  shows "held hold t m n \<longleftrightarrow> hold \<le> t n - (case since of None \<Rightarrow> t n | Some s \<Rightarrow> s)"
proof -
  let ?s = "case since of None \<Rightarrow> t n | Some s \<Rightarrow> s"
  note ok = since_ok_match[OF assms]
  have run: "(\<forall>k. j \<le> k \<and> k < Suc n \<longrightarrow> m k \<noteq> Some False) \<longleftrightarrow> (\<forall>k. j \<le> k \<and> k \<le> n \<longrightarrow> m k \<noteq> Some False)" for j
    by (simp add: less_Suc_eq_le)
  show ?thesis
  proof
    assume "held hold t m n"
    then obtain j where j: "j < Suc n" "m j \<noteq> None" "\<forall>k. j \<le> k \<and> k \<le> n \<longrightarrow> m k \<noteq> Some False"
      "hold \<le> t n - t j"
      unfolding held_def by (auto simp: less_Suc_eq_le)
    then have "?s \<le> t j" using ok unfolding since_ok_def run by blast
    with j(4) show "hold \<le> t n - ?s" by linarith
  next
    assume "hold \<le> t n - ?s"
    moreover obtain j where "j < Suc n" "m j \<noteq> None" "t j = ?s" "\<forall>k. j \<le> k \<and> k \<le> n \<longrightarrow> m k \<noteq> Some False"
      using ok unfolding since_ok_def run by blast
    ultimately show "held hold t m n" unfolding held_def by (metis less_Suc_eq_le)
  qed
qed

lemma rested_iff_last:
  assumes "last_ok t f n latest"
  shows "rested cooldown t f n \<longleftrightarrow> (case latest of None \<Rightarrow> True | Some s \<Rightarrow> cooldown \<le> t n - s)"
proof (cases latest)
  case None
  then show ?thesis using assms unfolding last_ok_def rested_def by auto
next
  case (Some s)
  have "cooldown \<le> t n - s" if "rested cooldown t f n"
    using that assms Some unfolding last_ok_def rested_def by auto
  moreover have "rested cooldown t f n" if "cooldown \<le> t n - s"
    using that assms Some unfolding last_ok_def rested_def by fastforce
  ultimately show ?thesis using Some by auto
qed

lemma last_ok_keep: "last_ok t f n latest \<Longrightarrow> \<not> f n \<Longrightarrow> last_ok t f (Suc n) latest"
  unfolding last_ok_def by (metis less_SucE less_SucI)

lemma last_ok_fire:
  assumes "last_ok t f n latest" "f n" "\<forall>k \<le> n. t k \<le> t n"
  shows "last_ok t f (Suc n) (Some (t n))"
  using assms unfolding last_ok_def by (metis lessI less_Suc_eq_le option.inject)

lemma gate_step_ok:
  assumes "gate_step r (m n) (t n) rt = (f n, rt')" and "\<forall>k \<le> n. t k \<le> t n"
    and "since_ok t m n (rr_condition_since rt)" "last_ok t f n (rr_last_triggered_at rt)"
  shows "since_ok t m (Suc n) (rr_condition_since rt') \<and> last_ok t f (Suc n) (rr_last_triggered_at rt') \<and>
     (f n \<longleftrightarrow> m n = Some True \<and> held (pr_for r) t m n \<and> rested (pr_cooldown r) t f n)"
proof (cases "m n")
  case None
  then show ?thesis using assms since_ok_other last_ok_keep by (auto simp: gate_step_def)
next
  case (Some b)
  show ?thesis
  proof (cases b)
    case False
    then show ?thesis
      using assms Some since_ok_reset[of m n t] last_ok_keep[OF assms(4)]
      by (auto simp: gate_step_def rule_gate_def)
  next
    case True
    then have m: "m n = Some True" using Some by simp
    note ok = since_ok_match[OF assms(3) m assms(2)] held_iff_since[OF assms(3) m assms(2)]
      rested_iff_last[OF assms(4)]
    let ?s = "case rr_condition_since rt of None \<Rightarrow> t n | Some s \<Rightarrow> s"
    have s: "rr_condition_since rt' = Some ?s"
      and f: "f n \<longleftrightarrow> pr_for r \<le> t n - ?s \<and> \<not> is_in_cooldown r rt (t n)"
      and l: "rr_last_triggered_at rt' = (if f n then Some (t n) else rr_last_triggered_at rt)"
      using assms(1) m by (auto simp: gate_step_def rule_gate_def Let_def is_in_cooldown_def split: if_splits)
    have "last_ok t f (Suc n) (rr_last_triggered_at rt')"
      using l last_ok_keep[OF assms(4)] last_ok_fire[OF assms(4) _ assms(2)] by (cases "f n") auto
    moreover have "is_in_cooldown r rt (t n) \<longleftrightarrow> \<not> rested (pr_cooldown r) t f n"
      unfolding ok(3) by (auto simp: is_in_cooldown_def split: option.splits)
    ultimately show ?thesis using s f m ok(1) unfolding ok(2)[of "pr_for r"] by auto
  qed
qed

lemma gate_history:
  assumes "\<forall>i < n. gate_step r (m i) (t i) (rt i) = (f i, rt (Suc i))" "\<forall>i < n. \<forall>k \<le> i. t k \<le> t i"
    and "rt 0 = fresh_runtime"
  shows "\<forall>i < n. f i \<longleftrightarrow> m i = Some True \<and> held (pr_for r) t m i \<and> rested (pr_cooldown r) t f i"
proof -
  have "i \<le> n \<Longrightarrow> since_ok t m i (rr_condition_since (rt i)) \<and> last_ok t f i (rr_last_triggered_at (rt i))" for i
  proof (induction i)
    case 0
    then show ?case using assms(3) by (simp add: since_ok_def last_ok_def fresh_runtime_def)
  next
    case (Suc i)
    then show ?case using assms gate_step_ok[of r m i t "rt i" f "rt (Suc i)"] by auto
  qed
  then show ?thesis using assms gate_step_ok by (metis less_imp_le)
qed

section \<open>Observations\<close>

definition sample_of :: "peer_rule \<Rightarrow> string \<Rightarrow> py_val \<Rightarrow> bool option" where
  "sample_of r signal v =
     (if pc_signal (pr_condition r) \<noteq> signal then None
      else case condition_matches (pr_condition r) signal v of Inl _ \<Rightarrow> None | Inr b \<Rightarrow> Some b)"

lemma runtime_set [simp]:
  "rule_runtime_of n (set_runtime m rt p) = (if n = m then rt else rule_runtime_of n p)"
  by (simp add: rule_runtime_of_def set_runtime_def update_conv')

lemma set_runtime_config [simp]: "op_config (set_runtime n rt p) = op_config p"
  by (simp add: set_runtime_def)

lemma emit_command_keeps:
  assumes "emit_command ops command (p, t, fe) = (r, (p', t', fe'))"
  shows "op_config p' = op_config p \<and> op_runtimes p' = op_runtimes p \<and> op_module p' = op_module p"
  using assms by (auto simp: emit_command_def Let_def split: if_splits option.splits sum.splits prod.splits)

lemma peer_apply_fault_keeps:
  assumes "peer_apply_fault clock a now (p, t, fe) = (r, (p', t', fe'))"
  shows "p' = p"
  using assms by (auto simp: peer_apply_fault_def split: peer_action.splits if_splits sum.splits prod.splits)

lemma execute_action_keeps:
  assumes "execute_action ops clock now a (p, t, fe) = (r, (p', t', fe'))"
  shows "op_config p' = op_config p \<and> op_runtimes p' = op_runtimes p \<and> op_module p' = op_module p"
  using assms
  by (auto simp: execute_action_def dest!: emit_command_keeps peer_apply_fault_keeps
      split: peer_action.splits prod.splits sum.splits if_splits)

lemma execute_actions_keep:
  assumes "execute_actions ops clock now as (p, t, fe) = (r, (p', t', fe'))"
  shows "op_config p' = op_config p \<and> op_runtimes p' = op_runtimes p \<and> op_module p' = op_module p"
  using assms
proof (induction as arbitrary: p t fe r p' t' fe')
  case (Cons a as)
  obtain x p1 t1 fe1 where a: "execute_action ops clock now a (p, t, fe) = (x, (p1, t1, fe1))"
    by (metis prod_cases4)
  obtain y p2 t2 fe2 where as: "execute_actions ops clock now as (p1, t1, fe1) = (y, (p2, t2, fe2))"
    by (metis prod_cases4)
  show ?case
    using Cons.prems Cons.IH[OF as] execute_action_keeps[OF a] a as by (auto split: sum.splits)
qed simp

lemma execute_rule_keeps:
  assumes "execute_rule ops clock r signal v now (p, t, fe) = (x, (p', t', fe'))"
  shows "op_config p' = op_config p" "rule_runtime_of n p' = rule_runtime_of n p"
    "x = Inr res \<Longrightarrow> rs_rule_name res = pr_name r"
  using assms execute_actions_keep[of ops clock now "pr_actions r" p t fe]
  by (auto simp: execute_rule_def rule_runtime_of_def split: prod.splits sum.splits)

definition fired :: "rule_result list \<Rightarrow> string \<Rightarrow> bool" where
  "fired results name \<longleftrightarrow> (\<exists>x \<in> set results. rs_rule_name x = name)"

lemma observe_rule_ok:
  assumes "observe_rule ops clock signal v now r (p, t, fe) = (Inr res, (p', t', fe'))"
  shows "op_config p' = op_config p \<and>
     gate_step r (sample_of r signal v) now (rule_runtime_of (pr_name r) p) =
       (res \<noteq> None, rule_runtime_of (pr_name r) p') \<and>
     (\<forall>x. res = Some x \<longrightarrow> rs_rule_name x = pr_name r) \<and>
     (\<forall>n. n \<noteq> pr_name r \<longrightarrow> rule_runtime_of n p' = rule_runtime_of n p)"
proof (cases "pc_signal (pr_condition r) \<noteq> signal")
  case True
  then show ?thesis using assms by (simp add: observe_rule_def sample_of_def gate_step_def)
next
  case False
  then obtain b where b: "condition_matches (pr_condition r) signal v = Inr b"
    using assms by (auto simp: observe_rule_def split: sum.splits)
  obtain fires rt where g: "rule_gate r b now (rule_runtime_of (pr_name r) p) = (fires, rt)" by fastforce
  have sample: "gate_step r (sample_of r signal v) now (rule_runtime_of (pr_name r) p) = (fires, rt)"
    using False b g by (simp add: sample_of_def gate_step_def)
  show ?thesis
  proof (cases fires)
    case False
    with assms b g \<open>\<not> pc_signal (pr_condition r) \<noteq> signal\<close> sample show ?thesis
      by (auto simp: observe_rule_def)
  next
    case True
    obtain x p2 t2 fe2 where ex: "execute_rule ops clock r signal v now
        (set_runtime (pr_name r) rt p, t, fe) = (x, (p2, t2, fe2))"
      by (metis prod_cases4)
    show ?thesis
      using assms b g \<open>\<not> pc_signal (pr_condition r) \<noteq> signal\<close> sample True ex execute_rule_keeps[OF ex]
      by (auto simp: observe_rule_def split: sum.splits)
  qed
qed

lemma observe_rules_ok:
  assumes "observe_rules ops clock signal v now rs (p, t, fe) = (Inr res, (p', t', fe'))"
    and "distinct (map pr_name rs)"
  shows "op_config p' = op_config p \<and>
     (\<forall>r \<in> set rs. gate_step r (sample_of r signal v) now (rule_runtime_of (pr_name r) p) =
        (fired res (pr_name r), rule_runtime_of (pr_name r) p')) \<and>
     (\<forall>n. n \<notin> pr_name ` set rs \<longrightarrow> rule_runtime_of n p' = rule_runtime_of n p \<and> \<not> fired res n)"
  using assms
proof (induction rs arbitrary: p t fe res)
  case Nil
  then show ?case by (simp add: fired_def)
next
  case (Cons r rs)
  obtain x p1 t1 fe1 where r: "observe_rule ops clock signal v now r (p, t, fe) = (Inr x, (p1, t1, fe1))"
    using Cons.prems(1) by (auto split: prod.splits sum.splits)
  then obtain ress where rs: "observe_rules ops clock signal v now rs (p1, t1, fe1) = (Inr ress, (p', t', fe'))"
    and res: "res = (case x of None \<Rightarrow> ress | Some y \<Rightarrow> y # ress)"
    using Cons.prems(1) by (auto split: prod.splits sum.splits)
  note one = observe_rule_ok[OF r]
  have d: "distinct (map pr_name rs)" and new: "pr_name r \<notin> pr_name ` set rs" using Cons.prems(2) by auto
  note ih = Cons.IH[OF rs d]
  have fired: "fired res n \<longleftrightarrow> fired ress n \<or> (x \<noteq> None \<and> n = pr_name r)" for n
    using one res by (cases x) (auto simp: fired_def)
  have "rule_runtime_of (pr_name r) p' = rule_runtime_of (pr_name r) p1" "\<not> fired ress (pr_name r)"
    using ih new by auto
  then have "gate_step r (sample_of r signal v) now (rule_runtime_of (pr_name r) p) =
      (fired res (pr_name r), rule_runtime_of (pr_name r) p')"
    using one fired by simp
  moreover have "gate_step q (sample_of q signal v) now (rule_runtime_of (pr_name q) p) =
      (fired res (pr_name q), rule_runtime_of (pr_name q) p')" if "q \<in> set rs" for q
  proof -
    have "pr_name q \<noteq> pr_name r" using that new by (metis imageI)
    then show ?thesis using one ih that fired by auto
  qed
  ultimately show ?case using one ih fired by auto
qed

lemma observe_telemetry_ok:
  assumes "observe_telemetry ops clock signal v (Some now) (p, t, fe) = (Inr res, (p', t', fe'))"
    and "distinct (map pr_name (pf_rules (op_config p)))"
  shows "op_config p' = op_config p \<and>
     (\<forall>r \<in> set (pf_rules (op_config p)).
        gate_step r (sample_of r signal v) now (rule_runtime_of (pr_name r) p) =
          (fired res (pr_name r), rule_runtime_of (pr_name r) p'))"
proof -
  obtain p1 where run: "observe_rules ops clock signal v now (pf_rules (op_config p)) (p, t, fe) =
      (Inr res, (p1, t', fe'))" and p': "p' = p1\<lparr>op_last_results := res\<rparr>"
    using assms(1)
    by (auto simp: observe_telemetry_def peer_path_def resolve_time_def coerce_non_negative_int_def
        split: prod.splits sum.splits if_splits)
  show ?thesis using observe_rules_ok[OF run assms(2)] p' by (auto simp: rule_runtime_of_def)
qed

text \<open>A run: one result per observation, each made at its virtual time.\<close>

fun observe_all ::
  "'t adapter_ops \<Rightarrow> (string \<times> py_val \<times> int) list \<Rightarrow> 't peer_world \<Rightarrow> peer_error + rule_result list list" where
  "observe_all ops [] w = Inr []"
| "observe_all ops ((signal, v, now) # obs) w =
     (case observe_telemetry ops now signal v (Some now) w of
        (Inl e, _) \<Rightarrow> Inl e
      | (Inr res, w1) \<Rightarrow> map_sum id (Cons res) (observe_all ops obs w1))"

definition obs_time :: "(string \<times> py_val \<times> int) list \<Rightarrow> nat \<Rightarrow> int" where
  "obs_time obs i = snd (snd (obs ! i))"

definition obs_sample :: "peer_rule \<Rightarrow> (string \<times> py_val \<times> int) list \<Rightarrow> nat \<Rightarrow> bool option" where
  "obs_sample r obs i = sample_of r (fst (obs ! i)) (fst (snd (obs ! i)))"

lemma observe_all_runtimes:
  assumes "observe_all ops obs (p, t, fe) = Inr ress" "distinct (map pr_name (pf_rules (op_config p)))"
    and "r \<in> set (pf_rules (op_config p))"
  shows "length ress = length obs \<and> (\<exists>rt. rt 0 = rule_runtime_of (pr_name r) p \<and>
     (\<forall>i < length obs. gate_step r (obs_sample r obs i) (obs_time obs i) (rt i) =
        (fired (ress ! i) (pr_name r), rt (Suc i))))"
  using assms
proof (induction obs arbitrary: p t fe ress)
  case Nil
  then show ?case by auto
next
  case (Cons ob obs)
  obtain signal v now where ob: "ob = (signal, v, now)" by (cases ob)
  obtain res p1 t1 fe1 where one: "observe_telemetry ops now signal v (Some now) (p, t, fe) =
      (Inr res, (p1, t1, fe1))"
    using Cons.prems(1) ob by (auto split: prod.splits sum.splits)
  then obtain ress1 where rest: "observe_all ops obs (p1, t1, fe1) = Inr ress1" and ress: "ress = res # ress1"
    using Cons.prems(1) ob by (cases "observe_all ops obs (p1, t1, fe1)") auto
  note step = observe_telemetry_ok[OF one Cons.prems(2)]
  then obtain rt where rt: "length ress1 = length obs" "rt 0 = rule_runtime_of (pr_name r) p1"
    "\<forall>i < length obs. gate_step r (obs_sample r obs i) (obs_time obs i) (rt i) =
        (fired (ress1 ! i) (pr_name r), rt (Suc i))"
    using Cons.IH[OF rest] Cons.prems(2,3) by auto
  let ?rt = "\<lambda>i. case i of 0 \<Rightarrow> rule_runtime_of (pr_name r) p | Suc k \<Rightarrow> rt k"
  have "gate_step r (obs_sample r (ob # obs) i) (obs_time (ob # obs) i) (?rt i) =
      (fired (ress ! i) (pr_name r), ?rt (Suc i))" if "i < length (ob # obs)" for i
    using that step Cons.prems(3) rt ob ress
    by (cases i) (auto simp: obs_sample_def obs_time_def)
  then show ?case using rt(1) ress by (intro conjI exI[of _ ?rt]) auto
qed

lemma check_rule_names_ok: "check_rule_names seen rs = Inr () \<Longrightarrow> distinct (map pr_name rs) \<and> set seen \<inter> pr_name ` set rs = {}"
proof (induction rs arbitrary: seen)
  case (Cons r rs)
  then show ?case using Cons.IH[of "pr_name r # seen"] by (auto split: if_splits)
qed simp

lemma fresh_peer_runtime:
  "mk_obc_peer c has_transport has_fault_engine = Inr p \<Longrightarrow>
     op_config p = c \<and> rule_runtime_of name p = fresh_runtime"
proof -
  have "map_of (map (\<lambda>r. (pr_name r, fresh_runtime)) rules) name \<in> {None, Some fresh_runtime}" for rules
    by (induction rules) auto
  from this[of "pf_rules c"] show "mk_obc_peer c has_transport has_fault_engine = Inr p \<Longrightarrow> ?thesis"
    by (auto simp: mk_obc_peer_def res_bind_eq_Inr rule_runtime_of_def)
qed

lemma peer_rule_history:
  assumes "mk_peer_config c = Inr c" "mk_obc_peer c ht hf = Inr p" "r \<in> set (pf_rules c)"
    and "observe_all ops obs (p, t, fe) = Inr ress" "sorted (map (\<lambda>(_, _, now). now) obs)" "i < length obs"
  shows "fired (ress ! i) (pr_name r) \<longleftrightarrow>
     obs_sample r obs i = Some True \<and> held (pr_for r) (obs_time obs) (obs_sample r obs) i \<and>
     rested (pr_cooldown r) (obs_time obs) (\<lambda>k. fired (ress ! k) (pr_name r)) i"
proof -
  have c: "op_config p = c" using fresh_peer_runtime[OF assms(2)] by simp
  have d: "distinct (map pr_name (pf_rules (op_config p)))"
    using assms(1) c by (auto simp: mk_peer_config_def res_bind_eq_Inr dest: check_rule_names_ok)
  have fresh: "rule_runtime_of (pr_name r) p = fresh_runtime" using fresh_peer_runtime[OF assms(2)] by simp
  have "r \<in> set (pf_rules (op_config p))" using assms(3) c by simp
  from conjunct2[OF observe_all_runtimes[OF assms(4) d this]]
  obtain rt where rt: "rt 0 = fresh_runtime"
    "\<forall>i < length obs. gate_step r (obs_sample r obs i) (obs_time obs i) (rt i) =
        (fired (ress ! i) (pr_name r), rt (Suc i))"
    unfolding fresh by blast
  have "obs_time obs k \<le> obs_time obs j" if "k \<le> j" "j < length obs" for k j
    using assms(5) that sorted_nth_mono[of "map (\<lambda>(_, _, now). now) obs" k j]
    by (simp add: obs_time_def case_prod_beta)
  then have "\<forall>i < length obs. \<forall>k \<le> i. obs_time obs k \<le> obs_time obs i" by blast
  from gate_history[OF rt(2) this rt(1)] assms(6) show ?thesis by blast
qed

section \<open>Sending a named command\<close>

text \<open>The sender of a module on a CAN link: none yet, or one with the module's packet limit.\<close>

definition can_sender_ok :: "packet_sender option \<Rightarrow> int \<Rightarrow> bool" where
  "can_sender_ok sender m \<longleftrightarrow>
     (case sender of
        None \<Rightarrow> True
      | Some (CanPacketSender fg) \<Rightarrow>
          fg_max_packet_bytes fg = m \<and> (\<forall>n \<in> snd ` set (fg_packet_counts fg). n \<in> {0..3})
      | Some (WholePacketSender _) \<Rightarrow> False)"

lemma named_command_fields:
  assumes "mk_named_command c = Inr c"
  shows "\<exists>f. command_fields c = Inr f \<and> wf_csp_fields f \<and> cf_flags f AND CSP_FLAG_FRAGMENT = 0"
proof -
  obtain f where f: "command_fields c = Inr f" and enc: "is_ok (encode_command c None)"
    using assms by (auto simp: mk_named_command_def res_bind_eq_Inr is_ok_def)
  then obtain frames where "fragment_packet f (nd_payload c) None 0 = Inr frames"
    by (cases "fragment_packet f (nd_payload c) None 0") (auto simp: encode_command_def is_ok_def)
  moreover have "wf_csp_fields f"
    using f by (auto simp: command_fields_def mk_csp_fields_eq_Inr map_sum_def split: sum.splits)
  ultimately show ?thesis using f fragment_packet_InrD by blast
qed

lemma packet_count_ok:
  assumes "\<forall>n \<in> snd ` set counts. n \<in> {0..3}"
  shows "(case map_of counts s of None \<Rightarrow> 0 | Some c \<Rightarrow> c) \<in> {0..(3 :: int)}"
  using assms by (cases "map_of counts s") (auto dest!: map_of_SomeD)

lemma next_count_ok: "(n + 1) AND CSP_CAN_V2_PACKET_COUNT_MAX \<in> {0..(3 :: int)}"
  using take_bit_range[of 2 "n + 1"] by (simp add: and_masks)

lemma can_sender_frames:
  assumes "can_sender_ok (Some s) m" "wf_csp_fields f" "cf_flags f AND CSP_FLAG_FRAGMENT = 0"
    and "int (length payload) \<le> m"
  shows "\<exists>cfs s' n. sender_frames s f payload = Inr (map CanFrame cfs, s') \<and> can_sender_ok (Some s') m \<and>
     fragment_packet f payload (Some (sender_or_default f None)) n = Inr cfs"
proof -
  obtain fg where s: "s = CanPacketSender fg" and m: "fg_max_packet_bytes fg = m"
    and n: "\<forall>n \<in> snd ` set (fg_packet_counts fg). n \<in> {0..3}"
    using assms(1) by (cases s) (auto simp: can_sender_ok_def)
  let ?sv = "sender_or_default f None"
  let ?n = "case map_of (fg_packet_counts fg) ?sv of None \<Rightarrow> 0 | Some c \<Rightarrow> c"
  let ?counts = "AList.update ?sv ((?n + 1) AND CSP_CAN_V2_PACKET_COUNT_MAX) (fg_packet_counts fg)"
  have sv: "valid_sender (Some ?sv)"
    using sender_default_range[of f] by (simp add: valid_sender_def sender_or_default_def)
  obtain cfs where cfs: "fragment_packet f payload (Some ?sv) ?n = Inr cfs"
    using fragment_packet_eq[OF assms(2,3) sv packet_count_ok[OF n]] by blast
  have "\<forall>n \<in> snd ` set ?counts. n \<in> {0..3}"
  proof
    fix k assume "k \<in> snd ` set ?counts"
    then have "k = (?n + 1) AND CSP_CAN_V2_PACKET_COUNT_MAX \<or> k \<in> snd ` set (fg_packet_counts fg)"
      using set_update_subset[of ?sv "(?n + 1) AND CSP_CAN_V2_PACKET_COUNT_MAX" "fg_packet_counts fg"]
      by (force simp del: Set.image_insert)
    then show "k \<in> {0..3}" using n next_count_ok[of ?n] by metis
  qed
  then have "can_sender_ok (Some (CanPacketSender (fg\<lparr>fg_packet_counts := ?counts\<rparr>))) m"
    using m by (simp add: can_sender_ok_def)
  moreover have "sender_frames s f payload =
      Inr (map CanFrame cfs, CanPacketSender (fg\<lparr>fg_packet_counts := ?counts\<rparr>))"
    using cfs assms(4) m by (simp add: s sender_frames_def fragmenter_fragment_def Let_def)
  ultimately show ?thesis using cfs by blast
qed

text \<open>What an idle receiver of at least the packet's size makes of the frames.\<close>

lemma idle_receiver_delivers:
  assumes "wf_csp_fields f" "fragment_packet f payload sender n = Inr cfs" "length ts = length cfs"
    and "ra_partials r = []" "over_limit r (length payload) = None"
  shows "\<exists>evs. feed_all r (zip cfs ts) = Inr (evs, r) \<and> List.map_filter cfp_delivered evs = [(f, payload)]"
proof -
  have idle: "expire r t = ([], r)" for t using assms(4) by (simp add: expire_def)
  show ?thesis
    using feed_all_fragments[OF assms(1-3) _ _ assms(5)] assms(4) idle map_filter_pending
    by (simp add: map_filter_append cfp_delivered_def complete_event_def List.map_filter_simps)
qed

lemma emit_command_sends:
  assumes c: "mk_named_command c = Inr c" "map_of (pf_commands (op_config p)) name = Some c"
    and p: "op_has_transport p" "can_sender_ok (op_sender p) (pf_max_packet_bytes (op_config p))"
      "is_ok (validate_endpoint (default_source (op_module p)))"
    and len: "1 \<le> pf_max_packet_bytes (op_config p)"
      "int (length (nd_payload c)) \<le> pf_max_packet_bytes (op_config p)"
  shows "\<exists>envs p' bus' f cfs n. emit_command bus_adapter name (p, bus, fe) = (Inr envs, (p', bus', fe)) \<and>
     command_fields c = Inr f \<and> wf_csp_fields f \<and>
     fragment_packet f (nd_payload c) (Some (sender_or_default f None)) n = Inr cfs \<and>
     map env_frame envs = map CanFrame cfs \<and> bus_monitor bus' = bus_monitor bus @ envs \<and>
     can_sender_ok (op_sender p') (pf_max_packet_bytes (op_config p))"
proof -
  let ?m = "pf_max_packet_bytes (op_config p)"
  obtain f where f: "command_fields c = Inr f" "wf_csp_fields f" "cf_flags f AND CSP_FLAG_FRAGMENT = 0"
    using named_command_fields[OF c(1)] by blast
  obtain s where s: "(case op_sender p of Some s \<Rightarrow> Inr s | None \<Rightarrow> mk_can_sender ?m) = Inr s"
    "can_sender_ok (Some s) ?m"
  proof (cases "op_sender p")
    case None
    have "mk_can_sender ?m = Inr (CanPacketSender \<lparr>fg_max_packet_bytes = ?m, fg_packet_counts = []\<rparr>)"
      using len(1) by (simp add: mk_can_sender_def mk_fragmenter_def validate_max_packet_bytes_def)
    then show thesis using None that by (simp add: can_sender_ok_def)
  qed (use p(2) that in simp)
  obtain cfs s' n where fr: "sender_frames s f (nd_payload c) = Inr (map CanFrame cfs, s')"
    "can_sender_ok (Some s') ?m" "fragment_packet f (nd_payload c) (Some (sender_or_default f None)) n = Inr cfs"
    using can_sender_frames[OF s(2) f(2,3) len(2)] by blast
  obtain envs bus' where sent: "send_frames bus_adapter (default_source (op_module p)) (map CanFrame cfs) bus =
      (Inr envs, bus')" "map env_frame envs = map CanFrame cfs" "bus_monitor bus' = bus_monitor bus @ envs"
    using send_frames_bus[OF p(3)] by blast
  have "encode_command c (Some s) = Inr (map CanFrame cfs, Some s')"
    using f(1) fr(1) by (simp add: encode_command_def)
  then have "emit_command bus_adapter name (p, bus, fe) =
      (Inr envs, (p\<lparr>op_sender := Some s'\<rparr>, bus', fe))"
    using c(2) p(1) s(1) sent(1)
    by (cases "op_sender p") (simp_all add: emit_command_def bus_adapter_def Let_def)
  then show ?thesis using f fr sent by auto
qed

section \<open>Rules from the configuration\<close>

lemma coerce_threshold_op_value [simp]: "coerce_threshold_op (threshold_op_value opr) = Inr opr"
  by (cases opr) (simp_all add: coerce_threshold_op_def threshold_op_value_def)

lemma peer_fault_kind_value [simp]: "peer_fault_kind (fault_type_value k) = Inr k"
  by (cases k) (simp_all add: peer_fault_kind_def fault_type_value_def coerce_fault_kind_def)

definition config_action :: "obc_action \<Rightarrow> bool" where
  "config_action a \<longleftrightarrow> (\<exists>command. mk_rule_command command = Inr a) \<or>
     (\<exists>kind target v duration cycles. mk_rule_fault kind target v duration cycles = Inr a)"

lemma rule_fault_builds:
  assumes "mk_rule_fault kind target v duration cycles = Inr a"
  shows "is_ok (peer_action_from_config a)"
proof -
  obtain d c where a: "a = RuleInjectFault kind target v d c" and path: "is_path target"
    and tm: "time_ok d" "time_ok c" and chk: "check_fault_type_target kind target d c = Inr ()"
    using assms parse_virtual_duration_nonneg parse_cycle_count_nonneg
    by (auto simp: mk_rule_fault_def res_bind_eq_Inr cfg_path_Inr dest!: parse_optional_time_ok)
  have seg: "str_contains ''.model.'' target \<Longrightarrow> 3 \<le> length (str_split CHR ''.'' target)"
    "str_contains ''.telemetry.'' target \<Longrightarrow> 3 \<le> length (str_split CHR ''.'' target)"
    using marked_path_segments[of "''model''" target] marked_path_segments[of "''telemetry''" target] by simp_all
  have two: "2 \<le> length (str_split CHR ''.'' target)" using path by (simp add: is_path_def Let_def)
  have "peer_optional_count nm x = Inr x" if "time_ok x" for nm x
    using that by (cases x) (auto simp: peer_optional_count_def coerce_non_negative_int_def time_ok_def)
  then show ?thesis
    using chk path seg two tm unfolding a
    by (cases kind)
      (auto simp: peer_action_from_config_def mk_fault_action_def validate_fault_target_def peer_path_def
        check_fault_type_target_def is_ok_def split: if_splits)
qed

lemma config_action_builds: "config_action a \<Longrightarrow> is_ok (peer_action_from_config a)"
  using rule_fault_builds
  by (auto simp: config_action_def mk_rule_command_def cfg_identifier_def peer_action_from_config_def
      mk_command_action_def mod_identifier_def is_ok_def split: if_splits)

lemma coerce_float_value: "coerce_finite_float kind (PFloat x) = (if fl_is_finite x then Inr x else Inl (ModNotFinite kind))"
  by (simp add: coerce_finite_float_def)

lemma config_rule_builds:
  assumes "mk_obc_rule signal opr threshold hold cooldown actions = Inr r" "\<forall>a \<in> set actions. config_action a"
  shows "is_ok (peer_rule_from_config name r) \<longleftrightarrow> is_identifier name \<and> fl_is_finite threshold"
proof -
  obtain h c where r: "r = \<lparr>or_signal = signal, or_op = opr, or_threshold = threshold, or_for = h,
      or_cooldown = c, or_actions = actions\<rparr>"
    and path: "is_path signal" "3 \<le> length (str_split CHR ''.'' signal)"
    and hc: "0 \<le> h" "0 \<le> c" and ne: "actions \<noteq> []"
    using assms(1) parse_virtual_duration_nonneg
    by (auto simp: mk_obc_rule_def res_bind_eq_Inr cfg_path_Inr)
  have "is_ok (res_mapM peer_action_from_config as)" if "set as \<subseteq> set actions" for as
    using that
  proof (induction as)
    case (Cons a as)
    then have "is_ok (peer_action_from_config a)" using assms(2) config_action_builds by auto
    then show ?case using Cons by (auto simp: is_ok_conv)
  qed (simp add: is_ok_def)
  then obtain as where as: "res_mapM peer_action_from_config actions = Inr as"
    by (auto simp: is_ok_conv)
  then have "as \<noteq> []" using ne res_mapM_Inr_length by fastforce
  then show ?thesis
    using as path hc
    by (auto simp: r peer_rule_from_config_def mk_peer_condition_def peer_path_def coerce_float_value
        mk_peer_rule_def mod_identifier_def coerce_non_negative_int_def is_ok_def)
qed

section \<open>The module on the engine\<close>

definition exec_peer :: "'t adapter_ops \<Rightarrow> ('h, 't peer_world, peer_error) handler_exec" where
  "exec_peer ops h ev st =
     (case peer_handle_event ops ev (eng_now (fst st)) (snd st) of (r, w) \<Rightarrow> (r, (fst st, w)))"

text \<open>
  The handler schedules nothing itself, so the run loop terminates with it and dispatches in order
  whatever its rules do.
\<close>

interpretation peer_run: future_handlers "exec_peer ops" 1 for ops
  by unfold_locales (auto simp: exec_peer_def split: prod.splits)

section \<open>Properties\<close>

text \<open>
  C12: The trigger condition of an OBC rule over a whole run. A fresh module observes samples at
  non-decreasing times: a rule triggers at a sample exactly if the sample is of its signal and meets
  its threshold, the threshold has been met by every sample of that signal since one that is at least
  the rule's \<^verbatim>\<open>for\<close> duration old, and every earlier trigger of the rule is at least its cooldown ago.
\<close>

theorem obc_rule_triggers_iff:
  assumes "mk_peer_config c = Inr c" "mk_obc_peer c ht hf = Inr p" "r \<in> set (pf_rules c)"
    and "observe_all ops obs (p, t, fe) = Inr ress" "sorted (map (\<lambda>(_, _, now). now) obs)" "i < length obs"
  shows "fired (ress ! i) (pr_name r) \<longleftrightarrow>
     obs_sample r obs i = Some True \<and> held (pr_for r) (obs_time obs) (obs_sample r obs) i \<and>
     rested (pr_cooldown r) (obs_time obs) (\<lambda>k. fired (ress ! k) (pr_name r)) i"
  using assms by (rule peer_rule_history)

definition demo_rule :: peer_rule where
  "demo_rule = \<lparr>pr_name = ''low'', pr_condition = \<lparr>pc_signal = ''eps.telemetry.soc'', pc_op = TH_LT,
       pc_threshold = FL_ONE\<rparr>,
     pr_actions = [PeerFaultAction NAMED_FAULT ''eps.cell_dead'' (PBool True) None None],
     pr_for = 2, pr_cooldown = 3\<rparr>"

definition demo_peer_config :: peer_config where
  "demo_peer_config = \<lparr>pf_name = ''obc'', pf_endpoint = Some (EpNumber 1), pf_rules = [demo_rule],
     pf_commands = [], pf_max_packet_bytes = 64\<rparr>"

definition demo_peer :: obc_peer where
  "demo_peer = projr (mk_obc_peer demo_peer_config True True)"

definition demo_samples :: "(string \<times> py_val \<times> int) list" where
  "demo_samples = [(''eps.telemetry.soc'', PInt 0, 10), (''eps.telemetry.temp'', PInt 5, 11),
     (''eps.telemetry.soc'', PInt 0, 12), (''eps.telemetry.soc'', PInt 0, 13)]"

lemma obc_rule_triggers_iff_witness:
  "\<exists>ress. observe_all bus_adapter demo_samples (demo_peer, empty_bus, new_fault_engine) = Inr ress \<and>
     (fired (ress ! 2) ''low'' \<longleftrightarrow>
        obs_sample demo_rule demo_samples 2 = Some True \<and>
        held 2 (obs_time demo_samples) (obs_sample demo_rule demo_samples) 2 \<and>
        rested 3 (obs_time demo_samples) (\<lambda>k. fired (ress ! k) ''low'') 2) \<and> fired (ress ! 2) ''low''"
proof -
  have c: "mk_peer_config demo_peer_config = Inr demo_peer_config" by code_simp
  have p: "mk_obc_peer demo_peer_config True True = Inr demo_peer" by code_simp
  have r: "demo_rule \<in> set (pf_rules demo_peer_config)" by (simp add: demo_peer_config_def)
  have srt: "sorted (map (\<lambda>(_, _, now). now) demo_samples)" by (simp add: demo_samples_def)
  have len: "2 < length demo_samples" by (simp add: demo_samples_def)
  have "map_sum (\<lambda>_. ()) (\<lambda>ress. map (\<lambda>res. fired res ''low'') ress)
      (observe_all bus_adapter demo_samples (demo_peer, empty_bus, new_fault_engine)) = Inr [False, False, True, False]"
    by code_simp
  then obtain ress where run: "observe_all bus_adapter demo_samples (demo_peer, empty_bus, new_fault_engine) = Inr ress"
    and f: "map (\<lambda>res. fired res ''low'') ress = [False, False, True, False]"
    by (auto simp: map_sum_def split: sum.splits)
  have "length ress = 4" using arg_cong[OF f, of length] by simp
  then have "fired (ress ! 2) ''low''" using arg_cong[OF f, of "\<lambda>xs. xs ! 2"] by simp
  with obc_rule_triggers_iff[OF c p r run srt len] run show ?thesis by (simp add: demo_rule_def)
qed

text \<open>
  C34: A command action reaches its receiver. On the in-memory bus, with a transport and a CAN sender
  as the module creates them, emitting a configured named command within the packet limit returns,
  appends its frames to the monitored traffic, keeps the sender usable, and an idle receiver of at
  least the packet's size reassembles exactly the command's fields and payload from those frames.
\<close>

theorem obc_command_delivered:
  assumes "mk_named_command c = Inr c" "map_of (pf_commands (op_config p)) name = Some c"
    and "op_has_transport p" "can_sender_ok (op_sender p) (pf_max_packet_bytes (op_config p))"
      "is_ok (validate_endpoint (default_source (op_module p)))"
    and "1 \<le> pf_max_packet_bytes (op_config p)"
      "int (length (nd_payload c)) \<le> pf_max_packet_bytes (op_config p)"
    and "ra_partials r = []" "over_limit r (length (nd_payload c)) = None"
  shows "\<exists>envs p' bus' f cfs. emit_command bus_adapter name (p, bus, fe) = (Inr envs, (p', bus', fe)) \<and>
     command_fields c = Inr f \<and> map env_frame envs = map CanFrame cfs \<and>
     bus_monitor bus' = bus_monitor bus @ envs \<and>
     can_sender_ok (op_sender p') (pf_max_packet_bytes (op_config p)) \<and>
     (\<forall>ts. length ts = length cfs \<longrightarrow> (\<exists>evs. feed_all r (zip cfs ts) = Inr (evs, r) \<and>
        List.map_filter cfp_delivered evs = [(f, nd_payload c)]))"
  using emit_command_sends[OF assms(1-7), of bus fe] idle_receiver_delivers[OF _ _ _ assms(8,9)] by metis

definition demo_named :: named_command where
  "demo_named = \<lparr>nd_source = 1, nd_destination = 2, nd_destination_port = 10, nd_source_port = 20,
     nd_priority = 2, nd_flags = 0, nd_payload = [1, 2, 3, 4, 5, 6]\<rparr>"

lemma obc_command_delivered_witness:
  "\<exists>envs w. emit_command bus_adapter ''reset''
      (demo_peer\<lparr>op_config := demo_peer_config\<lparr>pf_commands := [(''reset'', demo_named)]\<rparr>\<rparr>, empty_bus,
       new_fault_engine) = (Inr envs, w)"
proof -
  let ?p = "demo_peer\<lparr>op_config := demo_peer_config\<lparr>pf_commands := [(''reset'', demo_named)]\<rparr>\<rparr>"
  have c: "mk_named_command demo_named = Inr demo_named" by code_simp
  have m: "map_of (pf_commands (op_config ?p)) ''reset'' = Some demo_named" by simp
  have p: "op_has_transport ?p" "op_sender ?p = None"
    "is_ok (validate_endpoint (default_source (op_module ?p)))"
    by code_simp+
  have s: "can_sender_ok (op_sender ?p) (pf_max_packet_bytes (op_config ?p))"
    unfolding p(2) by (simp add: can_sender_ok_def)
  let ?r = "\<lparr>ra_max_packet_bytes = None, ra_timeout_us = 1000, ra_partials = []\<rparr>"
  have r: "ra_partials ?r = []" "over_limit ?r (length (nd_payload demo_named)) = None"
    by (simp_all add: over_limit_def)
  have len: "1 \<le> pf_max_packet_bytes (op_config ?p)"
    "int (length (nd_payload demo_named)) \<le> pf_max_packet_bytes (op_config ?p)"
    by (simp_all add: demo_peer_config_def demo_named_def)
  show ?thesis using obc_command_delivered[OF c m p(1) s p(3) len r, of empty_bus new_fault_engine] by blast
qed

text \<open>
  C35: A rule that the configuration accepts becomes a runtime rule when the testbed is built, with two
  exceptions the configuration does not look at: the rule's name must be an identifier, and its
  threshold must be finite (TOML has \<^verbatim>\<open>inf\<close> and \<^verbatim>\<open>nan\<close>).
\<close>

theorem config_rule_builds_iff:
  assumes "mk_obc_rule signal opr threshold hold cooldown actions = Inr r" "\<forall>a \<in> set actions. config_action a"
  shows "is_ok (peer_rule_from_config name r) \<longleftrightarrow> is_identifier name \<and> fl_is_finite threshold"
  using assms by (rule config_rule_builds)

lemma config_rule_builds_iff_witness:
  "\<exists>r. mk_obc_rule ''eps.telemetry.soc'' TH_LT (FInf True) (PStr ''2s'') (PInt 0) [RuleSendCommand ''reset''] = Inr r \<and>
     \<not> is_ok (peer_rule_from_config ''low'' r)"
proof -
  have a: "mk_rule_command ''reset'' = Inr (RuleSendCommand ''reset'')" by code_simp
  have act: "\<forall>a \<in> set [RuleSendCommand ''reset'']. config_action a" using a by (auto simp: config_action_def)
  have "is_ok (mk_obc_rule ''eps.telemetry.soc'' TH_LT (FInf True) (PStr ''2s'') (PInt 0) [RuleSendCommand ''reset''])"
    by code_simp
  then obtain r where "mk_obc_rule ''eps.telemetry.soc'' TH_LT (FInf True) (PStr ''2s'') (PInt 0)
      [RuleSendCommand ''reset''] = Inr r"
    by (auto simp: is_ok_conv)
  then show ?thesis using config_rule_builds_iff[OF _ act] by fastforce
qed

end
