(* ===== verification/Assertions.thy ===== *)
theory Assertions
  imports Config
begin

text \<open>
  Scenario assertions (\<^verbatim>\<open>scenario/assertions.py\<close>): the declaration of a comparison over one telemetry
  signal, its evaluation with Python's own comparison operators, and the result. The detail text of a
  result is rendered from values with \<^verbatim>\<open>repr\<close>; the model keeps the values.
\<close>

section \<open>Comparison\<close>

datatype assertion_error =
    AsrOperator string
  | AsrNegativeTime string int
  | AsrEmpty string

definition assertion_op_value :: "assertion_op \<Rightarrow> string" where
  "assertion_op_value opr =
     (case opr of AOP_EQ \<Rightarrow> ''=='' | AOP_NE \<Rightarrow> ''!='' | AOP_GT \<Rightarrow> ''>'' | AOP_GTE \<Rightarrow> ''>=''
      | AOP_LT \<Rightarrow> ''<'' | AOP_LTE \<Rightarrow> ''<='')"

definition coerce_assertion_op :: "string \<Rightarrow> assertion_error + assertion_op" where
  "coerce_assertion_op s =
     (case find (\<lambda>opr. assertion_op_value opr = s) [AOP_EQ, AOP_NE, AOP_GT, AOP_GTE, AOP_LT, AOP_LTE] of
        Some opr \<Rightarrow> Inr opr
      | None \<Rightarrow> Inl (AsrOperator s))"

text \<open>A pair that Python cannot order compares as false.\<close>

definition compare_ordered :: "assertion_op \<Rightarrow> py_val \<Rightarrow> py_val \<Rightarrow> bool" where
  "compare_ordered opr actual expected =
     (case (case opr of
              AOP_GT \<Rightarrow> py_less expected actual
            | AOP_GTE \<Rightarrow> py_le expected actual
            | AOP_LT \<Rightarrow> py_less actual expected
            | _ \<Rightarrow> py_le actual expected) of
        Inl _ \<Rightarrow> False
      | Inr b \<Rightarrow> b)"

datatype assertion_detail =
    DetailCompared string assertion_op py_val py_val
  | DetailNeverObserved string

definition compare_values ::
  "py_val \<Rightarrow> assertion_op \<Rightarrow> py_val \<Rightarrow> string \<Rightarrow> bool \<times> assertion_detail" where
  "compare_values actual opr expected signal =
     (case opr of
        AOP_EQ \<Rightarrow> py_eq actual expected
      | AOP_NE \<Rightarrow> \<not> py_eq actual expected
      | _ \<Rightarrow> compare_ordered opr actual expected,
      DetailCompared signal opr expected actual)"

section \<open>Assertions and their results\<close>

record telemetry_assertion =
  ta_name :: string
  ta_signal :: string
  ta_operator :: assertion_op
  ta_expected :: py_val
  ta_timeout :: "int option"

definition check_assertion_time :: "string \<Rightarrow> int \<Rightarrow> assertion_error + int" where
  "check_assertion_time name v = (if v < 0 then Inl (AsrNegativeTime name v) else Inr v)"

definition check_assertion_text :: "string \<Rightarrow> string \<Rightarrow> assertion_error + string" where
  "check_assertion_text name s = (if str_strip s = [] then Inl (AsrEmpty name) else Inr s)"

definition mk_telemetry_assertion ::
  "string \<Rightarrow> string \<Rightarrow> string \<Rightarrow> py_val \<Rightarrow> int option \<Rightarrow> assertion_error + telemetry_assertion" where
  "mk_telemetry_assertion name signal opr expected timeout =
     res_bind (check_assertion_text ''assertion name'' name) (\<lambda>name.
     res_bind (check_assertion_text ''assertion signal'' signal) (\<lambda>signal.
     res_bind (coerce_assertion_op opr) (\<lambda>opr.
     res_bind (case timeout of None \<Rightarrow> Inr None
               | Some t \<Rightarrow> map_sum id Some (check_assertion_time ''timeout'' t)) (\<lambda>timeout.
       Inr \<lparr>ta_name = name, ta_signal = signal, ta_operator = opr, ta_expected = expected,
            ta_timeout = timeout\<rparr>))))"

record assertion_result =
  at_name :: string
  at_signal :: string
  at_operator :: assertion_op
  at_expected :: py_val
  at_actual :: py_val
  at_passed :: bool
  at_evaluated_at :: int
  at_detail :: assertion_detail

definition evaluate_assertion ::
  "telemetry_assertion \<Rightarrow> py_val \<Rightarrow> int \<Rightarrow> assertion_error + assertion_result" where
  "evaluate_assertion a actual now =
     res_bind (check_assertion_time ''evaluation time'' now) (\<lambda>t.
       case compare_values actual (ta_operator a) (ta_expected a) (ta_signal a) of (passed, detail) \<Rightarrow>
         Inr \<lparr>at_name = ta_name a, at_signal = ta_signal a, at_operator = ta_operator a,
              at_expected = ta_expected a, at_actual = actual, at_passed = passed,
              at_evaluated_at = t, at_detail = detail\<rparr>)"

section \<open>Facts\<close>

lemma coerce_assertion_op_value [simp]: "coerce_assertion_op (assertion_op_value opr) = Inr opr"
  by (cases opr) (simp_all add: coerce_assertion_op_def assertion_op_value_def)

lemma evaluate_assertion_ok:
  "0 \<le> now \<Longrightarrow> evaluate_assertion a actual now =
     Inr \<lparr>at_name = ta_name a, at_signal = ta_signal a, at_operator = ta_operator a,
          at_expected = ta_expected a, at_actual = actual,
          at_passed = fst (compare_values actual (ta_operator a) (ta_expected a) (ta_signal a)),
          at_evaluated_at = now, at_detail = DetailCompared (ta_signal a) (ta_operator a) (ta_expected a) actual\<rparr>"
  by (simp add: evaluate_assertion_def check_assertion_time_def compare_values_def)

end
