(* ===== verification/Registry.thy ===== *)
theory Registry
  imports Config "HOL-Library.List_Lexorder" "HOL-Library.Char_ord"
begin

text \<open>
  The module-type registry (\<^verbatim>\<open>modules/registry.py\<close>) and the roles of the configured nodes
  (\<^verbatim>\<open>dut/manager.py\<close>). The registry is a dictionary: a replaced entry keeps its place. A factory is a
  function of the program or of a package outside it, so its type is a parameter; a parameter class is
  what constructing it with the parameters does.
\<close>

section \<open>Registrations\<close>

datatype registry_error =
    RegIdentifier string
  | RegDuplicate string
  | RegNotRegistered string
  | RegUnknown string "string list"
  | RegNoParams string

type_synonym param_class = "(string \<times> py_val) list \<Rightarrow> string + unit"

record 'f registration =
  mr_module_type :: string
  mr_factory :: 'f
  mr_config_cls :: "param_class option"
  mr_build_order :: int
  mr_summary :: string

type_synonym 'f registry = "(string \<times> 'f registration) list"

abbreviation "BUILD_ORDER_INDEPENDENT \<equiv> 0 :: int"
abbreviation "BUILD_ORDER_CONSUMER \<equiv> 10 :: int"
abbreviation "BUILD_ORDER_SUPERVISOR \<equiv> 20 :: int"

definition mk_registration ::
  "string \<Rightarrow> 'f \<Rightarrow> param_class option \<Rightarrow> int \<Rightarrow> string \<Rightarrow> registry_error + 'f registration" where
  "mk_registration module_type factory config_cls build_order summary =
     (if is_identifier module_type
      then Inr \<lparr>mr_module_type = module_type, mr_factory = factory, mr_config_cls = config_cls,
                mr_build_order = build_order, mr_summary = summary\<rparr>
      else Inl (RegIdentifier module_type))"

definition register_module ::
  "string \<Rightarrow> 'f \<Rightarrow> param_class option \<Rightarrow> int \<Rightarrow> string \<Rightarrow> bool \<Rightarrow> 'f registry
    \<Rightarrow> registry_error + 'f registration \<times> 'f registry" where
  "register_module module_type factory config_cls build_order summary replace reg =
     res_bind (mk_registration module_type factory config_cls build_order summary) (\<lambda>r.
       if \<not> replace \<and> map_of reg (mr_module_type r) \<noteq> None then Inl (RegDuplicate (mr_module_type r))
       else Inr (r, AList.update (mr_module_type r) r reg))"

definition unregister_module :: "string \<Rightarrow> 'f registry \<Rightarrow> registry_error + 'f registry" where
  "unregister_module module_type reg =
     (case map_of reg module_type of
        None \<Rightarrow> Inl (RegNotRegistered module_type)
      | Some _ \<Rightarrow> Inr (AList.delete module_type reg))"

definition registered_module_types :: "'f registry \<Rightarrow> string list" where
  "registered_module_types reg = sort (map fst reg)"

definition module_registration :: "string \<Rightarrow> 'f registry \<Rightarrow> registry_error + 'f registration" where
  "module_registration module_type reg =
     (case map_of reg module_type of
        Some r \<Rightarrow> Inr r
      | None \<Rightarrow> Inl (RegUnknown module_type (registered_module_types reg)))"

definition registrations_in_build_order :: "'f registry \<Rightarrow> 'f registration list" where
  "registrations_in_build_order reg = sort_key mr_build_order (map snd reg)"

text \<open>The live view of the types that take parameters.\<close>

definition param_config :: "string \<Rightarrow> 'f registry \<Rightarrow> registry_error + param_class" where
  "param_config module_type reg =
     (case Option.bind (map_of reg module_type) mr_config_cls of
        Some c \<Rightarrow> Inr c
      | None \<Rightarrow> Inl (RegNoParams module_type))"

definition param_config_types :: "'f registry \<Rightarrow> string list" where
  "param_config_types reg = map fst (filter (\<lambda>(_, r). mr_config_cls r \<noteq> None) reg)"

text \<open>What the setup parser sees of the registry.\<close>

definition lookup_of :: "'f registry \<Rightarrow> module_lookup" where
  "lookup_of reg module_type = map_option mr_config_cls (map_of reg module_type)"

text \<open>The four module types of the package, over their factories and parameter classes.\<close>

definition built_in_modules ::
  "'f \<Rightarrow> 'f \<Rightarrow> 'f \<Rightarrow> 'f \<Rightarrow> param_class \<Rightarrow> param_class \<Rightarrow> param_class \<Rightarrow> 'f registry
    \<Rightarrow> registry_error + 'f registry" where
  "built_in_modules payload thermal eps obc payload_cls thermal_cls eps_cls reg =
     res_bind (register_module ''simple_payload'' payload (Some payload_cls) BUILD_ORDER_INDEPENDENT
                 ''basic power draw and command/data-volume behavior'' False reg) (\<lambda>(_, reg).
     res_bind (register_module ''thermal_rc'' thermal (Some thermal_cls) BUILD_ORDER_INDEPENDENT
                 ''single-node RC thermal model with a commandable heater'' False reg) (\<lambda>(_, reg).
     res_bind (register_module ''generic_eps'' eps (Some eps_cls) BUILD_ORDER_CONSUMER
                 ''battery/load/power-mode behavior and EPS telemetry'' False reg) (\<lambda>(_, reg).
     res_bind (register_module ''obc_peer'' obc None BUILD_ORDER_SUPERVISOR
                 ''stateless rule-engine mock OBC'' False reg) (\<lambda>(_, reg). Inr reg))))"

section \<open>Participants\<close>

datatype participant_kind = PK_SIMULATED | PK_SOFTWARE | PK_HARDWARE

record node_participant =
  np_name :: string
  np_kind :: participant_kind
  np_address :: int
  np_module_type :: "string option"

definition kind_of_mode :: "node_mode \<Rightarrow> participant_kind" where
  "kind_of_mode m =
     (case m of MODE_SIMULATED \<Rightarrow> PK_SIMULATED | MODE_SOFTWARE \<Rightarrow> PK_SOFTWARE | MODE_HARDWARE \<Rightarrow> PK_HARDWARE)"

definition is_simulated :: "node_participant \<Rightarrow> bool" where
  "is_simulated p \<longleftrightarrow> np_kind p = PK_SIMULATED"

definition is_external :: "node_participant \<Rightarrow> bool" where
  "is_external p \<longleftrightarrow> \<not> is_simulated p"

definition resolve_participants :: "testbed_config \<Rightarrow> (string \<times> node_participant) list" where
  "resolve_participants setup =
     map (\<lambda>(name, node). (name, \<lparr>np_name = name, np_kind = kind_of_mode (nc_mode node),
            np_address = nc_address node, np_module_type = nc_module_type node\<rparr>)) (tc_nodes setup)"

section \<open>The order modules are built in\<close>

datatype order_error = OrderUnknownType registry_error | OrderNoModuleType string

definition order_candidate ::
  "'f registry \<Rightarrow> string \<times> node_config \<Rightarrow> order_error + string \<times> 'f registration" where
  "order_candidate reg entry =
     (case entry of (node_name, node) \<Rightarrow>
        (case nc_module_type node of
           None \<Rightarrow> Inl (OrderNoModuleType node_name)
         | Some t \<Rightarrow> map_sum OrderUnknownType (Pair node_name) (module_registration t reg)))"

definition build_order ::
  "'f registry \<Rightarrow> testbed_config \<Rightarrow> (string \<times> node_participant) list
    \<Rightarrow> order_error + (string \<times> 'f registration) list" where
  "build_order reg setup participants =
     res_bind (res_mapM (order_candidate reg)
                 (filter (\<lambda>(name, _). case map_of participants name of
                            Some p \<Rightarrow> is_simulated p | None \<Rightarrow> False) (tc_nodes setup)))
       (\<lambda>candidates. Inr (sort_key (\<lambda>entry. mr_build_order (snd entry)) candidates))"

section \<open>Lemmas\<close>

lemma map_of_participants:
  "map_of (resolve_participants setup) name =
     map_option (\<lambda>node. \<lparr>np_name = name, np_kind = kind_of_mode (nc_mode node),
       np_address = nc_address node, np_module_type = nc_module_type node\<rparr>) (map_of (tc_nodes setup) name)"
proof -
  have "map_of (map (\<lambda>(name, node). (name, \<lparr>np_name = name, np_kind = kind_of_mode (nc_mode node),
      np_address = nc_address node, np_module_type = nc_module_type node\<rparr>)) nodes) name =
    map_option (\<lambda>node. \<lparr>np_name = name, np_kind = kind_of_mode (nc_mode node),
       np_address = nc_address node, np_module_type = nc_module_type node\<rparr>) (map_of nodes name)" for nodes
    by (induction nodes) auto
  then show ?thesis by (simp add: resolve_participants_def)
qed

lemma kind_of_mode_simulated [simp]: "kind_of_mode m = PK_SIMULATED \<longleftrightarrow> m = MODE_SIMULATED"
  by (cases m) (simp_all add: kind_of_mode_def)

lemma simulated_nodes:
  assumes "distinct (map fst (tc_nodes setup))"
  shows "filter (\<lambda>(name, _). case map_of (resolve_participants setup) name of
            Some p \<Rightarrow> is_simulated p | None \<Rightarrow> False) (tc_nodes setup) =
     filter (\<lambda>(_, node). nc_mode node = MODE_SIMULATED) (tc_nodes setup)"
proof (rule filter_cong[OF refl])
  fix entry assume "entry \<in> set (tc_nodes setup)"
  moreover obtain name node where e: "entry = (name, node)" by (cases entry)
  ultimately have "map_of (tc_nodes setup) name = Some node" using assms by simp
  then show "(case entry of (name, _) \<Rightarrow> case map_of (resolve_participants setup) name of
      Some p \<Rightarrow> is_simulated p | None \<Rightarrow> False) = (case entry of (_, node) \<Rightarrow> nc_mode node = MODE_SIMULATED)"
    by (simp add: e map_of_participants is_simulated_def)
qed

lemma order_candidate_Inr:
  "order_candidate reg (n, node) = Inr c \<Longrightarrow>
     \<exists>t. nc_module_type node = Some t \<and> map_of reg t = Some (snd c) \<and> fst c = n"
  by (auto simp: order_candidate_def module_registration_def map_sum_def split: option.splits)

lemma res_mapM_fst:
  assumes "res_mapM f xs = Inr ys" "\<And>x y. x \<in> set xs \<Longrightarrow> f x = Inr y \<Longrightarrow> fst y = fst x"
  shows "map fst ys = map fst xs"
  using assms
proof (induction xs arbitrary: ys)
  case (Cons x xs)
  then obtain y ys' where y: "f x = Inr y" "res_mapM f xs = Inr ys'" "ys = y # ys'"
    by (auto simp: res_bind_eq_Inr)
  have "map fst ys' = map fst xs" using Cons.IH[OF y(2)] Cons.prems(2) by (meson list.set_intros(2))
  moreover have "fst y = fst x" using Cons.prems(2)[OF _ y(1)] by simp
  ultimately show ?case using y(3) by simp
qed simp

lemma build_order_ok:
  assumes "build_order reg setup (resolve_participants setup) = Inr order" "distinct (map fst (tc_nodes setup))"
  shows "sorted (map (mr_build_order \<circ> snd) order) \<and>
     set (map fst order) = {n. \<exists>node. (n, node) \<in> set (tc_nodes setup) \<and> nc_mode node = MODE_SIMULATED} \<and>
     (\<forall>k. map fst (filter (\<lambda>e. mr_build_order (snd e) = k) order) =
        map fst (filter (\<lambda>(n, node). nc_mode node = MODE_SIMULATED \<and>
           (\<exists>t r. nc_module_type node = Some t \<and> map_of reg t = Some r \<and> mr_build_order r = k))
          (tc_nodes setup)))"
proof -
  let ?sim = "filter (\<lambda>(_, node). nc_mode node = MODE_SIMULATED) (tc_nodes setup)"
  obtain cs where cs: "res_mapM (order_candidate reg) ?sim = Inr cs"
    and order: "order = sort_key (\<lambda>e. mr_build_order (snd e)) cs"
    using assms by (auto simp: build_order_def simulated_nodes res_bind_eq_Inr)
  have c: "fst y = fst x \<and> (\<exists>t. nc_module_type (snd x) = Some t \<and> map_of reg t = Some (snd y))"
    if "order_candidate reg x = Inr y" for x y
    using that order_candidate_Inr[of reg "fst x" "snd x" y] by auto
  then have names: "map fst cs = map fst ?sim" using cs by (intro res_mapM_fst[of "order_candidate reg"]) auto
  have filt: "map fst (filter (\<lambda>e. mr_build_order (snd e) = k) ys) =
      map fst (filter (\<lambda>(n, node). \<exists>t r. nc_module_type node = Some t \<and> map_of reg t = Some r \<and>
         mr_build_order r = k) xs)"
    if "res_mapM (order_candidate reg) xs = Inr ys" for xs ys k
    using that
  proof (induction xs arbitrary: ys)
    case (Cons x xs)
    then obtain y ys' where y: "order_candidate reg x = Inr y" "res_mapM (order_candidate reg) xs = Inr ys'"
      "ys = y # ys'"
      by (auto simp: res_bind_eq_Inr)
    show ?case using c[OF y(1)] Cons.IH[OF y(2)] y(3) by (auto simp: case_prod_beta)
  qed simp
  have "sorted (map (mr_build_order \<circ> snd) order)" by (simp add: order comp_def)
  moreover have "set (map fst order) = set (map fst cs)" by (simp add: order)
  moreover have "set (map fst ?sim) = {n. \<exists>node. (n, node) \<in> set (tc_nodes setup) \<and> nc_mode node = MODE_SIMULATED}"
    by force
  moreover have "filter (\<lambda>e. mr_build_order (snd e) = k) order = filter (\<lambda>e. mr_build_order (snd e) = k) cs" for k
    unfolding order by (rule sort_key_stable)
  moreover have "map fst (filter (\<lambda>e. mr_build_order (snd e) = k) cs) =
      map fst (filter (\<lambda>(n, node). nc_mode node = MODE_SIMULATED \<and>
           (\<exists>t r. nc_module_type node = Some t \<and> map_of reg t = Some r \<and> mr_build_order r = k))
          (tc_nodes setup))" for k
    unfolding filt[OF cs] filter_filter by (rule arg_cong[where f = "map fst"], rule filter_cong) auto
  ultimately show ?thesis unfolding names by simp
qed

lemma accepted_nodes_ordered:
  assumes "\<forall>(n, node) \<in> set (tc_nodes setup). check_node_config (lookup_of reg) node = Inr node"
    and "distinct (map fst (tc_nodes setup))"
  shows "is_ok (build_order reg setup (resolve_participants setup))"
proof -
  have one: "is_ok (order_candidate reg (n, node))" if "(n, node) \<in> set (tc_nodes setup)"
    "nc_mode node = MODE_SIMULATED" for n node
  proof -
    note sim = that(2)
    have "check_node_config (lookup_of reg) node = Inr node" using assms(1) that(1) by auto
    then obtain t where "nc_module_type node = Some t" "map_of reg t \<noteq> None"
      using sim by (auto simp: check_node_config_def res_bind_eq_Inr lookup_of_def split: option.splits)
    then show ?thesis by (auto simp: order_candidate_def module_registration_def is_ok_def)
  qed
  have "is_ok (res_mapM (order_candidate reg) xs)"
    if "set xs \<subseteq> set (filter (\<lambda>(_, node). nc_mode node = MODE_SIMULATED) (tc_nodes setup))" for xs
    using that
  proof (induction xs)
    case (Cons x xs)
    then have "is_ok (order_candidate reg x)" using one[of "fst x" "snd x"] by (auto simp: case_prod_beta)
    then show ?case using Cons by (auto simp: is_ok_conv)
  qed (simp add: is_ok_def)
  from this[OF order_refl] show ?thesis
    using simulated_nodes[OF assms(2)] by (auto simp: build_order_def is_ok_conv)
qed

section \<open>Property\<close>

text \<open>
  For an accepted setup the build order, which is also the order modules tick in, exists; it
  contains exactly the simulated nodes, in non-decreasing \<^verbatim>\<open>build_order\<close> of their module types, and
  nodes that share a \<^verbatim>\<open>build_order\<close> stand in the order of the setup file.
\<close>

theorem build_order_stable:
  assumes "\<forall>(n, node) \<in> set (tc_nodes setup). check_node_config (lookup_of reg) node = Inr node"
    and "distinct (map fst (tc_nodes setup))"
  shows "\<exists>order. build_order reg setup (resolve_participants setup) = Inr order \<and>
     sorted (map (mr_build_order \<circ> snd) order) \<and>
     set (map fst order) = {n. \<exists>node. (n, node) \<in> set (tc_nodes setup) \<and> nc_mode node = MODE_SIMULATED} \<and>
     (\<forall>k. map fst (filter (\<lambda>e. mr_build_order (snd e) = k) order) =
        map fst (filter (\<lambda>(n, node). nc_mode node = MODE_SIMULATED \<and>
           (\<exists>t r. nc_module_type node = Some t \<and> map_of reg t = Some r \<and> mr_build_order r = k))
          (tc_nodes setup)))"
proof -
  obtain order where order: "build_order reg setup (resolve_participants setup) = Inr order"
    using accepted_nodes_ordered[OF assms] by (auto simp: is_ok_conv)
  show ?thesis using build_order_ok[OF order assms(2)] order by blast
qed

definition demo_registry :: "unit registry" where
  "demo_registry = projr (built_in_modules () () () () (\<lambda>_. Inr ()) (\<lambda>_. Inr ()) (\<lambda>_. Inr ()) [])"

definition demo_sim_node :: "int \<Rightarrow> string \<Rightarrow> node_config" where
  "demo_sim_node address module_type = \<lparr>nc_mode = MODE_SIMULATED, nc_address = address,
     nc_max_packet_bytes = 64, nc_module_type = Some module_type, nc_commands = [], nc_telemetry = [],
     nc_rules = [], nc_params = []\<rparr>"

definition demo_order_setup :: testbed_config where
  "demo_order_setup = \<lparr>tc_transport = InMemoryTransport,
     tc_nodes = [(''obc'', demo_sim_node 1 ''obc_peer''), (''eps'', demo_sim_node 2 ''generic_eps''),
       (''heater'', demo_sim_node 3 ''thermal_rc''), (''camera'', demo_sim_node 4 ''simple_payload'')]\<rparr>"

lemma build_order_stable_witness:
  "\<exists>order. build_order demo_registry demo_order_setup (resolve_participants demo_order_setup) = Inr order \<and>
     set (map fst order) = {n. \<exists>node. (n, node) \<in> set (tc_nodes demo_order_setup) \<and> nc_mode node = MODE_SIMULATED}"
proof -
  have "\<forall>(n, node) \<in> set (tc_nodes demo_order_setup). check_node_config (lookup_of demo_registry) node = Inr node"
    by code_simp
  moreover have "distinct (map fst (tc_nodes demo_order_setup))" by (simp add: demo_order_setup_def)
  ultimately show ?thesis using build_order_stable[of demo_order_setup demo_registry] by blast
qed

end
