(* ===== verification/Routing.thy ===== *)
theory Routing
  imports Registry
begin

text \<open>
  The routes of the scenario runner (\<^verbatim>\<open>scenario/runner.py\<close>): the command and telemetry routes built from
  a setup, the telemetry plan, the route a scenario step names and the route a received packet takes.
  A route is looked up by the addresses and ports of a packet, so \<open>packet_key\<close> is what two routes must
  not share.
\<close>

section \<open>Routes\<close>

datatype runner_error =
    RunBadSignal string
  | RunSignalOwner string string
  | RunUnknownTarget string
  | RunNotConfigured string "string option" "string option"
  | RunAmbiguousCommand string "string list"
  | RunAmbiguousFrame
  | RunAmbiguousTelemetry

record command_route =
  ro_command :: string
  ro_source_node :: string
  ro_target_node :: string
  ro_source_address :: int
  ro_destination_address :: int
  ro_destination_port :: int
  ro_source_port :: int
  ro_priority :: int
  ro_flags :: int
  ro_payload_hex :: "byte list"

record telemetry_route =
  tr_signal :: string
  tr_node_name :: string
  tr_field_name :: string
  tr_source_address :: int
  tr_destination_address :: int
  tr_destination_port :: int
  tr_source_port :: int
  tr_priority :: int
  tr_flags :: int
  tr_mapping :: telemetry_mapping

text \<open>\<^verbatim>\<open>signal.split(".", 2)\<close> with the checks on its three parts.\<close>

definition split_telemetry_signal :: "string \<Rightarrow> runner_error + string \<times> string" where
  "split_telemetry_signal signal =
     (let node = takeWhile (\<lambda>c. c \<noteq> CHR ''.'') signal;
          rest = dropWhile (\<lambda>c. c \<noteq> CHR ''.'') signal;
          kind = takeWhile (\<lambda>c. c \<noteq> CHR ''.'') (tl rest);
          rest' = dropWhile (\<lambda>c. c \<noteq> CHR ''.'') (tl rest)
      in if rest = [] \<or> rest' = [] \<or> kind \<noteq> ''telemetry'' \<or> node = [] \<or> tl rest' = []
         then Inl (RunBadSignal signal)
         else Inr (node, tl rest'))"

definition command_route_of ::
  "testbed_config \<Rightarrow> string \<Rightarrow> node_config \<Rightarrow> string \<times> command_mapping \<Rightarrow> runner_error + command_route" where
  "command_route_of setup source_node node entry =
     (case entry of (command_name, command) \<Rightarrow>
        (case map_of (tc_nodes setup) (cm_target command) of
           None \<Rightarrow> Inl (RunUnknownTarget (cm_target command))
         | Some target \<Rightarrow>
             Inr \<lparr>ro_command = command_name, ro_source_node = source_node,
                  ro_target_node = cm_target command, ro_source_address = nc_address node,
                  ro_destination_address = nc_address target,
                  ro_destination_port = cm_destination_port command,
                  ro_source_port = cm_source_port command, ro_priority = cm_priority command,
                  ro_flags = cm_flags command, ro_payload_hex = cm_payload_hex command\<rparr>))"

definition build_command_routes :: "testbed_config \<Rightarrow> runner_error + command_route list" where
  "build_command_routes setup =
     map_sum id concat
       (res_mapM (\<lambda>(n, node). res_mapM (command_route_of setup n node) (nc_commands node)) (tc_nodes setup))"

definition telemetry_route_of ::
  "string \<Rightarrow> node_config \<Rightarrow> string \<times> telemetry_mapping \<Rightarrow> runner_error + telemetry_route" where
  "telemetry_route_of node_name node entry =
     (case entry of (telemetry_name, mapping) \<Rightarrow>
        let signal = resolved_signal mapping node_name telemetry_name in
        res_bind (split_telemetry_signal signal) (\<lambda>(signal_node, field_name).
          if signal_node \<noteq> node_name then Inl (RunSignalOwner signal node_name)
          else Inr \<lparr>tr_signal = signal, tr_node_name = node_name, tr_field_name = field_name,
                    tr_source_address = nc_address node, tr_destination_address = nc_address node,
                    tr_destination_port = tm_destination_port mapping,
                    tr_source_port = tm_source_port mapping, tr_priority = tm_priority mapping,
                    tr_flags = tm_flags mapping, tr_mapping = mapping\<rparr>))"

definition build_telemetry_routes :: "testbed_config \<Rightarrow> runner_error + telemetry_route list" where
  "build_telemetry_routes setup =
     map_sum id concat
       (res_mapM (\<lambda>(n, node). res_mapM (telemetry_route_of n node) (nc_telemetry node)) (tc_nodes setup))"

text \<open>The fields each node reports, by node in order of first appearance.\<close>

fun telemetry_plan_loop ::
  "telemetry_route list \<Rightarrow> (string \<times> string list) list \<Rightarrow> string list
    \<Rightarrow> (string \<times> string list) list \<times> string list" where
  "telemetry_plan_loop [] by_node order = (by_node, order)"
| "telemetry_plan_loop (r # rs) by_node order =
     (case map_of by_node (tr_node_name r) of
        None \<Rightarrow>
          telemetry_plan_loop rs (AList.update (tr_node_name r) [tr_field_name r] by_node)
            (order @ [tr_node_name r])
      | Some fs \<Rightarrow>
          telemetry_plan_loop rs (AList.update (tr_node_name r) (fs @ [tr_field_name r]) by_node) order)"

definition telemetry_plan_from_routes ::
  "telemetry_route list \<Rightarrow> (string \<times> string list) list \<times> string list" where
  "telemetry_plan_from_routes routes = telemetry_plan_loop routes [] []"

section \<open>Finding a route\<close>

definition resolve_command_route ::
  "command_route list \<Rightarrow> string \<Rightarrow> string option \<Rightarrow> string option \<Rightarrow> runner_error + command_route" where
  "resolve_command_route routes command source target =
     (let candidates = filter (\<lambda>r. ro_command r = command) routes;
          candidates = (case source of None \<Rightarrow> candidates
                        | Some s \<Rightarrow> filter (\<lambda>r. ro_source_node r = s) candidates);
          candidates = (case target of None \<Rightarrow> candidates
                        | Some t \<Rightarrow> filter (\<lambda>r. ro_target_node r = t) candidates)
      in (case candidates of
            [] \<Rightarrow> Inl (RunNotConfigured command source target)
          | [r] \<Rightarrow> Inr r
          | _ \<Rightarrow> Inl (RunAmbiguousCommand command (map ro_source_node candidates))))"

type_synonym packet_key = "int \<times> int \<times> int \<times> int"

definition packet_key :: "csp_fields \<Rightarrow> packet_key" where
  "packet_key f = (cf_source f, cf_destination f, cf_destination_port f, cf_source_port f)"

definition command_key :: "command_route \<Rightarrow> packet_key" where
  "command_key r = (ro_source_address r, ro_destination_address r, ro_destination_port r, ro_source_port r)"

definition telemetry_key :: "telemetry_route \<Rightarrow> packet_key" where
  "telemetry_key r = (tr_source_address r, tr_destination_address r, tr_destination_port r, tr_source_port r)"

definition command_route_for_packet ::
  "command_route list \<Rightarrow> csp_fields \<Rightarrow> byte list \<Rightarrow> runner_error + command_route option" where
  "command_route_for_packet routes f payload =
     (let candidates = filter (\<lambda>r. command_key r = packet_key f) routes;
          exact_payload = filter (\<lambda>r. ro_payload_hex r = payload) candidates
      in if length exact_payload = 1 then Inr (Some (hd exact_payload))
         else if exact_payload = [] \<and> length candidates = 1 then Inr (Some (hd candidates))
         else if candidates = [] then Inr None
         else Inl RunAmbiguousFrame)"

definition telemetry_route_for_packet ::
  "telemetry_route list \<Rightarrow> csp_fields \<Rightarrow> runner_error + telemetry_route option" where
  "telemetry_route_for_packet routes f =
     (let candidates = filter (\<lambda>r. telemetry_key r = packet_key f) routes
      in if length candidates = 1 then Inr (Some (hd candidates))
         else if candidates = [] then Inr None
         else Inl RunAmbiguousTelemetry)"

datatype packet_destination =
    ToCommand command_route
  | ToTelemetry telemetry_route
  | Unrouted

text \<open>The choice of \<^verbatim>\<open>_route_packet\<close>: command routes first, then telemetry; anything else is ignored.\<close>

definition packet_route ::
  "command_route list \<Rightarrow> telemetry_route list \<Rightarrow> csp_fields \<Rightarrow> byte list \<Rightarrow> runner_error + packet_destination" where
  "packet_route commands telemetry f payload =
     res_bind (command_route_for_packet commands f payload) (\<lambda>c.
       case c of
         Some r \<Rightarrow> Inr (ToCommand r)
       | None \<Rightarrow>
           res_bind (telemetry_route_for_packet telemetry f) (\<lambda>t.
             case t of Some r \<Rightarrow> Inr (ToTelemetry r) | None \<Rightarrow> Inr Unrouted))"

text \<open>The name a traced packet gets; what delivery refuses as ambiguous is here a note of its own.\<close>

datatype packet_annotation =
    NoteCommand command_route
  | NoteAmbiguousCommand
  | NoteTelemetry telemetry_route "telemetry_codec_error + py_val"
  | NoteAmbiguousTelemetry
  | NoteUnrouted

definition annotate_packet ::
  "command_route list \<Rightarrow> telemetry_route list \<Rightarrow> csp_fields \<Rightarrow> byte list \<Rightarrow> packet_annotation" where
  "annotate_packet command_routes telemetry_routes f payload =
     (let commands = filter (\<lambda>r. command_key r = packet_key f) command_routes;
          exact_payload = filter (\<lambda>r. ro_payload_hex r = payload) commands;
          telemetry = filter (\<lambda>r. telemetry_key r = packet_key f) telemetry_routes
      in if length exact_payload = 1 then NoteCommand (hd exact_payload)
         else if length commands = 1 then NoteCommand (hd commands)
         else if commands \<noteq> [] then NoteAmbiguousCommand
         else if length telemetry = 1
         then NoteTelemetry (hd telemetry)
                (decode_telemetry_value (tr_field_name (hd telemetry)) (tr_mapping (hd telemetry)) payload)
         else if telemetry \<noteq> [] then NoteAmbiguousTelemetry
         else NoteUnrouted)"

text \<open>The fields of the packets the runner sends on a route.\<close>

definition command_packet_fields :: "command_route \<Rightarrow> csp_error + csp_fields" where
  "command_packet_fields r =
     mk_csp_fields (ro_priority r) (ro_source_address r) (ro_destination_address r)
       (ro_destination_port r) (ro_source_port r) (ro_flags r)"

definition telemetry_packet_fields :: "telemetry_route \<Rightarrow> csp_error + csp_fields" where
  "telemetry_packet_fields r =
     mk_csp_fields (tr_priority r) (tr_source_address r) (tr_destination_address r)
       (tr_destination_port r) (tr_source_port r) (tr_flags r)"

section \<open>Routes of an accepted setup\<close>

lemma res_mapM_all_Inr:
  assumes "\<And>x. x \<in> set xs \<Longrightarrow> f x = Inr (g x)"
  shows "res_mapM f xs = Inr (map g xs)"
  using assms by (induction xs) auto

definition plain_command_route :: "testbed_config \<Rightarrow> string \<Rightarrow> node_config \<Rightarrow> string \<times> command_mapping \<Rightarrow> command_route" where
  "plain_command_route setup n node e = projr (command_route_of setup n node e)"

lemma plain_command_route_fields:
  assumes "command_route_of setup n node (c, m) = Inr r"
  shows "ro_command r = c \<and> ro_source_node r = n \<and> ro_target_node r = cm_target m"
  using assms by (auto simp: command_route_of_def split: option.splits)

lemma accepted_commands_have_targets:
  assumes "check_testbed_config setup = Inr setup'" "(n, node) \<in> set (tc_nodes setup)" "e \<in> set (nc_commands node)"
  shows "\<exists>r. command_route_of setup n node e = Inr r"
proof -
  have "\<exists>ys. res_mapM (\<lambda>(node_name, node). res_mapM (check_command setup node_name node) (nc_commands node))
      (tc_nodes setup) = Inr ys"
    using testbed_checks[OF assms(1)] by (simp add: check_command_mappings_def map_sum_unit_Inr)
  then obtain ys where "res_mapM (check_command setup n node) (nc_commands node) = Inr ys"
    using res_mapM_Inr_all[OF _ assms(2)] by fastforce
  then obtain u where "check_command setup n node e = Inr u" using res_mapM_Inr_all[OF _ assms(3)] by blast
  then show ?thesis
    by (auto simp: check_command_def command_route_of_def res_bind_eq_Inr split: prod.splits)
qed

lemma accepted_command_routes:
  assumes "check_testbed_config setup = Inr setup'"
  shows "build_command_routes setup =
     Inr (concat (map (\<lambda>(n, node). map (plain_command_route setup n node) (nc_commands node)) (tc_nodes setup)))"
proof -
  have "res_mapM (command_route_of setup n node) (nc_commands node) =
      Inr (map (plain_command_route setup n node) (nc_commands node))"
    if "(n, node) \<in> set (tc_nodes setup)" for n node
    using accepted_commands_have_targets[OF assms that]
    by (intro res_mapM_all_Inr) (force simp: plain_command_route_def)
  then have "res_mapM (\<lambda>(n, node). res_mapM (command_route_of setup n node) (nc_commands node)) (tc_nodes setup) =
      Inr (map (\<lambda>(n, node). map (plain_command_route setup n node) (nc_commands node)) (tc_nodes setup))"
    by (intro res_mapM_all_Inr) auto
  then show ?thesis by (simp add: build_command_routes_def)
qed

lemma filter_key:
  "distinct (map fst ps) \<Longrightarrow>
     filter (\<lambda>p. fst p = k) ps = (case map_of ps k of None \<Rightarrow> [] | Some v \<Rightarrow> [(k, v)])"
proof (induction ps)
  case (Cons p ps)
  obtain k' v where p: "p = (k', v)" by (cases p)
  have "map_of ps k' = None" using Cons.prems p by (simp add: map_of_eq_None_iff)
  then show ?case using Cons p by auto
qed simp

lemma routes_of_command:
  assumes "check_testbed_config setup = Inr setup'" "build_command_routes setup = Inr routes"
    and "\<forall>(n, node) \<in> set (tc_nodes setup). distinct (map fst (nc_commands node))"
  shows "map (\<lambda>r. (ro_source_node r, ro_target_node r)) (filter (\<lambda>r. ro_command r = c) routes) =
     map (\<lambda>(s, m). (s, cm_target m)) (commands_named setup c)"
proof -
  have node: "map (\<lambda>r. (ro_source_node r, ro_target_node r))
      (filter (\<lambda>r. ro_command r = c) (map (plain_command_route setup n node) (nc_commands node))) =
      (case map_of (nc_commands node) c of None \<Rightarrow> [] | Some m \<Rightarrow> [(n, cm_target m)])"
    if "(n, node) \<in> set (tc_nodes setup)" for n node
  proof -
    note here = that
    have f: "ro_command (plain_command_route setup n node e) = fst e \<and>
        ro_source_node (plain_command_route setup n node e) = n \<and>
        ro_target_node (plain_command_route setup n node e) = cm_target (snd e)"
      if "e \<in> set (nc_commands node)" for e
      using accepted_commands_have_targets[OF assms(1) here that]
        plain_command_route_fields[of "setup" n node "fst e" "snd e"]
      by (auto simp: plain_command_route_def)
    have "filter (\<lambda>r. ro_command r = c) (map (plain_command_route setup n node) (nc_commands node)) =
        map (plain_command_route setup n node) (filter (\<lambda>e. fst e = c) (nc_commands node))"
      unfolding filter_map
      by (rule arg_cong[where f = "map (plain_command_route setup n node)"], rule filter_cong) (simp_all add: f)
    moreover have "filter (\<lambda>e. fst e = c) (nc_commands node) =
        (case map_of (nc_commands node) c of None \<Rightarrow> [] | Some m \<Rightarrow> [(c, m)])"
      using assms(3) that by (intro filter_key) auto
    ultimately show ?thesis
      using f by (auto split: option.splits dest: map_of_SomeD)
  qed
  have "map (\<lambda>r. (ro_source_node r, ro_target_node r))
      (filter (\<lambda>r. ro_command r = c)
         (concat (map (\<lambda>(n, node). map (plain_command_route setup n node) (nc_commands node)) nodes))) =
     map (\<lambda>(s, m). (s, cm_target m))
       (List.map_filter (\<lambda>(n, node). map_option (Pair n) (map_of (nc_commands node) c)) nodes)"
    if "set nodes \<subseteq> set (tc_nodes setup)" for nodes
    using that
  proof (induction nodes)
    case (Cons p nodes)
    then show ?case using node[of "fst p" "snd p"]
      by (cases p) (auto simp: List.map_filter_simps split: option.splits)
  qed (simp add: List.map_filter_simps)
  from this[OF subset_refl] show ?thesis
    using assms(2) accepted_command_routes[OF assms(1)] by (auto simp: commands_named_def)
qed

lemma commands_named_of_node:
  assumes "distinct (map fst (tc_nodes setup))"
  shows "filter (\<lambda>e. fst e = s) (commands_named setup c) =
     (case Option.bind (map_of (tc_nodes setup) s) (\<lambda>node. map_of (nc_commands node) c) of
        None \<Rightarrow> [] | Some m \<Rightarrow> [(s, m)])"
proof -
  have "filter (\<lambda>e. fst e = s)
      (List.map_filter (\<lambda>(n, node). map_option (Pair n) (map_of (nc_commands node) c)) nodes) =
     (case Option.bind (map_of nodes s) (\<lambda>node. map_of (nc_commands node) c) of
        None \<Rightarrow> [] | Some m \<Rightarrow> [(s, m)])"
    if "distinct (map fst nodes)" for nodes
    using that
  proof (induction nodes)
    case (Cons p nodes)
    obtain n node where p: "p = (n, node)" by (cases p)
    have "map_of nodes n = None" using Cons.prems p by (simp add: map_of_eq_None_iff)
    then show ?case using Cons p
      by (auto simp: List.map_filter_simps split: option.splits)
  qed (simp add: List.map_filter_simps)
  then show ?thesis using assms by (simp add: commands_named_def)
qed

lemma map_eq_single: "map f xs = [y] \<Longrightarrow> \<exists>x. xs = [x] \<and> f x = y"
  by (cases xs) auto

lemma filter_map_commute: "map f (filter (\<lambda>x. P (f x)) xs) = filter P (map f xs)"
  by (induction xs) auto

text \<open>A reference the scenario check accepts resolves, without any further check, to one route.\<close>

lemma reference_resolves:
  assumes "check_testbed_config setup = Inr setup'" "build_command_routes setup = Inr routes"
    and "\<forall>(n, node) \<in> set (tc_nodes setup). distinct (map fst (nc_commands node))"
    and "distinct (map fst (tc_nodes setup))"
    and "check_command_reference setup i c source target = []"
  shows "\<exists>r. resolve_command_route routes c source target = Inr r \<and> r \<in> set routes \<and> ro_command r = c \<and>
     (\<forall>s. source = Some s \<longrightarrow> ro_source_node r = s) \<and> (\<forall>t. target = Some t \<longrightarrow> ro_target_node r = t)"
proof -
  let ?ends = "\<lambda>r. (ro_source_node r, ro_target_node r)"
  let ?C = "filter (\<lambda>r. ro_command r = c) routes"
  have ends: "map ?ends ?C = map (\<lambda>(s, m). (s, cm_target m)) (commands_named setup c)"
    by (rule routes_of_command[OF assms(1-3)])
  let ?S = "case source of None \<Rightarrow> ?C | Some s \<Rightarrow> filter (\<lambda>r. ro_source_node r = s) ?C"
  have "\<exists>s m. map ?ends ?S = [(s, cm_target m)] \<and> check_command_target i c target s m = [] \<and>
      (\<forall>s'. source = Some s' \<longrightarrow> s' = s)"
  proof (cases source)
    case None
    then obtain s m where "commands_named setup c = [(s, m)]" "check_command_target i c target s m = []"
      using assms(5) by (auto simp: check_command_reference_def split: if_splits list.splits)
    then show ?thesis using None ends by auto
  next
    case (Some s)
    obtain m where m: "Option.bind (map_of (tc_nodes setup) s) (\<lambda>node. map_of (nc_commands node) c) = Some m"
      "check_command_target i c target s m = []"
      using assms(5) Some by (auto simp: check_command_reference_def split: if_splits option.splits)
    have "map ?ends (filter (\<lambda>r. ro_source_node r = s) ?C) = filter (\<lambda>e. fst e = s) (map ?ends ?C)"
      using filter_map_commute[of ?ends "\<lambda>e. fst e = s" ?C] by simp
    also have "\<dots> = map (\<lambda>(s, m). (s, cm_target m)) (filter (\<lambda>e. fst e = s) (commands_named setup c))"
      unfolding ends filter_map by (rule arg_cong[where f = "map _"], rule filter_cong) auto
    finally show ?thesis using commands_named_of_node[OF assms(4), of s c] m Some by auto
  qed
  then obtain s m r where r: "?S = [r]" "ro_source_node r = s" "ro_target_node r = cm_target m"
    "check_command_target i c target s m = []" "\<forall>s'. source = Some s' \<longrightarrow> s' = s"
    using map_eq_single[of ?ends ?S] by blast
  have "r \<in> set ?S" by (simp add: r(1))
  then have mem: "r \<in> set routes" "ro_command r = c" by (auto split: option.splits)
  have tgt: "\<forall>t. target = Some t \<longrightarrow> ro_target_node r = t"
    using r(3,4) by (auto simp: check_command_target_def split: if_splits)
  then have "resolve_command_route routes c source target = Inr r"
    using r(1) by (cases target) (simp_all add: resolve_command_route_def)
  then show ?thesis using mem tgt r(2,5) by auto
qed

lemma str_split_last_empty: "1 < length (str_split sep (a @ [sep])) \<and> last (str_split sep (a @ [sep])) = []"
proof (induction a)
  case (Cons c a)
  then obtain x y ys where "str_split sep (a @ [sep]) = x # y # ys"
    by (cases "str_split sep (a @ [sep])"; cases "tl (str_split sep (a @ [sep]))") auto
  with Cons show ?case by (auto split: if_splits)
qed simp

lemma path_not_dot_ended: "\<not> is_path (a @ ''.'')"
proof
  let ?ss = "str_split CHR ''.'' (a @ ''.'')"
  assume "is_path (a @ ''.'')"
  moreover have "[] \<in> set ?ss" using str_split_last_empty[of "CHR ''.''" a] last_in_set[of ?ss] by fastforce
  ultimately have "is_identifier []" by (auto simp: is_path_def Let_def list_all_iff)
  then show False by (simp add: is_identifier_def)
qed

lemma split_own_signal:
  assumes "is_identifier n" "is_path signal" "str_starts_with (n @ ''.telemetry.'') signal"
  shows "\<exists>f. split_telemetry_signal signal = Inr (n, f)"
proof -
  obtain f where s: "signal = n @ ''.telemetry.'' @ f"
    using assms(3) unfolding str_starts_with_def by (metis append.assoc append_take_drop_id)
  have "f \<noteq> []" using assms(2) path_not_dot_ended[of "n @ ''.telemetry''"] by (auto simp: s)
  have n: "n \<noteq> []" "\<forall>c \<in> set n. c \<noteq> CHR ''.''"
    using assms(1) identifier_no_dot[OF assms(1)] by (auto simp: is_identifier_def)
  then have "takeWhile (\<lambda>c. c \<noteq> CHR ''.'') signal = n"
    "dropWhile (\<lambda>c. c \<noteq> CHR ''.'') signal = ''.telemetry.'' @ f"
    by (simp_all add: s takeWhile_append2 dropWhile_append2)
  then show ?thesis using n \<open>f \<noteq> []\<close> by (simp add: split_telemetry_signal_def)
qed

lemma accepted_telemetry_routes:
  assumes "check_testbed_config setup = Inr setup'" "distinct (map fst (tc_nodes setup))"
    and "\<forall>(n, node) \<in> set (tc_nodes setup). distinct (map fst (nc_telemetry node))"
  shows "\<exists>routes. build_telemetry_routes setup = Inr routes \<and> map tr_signal routes = telemetry_signal_names setup"
proof -
  note ok = conjunct2[OF conjunct2[OF testbed_consistent[OF assms]]]
  let ?r = "\<lambda>n node e. projr (telemetry_route_of n node e)"
  have one: "telemetry_route_of n node (t, m) = Inr (?r n node (t, m)) \<and>
      tr_signal (?r n node (t, m)) = resolved_signal m n t"
    if "(n, node) \<in> set (tc_nodes setup)" "(t, m) \<in> set (nc_telemetry node)" for n node t m
  proof -
    have "is_identifier n" "is_path (resolved_signal m n t)"
      "str_starts_with (n @ ''.telemetry.'') (resolved_signal m n t)"
      using ok that by fast+
    from split_own_signal[OF this] obtain f where "split_telemetry_signal (resolved_signal m n t) = Inr (n, f)" ..
    then show ?thesis by (simp add: telemetry_route_of_def)
  qed
  have "res_mapM (telemetry_route_of n node) (nc_telemetry node) = Inr (map (?r n node) (nc_telemetry node))"
    if "(n, node) \<in> set (tc_nodes setup)" for n node
    using one[OF that] by (intro res_mapM_all_Inr) auto
  then have "res_mapM (\<lambda>(n, node). res_mapM (telemetry_route_of n node) (nc_telemetry node)) (tc_nodes setup) =
      Inr (map (\<lambda>(n, node). map (?r n node) (nc_telemetry node)) (tc_nodes setup))"
    by (intro res_mapM_all_Inr) auto
  then have "build_telemetry_routes setup =
      Inr (concat (map (\<lambda>(n, node). map (?r n node) (nc_telemetry node)) (tc_nodes setup)))"
    by (simp add: build_telemetry_routes_def)
  moreover have "map tr_signal (concat (map (\<lambda>(n, node). map (?r n node) (nc_telemetry node)) (tc_nodes setup))) =
      telemetry_signal_names setup"
    unfolding telemetry_signal_names_def map_concat map_map
    using one by (intro arg_cong[where f = concat]) (auto intro!: map_cong simp: comp_def)
  ultimately show ?thesis by blast
qed

section \<open>The route of a packet\<close>

lemma distinct_singleton_list: "set ys = {x} \<Longrightarrow> distinct ys \<Longrightarrow> ys = [x]"
proof (cases ys)
  case (Cons y zs)
  assume "set ys = {x}" "distinct ys"
  then have "y = x" "set zs \<subseteq> {x}" "x \<notin> set zs" using Cons by auto
  then have "set zs = {}" by (auto simp: subset_singleton_iff)
  then show ?thesis using Cons \<open>y = x\<close> by simp
qed simp

lemma filter_unique:
  assumes "distinct xs" "x \<in> set xs" "P x"
  shows "filter P xs = [x] \<longleftrightarrow> (\<forall>y \<in> set xs. P y \<longrightarrow> y = x)"
proof
  assume f: "filter P xs = [x]"
  show "\<forall>y \<in> set xs. P y \<longrightarrow> y = x"
  proof (intro ballI impI)
    fix y assume "y \<in> set xs" "P y"
    then have "y \<in> set (filter P xs)" by simp
    then show "y = x" by (simp add: f)
  qed
next
  assume u: "\<forall>y \<in> set xs. P y \<longrightarrow> y = x"
  have "set (filter P xs) = {x}" unfolding set_filter using u assms(2,3) by blast
  then show "filter P xs = [x]" by (rule distinct_singleton_list) (simp add: assms(1))
qed

lemma length_one_hd: "length xs = 1 \<and> hd xs = x \<longleftrightarrow> xs = [x]"
  by (cases xs) auto

lemma command_packet_key: "command_packet_fields r = Inr f \<Longrightarrow> packet_key f = command_key r"
  by (auto simp: command_packet_fields_def mk_csp_fields_eq_Inr packet_key_def command_key_def)

lemma telemetry_packet_key: "telemetry_packet_fields r = Inr f \<Longrightarrow> packet_key f = telemetry_key r"
  by (auto simp: telemetry_packet_fields_def mk_csp_fields_eq_Inr packet_key_def telemetry_key_def)

lemma own_command_routed:
  assumes "distinct cr" "r \<in> set cr" "command_packet_fields r = Inr f"
  shows "packet_route cr tr f (ro_payload_hex r) = Inr (ToCommand r) \<longleftrightarrow>
     (\<forall>r' \<in> set cr. command_key r' = command_key r \<and> ro_payload_hex r' = ro_payload_hex r \<longrightarrow> r' = r)"
proof -
  let ?C = "filter (\<lambda>r'. command_key r' = packet_key f) cr"
  let ?E = "filter (\<lambda>r'. ro_payload_hex r' = ro_payload_hex r) ?C"
  have E: "?E = filter (\<lambda>r'. command_key r' = command_key r \<and> ro_payload_hex r' = ro_payload_hex r) cr"
    by (simp add: command_packet_key[OF assms(3)] filter_filter conj_commute)
  have ne: "?E \<noteq> []" using assms(2) unfolding E by (auto simp: filter_empty_conv)
  have ne': "?C \<noteq> []" using assms(2) command_packet_key[OF assms(3)] by (auto simp: filter_empty_conv)
  have "packet_route cr tr f (ro_payload_hex r) = Inr (ToCommand r) \<longleftrightarrow> length ?E = 1 \<and> hd ?E = r"
    using ne ne' unfolding packet_route_def command_route_for_packet_def Let_def by (auto simp del: filter_filter)
  also have "\<dots> \<longleftrightarrow> ?E = [r]" by (rule length_one_hd)
  finally show ?thesis unfolding E using filter_unique[OF assms(1,2)] by auto
qed

lemma own_telemetry_routed:
  assumes "distinct tr" "t \<in> set tr" "telemetry_packet_fields t = Inr f"
    and "\<forall>r \<in> set cr. command_key r \<noteq> telemetry_key t"
  shows "packet_route cr tr f payload = Inr (ToTelemetry t) \<longleftrightarrow>
     (\<forall>t' \<in> set tr. telemetry_key t' = telemetry_key t \<longrightarrow> t' = t)"
proof -
  let ?T = "filter (\<lambda>t'. telemetry_key t' = telemetry_key t) tr"
  note key = telemetry_packet_key[OF assms(3)]
  have ne: "?T \<noteq> []" using assms(2) by (auto simp: filter_empty_conv)
  have "filter (\<lambda>r. command_key r = packet_key f) cr = []"
    using assms(4) by (auto simp: filter_empty_conv key)
  then have "command_route_for_packet cr f payload = Inr None"
    by (simp add: command_route_for_packet_def)
  then have "packet_route cr tr f payload = Inr (ToTelemetry t) \<longleftrightarrow> length ?T = 1 \<and> hd ?T = t"
    using ne unfolding packet_route_def telemetry_route_for_packet_def Let_def key by auto
  also have "\<dots> \<longleftrightarrow> ?T = [t]" by (rule length_one_hd)
  finally show ?thesis using filter_unique[OF assms(1,2)] by auto
qed

section \<open>Properties\<close>

lemma scenario_step_accepted:
  assumes "validate_scenario_references scenario setup = Inr ()" "step \<in> set (ss_steps scenario)"
  shows "\<exists>i. check_step_references setup i step = []"
proof -
  obtain k where k: "k < length (ss_steps scenario)" "ss_steps scenario ! k = step"
    using assms(2) by (auto simp: in_set_conv_nth)
  have "(Suc k, step) \<in> set (enumerate 1 (ss_steps scenario))"
    using k by (auto simp: in_set_conv_nth nth_enumerate_eq intro!: exI[of _ k])
  then have "check_step_references setup (Suc k) step = []"
    using assms(1) by (auto simp: validate_scenario_references_def Let_def split: if_splits)
  then show ?thesis ..
qed

text \<open>
  C21: The runner never fails to resolve what the parser accepted. For an accepted setup all routes can
  be built, with pairwise different telemetry signals; and for a scenario whose references were
  validated against it every command step resolves to exactly one command route, with the command,
  the source and the target it names, and every assertion reads the signal of a telemetry route.
\<close>

theorem accepted_scenario_resolves:
  assumes "check_testbed_config setup = Inr setup'" "distinct (map fst (tc_nodes setup))"
    and "\<forall>(n, node) \<in> set (tc_nodes setup). distinct (map fst (nc_commands node)) \<and> distinct (map fst (nc_telemetry node))"
    and "validate_scenario_references scenario setup = Inr ()"
  shows "\<exists>cr tr. build_command_routes setup = Inr cr \<and> build_telemetry_routes setup = Inr tr \<and>
     distinct (map tr_signal tr) \<and>
     (\<forall>step \<in> set (ss_steps scenario).
        case step of
          SendCommandStep c source target payload \<Rightarrow>
            (\<exists>r \<in> set cr. resolve_command_route cr c source target = Inr r \<and> ro_command r = c \<and>
               (\<forall>s. source = Some s \<longrightarrow> ro_source_node r = s) \<and> (\<forall>t. target = Some t \<longrightarrow> ro_target_node r = t))
        | AssertStep signal opr v timeout name \<Rightarrow> (\<exists>r \<in> set tr. tr_signal r = signal)
        | _ \<Rightarrow> True)"
proof -
  have d: "\<forall>(n, node) \<in> set (tc_nodes setup). distinct (map fst (nc_commands node))"
    "\<forall>(n, node) \<in> set (tc_nodes setup). distinct (map fst (nc_telemetry node))"
    using assms(3) by auto
  obtain cr where cr: "build_command_routes setup = Inr cr" using accepted_command_routes[OF assms(1)] by blast
  obtain tr where tr: "build_telemetry_routes setup = Inr tr" "map tr_signal tr = telemetry_signal_names setup"
    using accepted_telemetry_routes[OF assms(1,2) d(2)] by blast
  have "case step of
      SendCommandStep c source target payload \<Rightarrow>
        (\<exists>r \<in> set cr. resolve_command_route cr c source target = Inr r \<and> ro_command r = c \<and>
           (\<forall>s. source = Some s \<longrightarrow> ro_source_node r = s) \<and> (\<forall>t. target = Some t \<longrightarrow> ro_target_node r = t))
    | AssertStep signal opr v timeout name \<Rightarrow> (\<exists>r \<in> set tr. tr_signal r = signal)
    | _ \<Rightarrow> True" if step: "step \<in> set (ss_steps scenario)" for step
  proof -
    obtain i where i: "check_step_references setup i step = []"
      using scenario_step_accepted[OF assms(4) step] by blast
    show ?thesis
    proof (cases step)
      case (SendCommandStep c source target payload)
      then show ?thesis
        using i reference_resolves[OF assms(1) cr d(1) assms(2), of i c source target]
        by (auto simp: check_step_references_def)
    next
      case (AssertStep signal opr v timeout name)
      then have "signal \<in> set (map tr_signal tr)" using i tr(2) by (auto simp: check_step_references_def split: if_splits)
      then show ?thesis using AssertStep by auto
    qed simp_all
  qed
  moreover have "distinct (map tr_signal tr)" using testbed_consistent[OF assms(1,2) d(2)] tr(2) by simp
  ultimately show ?thesis using cr tr(1) by blast
qed

definition demo_scenario :: scenario_script where
  "demo_scenario = \<lparr>ss_name = ''demo'', ss_description = None,
     ss_steps = [SendCommandStep ''reset'' None (Some ''eps'') PNone,
       AssertStep ''eps.telemetry.soc'' AOP_GT (PInt 3) None None]\<rparr>"

lemma accepted_scenario_resolves_witness:
  "\<exists>cr r. build_command_routes demo_setup = Inr cr \<and>
     resolve_command_route cr ''reset'' None (Some ''eps'') = Inr r \<and> ro_target_node r = ''eps''"
proof -
  have "distinct (map fst (tc_nodes demo_setup))" by code_simp
  moreover have "\<forall>(n, node) \<in> set (tc_nodes demo_setup). distinct (map fst (nc_commands node)) \<and>
      distinct (map fst (nc_telemetry node))"
    by code_simp
  moreover have "validate_scenario_references demo_scenario demo_setup = Inr ()" by code_simp
  ultimately show ?thesis
    using accepted_scenario_resolves[OF demo_setup_accepted] by (fastforce simp: demo_scenario_def)
qed

text \<open>
  C22: When a packet the runner sends comes back to its own route. In any routes without duplicates, a packet sent on
  a command route whose fields form a CSP header is delivered as that command exactly if no other command route has
  the same addresses, ports and payload, whatever the telemetry routes. In any routes without duplicates, a packet
  sent on a telemetry route whose fields form a CSP header is delivered as its signal, whatever its payload and
  provided no command route uses its addresses and ports, exactly if no other telemetry route does.
\<close>

theorem packet_returns_to_route:
  "(\<forall>cr tr r f. distinct cr \<and> r \<in> set cr \<and> command_packet_fields r = Inr f \<longrightarrow>
      (packet_route cr tr f (ro_payload_hex r) = Inr (ToCommand r) \<longleftrightarrow>
       (\<forall>r' \<in> set cr. command_key r' = command_key r \<and> ro_payload_hex r' = ro_payload_hex r \<longrightarrow> r' = r))) \<and>
   (\<forall>cr tr t g payload. distinct tr \<and> t \<in> set tr \<and> telemetry_packet_fields t = Inr g \<and>
      (\<forall>r \<in> set cr. command_key r \<noteq> telemetry_key t) \<longrightarrow>
      (packet_route cr tr g payload = Inr (ToTelemetry t) \<longleftrightarrow>
       (\<forall>t' \<in> set tr. telemetry_key t' = telemetry_key t \<longrightarrow> t' = t)))"
  using own_command_routed own_telemetry_routed by blast

definition demo_route :: command_route where
  "demo_route = hd (projr (build_command_routes demo_setup))"

definition demo_troute :: telemetry_route where
  "demo_troute = hd (projr (build_telemetry_routes demo_setup))"

lemma packet_returns_to_route_witness:
  "\<exists>f g. packet_route [demo_route] [demo_troute] f [1, 2] = Inr (ToCommand demo_route) \<and>
     packet_route [demo_route] [demo_troute] g [7, 0] = Inr (ToTelemetry demo_troute)"
proof -
  have "is_ok (command_packet_fields demo_route)" "is_ok (telemetry_packet_fields demo_troute)"
    by code_simp+
  then obtain f g where f: "command_packet_fields demo_route = Inr f"
    and g: "telemetry_packet_fields demo_troute = Inr g"
    by (auto simp: is_ok_conv)
  have key: "command_key demo_route \<noteq> telemetry_key demo_troute" by code_simp
  have payload: "ro_payload_hex demo_route = [1, 2]" by code_simp
  have "packet_route [demo_route] [demo_troute] f [1, 2] = Inr (ToCommand demo_route)"
    using packet_returns_to_route[THEN conjunct1, rule_format, of "[demo_route]" demo_route f "[demo_troute]"] f
    by (simp add: payload)
  moreover have "packet_route [demo_route] [demo_troute] g [7, 0] = Inr (ToTelemetry demo_troute)"
    using packet_returns_to_route[THEN conjunct2, rule_format, of "[demo_troute]" demo_troute g "[demo_route]" "[7, 0]"] g key
    by simp
  ultimately show ?thesis by blast
qed

end
