(* ===== verification/EngineNested.thy ===== *)
theory EngineNested
  imports Engine
begin

text \<open>
  Handlers that run the engine themselves (\<^verbatim>\<open>engine.py\<close> is re-entrant, and the scenario runner relies on
  it: its recurring step dispatches the events of the same instant from inside a handler). Such a
  handler may pop events, so it is not a sequence of scheduling calls. \<open>nested_handlers\<close> asks of a
  dispatch only that it returns at the same virtual time in a state that satisfies an invariant of the
  client, or raises one of the exceptions the client expects.
\<close>

lemma popped_inv:
  assumes "engine_inv e" "eng_queue e = q # rest"
  shows "engine_inv (e\<lparr>eng_queue := rest, eng_now := qe_time q\<rparr>)" "eng_now e \<le> qe_time q"
  using assms by (auto simp: engine_inv_def qe_key_def)

locale nested_handlers =
  fixes exec :: "('h, 's, 'x) handler_exec" and I :: "'h engine \<times> 's \<Rightarrow> bool" and good :: "'x \<Rightarrow> bool"
  assumes I_inv: "I (e, s) \<Longrightarrow> engine_inv e"
    and I_jump: "I (e, s) \<Longrightarrow> \<not> due (Some h) e \<Longrightarrow> eng_now e \<le> h \<Longrightarrow> I (e\<lparr>eng_now := h\<rparr>, s)"
    and I_dispatch: "I (e, s) \<Longrightarrow> eng_queue e = q # rest \<Longrightarrow>
      dispatch exec q (e\<lparr>eng_queue := rest, eng_now := qe_time q\<rparr>, s) = (r, (e', s')) \<Longrightarrow>
      (case r of Inl x \<Rightarrow> good x | Inr _ \<Rightarrow> I (e', s') \<and> eng_now e' = qe_time q)"
begin

lemma run_next_nested:
  assumes "run_next exec (e, s) = (r, (e', s'))" "eng_queue e = q # rest" "I (e, s)"
  shows "case r of Inl x \<Rightarrow> good x
     | Inr ev \<Rightarrow> I (e', s') \<and> eng_now e' = qe_time q \<and> eng_now e \<le> qe_time q \<and> ev = Some (qe_event q)"
proof -
  obtain r1 where dis: "dispatch exec q (e\<lparr>eng_queue := rest, eng_now := qe_time q\<rparr>, s) = (r1, (e', s'))"
    using assms(1,2) by (cases "dispatch exec q (e\<lparr>eng_queue := rest, eng_now := qe_time q\<rparr>, s)")
      (auto simp: run_next_def split: sum.splits)
  show ?thesis
    using I_dispatch[OF assms(3,2) dis] dis assms(1,2) popped_inv(2)[OF I_inv[OF assms(3)] assms(2)]
    by (auto simp: run_next_def split: sum.splits)
qed

lemma run_loop_nested:
  assumes "run_loop exec (Some h) (Some n) (e, s) disp = Some (r, (e', s'))" "I (e, s)" "eng_now e \<le> h"
  shows "case r of
        Inl x \<Rightarrow> good x
      | Inr (evs, limited) \<Rightarrow> I (e', s') \<and> eng_now e \<le> eng_now e' \<and> eng_now e' \<le> h \<and>
          (if limited then length evs = length disp + n else \<not> due (Some h) e')"
  using assms
proof (induction n arbitrary: e s disp)
  case 0
  then show ?case by (cases "due (Some h) e") (auto simp: run_loop_simps)
next
  case (Suc n)
  show ?case
  proof (cases "due (Some h) e")
    case False
    then show ?thesis using Suc.prems by (auto simp: run_loop_simps)
  next
    case True
    obtain q rest where q: "eng_queue e = q # rest" "qe_time q \<le> h" using due_head[OF True] by auto
    obtain r1 e1 s1 where nx: "run_next exec (e, s) = (r1, (e1, s1))" by (cases "run_next exec (e, s)") auto
    note c = run_next_nested[OF nx q(1) Suc.prems(2)]
    show ?thesis
    proof (cases r1)
      case (Inl x)
      then show ?thesis using Suc.prems(1) nx True c by (auto simp: run_loop_step)
    next
      case (Inr ev)
      then have ev: "r1 = Inr (Some (qe_event q))" using c by simp
      then have "run_loop exec (Some h) (Some n) (e1, s1) (disp @ [qe_event q]) = Some (r, (e', s'))"
        using Suc.prems(1) nx True by (simp add: run_loop_step)
      from Suc.IH[OF this] c ev q(2) show ?thesis by (auto split: sum.splits)
    qed
  qed
qed

text \<open>
  A bounded run returns; without an exception it ends within the horizon, and at the horizon with
  nothing left to dispatch if it did not reach the bound.
\<close>

lemma run_until_nested:
  assumes "I (e, s)" "eng_now e \<le> time" "0 \<le> n"
  shows "\<exists>r e' s'. run_until exec time (Some n) (e, s) = Some (r, (e', s')) \<and>
     (case r of
        Inl (HandlerRaised x) \<Rightarrow> good x
      | Inl (EngineFailed _) \<Rightarrow> False
      | Inr evs \<Rightarrow> I (e', s') \<and> eng_now e \<le> eng_now e' \<and> eng_now e' \<le> time \<and>
          (int (length evs) < n \<longrightarrow> eng_now e' = time \<and> \<not> due (Some time) e'))"
proof -
  have time: "0 \<le> time" using I_inv[OF assms(1)] assms(2) by (simp add: engine_inv_def)
  obtain r1 e1 s1 where loop: "run_loop exec (Some time) (Some (nat n)) (e, s) [] = Some (r1, (e1, s1))"
    using run_loop_bounded by (metis prod.collapse)
  note c = run_loop_nested[OF loop assms(1,2)]
  have out: "run_until exec time (Some n) (e, s) = Some (case r1 of Inl x \<Rightarrow> (Inl (HandlerRaised x), (e1, s1))
      | Inr (evs, limited) \<Rightarrow> (Inr evs, if limited then (e1, s1) else (e1\<lparr>eng_now := time\<rparr>, s1)))"
    using assms time loop
    by (auto simp: run_until_def check_virtual_time_def check_optional_count_def split: sum.splits prod.splits)
  show ?thesis
  proof (cases r1)
    case (Inl x)
    then show ?thesis using out c by auto
  next
    case (Inr res)
    then obtain evs limited where res: "r1 = Inr (evs, limited)" by (cases res) auto
    show ?thesis
    proof (cases limited)
      case True
      then show ?thesis using out c res assms by auto
    next
      case False
      have "I (e1\<lparr>eng_now := time\<rparr>, s1)" using I_jump[of e1 s1 time] c res False by simp
      moreover have "\<not> due (Some time) (e1\<lparr>eng_now := time\<rparr>)" using c res False by (simp add: due_def)
      ultimately show ?thesis using out c res False assms(2) by auto
    qed
  qed
qed

end

text \<open>Handlers that only schedule keep the timeline well-formed, whatever they raise.\<close>

sublocale api_handlers \<subseteq> nested_handlers exec "\<lambda>st. engine_inv (fst st)" "\<lambda>_. True"
proof unfold_locales
  fix e :: "'a engine" and h and s :: 'b
  assume "engine_inv (fst (e, s))" "\<not> due (Some h) e" "eng_now e \<le> h"
  then show "engine_inv (fst (e\<lparr>eng_now := h\<rparr>, s))"
    using inv_at_horizon[of e h] by (simp add: engine_inv_def)
next
  fix e q rest r e' s s'
  assume I: "engine_inv (fst (e, s))" and q: "eng_queue e = q # rest"
    and d: "dispatch exec q (e\<lparr>eng_queue := rest, eng_now := qe_time q\<rparr>, s) = (r, (e', s'))"
  show "case r of Inl x \<Rightarrow> True | Inr _ \<Rightarrow> engine_inv (fst (e', s')) \<and> eng_now e' = qe_time q"
    using dispatch_extends[OF d] popped_inv(1)[OF _ q] I by (auto simp: engine_extends_def split: sum.splits)
qed simp

end
