(* ===== verification/Actions.thy ===== *)
theory Actions
  imports Prelude
begin

text \<open>
  Python methods that change objects and may raise. An action is a function from the state to a result
  and the state after it; the state is returned in both cases, because an exception leaves the effects
  made before it. \<open>act_keeps\<close> says that an action keeps an invariant whatever its outcome, \<open>act_rel\<close>
  that it moves the state along a reflexive and transitive relation, \<open>act_post\<close> what holds when it
  returns a value.
\<close>

section \<open>Actions\<close>

type_synonym ('s, 'e, 'a) act = "'s \<Rightarrow> ('e + 'a) \<times> 's"

definition act_return :: "'a \<Rightarrow> ('s, 'e, 'a) act" where "act_return x s = (Inr x, s)"

definition act_fail :: "'e \<Rightarrow> ('s, 'e, 'a) act" where "act_fail e s = (Inl e, s)"

definition act_lift :: "'e + 'a \<Rightarrow> ('s, 'e, 'a) act" where "act_lift r s = (r, s)"

definition act_get :: "('s \<Rightarrow> 'a) \<Rightarrow> ('s, 'e, 'a) act" where "act_get f s = (Inr (f s), s)"

definition act_modify :: "('s \<Rightarrow> 's) \<Rightarrow> ('s, 'e, unit) act" where "act_modify f s = (Inr (), f s)"

definition act_bind :: "('s, 'e, 'a) act \<Rightarrow> ('a \<Rightarrow> ('s, 'e, 'b) act) \<Rightarrow> ('s, 'e, 'b) act" where
  "act_bind m f s = (case m s of (Inl e, s1) \<Rightarrow> (Inl e, s1) | (Inr x, s1) \<Rightarrow> f x s1)"

abbreviation act_then :: "('s, 'e, 'a) act \<Rightarrow> ('s, 'e, 'b) act \<Rightarrow> ('s, 'e, 'b) act" where
  "act_then m n \<equiv> act_bind m (\<lambda>_. n)"

fun act_each :: "('a \<Rightarrow> ('s, 'e, unit) act) \<Rightarrow> 'a list \<Rightarrow> ('s, 'e, unit) act" where
  "act_each f [] = act_return ()"
| "act_each f (x # xs) = act_then (f x) (act_each f xs)"

fun act_map :: "('a \<Rightarrow> ('s, 'e, 'b) act) \<Rightarrow> 'a list \<Rightarrow> ('s, 'e, 'b list) act" where
  "act_map f [] = act_return []"
| "act_map f (x # xs) = act_bind (f x) (\<lambda>y. act_bind (act_map f xs) (\<lambda>ys. act_return (y # ys)))"

text \<open>\<^verbatim>\<open>for _ in range(n)\<close>.\<close>

primrec act_repeat :: "nat \<Rightarrow> ('s, 'e, unit) act \<Rightarrow> ('s, 'e, unit) act" where
  "act_repeat 0 m = act_return ()"
| "act_repeat (Suc n) m = act_then m (act_repeat n m)"

text \<open>An action on a part of the state, and one whose exceptions are wrapped.\<close>

definition act_on :: "('s \<Rightarrow> 'p) \<Rightarrow> ('p \<Rightarrow> 's \<Rightarrow> 's) \<Rightarrow> ('p, 'e, 'a) act \<Rightarrow> ('s, 'e, 'a) act" where
  "act_on get put m s = (case m (get s) of (r, p) \<Rightarrow> (r, put p s))"

definition act_err :: "('e \<Rightarrow> 'f) \<Rightarrow> ('s, 'e, 'a) act \<Rightarrow> ('s, 'f, 'a) act" where
  "act_err f m s = (case m s of (r, s1) \<Rightarrow> (map_sum f id r, s1))"

text \<open>A function that returns the new state with its value and changes nothing when it raises.\<close>

definition act_pure :: "('s \<Rightarrow> 'e + 'a \<times> 's) \<Rightarrow> ('s, 'e, 'a) act" where
  "act_pure f s = (case f s of Inl e \<Rightarrow> (Inl e, s) | Inr (x, s1) \<Rightarrow> (Inr x, s1))"

lemmas act_defs = act_return_def act_fail_def act_lift_def act_get_def act_modify_def act_bind_def
  act_on_def act_err_def act_pure_def

section \<open>What an action keeps\<close>

definition act_rel :: "('s \<Rightarrow> 's \<Rightarrow> bool) \<Rightarrow> ('s, 'e, 'a) act \<Rightarrow> bool" where
  "act_rel R m \<longleftrightarrow> (\<forall>s. R s (snd (m s)))"

definition act_keeps :: "('s \<Rightarrow> bool) \<Rightarrow> ('s, 'e, 'a) act \<Rightarrow> bool" where
  "act_keeps I m \<longleftrightarrow> (\<forall>s. I s \<longrightarrow> I (snd (m s)))"

definition act_post :: "('s \<Rightarrow> bool) \<Rightarrow> ('s, 'e, 'a) act \<Rightarrow> ('a \<Rightarrow> 's \<Rightarrow> bool) \<Rightarrow> bool" where
  "act_post P m Q \<longleftrightarrow> (\<forall>s. P s \<longrightarrow> (case m s of (Inl _, _) \<Rightarrow> True | (Inr x, s1) \<Rightarrow> Q x s1))"

named_theorems act_intros \<open>rules for what actions keep\<close>

lemma act_keepsD: "act_keeps I m \<Longrightarrow> I s \<Longrightarrow> m s = (r, s1) \<Longrightarrow> I s1"
  by (metis act_keeps_def snd_conv)

lemma act_relD: "act_rel R m \<Longrightarrow> m s = (r, s1) \<Longrightarrow> R s s1"
  by (metis act_rel_def snd_conv)

lemma act_postD: "act_post P m Q \<Longrightarrow> P s \<Longrightarrow> m s = (Inr x, s1) \<Longrightarrow> Q x s1"
  unfolding act_post_def by fastforce

lemma act_keepsI: "(\<And>s r s1. I s \<Longrightarrow> m s = (r, s1) \<Longrightarrow> I s1) \<Longrightarrow> act_keeps I m"
  unfolding act_keeps_def by (metis prod.collapse)

lemma act_relI: "(\<And>s r s1. m s = (r, s1) \<Longrightarrow> R s s1) \<Longrightarrow> act_rel R m"
  unfolding act_rel_def by (metis prod.collapse)

lemma act_keeps_simple [act_intros]:
  "act_keeps I (act_return x)" "act_keeps I (act_fail e)" "act_keeps I (act_lift r)" "act_keeps I (act_get f)"
  by (auto simp: act_keeps_def act_defs)

lemma act_keeps_modify [act_intros]: "(\<And>s. I s \<Longrightarrow> I (f s)) \<Longrightarrow> act_keeps I (act_modify f)"
  by (auto simp: act_keeps_def act_defs)

lemma act_keeps_bind [act_intros]:
  "act_keeps I m \<Longrightarrow> (\<And>x. act_keeps I (f x)) \<Longrightarrow> act_keeps I (act_bind m f)"
  unfolding act_keeps_def act_bind_def by (fastforce split: prod.splits sum.splits)

lemma act_keeps_bind_post:
  assumes "act_keeps I m" "\<And>s x s1. I s \<Longrightarrow> m s = (Inr x, s1) \<Longrightarrow> Q x" "\<And>x. Q x \<Longrightarrow> act_keeps I (f x)"
  shows "act_keeps I (act_bind m f)"
proof (rule act_keepsI)
  fix s r s2
  assume s: "I s" and run: "act_bind m f s = (r, s2)"
  obtain r1 s1 where m: "m s = (r1, s1)" by (cases "m s")
  have s1: "I s1" using act_keepsD[OF assms(1) s m] .
  show "I s2"
  proof (cases r1)
    case (Inl e)
    then show ?thesis using run m s1 by (simp add: act_bind_def)
  next
    case (Inr x)
    then have "act_keeps I (f x)" using assms(2)[OF s] assms(3) m by blast
    moreover have "f x s1 = (r, s2)" using run m Inr by (simp add: act_bind_def)
    ultimately show ?thesis using s1 by (simp add: act_keeps_def) (metis snd_conv)
  qed
qed

lemma act_keeps_each [act_intros]: "(\<And>x. act_keeps I (f x)) \<Longrightarrow> act_keeps I (act_each f xs)"
  by (induction xs) (auto intro: act_intros)

lemma act_keeps_map [act_intros]: "(\<And>x. act_keeps I (f x)) \<Longrightarrow> act_keeps I (act_map f xs)"
  by (induction xs) (auto intro!: act_intros)

lemma act_keeps_repeat [act_intros]: "act_keeps I m \<Longrightarrow> act_keeps I (act_repeat n m)"
  by (induction n) (auto intro: act_intros)

lemma act_keeps_err [act_intros]: "act_keeps I m \<Longrightarrow> act_keeps I (act_err f m)"
  by (auto simp: act_keeps_def act_defs split: prod.splits)

lemma act_keeps_if [act_intros]:
  "act_keeps I m \<Longrightarrow> act_keeps I n \<Longrightarrow> act_keeps I (if b then m else n)"
  by simp

lemma act_keeps_pure [act_intros]:
  "(\<And>s x s1. I s \<Longrightarrow> f s = Inr (x, s1) \<Longrightarrow> I s1) \<Longrightarrow> act_keeps I (act_pure f)"
  unfolding act_keeps_def act_pure_def by (fastforce split: sum.splits prod.splits)

lemma act_rel_simple [act_intros]:
  assumes "reflp R"
  shows "act_rel R (act_return x)" "act_rel R (act_fail e)" "act_rel R (act_lift r)" "act_rel R (act_get f)"
  using assms by (auto simp: act_rel_def act_defs reflp_def)

lemma act_rel_modify [act_intros]: "(\<And>s. R s (f s)) \<Longrightarrow> act_rel R (act_modify f)"
  by (auto simp: act_rel_def act_defs)

lemma act_rel_bind [act_intros]:
  assumes "transp R" "act_rel R m" "\<And>x. act_rel R (f x)"
  shows "act_rel R (act_bind m f)"
proof (rule act_relI)
  fix s r s2
  assume run: "act_bind m f s = (r, s2)"
  obtain r1 s1 where m: "m s = (r1, s1)" by fastforce
  then have "R s s1" by (rule act_relD[OF assms(2)])
  then show "R s s2"
    using run m assms(1) act_relD[OF assms(3)] by (cases r1) (auto simp: act_bind_def transp_def)
qed

lemma act_rel_each [act_intros]:
  "reflp R \<Longrightarrow> transp R \<Longrightarrow> (\<And>x. act_rel R (f x)) \<Longrightarrow> act_rel R (act_each f xs)"
  by (induction xs) (auto intro: act_intros)

lemma act_rel_if [act_intros]: "act_rel R m \<Longrightarrow> act_rel R n \<Longrightarrow> act_rel R (if b then m else n)"
  by simp

lemma act_rel_err [act_intros]: "act_rel R m \<Longrightarrow> act_rel R (act_err f m)"
  by (auto simp: act_rel_def act_err_def case_prod_unfold)

lemma act_post_weaken:
  "act_post P m Q \<Longrightarrow> (\<And>x s. Q x s \<Longrightarrow> Q' x s) \<Longrightarrow> act_post P m Q'"
  unfolding act_post_def by (fastforce split: prod.splits sum.splits)

lemma act_post_bind:
  "act_post P m Q \<Longrightarrow> (\<And>x. act_post (Q x) (f x) R) \<Longrightarrow> act_post P (act_bind m f) R"
  unfolding act_post_def act_bind_def by (fastforce split: prod.splits sum.splits)

section \<open>Running actions\<close>

named_theorems act_run \<open>evaluation of actions\<close>

lemma act_run_simple [act_run]:
  "act_return x s = (Inr x, s)" "act_fail e s = (Inl e, s)" "act_lift r s = (r, s)"
  "act_get f s = (Inr (f s), s)" "act_modify g s = (Inr (), g s)"
  by (simp_all add: act_defs)

lemma act_run_bind [act_run]:
  "m s = (Inr x, s1) \<Longrightarrow> act_bind m f s = f x s1" "m s = (Inl e, s1) \<Longrightarrow> act_bind m f s = (Inl e, s1)"
  by (simp_all add: act_bind_def)

lemma act_bind_Inr:
  "act_bind m f s = (Inr y, s2) \<longleftrightarrow> (\<exists>x s1. m s = (Inr x, s1) \<and> f x s1 = (Inr y, s2))"
  by (auto simp: act_bind_def split: prod.splits sum.splits)

lemma act_bind_InrE:
  assumes "act_bind m f s = (Inr y, s2)"
  obtains x s1 where "m s = (Inr x, s1)" "f x s1 = (Inr y, s2)"
  using assms act_bind_Inr by metis

end
