(* ===== verification/ModuleActions.thy ===== *)
theory ModuleActions
  imports ModuleBase Actions
begin

text \<open>
  What the simulated subsystems (\<^verbatim>\<open>modules/payload.py\<close>, \<^verbatim>\<open>thermal.py\<close>, \<^verbatim>\<open>eps.py\<close>) do alike, over the
  methods of their base class: the effective value of a field after overrides, named fault flags, the
  telemetry dictionary after signal overrides, and the scheduling of its samples. A module acts on
  its own state and the fault engine; \<open>clock\<close> is the virtual time of the simulation engine the fault
  engine is attached to. \<open>base\<close> reads the base object of a module.
\<close>

type_synonym ('m, 'a) mod_act = "('m \<times> fault_engine, module_error, 'a) act"

section \<open>Values\<close>

definition model_value :: "int \<Rightarrow> ('m \<Rightarrow> sim_module) \<Rightarrow> string \<Rightarrow> py_val \<Rightarrow> ('m, py_val) mod_act" where
  "model_value clock base field v =
     act_pure (\<lambda>(m, fe). map_sum id (\<lambda>(x, fe1). (x, (m, fe1))) (resolve_model_value clock (base m) field v None fe))"

text \<open>\<^verbatim>\<open>coerce(self.model_path(field), self.resolve_model_value(field, v))\<close>.\<close>

definition model_field ::
  "int \<Rightarrow> ('m \<Rightarrow> sim_module) \<Rightarrow> (string \<Rightarrow> py_val \<Rightarrow> module_error + 'a) \<Rightarrow> string \<Rightarrow> py_val \<Rightarrow> ('m, 'a) mod_act" where
  "model_field clock base coerce field v =
     act_bind (model_value clock base field v) (\<lambda>resolved.
     act_bind (act_get (\<lambda>(m, _). model_path (base m) field)) (\<lambda>path.
       act_lift (res_bind path (\<lambda>p. coerce p resolved))))"

definition module_fault_active :: "('m \<Rightarrow> sim_module) \<Rightarrow> string \<Rightarrow> ('m, bool) mod_act" where
  "module_fault_active base name =
     act_bind (act_get (\<lambda>(m, fe).
       if \<not> sm_has_fault_engine (base m) then Inr False
       else res_bind (mod_identifier ''fault'' name) (\<lambda>name.
              map_sum ModFault id (is_module_fault_active (sm_name (base m)) name fe)))) act_lift"

definition module_named_faults :: "('m \<Rightarrow> sim_module) \<Rightarrow> ('m, string set) mod_act" where
  "module_named_faults base =
     act_bind (act_get (\<lambda>(m, fe).
       if \<not> sm_has_fault_engine (base m) then Inr {}
       else map_sum ModFault id (active_named_faults (Some (sm_name (base m))) fe))) act_lift"

section \<open>Telemetry\<close>

definition signal_value ::
  "int \<Rightarrow> ('m \<Rightarrow> sim_module) \<Rightarrow> int option \<Rightarrow> string \<times> py_val \<Rightarrow> ('m, string \<times> py_val) mod_act" where
  "signal_value clock base now entry =
     act_pure (\<lambda>(m, fe). map_sum id (\<lambda>(x, fe1). ((fst entry, x), (m, fe1)))
       (resolve_telemetry_value clock (base m) (fst entry) (snd entry) now fe))"

definition signal_values ::
  "int \<Rightarrow> ('m \<Rightarrow> sim_module) \<Rightarrow> int option \<Rightarrow> (string \<times> py_val) list \<Rightarrow> ('m, (string \<times> py_val) list) mod_act" where
  "signal_values clock base now vals = act_map (signal_value clock base now) vals"

type_synonym ('h, 'm, 'a) sample_act = "(('m \<times> fault_engine) \<times> 'h engine, module_error + engine_error, 'a) act"

definition emit_sample ::
  "('m \<Rightarrow> sim_module) \<Rightarrow> (string \<times> py_val) list \<Rightarrow> int \<Rightarrow> endpoint_id option \<Rightarrow> string
    \<Rightarrow> ('h, 'm, telemetry_sample) sample_act" where
  "emit_sample base vals delay source name st =
     (case map_of vals name of
        None \<Rightarrow> (Inl (Inl (ModTelemetryField name)), st)
      | Some v \<Rightarrow>
          (case schedule_telemetry_sample (base (fst (fst st))) name v delay source (snd st) of
             (r, e) \<Rightarrow> (r, (fst st, e))))"

text \<open>The loop of \<^verbatim>\<open>emit_telemetry\<close>: the samples before an unknown name have been scheduled.\<close>

definition emit_telemetry ::
  "('m \<Rightarrow> sim_module) \<Rightarrow> (int \<Rightarrow> int option \<Rightarrow> ('m, (string \<times> py_val) list) mod_act) \<Rightarrow> string list option \<Rightarrow> int
    \<Rightarrow> endpoint_id option \<Rightarrow> ('h, 'm, telemetry_sample list) sample_act" where
  "emit_telemetry base telemetry names delay source =
     act_bind (\<lambda>st. act_err Inl (act_on fst (\<lambda>x (_, e). (x, e))
                 (telemetry (eng_now (snd st)) (Some (eng_now (snd st))))) st) (\<lambda>vals.
       act_map (emit_sample base vals delay source)
         (case names of None \<Rightarrow> map fst vals | Some ns \<Rightarrow> ns))"

section \<open>Parameters\<close>

text \<open>
  The keyword arguments of a configuration class: a name it does not have is a \<^verbatim>\<open>TypeError\<close>, a missing
  one has its default.
\<close>

definition check_keywords :: "string list \<Rightarrow> (string \<times> py_val) list \<Rightarrow> module_error + unit" where
  "check_keywords known params =
     (case find (\<lambda>(k, _). k \<notin> set known) params of
        None \<Rightarrow> Inr ()
      | Some (k, _) \<Rightarrow> Inl (ModParameter k))"

definition keyword :: "(string \<times> py_val) list \<Rightarrow> string \<Rightarrow> py_val \<Rightarrow> py_val" where
  "keyword params name dflt = (case map_of params name of None \<Rightarrow> dflt | Some v \<Rightarrow> v)"

definition param ::
  "(string \<times> py_val) list \<Rightarrow> (string \<Rightarrow> py_val \<Rightarrow> module_error + 'a) \<Rightarrow> string \<Rightarrow> py_val \<Rightarrow> module_error + 'a" where
  "param params coerce name dflt = coerce name (keyword params name dflt)"

text \<open>The float of a decimal literal of the source.\<close>

abbreviation lit :: "rat \<Rightarrow> py_val" where "lit v \<equiv> PFloat (fl_lit v)"

section \<open>Reading changes no module\<close>

text \<open>
  A lookup may drop expired overrides from the fault engine, but it never touches the module: \<open>reads\<close>.
\<close>

definition reads :: "('m, 'a) mod_act \<Rightarrow> bool" where
  "reads m \<longleftrightarrow> (\<forall>s. fst (snd (m s)) = fst s)"

named_theorems reads_intros \<open>actions that change no module\<close>

lemma readsD: "reads m \<Longrightarrow> m (x, fe) = (r, (y, fe1)) \<Longrightarrow> y = x"
  unfolding reads_def by (metis fst_conv snd_conv)

lemma reads_keeps: "reads m \<Longrightarrow> act_keeps (\<lambda>s. I (fst s)) m"
  by (simp add: reads_def act_keeps_def)

lemma reads_simple [reads_intros]:
  "reads (act_return x)" "reads (act_fail e)" "reads (act_lift r)" "reads (act_get f)"
  by (simp_all add: reads_def act_defs)

lemma reads_bind [reads_intros]:
  assumes "reads m" "\<And>x. reads (f x)"
  shows "reads (act_bind m f)"
  unfolding reads_def
proof
  fix s
  obtain r s1 where m: "m s = (r, s1)" by (cases "m s")
  then have "fst s1 = fst s" using assms(1) by (metis reads_def snd_conv)
  moreover have "fst (snd (f x s1)) = fst s1" for x using assms(2)[of x] unfolding reads_def by blast
  ultimately show "fst (snd (act_bind m f s)) = fst s"
    using m by (cases r) (auto simp: act_bind_def)
qed

lemma reads_map [reads_intros]: "(\<And>x. reads (f x)) \<Longrightarrow> reads (act_map f xs)"
  by (induction xs) (auto intro!: reads_intros)

lemma reads_if [reads_intros]: "reads m \<Longrightarrow> reads n \<Longrightarrow> reads (if b then m else n)"
  by simp

lemma reads_model_value [reads_intros]: "reads (model_value clock base field v)"
proof -
  have "map_sum id (\<lambda>(x, fe1). (x, (m, fe1))) r = Inr (y, (n, fe2)) \<Longrightarrow> n = m" for r and m :: 'a and y fe2 n
    by (cases r) auto
  then show ?thesis by (fastforce simp: reads_def model_value_def act_pure_def split: sum.splits prod.splits)
qed

lemma reads_model_field [reads_intros]: "reads (model_field clock base coerce field v)"
  by (auto simp: model_field_def intro!: reads_intros)

lemma reads_module_fault [reads_intros]: "reads (module_fault_active base name)"
  by (auto simp: module_fault_active_def intro!: reads_intros)

lemma reads_signal_values [reads_intros]: "reads (signal_values clock base now vals)"
proof -
  have "map_sum id (\<lambda>(v, fe1). ((f, v), (m, fe1))) r = Inr (y, (n, fe2)) \<Longrightarrow> n = m" for f r and m :: 'a and y fe2 n
    by (cases r) auto
  then have "reads (signal_value clock base now x)" for x
    by (fastforce simp: reads_def signal_value_def act_pure_def split: sum.splits prod.splits)
  then show ?thesis by (auto simp: signal_values_def intro!: reads_intros)
qed

text \<open>A coerced field satisfies what its coercion establishes.\<close>

lemma model_field_Inr:
  assumes "model_field clock base coerce field v s = (Inr x, s1)"
  shows "\<exists>kind y. coerce kind y = Inr x"
  using assms by (auto simp: model_field_def act_bind_Inr act_run res_bind_eq_Inr)

section \<open>Reading without faults\<close>

definition quiet :: "fault_engine \<Rightarrow> bool" where
  "quiet fe \<longleftrightarrow> fe_state_overrides fe = [] \<and> fe_signal_overrides fe = [] \<and> fe_named_faults fe = []"

lemma ident_no_dot: "is_identifier s \<Longrightarrow> CHR ''.'' \<notin> set s"
  by (auto simp: is_identifier_def list_all_iff ident_char_def is_letter_def is_digit_def split: list.splits)

lemma split_dot_append: "CHR ''.'' \<notin> set a \<Longrightarrow> str_split CHR ''.'' (a @ CHR ''.'' # b) = a # str_split CHR ''.'' b"
  by (induction a) auto

lemma str_contains_append: "str_contains needle (a @ needle @ b)"
proof (induction a)
  case Nil
  then show ?case by (cases "needle @ b") (auto, metis append_eq_conv_conj)
qed simp

lemma str_contains_count: "str_contains needle s \<Longrightarrow> count_list needle c \<le> count_list s c"
proof (induction s)
  case (Cons x s)
  show ?case
  proof (cases "take (length needle) (x # s) = needle")
    case True
    then have "x # s = needle @ drop (length needle) (x # s)" by (metis append_take_drop_id)
    then show ?thesis by (metis count_list_append le_add1)
  qed (use Cons in auto)
qed simp

lemma member_path:
  assumes "is_identifier a" "is_identifier b"
  shows "valid_state (a @ ''.model.'' @ b)" "valid_signal (a @ ''.telemetry.'' @ b)"
    and "valid_flag (a @ ''.'' @ b)"
proof -
  note d = split_dot_append[OF ident_no_dot[OF assms(1)]] split_no_dot[OF ident_no_dot[OF assms(2)]]
  have i: "is_identifier ''model''" "is_identifier ''telemetry''" by (simp_all add: is_identifier_def ident_char_def is_letter_def is_digit_def)
  show "valid_state (a @ ''.model.'' @ b)"
    using d i assms split_dot_append[of "''model''" b] str_contains_append[of "''.model.''" a b]
    by (simp add: valid_state_def is_path_def Let_def)
  show "valid_signal (a @ ''.telemetry.'' @ b)"
    using d i assms split_dot_append[of "''telemetry''" b] str_contains_append[of "''.telemetry.''" a b]
    by (simp add: valid_signal_def is_path_def Let_def)
  have "count_list (a @ ''.'' @ b) CHR ''.'' = 1"
    using assms[THEN ident_no_dot] by (simp add: count_list_0_iff)
  then have "\<not> str_contains needle (a @ ''.'' @ b)" if "count_list needle CHR ''.'' = 2" for needle
    using that str_contains_count[of needle "a @ ''.'' @ b" "CHR ''.''"] by auto
  then show "valid_flag (a @ ''.'' @ b)"
    using d assms by (simp add: valid_flag_def is_path_def Let_def)
qed

lemma quiet_resolve_state:
  "quiet fe \<Longrightarrow> valid_state target \<Longrightarrow> resolve_state_value clock target v None fe = Inr (v, fe)"
  by (cases "fe_attached fe")
    (auto simp: quiet_def resolve_state_value_def get_state_override_def clear_expired_def current_time_def
      live_overrides_def validate_state_target_Inr validate_state_target_def validate_path_def valid_state_def)

lemma model_value_quiet:
  assumes "quiet fe" "is_identifier (sm_name (base m))" "is_identifier field"
  shows "model_value clock base field v (m, fe) = (Inr v, (m, fe))"
  using assms quiet_resolve_state member_path(1)[OF assms(2,3)]
  by (simp add: model_value_def act_pure_def resolve_model_value_def model_path_def mod_identifier_def)

lemma model_field_quiet:
  assumes "quiet fe" "is_identifier (sm_name (base m))" "is_identifier field"
  shows "model_field clock base coerce field v (m, fe) =
     (coerce (sm_name (base m) @ ''.model.'' @ field) v, (m, fe))"
  by (simp add: model_field_def act_bind_def model_value_quiet[of fe base m field clock v, OF assms]
      act_run model_path_def mod_identifier_def assms)

lemma module_fault_quiet:
  assumes "quiet fe" "is_identifier (sm_name (base m))" "is_identifier name"
  shows "module_fault_active base name (m, fe) = (Inr False, (m, fe))"
proof -
  obtain owner rest where "parse_named_fault_target (sm_name (base m) @ ''.'' @ name) = Inr (owner, rest)"
    using parse_named_fault_target_ok[OF member_path(3)[OF assms(2,3)]] by blast
  then show ?thesis
    using assms by (simp add: module_fault_active_def act_bind_def act_run mod_identifier_def
        is_module_fault_active_def is_named_fault_active_def quiet_def)
qed

end
