(* ===== verification/Payload.thy ===== *)
theory Payload
  imports ModuleActions
begin

text \<open>
  The payload module (\<^verbatim>\<open>modules/payload.py\<close>): commanded and EPS power, capture, and an onboard data
  volume bounded by the configuration. Its properties read through the overrides of the fault engine,
  so they are actions.
\<close>

section \<open>Configuration\<close>

record payload_config =
  yc_name :: string
  yc_endpoint :: "endpoint_id option"
  yc_initially_powered :: bool
  yc_standby_power_w :: pyfloat
  yc_active_power_w :: pyfloat
  yc_data_rate :: int
  yc_one_shot_bytes :: int
  yc_max_data_volume :: int

definition payload_keywords :: "string list" where
  "payload_keywords = [''initially_powered'', ''standby_power_w'', ''active_power_w'',
     ''data_rate_bytes_per_tick'', ''one_shot_capture_bytes'', ''max_data_volume_bytes'']"

definition mk_payload_config ::
  "string \<Rightarrow> endpoint_id option \<Rightarrow> (string \<times> py_val) list \<Rightarrow> module_error + payload_config" where
  "mk_payload_config name ep params =
     res_bind (check_keywords payload_keywords params) (\<lambda>_.
     res_bind (mod_identifier ''module name'' name) (\<lambda>name.
     res_bind (mod_optional_endpoint ''module endpoint'' ep) (\<lambda>ep.
     res_bind (param params coerce_bool ''initially_powered'' (PBool True)) (\<lambda>powered.
     res_bind (param params coerce_non_negative_float ''standby_power_w'' (lit (2/10))) (\<lambda>standby.
     res_bind (param params coerce_non_negative_float ''active_power_w'' (lit 5)) (\<lambda>active.
     res_bind (param params coerce_non_negative_int ''data_rate_bytes_per_tick'' (PInt 1024)) (\<lambda>rate.
     res_bind (param params coerce_non_negative_int ''one_shot_capture_bytes'' (PInt 1024)) (\<lambda>shot.
     res_bind (param params coerce_non_negative_int ''max_data_volume_bytes'' (PInt 1000000)) (\<lambda>maxv.
       Inr \<lparr>yc_name = name, yc_endpoint = ep, yc_initially_powered = powered,
            yc_standby_power_w = standby, yc_active_power_w = active, yc_data_rate = rate,
            yc_one_shot_bytes = shot, yc_max_data_volume = maxv\<rparr>)))))))))"

section \<open>State\<close>

record payload_module =
  py_base :: sim_module
  py_config :: payload_config
  py_commanded_on :: bool
  py_eps_power :: bool
  py_capture :: bool
  py_volume :: int

definition mk_payload :: "payload_config \<Rightarrow> bool \<Rightarrow> module_error + payload_module" where
  "mk_payload c has_fault_engine =
     res_bind (mk_sim_module (yc_name c) (yc_endpoint c) has_fault_engine) (\<lambda>base.
       Inr \<lparr>py_base = base, py_config = c, py_commanded_on = yc_initially_powered c,
            py_eps_power = True, py_capture = False, py_volume = 0\<rparr>)"

type_synonym 'a payload_act = "(payload_module, 'a) mod_act"

definition on_payload :: "(payload_module \<Rightarrow> payload_module) \<Rightarrow> unit payload_act" where
  "on_payload f = act_modify (\<lambda>(m, fe). (f m, fe))"

section \<open>Effective values\<close>

definition payload_powered :: "int \<Rightarrow> bool payload_act" where
  "payload_powered clock =
     act_bind (act_get (\<lambda>(m, _). py_commanded_on m \<and> py_eps_power m)) (\<lambda>computed.
       model_field clock py_base coerce_bool ''powered'' (PBool computed))"

definition payload_power_status :: "int \<Rightarrow> string payload_act" where
  "payload_power_status clock =
     act_bind (payload_powered clock) (\<lambda>on. act_return (if on then ''online'' else ''offline''))"

text \<open>The override is looked up first; its value is only checked when the payload is powered.\<close>

definition payload_capture_enabled :: "int \<Rightarrow> bool payload_act" where
  "payload_capture_enabled clock =
     act_bind (act_get (\<lambda>(m, _). py_capture m)) (\<lambda>capture.
     act_bind (model_value clock py_base ''capture_enabled'' (PBool capture)) (\<lambda>resolved.
     act_bind (payload_powered clock) (\<lambda>on.
       if \<not> on then act_return False
       else act_bind (act_get (\<lambda>(m, _). model_path (py_base m) ''capture_enabled'')) (\<lambda>path.
              act_lift (res_bind path (\<lambda>p. coerce_bool p resolved))))))"

definition payload_data_volume :: "int \<Rightarrow> int payload_act" where
  "payload_data_volume clock =
     act_bind (act_get (\<lambda>(m, _). (py_volume m, yc_max_data_volume (py_config m)))) (\<lambda>(v, maxv).
     act_bind (model_field clock py_base coerce_non_negative_int ''data_volume_bytes'' (PInt v)) (\<lambda>volume.
       act_return (min volume maxv)))"

definition payload_power_draw :: "int \<Rightarrow> pyfloat payload_act" where
  "payload_power_draw clock =
     act_bind (act_get (\<lambda>(m, _). py_config m)) (\<lambda>c.
     act_bind (payload_powered clock) (\<lambda>on.
     act_bind (if \<not> on then act_return FL_ZERO
               else act_bind (payload_capture_enabled clock) (\<lambda>capturing.
                      act_return (if capturing then yc_active_power_w c else yc_standby_power_w c))) (\<lambda>computed.
       model_field clock py_base coerce_non_negative_float ''power_draw_w'' (PFloat computed))))"

section \<open>Operations\<close>

definition set_eps_power_available :: "bool \<Rightarrow> unit payload_act" where
  "set_eps_power_available available =
     on_payload (\<lambda>m. m\<lparr>py_eps_power := available, py_capture := available \<and> py_capture m\<rparr>)"

text \<open>
  \<^verbatim>\<open>int(_clamp(before + byte_count, 0.0, float(max)))\<close>: \<^verbatim>\<open>min\<close> and \<^verbatim>\<open>max\<close> compare an integer with a
  float exactly and return the object that wins.
\<close>

definition clamp_volume :: "int \<Rightarrow> int \<Rightarrow> py_exn + int" where
  "clamp_volume maxv v =
     res_bind (int_to_float maxv) (\<lambda>upper.
       if num_less (NumRat (of_int v)) (NumRat (fl_val upper))
       then Inr (if 0 < v then v else 0)
       else if fl_less FL_ZERO upper then float_to_int upper else Inr 0)"

definition increase_data_volume :: "int \<Rightarrow> int \<Rightarrow> int payload_act" where
  "increase_data_volume clock byte_count =
     act_bind (payload_powered clock) (\<lambda>on.
       if \<not> on then act_return 0
       else
         act_bind (act_get (\<lambda>(m, _). (py_volume m, yc_max_data_volume (py_config m)))) (\<lambda>(before, maxv).
         act_bind (act_lift (map_sum ModUncaught id (clamp_volume maxv (before + byte_count)))) (\<lambda>after.
         act_bind (on_payload (\<lambda>m. m\<lparr>py_volume := after\<rparr>)) (\<lambda>_. act_return (after - before)))))"

definition decrease_data_volume :: "int \<Rightarrow> int payload_act" where
  "decrease_data_volume byte_count =
     act_bind (act_get (\<lambda>(m, _). py_volume m)) (\<lambda>before.
     let after = max 0 (before - byte_count) in
     act_bind (on_payload (\<lambda>m. m\<lparr>py_volume := after\<rparr>)) (\<lambda>_. act_return (before - after)))"

definition extract_byte_count :: "py_val \<Rightarrow> int \<Rightarrow> string list \<Rightarrow> module_error + int" where
  "extract_byte_count payload dflt field_names =
     (case payload of
        PNone \<Rightarrow> Inr dflt
      | PInt n \<Rightarrow> coerce_non_negative_int ''command byte count'' payload
      | PDict d \<Rightarrow>
          (case List.map_filter (\<lambda>f. map_option (Pair f) (dict_get d f)) field_names of
             (f, v) # _ \<Rightarrow> coerce_non_negative_int f v
           | [] \<Rightarrow> Inl (ModCommandPayload ''payload data-volume''))
      | _ \<Rightarrow> Inl (ModCommandPayload ''payload data-volume''))"

definition byte_count_of :: "command_request \<Rightarrow> int payload_act" where
  "byte_count_of request =
     act_bind (act_get (\<lambda>(m, _). yc_one_shot_bytes (py_config m))) (\<lambda>dflt.
       act_lift (extract_byte_count (cr_payload request) dflt [''bytes'', ''data_volume_bytes'']))"

definition payload_command :: "int \<Rightarrow> command_request \<Rightarrow> unit payload_act" where
  "payload_command clock request =
     (let command = cr_command request in
      if command = ''payload_power_on'' then on_payload (\<lambda>m. m\<lparr>py_commanded_on := True\<rparr>)
      else if command = ''payload_power_off''
      then on_payload (\<lambda>m. m\<lparr>py_commanded_on := False, py_capture := False\<rparr>)
      else if command = ''payload_start_capture'' then on_payload (\<lambda>m. m\<lparr>py_capture := True\<rparr>)
      else if command = ''payload_stop_capture'' then on_payload (\<lambda>m. m\<lparr>py_capture := False\<rparr>)
      else if command = ''payload_capture_once''
      then act_bind (byte_count_of request) (\<lambda>n.
             act_bind (increase_data_volume clock n) (\<lambda>_. act_return ()))
      else if command = ''payload_clear_data'' then on_payload (\<lambda>m. m\<lparr>py_volume := 0\<rparr>)
      else if command = ''payload_downlink_data''
      then act_bind (byte_count_of request) (\<lambda>n.
             act_bind (decrease_data_volume n) (\<lambda>_. act_return ()))
      else act_fail (ModUnsupportedCommand command))"

definition payload_handle_command :: "int \<Rightarrow> command_request \<Rightarrow> bool payload_act" where
  "payload_handle_command clock request =
     act_bind (act_get (\<lambda>(m, _). command_targets_module (py_base m) request)) (\<lambda>mine.
       if \<not> mine then act_return False
       else act_bind (payload_command clock request) (\<lambda>_. act_return True))"

definition payload_tick :: "int \<Rightarrow> int \<Rightarrow> int payload_act" where
  "payload_tick clock ticks =
     act_bind (act_lift (coerce_non_negative_int ''payload tick count'' (PInt ticks))) (\<lambda>tick_count.
       if tick_count = 0 then act_return 0
       else act_bind (payload_capture_enabled clock) (\<lambda>capturing.
         if \<not> capturing then act_return 0
         else act_bind (act_get (\<lambda>(m, _). yc_data_rate (py_config m))) (\<lambda>rate.
                increase_data_volume clock (rate * tick_count))))"

definition payload_telemetry :: "int \<Rightarrow> int option \<Rightarrow> (payload_module, (string \<times> py_val) list) mod_act" where
  "payload_telemetry clock now =
     act_bind (payload_power_status clock) (\<lambda>status.
     act_bind (payload_powered clock) (\<lambda>on.
     act_bind (payload_capture_enabled clock) (\<lambda>capturing.
     act_bind (payload_data_volume clock) (\<lambda>volume.
     act_bind (payload_power_draw clock) (\<lambda>draw.
       signal_values clock py_base now
         [(''power_status'', PStr status), (''powered'', PBool on), (''capture_enabled'', PBool capturing),
          (''data_volume_bytes'', PInt volume), (''power_draw_w'', PFloat draw)])))))"

definition payload_emit_telemetry ::
  "string list option \<Rightarrow> int \<Rightarrow> endpoint_id option \<Rightarrow> ('h, payload_module, telemetry_sample list) sample_act" where
  "payload_emit_telemetry = emit_telemetry py_base payload_telemetry"

section \<open>The volume stays in its bounds\<close>

lemma int_to_float_exact:
  assumes "0 \<le> n" "n \<le> 2 ^ 53"
  shows "int_to_float n = Inr (FFin False (of_int n))"
proof -
  have "fl_repr 53 (- 1074) (of_int n)" using assms by (intro fl_repr_of_int) auto
  moreover have "(of_int n :: rat) \<le> of_int (2 ^ 53)" using assms(2) by (simp only: of_int_le_iff)
  then have "of_int n < fl_limit" by (simp add: fl_limit_numeral)
  ultimately have "fl64 False (of_int n) = FFin False (of_int n)" by (rule fl64_repr)
  then show ?thesis using assms(1) by (simp add: int_to_float_def)
qed

lemma clamp_volume_exact:
  "0 \<le> maxv \<Longrightarrow> maxv \<le> 2 ^ 53 \<Longrightarrow> clamp_volume maxv v = Inr (max 0 (min maxv v))"
  by (auto simp: clamp_volume_def int_to_float_exact sgn_mag_def)

definition payload_inv :: "payload_module \<Rightarrow> bool" where
  "payload_inv m \<longleftrightarrow> 0 \<le> py_volume m \<and> py_volume m \<le> yc_max_data_volume (py_config m) \<and>
     yc_max_data_volume (py_config m) \<le> 2 ^ 53 \<and> 0 \<le> yc_one_shot_bytes (py_config m)"

abbreviation keeps_payload :: "'a payload_act \<Rightarrow> bool" where
  "keeps_payload \<equiv> act_keeps (\<lambda>s. payload_inv (fst s))"

lemma reads_payload [reads_intros]:
  "reads (payload_powered clock)" "reads (payload_power_status clock)" "reads (payload_capture_enabled clock)"
  "reads (payload_data_volume clock)" "reads (payload_power_draw clock)" "reads (payload_telemetry clock now)"
  "reads (byte_count_of request)"
proof -
  show p: "reads (payload_powered clock)" by (auto simp: payload_powered_def intro!: reads_intros)
  then show "reads (payload_power_status clock)" by (auto simp: payload_power_status_def intro!: reads_intros)
  show c: "reads (payload_capture_enabled clock)"
    using p by (auto simp: payload_capture_enabled_def intro!: reads_intros)
  show v: "reads (payload_data_volume clock)" by (auto simp: payload_data_volume_def intro!: reads_intros)
  show d: "reads (payload_power_draw clock)"
    using p c by (auto simp: payload_power_draw_def intro!: reads_intros)
  from p c v d show "reads (payload_telemetry clock now)"
    by (auto simp: payload_telemetry_def payload_power_status_def intro!: reads_intros)
  show "reads (byte_count_of request)" by (auto simp: byte_count_of_def intro!: reads_intros)
qed

lemma keeps_on_payload:
  "(\<And>m. payload_inv m \<Longrightarrow> payload_inv (f m)) \<Longrightarrow> keeps_payload (on_payload f)"
  by (auto simp: on_payload_def intro!: act_intros)

lemma keeps_payload_reads: "reads m \<Longrightarrow> keeps_payload m"
  by (rule reads_keeps)

lemma keeps_set_eps: "keeps_payload (set_eps_power_available b)"
  unfolding set_eps_power_available_def by (rule keeps_on_payload) (simp add: payload_inv_def)

lemma increase_data_volume_after:
  assumes "increase_data_volume clock n (m, fe) = (r, (m1, fe1))" "payload_inv m"
  shows "payload_inv m1"
proof -
  obtain p m2 fe2 where on: "payload_powered clock (m, fe) = (p, (m2, fe2))" by (cases "payload_powered clock (m, fe)") auto
  have m2: "m2 = m" using readsD[OF reads_payload(1) on] .
  show ?thesis
    using assms on m2
    by (cases p) (auto simp: increase_data_volume_def act_bind_def act_run on_payload_def payload_inv_def
        clamp_volume_exact split: if_splits)
qed

lemma keeps_increase: "keeps_payload (increase_data_volume clock n)"
  by (auto intro!: act_keepsI dest: increase_data_volume_after)

lemma keeps_decrease:
  assumes "0 \<le> n"
  shows "keeps_payload (decrease_data_volume n)"
  using assms
  by (auto simp: decrease_data_volume_def act_keeps_def act_bind_def act_run on_payload_def payload_inv_def Let_def)

lemma extract_byte_count_Inr:
  assumes "extract_byte_count v dflt names = Inr n" "0 \<le> dflt"
  shows "0 \<le> n"
  using assms by (cases v)
    (auto simp: extract_byte_count_def coerce_non_negative_int_def split: list.splits prod.splits if_splits py_val.splits)

lemma byte_count_run:
  "byte_count_of request (m, fe) =
     (extract_byte_count (cr_payload request) (yc_one_shot_bytes (py_config m)) [''bytes'', ''data_volume_bytes''], (m, fe))"
  by (simp add: byte_count_of_def act_bind_def act_run)

lemma byte_count_nonneg: "payload_inv (fst s) \<Longrightarrow> byte_count_of request s = (Inr n, s1) \<Longrightarrow> 0 \<le> n"
  by (cases s) (auto simp: byte_count_run payload_inv_def dest: extract_byte_count_Inr)

lemma keeps_downlink:
  "keeps_payload (act_bind (byte_count_of request) (\<lambda>n. act_bind (decrease_data_volume n) (\<lambda>_. act_return ())))"
  by (intro act_keeps_bind_post[where Q = "\<lambda>n. 0 \<le> n", OF reads_keeps[OF reads_payload(7)] byte_count_nonneg]
      act_intros keeps_decrease)

lemma keeps_payload_command: "keeps_payload (payload_handle_command clock request)"
proof -
  have "keeps_payload (payload_command clock request)"
    unfolding payload_command_def Let_def
    by (intro act_intros keeps_downlink keeps_on_payload keeps_increase reads_keeps[OF reads_payload(7)])
      (auto simp: payload_inv_def)
  then show ?thesis unfolding payload_handle_command_def by (intro act_intros)
qed

lemma keeps_payload_tick: "keeps_payload (payload_tick clock ticks)"
  unfolding payload_tick_def by (intro act_intros keeps_increase reads_keeps[OF reads_payload(3)])

text \<open>What can happen to a payload in a run: its own operations and any change of the fault state.\<close>

datatype payload_op =
    PyTick int
  | PyCommand command_request
  | PySetEps bool
  | PyTelemetry "int option"
  | PyFaults fault_engine

primrec payload_op_run :: "int \<Rightarrow> payload_op \<Rightarrow> unit payload_act" where
  "payload_op_run clock (PyTick n) = act_then (payload_tick clock n) (act_return ())"
| "payload_op_run clock (PyCommand r) = act_then (payload_handle_command clock r) (act_return ())"
| "payload_op_run clock (PySetEps b) = set_eps_power_available b"
| "payload_op_run clock (PyTelemetry now) = act_then (payload_telemetry clock now) (act_return ())"
| "payload_op_run clock (PyFaults fe) = act_modify (\<lambda>(m, _). (m, fe))"

text \<open>Operations at their virtual times; one that raises leaves its effects and the run goes on.\<close>

fun payload_run :: "(int \<times> payload_op) list \<Rightarrow> payload_module \<times> fault_engine \<Rightarrow> payload_module \<times> fault_engine" where
  "payload_run [] s = s"
| "payload_run ((clock, oper) # ops) s = payload_run ops (snd (payload_op_run clock oper s))"

lemma payload_run_inv: "payload_inv (fst s) \<Longrightarrow> payload_inv (fst (payload_run ops s))"
proof (induction ops arbitrary: s)
  case (Cons c ops)
  obtain clock oper where c: "c = (clock, oper)" by (cases c)
  have "keeps_payload (payload_op_run clock oper)"
    by (cases oper) (auto intro!: act_intros keeps_payload_tick keeps_payload_command keeps_set_eps
        reads_keeps[OF reads_payload(6)])
  then have "payload_inv (fst (snd (payload_op_run clock oper s)))"
    using Cons.prems by (cases s) (simp add: act_keeps_def)
  then show ?case using Cons.IH by (simp add: c)
qed simp

lemma param_Inr: "param params coerce name v = Inr x \<Longrightarrow> \<exists>kind y. coerce kind y = Inr x"
  by (auto simp: param_def)

lemma mk_payload_config_Inr:
  assumes "mk_payload_config name ep params = Inr c"
  shows "is_identifier (yc_name c)" "yc_name c = name" "yc_endpoint c = ep" "0 \<le> yc_data_rate c"
    "0 \<le> yc_one_shot_bytes c" "0 \<le> yc_max_data_volume c"
    "fl_is_finite (yc_standby_power_w c)" "fl_is_finite (yc_active_power_w c)"
  using assms
  by (auto simp: mk_payload_config_def res_bind_eq_Inr mod_identifier_def coerce_non_negative_int_Inr
      coerce_non_negative_float_def mod_optional_endpoint_def mod_endpoint_def
      split: if_splits option.splits endpoint_id.splits
      dest!: param_Inr coerce_finite_float_Inr)

lemma mk_payload_Inr:
  assumes "mk_payload_config name ep params = Inr c" "mk_payload c hf = Inr m" "yc_max_data_volume c \<le> 2 ^ 53"
  shows "payload_inv m \<and> py_config m = c \<and> is_identifier (sm_name (py_base m))"
  using assms(2,3) mk_payload_config_Inr[OF assms(1)]
  by (auto simp: mk_payload_def mk_sim_module_def res_bind_eq_Inr payload_inv_def mod_identifier_def split: if_splits)

section \<open>Ticks without faults\<close>

lemma ident_lit:
  "is_identifier ''powered''" "is_identifier ''capture_enabled''"
  by (simp_all add: is_identifier_def ident_char_def is_letter_def is_digit_def)

lemma payload_powered_quiet:
  assumes "quiet fe" "is_identifier (sm_name (py_base m))"
  shows "payload_powered clock (m, fe) = (Inr (py_commanded_on m \<and> py_eps_power m), (m, fe))"
  by (simp add: payload_powered_def act_bind_def act_run model_field_quiet[of _ py_base, OF assms] ident_lit coerce_bool_def)

lemma payload_capture_quiet:
  assumes "quiet fe" "is_identifier (sm_name (py_base m))"
  shows "payload_capture_enabled clock (m, fe) =
     (Inr (py_commanded_on m \<and> py_eps_power m \<and> py_capture m), (m, fe))"
  by (auto simp: payload_capture_enabled_def act_bind_def act_run model_value_quiet[of _ py_base, OF assms] ident_lit
      payload_powered_quiet[OF assms] coerce_bool_def model_path_def mod_identifier_def)

definition payload_capturing :: "payload_module \<Rightarrow> bool" where
  "payload_capturing m \<longleftrightarrow> py_commanded_on m \<and> py_eps_power m \<and> py_capture m"

lemma payload_tick_quiet:
  assumes "quiet fe" "is_identifier (sm_name (py_base m))" "payload_inv m" "0 \<le> n" "0 \<le> yc_data_rate (py_config m)"
  shows "snd (payload_tick clock n (m, fe)) = (m\<lparr>py_volume :=
     (if payload_capturing m then min (yc_max_data_volume (py_config m)) (py_volume m + yc_data_rate (py_config m) * n)
      else py_volume m)\<rparr>, fe)"
proof -
  have "0 \<le> yc_data_rate (py_config m) * n" using assms by simp
  then show ?thesis
    using assms
    by (auto simp: payload_tick_def act_bind_def act_run coerce_non_negative_int_def payload_capture_quiet
        increase_data_volume_def payload_powered_quiet on_payload_def payload_capturing_def clamp_volume_exact payload_inv_def)
qed

lemma payload_ticks_quiet:
  assumes "quiet fe" "is_identifier (sm_name (py_base m))" "payload_inv m" "\<forall>(_, n) \<in> set ns. 0 \<le> n" "0 \<le> yc_data_rate (py_config m)"
  shows "payload_run (map (\<lambda>(clock, n). (clock, PyTick n)) ns) (m, fe) = (m\<lparr>py_volume :=
     (if payload_capturing m
      then min (yc_max_data_volume (py_config m)) (py_volume m + yc_data_rate (py_config m) * sum_list (map snd ns))
      else py_volume m)\<rparr>, fe)"
  using assms(2-5)
proof (induction ns arbitrary: m)
  case Nil
  then show ?case by (auto simp: payload_inv_def)
next
  case (Cons x ns)
  obtain clock n where x: "x = (clock, n)" by (cases x)
  let ?v = "if payload_capturing m then min (yc_max_data_volume (py_config m)) (py_volume m + yc_data_rate (py_config m) * n)
      else py_volume m"
  have n: "0 \<le> n" using Cons.prems by (simp add: x)
  have rn: "0 \<le> yc_data_rate (py_config m) * n" using n Cons.prems by simp
  have tick: "snd (payload_op_run clock (PyTick n) (m, fe)) = (m\<lparr>py_volume := ?v\<rparr>, fe)"
    using payload_tick_quiet[OF assms(1) Cons.prems(1,2) n Cons.prems(4), of clock]
    by (cases "payload_tick clock n (m, fe)") (auto simp: act_bind_def act_run split: sum.splits)
  have inv: "payload_inv (m\<lparr>py_volume := ?v\<rparr>)" using Cons.prems(2) rn by (auto simp: payload_inv_def)
  have "0 \<le> sum_list (map snd ns)" using Cons.prems(3) by (auto simp: x case_prod_unfold intro!: sum_list_nonneg)
  then have s: "0 \<le> yc_data_rate (py_config m) * sum_list (map snd ns)" using Cons.prems(4) by simp
  have rest: "\<forall>(_, n) \<in> set ns. 0 \<le> n" using Cons.prems(3) by simp
  note ih = Cons.IH[of "m\<lparr>py_volume := ?v\<rparr>", OF _ inv rest]
  show ?case
    using ih tick s rn Cons.prems(1,4)
    by (auto simp: x payload_capturing_def distrib_left min_def)
qed

section \<open>Properties\<close>

definition demo_payload_params :: "(string \<times> py_val) list" where
  "demo_payload_params = [(''data_rate_bytes_per_tick'', PInt 7), (''max_data_volume_bytes'', PInt 20)]"

definition demo_payload_config :: payload_config where
  "demo_payload_config = \<lparr>yc_name = ''cam'', yc_endpoint = None, yc_initially_powered = True,
     yc_standby_power_w = fl_lit (2/10), yc_active_power_w = fl_lit 5, yc_data_rate = 7,
     yc_one_shot_bytes = 1024, yc_max_data_volume = 20\<rparr>"

definition demo_payload :: payload_module where
  "demo_payload = \<lparr>py_base = \<lparr>sm_name = ''cam'', sm_endpoint = None, sm_has_fault_engine = True\<rparr>,
     py_config = demo_payload_config, py_commanded_on = True, py_eps_power = True, py_capture = False, py_volume = 0\<rparr>"

lemma demo_payload_builds:
  "mk_payload_config ''cam'' None demo_payload_params = Inr demo_payload_config"
  "mk_payload demo_payload_config True = Inr demo_payload"
  by code_simp+

definition payload_request :: "string \<Rightarrow> py_val \<Rightarrow> command_request" where
  "payload_request command v = \<lparr>cr_command = command, cr_payload = v, cr_source = None, cr_target = None\<rparr>"

definition demo_payload_ops :: "(int \<times> payload_op) list" where
  "demo_payload_ops = [(0, PyCommand (payload_request ''payload_start_capture'' PNone)), (1, PyTick 2), (2, PyTick 5),
     (3, PyCommand (payload_request ''payload_downlink_data'' (PInt 6)))]"

text \<open>
  C11: The data volume of a payload never leaves its bounds. Build a payload from any parameters the
  configuration accepts, with a capacity a float represents exactly, and apply any sequence of ticks,
  commands, EPS power switches, telemetry reads and arbitrary changes of the fault state, the ones
  that raise included: the stored volume stays between zero and the configured capacity.
\<close>

theorem payload_volume_bounded:
  assumes "mk_payload_config name ep params = Inr c" "mk_payload c hf = Inr m" "yc_max_data_volume c \<le> 2 ^ 53"
  shows "0 \<le> py_volume (fst (payload_run ops (m, fe))) \<and>
     py_volume (fst (payload_run ops (m, fe))) \<le> yc_max_data_volume (py_config (fst (payload_run ops (m, fe))))"
proof -
  have "payload_inv (fst (payload_run ops (m, fe)))"
    using mk_payload_Inr[OF assms] by (intro payload_run_inv) simp
  then show ?thesis by (simp add: payload_inv_def)
qed

lemma payload_volume_bounded_witness:
  "(let m = fst (payload_run demo_payload_ops (demo_payload, new_fault_engine))
    in py_volume m = 14 \<and> 0 \<le> py_volume m \<and> py_volume m \<le> yc_max_data_volume (py_config m))"
proof -
  have "py_volume (fst (payload_run demo_payload_ops (demo_payload, new_fault_engine))) = 14" by code_simp
  then show ?thesis
    using payload_volume_bounded[OF demo_payload_builds, of demo_payload_ops new_fault_engine]
    by (simp add: Let_def demo_payload_config_def)
qed

text \<open>
  C23: What ticking a payload adds up to. For a valid configuration with a capacity a float represents exactly (at
  most 2^53 bytes) and a module of it whose volume is within its bounds, without active faults, any sequence of ticks
  of nonnegative length leaves a powered, capturing payload with the volume it had plus its data rate times the total
  number of ticks, cut off at the capacity, and any other payload as it was; nothing else of the module or of the
  fault engine changes, so splitting a wait into steps does not change what the payload records.
\<close>

theorem payload_ticks_accumulate:
  assumes "mk_payload_config name ep params = Inr c" "py_config m = c" "payload_inv m"
    and "sm_name (py_base m) = yc_name c" "quiet fe" "\<forall>(_, n) \<in> set ns. 0 \<le> n"
  shows "payload_run (map (\<lambda>(clock, n). (clock, PyTick n)) ns) (m, fe) = (m\<lparr>py_volume :=
     (if py_commanded_on m \<and> py_eps_power m \<and> py_capture m
      then min (yc_max_data_volume c) (py_volume m + yc_data_rate c * sum_list (map snd ns))
      else py_volume m)\<rparr>, fe)"
  using payload_ticks_quiet[OF assms(5) _ assms(3,6)] mk_payload_config_Inr[OF assms(1)] assms(2,4)
  by (simp add: payload_capturing_def)

lemma payload_ticks_accumulate_witness:
  "payload_run [(1, PyTick 1), (2, PyTick 1), (5, PyTick 3)] (demo_payload\<lparr>py_capture := True\<rparr>, new_fault_engine) =
     (demo_payload\<lparr>py_capture := True, py_volume := 20\<rparr>, new_fault_engine)"
proof -
  have "payload_inv (demo_payload\<lparr>py_capture := True\<rparr>)" by code_simp
  then show ?thesis
    using payload_ticks_accumulate[OF demo_payload_builds(1), of "demo_payload\<lparr>py_capture := True\<rparr>" new_fault_engine
        "[(1, 1), (2, 1), (5, 3)]"]
    by (simp add: demo_payload_def demo_payload_config_def new_fault_engine_def quiet_def)
qed

end
