(* ===== verification/FloatOrder.thy ===== *)
theory FloatOrder
  imports PyFloat
begin

text \<open>
  Order facts about float arithmetic that the physical models need: the sign of a result follows the
  signs of the operands, and adding a non-negative number never gives less than what it was added to,
  rounding and overflow included.
\<close>

section \<open>Signs\<close>

definition fl_nonneg :: "pyfloat \<Rightarrow> bool" where "fl_nonneg x \<longleftrightarrow> fl_le FL_ZERO x"

definition fl_nonpos :: "pyfloat \<Rightarrow> bool" where "fl_nonpos x \<longleftrightarrow> fl_le x FL_ZERO"

lemma sgn_mag_zero [simp]: "sgn_mag s 0 = 0"
  by (simp add: sgn_mag_def)

lemma fl_nonneg_simps [simp]:
  "fl_nonneg (FFin s m) \<longleftrightarrow> 0 \<le> sgn_mag s m" "fl_nonneg (FInf s) \<longleftrightarrow> \<not> s" "\<not> fl_nonneg FNaN"
  by (auto simp: fl_nonneg_def fl_le_def sgn_mag_def)

lemma fl_nonpos_simps [simp]:
  "fl_nonpos (FFin s m) \<longleftrightarrow> sgn_mag s m \<le> 0" "fl_nonpos (FInf s) \<longleftrightarrow> s" "\<not> fl_nonpos FNaN"
  by (auto simp: fl_nonpos_def fl_le_def sgn_mag_def)

lemma fl64_cases:
  obtains "fl64 s m = FInf s" | "fl64 s m = FFin s (fl_round 53 (- 1074) m)"
  by (cases "fl_limit \<le> fl_round 53 (- 1074) m") (simp_all add: fl64_def)

lemma fl64_sign [simp]: "\<not> s \<Longrightarrow> fl_nonneg (fl64 s m)" "s \<Longrightarrow> fl_nonpos (fl64 s m)"
  using fl_round_nonneg[of 53 "- 1074" m] by (cases rule: fl64_cases[of s m]; simp add: sgn_mag_def)+

lemma fl64_zero [simp]: "fl64 s 0 = FFin s 0"
  by (simp add: fl64_def not_le)

lemma fl_nonneg_neg [simp]: "fl_nonneg (fl_neg x) = fl_nonpos x" "fl_nonpos (fl_neg x) = fl_nonneg x"
  by (cases x; auto simp: sgn_mag_def)+

lemma fl_nonneg_add: "fl_nonneg x \<Longrightarrow> fl_nonneg y \<Longrightarrow> fl_nonneg (fl_add x y)"
  by (cases "(x, y)" rule: fl_add.cases) (auto simp: Let_def sgn_mag_def)

lemma fl_nonpos_add: "fl_nonpos x \<Longrightarrow> fl_nonpos y \<Longrightarrow> fl_nonpos (fl_add x y)"
  by (cases "(x, y)" rule: fl_add.cases) (auto simp: Let_def sgn_mag_def split: if_splits)

lemma fl_nonneg_sub: "fl_nonneg x \<Longrightarrow> fl_nonpos y \<Longrightarrow> fl_nonneg (fl_sub x y)"
  by (simp add: fl_sub_def fl_nonneg_add)

lemma fl_nonpos_sub: "fl_nonpos x \<Longrightarrow> fl_nonneg y \<Longrightarrow> fl_nonpos (fl_sub x y)"
  by (simp add: fl_sub_def fl_nonpos_add)

text \<open>A finite non-negative magnitude.\<close>

definition fl_amount :: "pyfloat \<Rightarrow> bool" where "fl_amount x \<longleftrightarrow> fl_is_finite x \<and> fl_nonneg x \<and> fl_wf x"

definition fl_positive :: "pyfloat \<Rightarrow> bool" where "fl_positive x \<longleftrightarrow> fl_amount x \<and> fl_less FL_ZERO x"

lemma fl_wf_magnitude: "fl_wf (FFin s m) \<Longrightarrow> 0 \<le> m"
  by (simp add: fl_repr_def)

lemma fl_mul_nonpos:
  assumes k: "fl_amount k" and d: "fl_nonpos d" "fl_is_finite d" "fl_wf d"
  shows "fl_nonpos (fl_mul k d)"
proof -
  obtain s a where ka: "k = FFin s a" using k by (cases k) (auto simp: fl_amount_def)
  obtain t b where db: "d = FFin t b" using d by (cases d) auto
  have a: "0 \<le> a" "s \<Longrightarrow> a = 0" using k fl_wf_magnitude[of s a] by (auto simp: fl_amount_def ka sgn_mag_def)
  have b: "0 \<le> b" "\<not> t \<Longrightarrow> b = 0" using d fl_wf_magnitude[of t b] by (auto simp: db sgn_mag_def split: if_splits)
  show ?thesis
    using a b by (cases s; cases t) (auto simp: ka db sgn_mag_def)
qed

lemma fl_mul_nonneg:
  assumes k: "fl_amount k" and d: "fl_nonneg d" "fl_is_finite d" "fl_wf d"
  shows "fl_nonneg (fl_mul k d)"
proof -
  have "fl_nonpos (fl_mul k (fl_neg d))" using assms by (intro fl_mul_nonpos) (auto, cases d, auto)
  moreover have "fl_mul k (fl_neg d) = fl_neg (fl_mul k d)" if "fl_mul k d \<noteq> FNaN"
    using that by (cases "(k, d)" rule: fl_mul.cases) (auto simp: fl64_def Let_def)
  moreover have "fl_mul k d \<noteq> FNaN"
    using k d by (cases k; cases d) (auto simp: fl_amount_def)
  ultimately show ?thesis by simp
qed

lemma fl_positive_finite: "fl_positive x \<Longrightarrow> \<exists>m. x = FFin False m \<and> 0 < m"
proof (cases x)
  case (FFin s m)
  assume "fl_positive x"
  then have "0 \<le> m" "0 < sgn_mag s m"
    using fl_wf_magnitude[of s m] by (auto simp: fl_positive_def fl_amount_def FFin sgn_mag_def)
  then show ?thesis by (cases s) (auto simp: FFin sgn_mag_def)
qed (auto simp: fl_positive_def fl_amount_def)

lemma fl_nonneg_form:
  "fl_nonneg x \<Longrightarrow> fl_wf x \<Longrightarrow> x = FInf False \<or> (\<exists>a. x = FFin False a) \<or> (\<exists>s. x = FFin s 0)"
  using fl_wf_magnitude by (cases x) (fastforce simp: sgn_mag_def split: if_splits)+

lemma fl_nonpos_form:
  "fl_nonpos x \<Longrightarrow> fl_wf x \<Longrightarrow> x = FInf True \<or> (\<exists>a. x = FFin True a) \<or> (\<exists>s. x = FFin s 0)"
  using fl_wf_magnitude by (cases x) (fastforce simp: sgn_mag_def split: if_splits)+

lemma fl_scale_nonneg:
  assumes "fl_nonneg x" "fl_wf x" "fl_positive y"
  shows "fl_nonneg (fl_mul x y)" "\<exists>z. fl_div x y = Inr z \<and> fl_nonneg z"
  using fl_positive_finite[OF assms(3)] fl_nonneg_form[OF assms(1,2)] by auto

lemma fl_scale_nonpos:
  assumes "fl_nonpos x" "fl_wf x" "fl_positive y"
  shows "fl_nonpos (fl_mul x y)" "\<exists>z. fl_div x y = Inr z \<and> fl_nonpos z"
  using fl_positive_finite[OF assms(3)] fl_nonpos_form[OF assms(1,2)] by auto

section \<open>Adding moves in the direction of the sign\<close>

lemma fl_round_repr: "fl_repr p emin a \<Longrightarrow> fl_round p emin a = a"
  by (simp add: fl_repr_def)

lemma fl_add_above:
  assumes "fl_is_finite x" "fl_wf x" "fl_nonneg y"
  shows "fl_le x (fl_add x y)"
proof (cases y)
  case (FFin t b)
  obtain s a where x: "x = FFin s a" using assms(1) by (cases x) auto
  have a: "0 \<le> a" "fl_round 53 (- 1074) a = a" "a < fl_limit"
    using assms(2) fl_wf_magnitude[of s a] by (auto simp: x fl_round_repr)
  let ?v = "sgn_mag s a + sgn_mag t b" let ?r = "fl_round 53 (- 1074) \<bar>sgn_mag s a + sgn_mag t b\<bar>"
  have b: "0 \<le> sgn_mag t b" using assms(3) by (simp add: FFin)
  note mono = fl_round_mono[of 53 _ _ "- 1074"]
  have r0: "0 \<le> ?r" by (rule fl_round_nonneg)
  show ?thesis
  proof (cases "?v < 0")
    case True
    then have s: "s" using a b by (auto simp: sgn_mag_def split: if_splits)
    then have "\<bar>?v\<bar> \<le> a" using True b by (simp add: sgn_mag_def)
    then have "?r \<le> a" using mono[of "\<bar>?v\<bar>" a] a by simp
    then show ?thesis using True s a b by (auto simp: x FFin fl64_def Let_def fl_le_def sgn_mag_def)
  next
    case False
    have "sgn_mag s a \<le> ?r"
    proof (cases s)
      case True
      then show ?thesis using a r0 by (simp add: sgn_mag_def)
    next
      case f: False
      then have "a \<le> \<bar>?v\<bar>" using b a by (simp add: sgn_mag_def)
      then show ?thesis using mono[of a "\<bar>?v\<bar>"] a f by (simp add: sgn_mag_def)
    qed
    then show ?thesis
      using False b by (auto simp: x FFin fl64_def Let_def fl_le_def) (auto simp: sgn_mag_def split: if_splits)
  qed
next
  case (FInf t)
  then show ?thesis using assms by (cases x) (auto simp: fl_le_def)
qed (use assms in simp)

lemma fl_neg_neg [simp]: "fl_neg (fl_neg x) = x"
  by (cases x) auto

lemma fl_le_neg: "fl_le (fl_neg x) (fl_neg y) \<longleftrightarrow> fl_le y x"
  by (cases x; cases y) (auto simp: fl_le_def sgn_mag_def)

lemma fl64_neg: "fl64 (\<not> s) m = fl_neg (fl64 s m)"
  by (simp add: fl64_def Let_def)

lemma fl_le_zero: "fl_le z (FFin s 0) \<longleftrightarrow> fl_le z (FFin t 0)"
  by (cases z) (auto simp: fl_le_def)

lemma fl_le_add_neg: "fl_le z (fl_add (fl_neg x) (fl_neg y)) \<longleftrightarrow> fl_le z (fl_neg (fl_add x y))"
proof (cases "\<exists>s a t b. x = FFin s a \<and> y = FFin t b")
  case True
  then obtain s a t b where xy: "x = FFin s a" "y = FFin t b" by blast
  let ?v = "sgn_mag s a + sgn_mag t b"
  have v: "sgn_mag (\<not> s) a + sgn_mag (\<not> t) b = - ?v" by (simp add: sgn_mag_def)
  show ?thesis
  proof (cases "?v = 0")
    case True
    then have "fl_add x y = FFin (s \<and> t) 0" "fl_add (fl_neg x) (fl_neg y) = FFin (\<not> s \<and> \<not> t) 0"
      by (simp_all only: xy fl_neg.simps fl_add.simps Let_def v True if_True minus_zero simp_thms(6))
    then show ?thesis by (simp only: fl_neg.simps) (rule fl_le_zero)
  next
    case False
    then have "- ?v \<noteq> 0" "(- ?v < 0) = (\<not> ?v < 0)" by (auto simp del: minus_add_distrib)
    then have "fl_add (fl_neg x) (fl_neg y) = fl64 (\<not> ?v < 0) \<bar>?v\<bar>"
      by (simp only: xy fl_neg.simps fl_add.simps Let_def v if_False abs_minus_cancel)
    also have "\<dots> = fl_neg (fl_add x y)" using False by (simp add: fl64_neg xy Let_def)
    finally show ?thesis by simp
  qed
next
  case False
  then show ?thesis by (cases x; cases y) auto
qed

lemma fl_wf_neg_finite: "fl_is_finite (fl_neg x) = fl_is_finite x"
  by (cases x) auto

lemma fl_add_below:
  assumes "fl_is_finite x" "fl_wf x" "fl_nonpos y"
  shows "fl_le (fl_add x y) x"
proof -
  have "fl_le (fl_neg x) (fl_add (fl_neg x) (fl_neg y))"
    using assms by (intro fl_add_above) (auto simp: fl_wf_neg_finite)
  then show ?thesis by (simp add: fl_le_add_neg fl_le_neg)
qed

section \<open>Differences that cannot overflow\<close>

definition fl_top :: rat where
  "fl_top = (2 ^ 53 - 1) * 2 ^ 971"

lemma fl_top_largest:
  assumes "fl_repr 53 (- 1074) a" "a < fl_limit"
  shows "a \<le> fl_top"
proof (rule ccontr)
  assume n: "\<not> a \<le> fl_top"
  have "(2::rat) powi 1023 \<le> fl_top" by (simp add: fl_top_def power_int_def)
  then have lo: "(2::rat) powi 1023 \<le> a" using n by simp
  have hi: "a < 2 powi (1023 + 1)" using assms(2) by (simp add: fl_limit_def power_int_def)
  have a: "0 < a" using lo two_powi_pos[of 1023] by linarith
  have "ilog2 a = 1023" by (rule ilog2_unique[OF a lo hi])
  then have u: "ulp_exp 53 (- 1074) a = 971" by (simp add: ulp_exp_def)
  obtain k where "fl_round 53 (- 1074) a = of_int k * 2 powi 971"
    using fl_round_grid[of 53 a "- 1074"] a u by auto
  then have k: "a = of_int k * 2 ^ 971" using assms(1) by (simp add: fl_repr_def power_int_def)
  have "(2 ^ 53 - 1 :: rat) < of_int k" using n by (simp add: k fl_top_def)
  then have "2 ^ 53 \<le> k" by simp
  then have "(2 ^ 53 :: rat) \<le> of_int k" by (metis of_int_le_iff of_int_numeral of_int_power)
  then have "2 ^ 53 * 2 ^ 971 \<le> a" unfolding k by (intro mult_right_mono) auto
  then show False using assms(2) by (simp add: fl_limit_def)
qed

lemma fl_round_top: "fl_round 53 (- 1074) (fl_top + 1024) = fl_top"
proof -
  let ?x = "fl_top + 1024"
  have x: "0 < ?x" by (simp add: fl_top_def)
  have "ilog2 ?x = 1023"
    by (rule ilog2_unique[OF x]) (simp_all add: fl_top_def power_int_def)
  then have u: "ulp_exp 53 (- 1074) ?x = 971" by (simp add: ulp_exp_def)
  have q: "?x / 2 powi 971 = of_int (2 ^ 53 - 1) + 1024 / 2 ^ 971"
    by (simp add: fl_top_def power_int_def add_divide_distrib)
  have small: "(0::rat) \<le> 1024 / 2 ^ 971" "(1024::rat) / 2 ^ 971 < 1 / 2" by simp_all
  then have f: "\<lfloor>?x / 2 powi 971\<rfloor> = 2 ^ 53 - 1" unfolding q by (intro floor_unique) simp_all
  have r: "round_half_even (?x / 2 powi 971) = 2 ^ 53 - 1"
    using small unfolding round_half_even_def Let_def f unfolding q by simp
  have "fl_round 53 (- 1074) ?x = of_int (round_half_even (?x / 2 powi 971)) * 2 powi 971"
    using x u by (simp only: fl_round_def Let_def not_less[symmetric] not_True_eq_False if_False)
  also have "\<dots> = fl_top" unfolding r by (simp add: fl_top_def power_int_def)
  finally show ?thesis .
qed

lemma fl_sub_finite:
  assumes "fl_is_finite x" "fl_wf x" "fl_is_finite y" "fl_wf y"
    and "- 1024 \<le> fl_val x" "- 1024 \<le> fl_val y"
  shows "fl_is_finite (fl_sub x y)"
proof -
  obtain s a t b where xy: "x = FFin s a" "y = FFin t b" using assms by (cases x; cases y) auto
  have m: "0 \<le> a" "0 \<le> b" "a \<le> fl_top" "b \<le> fl_top"
    using assms fl_wf_magnitude[of s a] fl_wf_magnitude[of t b] fl_top_largest by (auto simp: xy)
  have "\<bar>sgn_mag s a - sgn_mag t b\<bar> \<le> fl_top + 1024"
    using assms(5,6) m by (auto simp: xy sgn_mag_def)
  then have "fl_round 53 (- 1074) \<bar>sgn_mag s a - sgn_mag t b\<bar> \<le> fl_top"
    using fl_round_mono[of 53 _ "fl_top + 1024" "- 1074"] fl_round_top by simp
  moreover have "fl_top < fl_limit" by (simp add: fl_top_def fl_limit_def)
  ultimately have "fl_is_finite (fl64 c \<bar>sgn_mag s a - sgn_mag t b\<bar>)" for c
    by (simp add: fl64_def Let_def)
  moreover have "sgn_mag (\<not> t) b = - sgn_mag t b" by (simp add: sgn_mag_def)
  ultimately show ?thesis by (simp add: xy fl_sub_def Let_def)
qed

lemma fl_sub_sign:
  assumes "fl_is_finite x" "fl_is_finite y"
  shows "fl_le x y \<Longrightarrow> fl_nonpos (fl_sub x y)" "fl_le y x \<Longrightarrow> fl_nonneg (fl_sub x y)"
proof -
  obtain s a t b where xy: "x = FFin s a" "y = FFin t b" using assms by (cases x; cases y) auto
  have neg: "sgn_mag (\<not> t) b = - sgn_mag t b" by (simp add: sgn_mag_def)
  have sub: "fl_sub x y = (let v = sgn_mag s a - sgn_mag t b in if v = 0 then FFin (s \<and> \<not> t) 0 else fl64 (v < 0) \<bar>v\<bar>)"
    by (simp add: xy fl_sub_def neg Let_def)
  show "fl_nonpos (fl_sub x y)" if "fl_le x y"
  proof -
    have "sgn_mag s a \<le> sgn_mag t b" using that by (auto simp: xy fl_le_def)
    then show ?thesis unfolding sub by (cases "sgn_mag s a = sgn_mag t b") (auto simp: Let_def)
  qed
  show "fl_nonneg (fl_sub x y)" if "fl_le y x"
  proof -
    have "sgn_mag t b \<le> sgn_mag s a" using that by (auto simp: xy fl_le_def)
    then show ?thesis unfolding sub by (cases "sgn_mag s a = sgn_mag t b") (auto simp: Let_def)
  qed
qed

lemma fl_add_wf [simp]: "fl_wf (fl_add x y)"
  by (cases "(x, y)" rule: fl_add.cases) (auto simp: Let_def)

lemma fl_sub_wf [simp]: "fl_wf (fl_sub x y)"
  by (simp add: fl_sub_def)

lemma fl_eq_zero_signs: "fl_eq x FL_ZERO \<Longrightarrow> fl_nonneg x \<and> fl_nonpos x"
  by (cases x) auto

lemma fl_le_trans: "fl_le x y \<Longrightarrow> fl_le y z \<Longrightarrow> fl_le x z"
  by (cases x; cases y; cases z) (auto simp: fl_le_def)

lemma fl_le_not_nan: "fl_le x y \<Longrightarrow> x \<noteq> FNaN \<and> y \<noteq> FNaN"
  by (cases x; cases y) (auto simp: fl_le_def)

lemma fl_le_max: "fl_le x y \<Longrightarrow> z \<noteq> FNaN \<Longrightarrow> fl_le x (fl_max z y)"
  using fl_le_trans[of x y z] fl_le_not_nan[of x y] by (auto simp: fl_max_def fl_le_not_less)

lemma fl_div_positive: "fl_positive y \<Longrightarrow> \<exists>z. fl_div x y = Inr z"
  using fl_positive_finite[of y] by (cases x) auto

end
