(* ===== verification/Thermal.thy ===== *)
theory Thermal
  imports ModuleActions FloatOrder
begin

text \<open>
  The thermal node (\<^verbatim>\<open>modules/thermal.py\<close>): one temperature integrated by explicit Euler, a commandable
  heater and three named faults. All arithmetic is that of Python floats.
\<close>

section \<open>Configuration\<close>

definition ABSOLUTE_ZERO_C :: pyfloat where "ABSOLUTE_ZERO_C = fl_lit (- 27315 / 100)"

definition coerce_temperature :: "string \<Rightarrow> py_val \<Rightarrow> module_error + pyfloat" where
  "coerce_temperature kind v =
     res_bind (coerce_finite_float kind v) (\<lambda>x.
       if fl_less x ABSOLUTE_ZERO_C then Inl (ModOutOfRange kind) else Inr x)"

record thermal_config =
  hc_name :: string
  hc_endpoint :: "endpoint_id option"
  hc_initial_temperature :: pyfloat
  hc_ambient_temperature :: pyfloat
  hc_capacity :: pyfloat
  hc_conductance :: pyfloat
  hc_internal_heat :: pyfloat
  hc_heater_power :: pyfloat
  hc_heater_initially_on :: bool
  hc_tick_seconds :: pyfloat
  hc_degraded_factor :: pyfloat

definition thermal_keywords :: "string list" where
  "thermal_keywords = [''initial_temperature_c'', ''ambient_temperature_c'', ''thermal_capacity_j_per_k'',
     ''conductance_w_per_k'', ''internal_heat_w'', ''heater_power_w'', ''heater_initially_on'',
     ''tick_seconds'', ''radiator_degraded_conductance_factor'']"

definition time_constant :: "thermal_config \<Rightarrow> py_exn + pyfloat" where
  "time_constant c =
     (if fl_eq (hc_conductance c) FL_ZERO then Inr (FInf False)
      else fl_div (hc_capacity c) (hc_conductance c))"

definition check_integration_stability :: "thermal_config \<Rightarrow> module_error + unit" where
  "check_integration_stability c =
     res_bind (map_sum ModUncaught id (time_constant c)) (\<lambda>tau.
       if fl_less tau (hc_tick_seconds c) then Inl (ModConfig ''tick_seconds'') else Inr ())"

definition mk_thermal_config ::
  "string \<Rightarrow> endpoint_id option \<Rightarrow> (string \<times> py_val) list \<Rightarrow> module_error + thermal_config" where
  "mk_thermal_config name ep params =
     res_bind (check_keywords thermal_keywords params) (\<lambda>_.
     res_bind (mod_identifier ''module name'' name) (\<lambda>name.
     res_bind (mod_optional_endpoint ''module endpoint'' ep) (\<lambda>ep.
     res_bind (param params coerce_temperature ''initial_temperature_c'' (lit 20)) (\<lambda>initial.
     res_bind (param params coerce_temperature ''ambient_temperature_c'' (lit (- 30))) (\<lambda>ambient.
     res_bind (param params coerce_positive_float ''thermal_capacity_j_per_k'' (lit 10)) (\<lambda>capacity.
     res_bind (param params coerce_non_negative_float ''conductance_w_per_k'' (lit 2)) (\<lambda>conductance.
     res_bind (param params coerce_non_negative_float ''internal_heat_w'' (lit 20)) (\<lambda>internal.
     res_bind (param params coerce_non_negative_float ''heater_power_w'' (lit 60)) (\<lambda>heater.
     res_bind (param params coerce_bool ''heater_initially_on'' (PBool False)) (\<lambda>heater_on.
     res_bind (param params coerce_positive_float ''tick_seconds'' (lit 1)) (\<lambda>seconds.
     res_bind (param params coerce_unit_interval ''radiator_degraded_conductance_factor'' (lit (1/4))) (\<lambda>degraded.
     let c = \<lparr>hc_name = name, hc_endpoint = ep, hc_initial_temperature = initial,
              hc_ambient_temperature = ambient, hc_capacity = capacity, hc_conductance = conductance,
              hc_internal_heat = internal, hc_heater_power = heater, hc_heater_initially_on = heater_on,
              hc_tick_seconds = seconds, hc_degraded_factor = degraded\<rparr>
     in res_bind (check_integration_stability c) (\<lambda>_. Inr c)))))))))))))"

section \<open>State\<close>

record thermal_module =
  th_base :: sim_module
  th_config :: thermal_config
  th_temperature :: pyfloat
  th_heater_commanded_on :: bool

definition mk_thermal :: "thermal_config \<Rightarrow> bool \<Rightarrow> module_error + thermal_module" where
  "mk_thermal c has_fault_engine =
     res_bind (mk_sim_module (hc_name c) (hc_endpoint c) has_fault_engine) (\<lambda>base.
       Inr \<lparr>th_base = base, th_config = c, th_temperature = hc_initial_temperature c,
            th_heater_commanded_on = hc_heater_initially_on c\<rparr>)"

type_synonym 'a thermal_act = "(thermal_module, 'a) mod_act"

section \<open>Effective values\<close>

definition thermal_temperature :: "int \<Rightarrow> pyfloat thermal_act" where
  "thermal_temperature clock =
     act_bind (act_get (\<lambda>(m, _). th_temperature m)) (\<lambda>t.
       model_field clock th_base coerce_temperature ''temperature_c'' (PFloat t))"

definition heater_enabled :: "int \<Rightarrow> bool thermal_act" where
  "heater_enabled clock =
     act_bind (act_get (\<lambda>(m, _). th_heater_commanded_on m)) (\<lambda>commanded.
     act_bind (module_fault_active th_base ''heater_stuck_off'') (\<lambda>stuck_off.
     act_bind (module_fault_active th_base ''heater_stuck_on'') (\<lambda>stuck_on.
       model_field clock th_base coerce_bool ''heater_enabled''
         (PBool (if stuck_on then True else if stuck_off then False else commanded)))))"

definition heater_status :: "int \<Rightarrow> string thermal_act" where
  "heater_status clock =
     act_bind (heater_enabled clock) (\<lambda>on. act_return (if on then ''on'' else ''off''))"

definition heater_power :: "int \<Rightarrow> pyfloat thermal_act" where
  "heater_power clock =
     act_bind (act_get (\<lambda>(m, _). hc_heater_power (th_config m))) (\<lambda>p.
     act_bind (heater_enabled clock) (\<lambda>on.
       model_field clock th_base coerce_non_negative_float ''heater_power_w''
         (PFloat (if on then p else FL_ZERO))))"

definition conductance :: "int \<Rightarrow> pyfloat thermal_act" where
  "conductance clock =
     act_bind (act_get (\<lambda>(m, _). th_config m)) (\<lambda>c.
     act_bind (module_fault_active th_base ''radiator_degraded'') (\<lambda>degraded.
       model_field clock th_base coerce_non_negative_float ''conductance_w_per_k''
         (PFloat (if degraded then fl_mul (hc_conductance c) (hc_degraded_factor c) else hc_conductance c))))"

definition ambient_temperature :: "int \<Rightarrow> pyfloat thermal_act" where
  "ambient_temperature clock =
     act_bind (act_get (\<lambda>(m, _). hc_ambient_temperature (th_config m))) (\<lambda>t.
       model_field clock th_base coerce_temperature ''ambient_temperature_c'' (PFloat t))"

section \<open>Operations\<close>

definition set_heater_enabled :: "bool \<Rightarrow> unit thermal_act" where
  "set_heater_enabled b = act_modify (\<lambda>(m, fe). (m\<lparr>th_heater_commanded_on := b\<rparr>, fe))"

definition thermal_handle_command :: "command_request \<Rightarrow> bool thermal_act" where
  "thermal_handle_command request =
     act_bind (act_get (\<lambda>(m, _). command_targets_module (th_base m) request)) (\<lambda>mine.
       if \<not> mine then act_return False
       else act_bind (if cr_command request = ''thermal_heater_on'' then set_heater_enabled True
                      else if cr_command request = ''thermal_heater_off'' then set_heater_enabled False
                      else act_fail (ModUnsupportedCommand (cr_command request))) (\<lambda>_. act_return True))"

text \<open>The arithmetic of \<^verbatim>\<open>tick\<close>, from the effective values it reads.\<close>

definition euler_delta ::
  "thermal_config \<Rightarrow> pyfloat \<Rightarrow> pyfloat \<Rightarrow> pyfloat \<Rightarrow> pyfloat \<Rightarrow> py_exn + pyfloat" where
  "euler_delta c heater k t ambient =
     fl_div (fl_mul (fl_sub (fl_add (hc_internal_heat c) heater) (fl_mul k (fl_sub t ambient))) (hc_tick_seconds c))
       (hc_capacity c)"

definition thermal_tick_once :: "int \<Rightarrow> unit thermal_act" where
  "thermal_tick_once clock =
     act_bind (act_get (\<lambda>(m, _). th_config m)) (\<lambda>c.
     act_bind (heater_power clock) (\<lambda>heater.
     act_bind (conductance clock) (\<lambda>k.
     act_bind (thermal_temperature clock) (\<lambda>t.
     act_bind (ambient_temperature clock) (\<lambda>ambient.
     act_bind (act_lift (map_sum ModUncaught id (euler_delta c heater k t ambient))) (\<lambda>delta.
     act_bind (thermal_temperature clock) (\<lambda>t'.
       act_modify (\<lambda>(m, fe). (m\<lparr>th_temperature := fl_max ABSOLUTE_ZERO_C (fl_add t' delta)\<rparr>, fe)))))))))"

definition thermal_telemetry :: "int \<Rightarrow> int option \<Rightarrow> (thermal_module, (string \<times> py_val) list) mod_act" where
  "thermal_telemetry clock now =
     act_bind (thermal_temperature clock) (\<lambda>t.
     act_bind (heater_status clock) (\<lambda>status.
     act_bind (heater_enabled clock) (\<lambda>on.
     act_bind (heater_power clock) (\<lambda>power.
       signal_values clock th_base now
         [(''temperature_c'', PFloat t), (''heater_status'', PStr status),
          (''heater_enabled'', PBool on), (''heater_power_w'', PFloat power)]))))"

definition thermal_tick :: "int \<Rightarrow> int \<Rightarrow> (thermal_module, (string \<times> py_val) list) mod_act" where
  "thermal_tick clock ticks =
     act_bind (act_lift (coerce_non_negative_int ''thermal tick count'' (PInt ticks))) (\<lambda>tick_count.
     act_bind (act_repeat (nat tick_count) (thermal_tick_once clock)) (\<lambda>_.
       thermal_telemetry clock None))"

definition thermal_emit_telemetry ::
  "string list option \<Rightarrow> int \<Rightarrow> endpoint_id option \<Rightarrow> ('h, thermal_module, telemetry_sample list) sample_act" where
  "thermal_emit_telemetry = emit_telemetry th_base thermal_telemetry"

section \<open>The temperature is a number above absolute zero\<close>

definition thermal_inv :: "thermal_module \<Rightarrow> bool" where
  "thermal_inv m \<longleftrightarrow> fl_le ABSOLUTE_ZERO_C (th_temperature m)"

abbreviation keeps_thermal :: "'a thermal_act \<Rightarrow> bool" where
  "keeps_thermal \<equiv> act_keeps (\<lambda>s. thermal_inv (fst s))"

lemma reads_thermal [reads_intros]:
  "reads (thermal_temperature clock)" "reads (heater_enabled clock)" "reads (heater_status clock)"
  "reads (heater_power clock)" "reads (conductance clock)" "reads (ambient_temperature clock)"
  "reads (thermal_telemetry clock now)"
proof -
  show t: "reads (thermal_temperature clock)" by (auto simp: thermal_temperature_def intro!: reads_intros)
  show e: "reads (heater_enabled clock)" by (auto simp: heater_enabled_def intro!: reads_intros)
  then show s: "reads (heater_status clock)" by (auto simp: heater_status_def intro!: reads_intros)
  show p: "reads (heater_power clock)" using e by (auto simp: heater_power_def intro!: reads_intros)
  show "reads (conductance clock)" by (auto simp: conductance_def intro!: reads_intros)
  show "reads (ambient_temperature clock)" by (auto simp: ambient_temperature_def intro!: reads_intros)
  from t e s p show "reads (thermal_telemetry clock now)" by (auto simp: thermal_telemetry_def intro!: reads_intros)
qed

lemma absolute_zero: "fl_is_finite ABSOLUTE_ZERO_C" "ABSOLUTE_ZERO_C \<noteq> FNaN" "fl_wf ABSOLUTE_ZERO_C"
  "fl_le ABSOLUTE_ZERO_C FL_ZERO"
proof -
  show f: "fl_is_finite ABSOLUTE_ZERO_C" "fl_le ABSOLUTE_ZERO_C FL_ZERO" by code_simp+
  then show "ABSOLUTE_ZERO_C \<noteq> FNaN" by auto
  show "fl_wf ABSOLUTE_ZERO_C" by (simp add: ABSOLUTE_ZERO_C_def fl_lit_def)
qed

lemma coerce_temperature_Inr:
  assumes "coerce_temperature kind v = Inr x"
  shows "fl_is_finite x \<and> fl_le ABSOLUTE_ZERO_C x"
proof -
  have "coerce_finite_float kind v = Inr x" "\<not> fl_less x ABSOLUTE_ZERO_C"
    using assms by (auto simp: coerce_temperature_def res_bind_eq_Inr split: if_splits)
  then show ?thesis
    using coerce_finite_float_Inr absolute_zero(2) by (cases x) (fastforce simp: fl_le_not_less)+
qed

lemma keeps_thermal_tick_once: "keeps_thermal (thermal_tick_once clock)"
  unfolding thermal_tick_once_def
  by (intro act_intros reads_keeps[OF reads_thermal(1)] reads_keeps[OF reads_thermal(4)]
      reads_keeps[OF reads_thermal(5)] reads_keeps[OF reads_thermal(6)])
    (auto simp: thermal_inv_def absolute_zero fl_max_ge_left)

lemma keeps_thermal_tick: "keeps_thermal (thermal_tick clock n)"
  unfolding thermal_tick_def
  by (intro act_intros keeps_thermal_tick_once reads_keeps[OF reads_thermal(7)])

lemma keeps_thermal_command: "keeps_thermal (thermal_handle_command request)"
  unfolding thermal_handle_command_def set_heater_enabled_def
  by (intro act_intros) (auto simp: thermal_inv_def)

datatype thermal_op =
    ThTick int
  | ThCommand command_request
  | ThTelemetry "int option"
  | ThFaults fault_engine

primrec thermal_op_run :: "int \<Rightarrow> thermal_op \<Rightarrow> unit thermal_act" where
  "thermal_op_run clock (ThTick n) = act_then (thermal_tick clock n) (act_return ())"
| "thermal_op_run clock (ThCommand r) = act_then (thermal_handle_command r) (act_return ())"
| "thermal_op_run clock (ThTelemetry now) = act_then (thermal_telemetry clock now) (act_return ())"
| "thermal_op_run clock (ThFaults fe) = act_modify (\<lambda>(m, _). (m, fe))"

fun thermal_run :: "(int \<times> thermal_op) list \<Rightarrow> thermal_module \<times> fault_engine \<Rightarrow> thermal_module \<times> fault_engine" where
  "thermal_run [] s = s"
| "thermal_run ((clock, oper) # ops) s = thermal_run ops (snd (thermal_op_run clock oper s))"

lemma thermal_run_inv: "thermal_inv (fst s) \<Longrightarrow> thermal_inv (fst (thermal_run ops s))"
proof (induction ops arbitrary: s)
  case (Cons c ops)
  obtain clock oper where c: "c = (clock, oper)" by (cases c)
  have "keeps_thermal (thermal_op_run clock oper)"
    by (cases oper) (auto intro!: act_intros keeps_thermal_tick keeps_thermal_command reads_keeps[OF reads_thermal(7)])
  then have "thermal_inv (fst (snd (thermal_op_run clock oper s)))"
    using Cons.prems by (cases s) (simp add: act_keeps_def)
  then show ?case using Cons.IH by (simp add: c)
qed simp

section \<open>One step without faults\<close>

definition thermal_config_ok :: "thermal_config \<Rightarrow> bool" where
  "thermal_config_ok c \<longleftrightarrow> fl_amount (hc_internal_heat c) \<and> fl_amount (hc_heater_power c) \<and>
     fl_amount (hc_conductance c) \<and> fl_positive (hc_capacity c) \<and> fl_positive (hc_tick_seconds c) \<and>
     fl_is_finite (hc_ambient_temperature c) \<and> fl_wf (hc_ambient_temperature c) \<and>
     fl_le ABSOLUTE_ZERO_C (hc_ambient_temperature c)"

lemma coerce_finite_float_wf: "coerce_finite_float kind v = Inr x \<Longrightarrow> pv_wf v \<Longrightarrow> fl_is_finite x \<and> fl_wf x"
  by (auto simp: coerce_finite_float_def dest: py_float_wf split: if_splits sum.splits)

lemma not_less_nonneg: "fl_is_finite x \<Longrightarrow> \<not> fl_less x FL_ZERO \<longleftrightarrow> fl_nonneg x"
  by (cases x) (auto simp: sgn_mag_def)

lemma coerce_amount: "coerce_non_negative_float kind v = Inr x \<Longrightarrow> pv_wf v \<Longrightarrow> fl_amount x"
  by (auto simp: coerce_non_negative_float_def res_bind_eq_Inr fl_amount_def not_less_nonneg
      dest!: coerce_finite_float_wf split: if_splits)

lemma coerce_positive: "coerce_positive_float kind v = Inr x \<Longrightarrow> pv_wf v \<Longrightarrow> fl_positive x"
proof -
  assume a: "coerce_positive_float kind v = Inr x" "pv_wf v"
  then have "fl_amount x" "\<not> fl_eq x FL_ZERO"
    by (auto simp: coerce_positive_float_def res_bind_eq_Inr dest: coerce_amount split: if_splits)
  then show "fl_positive x" by (cases x) (auto simp: fl_positive_def fl_amount_def sgn_mag_def split: if_splits)
qed

lemma pv_wf_keyword: "\<forall>(_, v) \<in> set params. pv_wf v \<Longrightarrow> pv_wf d \<Longrightarrow> pv_wf (keyword params name d)"
  by (auto simp: keyword_def dest!: map_of_SomeD split: option.splits)

lemma pv_wf_lit: "pv_wf (lit v)"
  by (simp add: fl_lit_def)

lemma mk_thermal_config_ok:
  assumes c: "mk_thermal_config name ep params = Inr c" and wf: "\<forall>(_, v) \<in> set params. pv_wf v"
  shows "thermal_config_ok c \<and> hc_name c = name \<and> is_identifier name"
proof -
  note kw = pv_wf_keyword[OF wf pv_wf_lit]
  have c': "is_identifier name \<and> hc_name c = name \<and>
    coerce_temperature ''ambient_temperature_c'' (keyword params ''ambient_temperature_c'' (lit (- 30))) = Inr (hc_ambient_temperature c) \<and>
    coerce_positive_float ''thermal_capacity_j_per_k'' (keyword params ''thermal_capacity_j_per_k'' (lit 10)) = Inr (hc_capacity c) \<and>
    coerce_non_negative_float ''conductance_w_per_k'' (keyword params ''conductance_w_per_k'' (lit 2)) = Inr (hc_conductance c) \<and>
    coerce_non_negative_float ''internal_heat_w'' (keyword params ''internal_heat_w'' (lit 20)) = Inr (hc_internal_heat c) \<and>
    coerce_non_negative_float ''heater_power_w'' (keyword params ''heater_power_w'' (lit 60)) = Inr (hc_heater_power c) \<and>
    coerce_positive_float ''tick_seconds'' (keyword params ''tick_seconds'' (lit 1)) = Inr (hc_tick_seconds c)"
    using c by (auto simp: mk_thermal_config_def res_bind_eq_Inr param_def Let_def mod_identifier_def split: if_splits)
  have amb: "fl_is_finite (hc_ambient_temperature c) \<and> fl_wf (hc_ambient_temperature c) \<and>
      fl_le ABSOLUTE_ZERO_C (hc_ambient_temperature c)"
    using c' coerce_temperature_Inr coerce_finite_float_wf[OF _ kw]
    by (fastforce simp: coerce_temperature_def res_bind_eq_Inr split: if_splits)
  show ?thesis
    using c' amb coerce_amount[OF _ kw] coerce_positive[OF _ kw] unfolding thermal_config_ok_def by blast
qed

lemma thermal_ident_lit:
  "is_identifier ''temperature_c''" "is_identifier ''heater_enabled''" "is_identifier ''heater_power_w''"
  "is_identifier ''conductance_w_per_k''" "is_identifier ''ambient_temperature_c''"
  "is_identifier ''heater_stuck_off''" "is_identifier ''heater_stuck_on''" "is_identifier ''radiator_degraded''"
  by (simp_all add: is_identifier_def ident_char_def is_letter_def is_digit_def)

lemma coerce_temperature_float:
  "fl_is_finite x \<Longrightarrow> fl_le ABSOLUTE_ZERO_C x \<Longrightarrow> coerce_temperature kind (PFloat x) = Inr x"
  using absolute_zero(2)
  by (cases x) (auto simp: coerce_temperature_def coerce_finite_float_def fl_le_not_less)

lemma coerce_amount_float: "fl_amount x \<Longrightarrow> coerce_non_negative_float kind (PFloat x) = Inr x"
  by (auto simp: coerce_non_negative_float_def coerce_finite_float_def fl_amount_def not_less_nonneg[symmetric])

lemma euler_delta_sign:
  assumes c: "thermal_config_ok c" and h: "fl_amount heater" and k: "fl_amount k"
    and t: "fl_is_finite t" "fl_wf t" "fl_le ABSOLUTE_ZERO_C t"
    and a: "fl_is_finite a" "fl_wf a" "fl_le ABSOLUTE_ZERO_C a"
  shows "fl_le t a \<Longrightarrow> \<exists>d. euler_delta c heater k t a = Inr d \<and> fl_nonneg d"
    and "fl_eq (hc_internal_heat c) FL_ZERO \<Longrightarrow> fl_eq heater FL_ZERO \<Longrightarrow> fl_le a t \<Longrightarrow>
      \<exists>d. euler_delta c heater k t a = Inr d \<and> fl_nonpos d"
proof -
  have "- 1024 \<le> fl_val ABSOLUTE_ZERO_C" by code_simp
  then have "- 1024 \<le> fl_val t" "- 1024 \<le> fl_val a"
    using t a absolute_zero(1) fl_le_finite by (metis order_trans)+
  then have fin: "fl_is_finite (fl_sub t a)" using t a by (intro fl_sub_finite) auto
  note pos = c[unfolded thermal_config_ok_def]
  note sign = fl_sub_sign[OF t(1) a(1)]
  let ?s = "fl_add (hc_internal_heat c) heater" let ?n = "fl_sub ?s (fl_mul k (fl_sub t a))"
  have up: "\<exists>d. euler_delta c heater k t a = Inr d \<and> fl_nonneg d" if "fl_nonneg ?n"
    using that pos fl_scale_nonneg(2)[OF fl_scale_nonneg(1)[OF that], of "hc_tick_seconds c" "hc_capacity c"]
    by (simp add: euler_delta_def)
  have down: "\<exists>d. euler_delta c heater k t a = Inr d \<and> fl_nonpos d" if "fl_nonpos ?n"
    using that pos fl_scale_nonpos(2)[OF fl_scale_nonpos(1)[OF that], of "hc_tick_seconds c" "hc_capacity c"]
    by (simp add: euler_delta_def)
  show "\<exists>d. euler_delta c heater k t a = Inr d \<and> fl_nonneg d" if "fl_le t a"
  proof (rule up)
    have "fl_nonneg ?s" using pos h by (intro fl_nonneg_add) (auto simp: fl_amount_def)
    moreover have "fl_nonpos (fl_mul k (fl_sub t a))" using k sign(1)[OF that] fin by (intro fl_mul_nonpos) auto
    ultimately show "fl_nonneg ?n" by (rule fl_nonneg_sub)
  qed
  show "\<exists>d. euler_delta c heater k t a = Inr d \<and> fl_nonpos d"
    if "fl_eq (hc_internal_heat c) FL_ZERO" "fl_eq heater FL_ZERO" "fl_le a t"
  proof (rule down)
    have "fl_nonpos ?s" using that fl_eq_zero_signs by (intro fl_nonpos_add) auto
    moreover have "fl_nonneg (fl_mul k (fl_sub t a))" using k sign(2)[OF that(3)] fin by (intro fl_mul_nonneg) auto
    ultimately show "fl_nonpos ?n" by (rule fl_nonpos_sub)
  qed
qed

lemma thermal_tick_once_quiet:
  assumes q: "quiet fe" and c: "thermal_config_ok (th_config m)" and i: "is_identifier (sm_name (th_base m))"
    and t: "fl_is_finite (th_temperature m)" "thermal_inv m"
  shows "thermal_tick_once clock (m, fe) =
     (case euler_delta (th_config m) (if th_heater_commanded_on m then hc_heater_power (th_config m) else FL_ZERO)
             (hc_conductance (th_config m)) (th_temperature m) (hc_ambient_temperature (th_config m)) of
        Inl e \<Rightarrow> (Inl (ModUncaught e), (m, fe))
      | Inr d \<Rightarrow> (Inr (), (m\<lparr>th_temperature := fl_max ABSOLUTE_ZERO_C (fl_add (th_temperature m) d)\<rparr>, fe)))"
proof -
  note f = model_field_quiet[of fe th_base m, OF q i] and g = module_fault_quiet[of fe th_base m, OF q i]
  note ok = c[unfolded thermal_config_ok_def]
  have on: "heater_enabled clk (m, fe) = (Inr (th_heater_commanded_on m), (m, fe))" for clk
    by (simp add: heater_enabled_def act_bind_def act_run f g thermal_ident_lit coerce_bool_def)
  have zero: "fl_amount FL_ZERO" by (simp add: fl_amount_def)
  have power: "heater_power clock (m, fe) =
      (Inr (if th_heater_commanded_on m then hc_heater_power (th_config m) else FL_ZERO), (m, fe))"
    using ok zero by (simp add: heater_power_def act_bind_def act_run f on thermal_ident_lit coerce_amount_float)
  have cond: "conductance clock (m, fe) = (Inr (hc_conductance (th_config m)), (m, fe))"
    using ok by (simp add: conductance_def act_bind_def act_run f g thermal_ident_lit coerce_amount_float)
  have amb: "ambient_temperature clock (m, fe) = (Inr (hc_ambient_temperature (th_config m)), (m, fe))"
    using ok by (simp add: ambient_temperature_def act_bind_def act_run f thermal_ident_lit coerce_temperature_float)
  have temp: "thermal_temperature clock (m, fe) = (Inr (th_temperature m), (m, fe))"
    using t by (simp add: thermal_temperature_def act_bind_def act_run f thermal_ident_lit coerce_temperature_float thermal_inv_def)
  show ?thesis
    by (simp add: thermal_tick_once_def act_bind_def act_run power cond amb temp split: sum.splits)
qed

section \<open>Properties\<close>

definition demo_thermal_config :: thermal_config where
  "demo_thermal_config = \<lparr>hc_name = ''panel'', hc_endpoint = Some (EpNumber 9), hc_initial_temperature = fl_lit 20,
     hc_ambient_temperature = fl_lit (- 30), hc_capacity = fl_lit 10, hc_conductance = fl_lit 2,
     hc_internal_heat = fl_lit 0, hc_heater_power = fl_lit 60, hc_heater_initially_on = False,
     hc_tick_seconds = fl_lit 1, hc_degraded_factor = fl_lit (1/4)\<rparr>"

definition demo_thermal_params :: "(string \<times> py_val) list" where
  "demo_thermal_params = [(''internal_heat_w'', PInt 0)]"

definition demo_thermal :: thermal_module where
  "demo_thermal = \<lparr>th_base = \<lparr>sm_name = ''panel'', sm_endpoint = Some (EpNumber 9), sm_has_fault_engine = True\<rparr>,
     th_config = demo_thermal_config, th_temperature = fl_lit 20, th_heater_commanded_on = False\<rparr>"

lemma demo_thermal_builds:
  "mk_thermal_config ''panel'' (Some (EpNumber 9)) demo_thermal_params = Inr demo_thermal_config"
  "mk_thermal demo_thermal_config True = Inr demo_thermal"
  by code_simp+

definition demo_thermal_ops :: "(int \<times> thermal_op) list" where
  "demo_thermal_ops = [(0, ThTick 2),
     (2, ThFaults (new_fault_engine\<lparr>fe_named_faults :=
            [(''panel.heater_stuck_on'', \<lparr>nf_module = ''panel'', nf_name = ''heater_stuck_on'', nf_activated_at = 2, nf_activated_cycle = 0\<rparr>)]\<rparr>)),
     (2, ThTick 1)]"

text \<open>
  C36: A thermal node is never colder than absolute zero and never without a number. From any
  configuration it accepts, after any sequence of ticks, commands, telemetry reads and arbitrary changes
  of the fault state, the ones that raise included, the stored temperature is not NaN and not below
  absolute zero, whatever the overrides and whatever overflows.
\<close>

theorem thermal_above_absolute_zero:
  assumes "mk_thermal_config name ep params = Inr c" "mk_thermal c hf = Inr m"
  shows "fl_le ABSOLUTE_ZERO_C (th_temperature (fst (thermal_run ops (m, fe))))"
proof -
  have "fl_le ABSOLUTE_ZERO_C (hc_initial_temperature c)"
    using assms(1) coerce_temperature_Inr
    by (auto simp: mk_thermal_config_def res_bind_eq_Inr param_def Let_def split: if_splits)
  then have "thermal_inv m"
    using assms(2) by (auto simp: mk_thermal_def res_bind_eq_Inr thermal_inv_def)
  then show ?thesis using thermal_run_inv[of "(m, fe)" ops] by (simp add: thermal_inv_def)
qed

lemma thermal_above_absolute_zero_witness:
  "fl_le ABSOLUTE_ZERO_C (th_temperature (fst (thermal_run demo_thermal_ops (demo_thermal, new_fault_engine))))"
  by (rule thermal_above_absolute_zero[OF demo_thermal_builds])

text \<open>
  A thermal step moves the right way. With an accepted configuration and no active fault, a step from
  a finite temperature does not raise; it does not cool a node that is at or below the ambient
  temperature, and a node at or above it with no internal heat and its heater off is not warmed. Both
  hold of the float arithmetic itself, rounding and overflow included.
\<close>

theorem thermal_step_direction:
  assumes "mk_thermal_config name ep params = Inr c" "\<forall>(_, v) \<in> set params. pv_wf v"
    and "th_config m = c" "sm_name (th_base m) = name" "quiet fe"
    and "fl_is_finite (th_temperature m)" "fl_wf (th_temperature m)" "fl_le ABSOLUTE_ZERO_C (th_temperature m)"
  shows "\<exists>m'. thermal_tick_once clock (m, fe) = (Inr (), (m', fe)) \<and> th_config m' = c \<and>
     (fl_le (th_temperature m) (hc_ambient_temperature c) \<longrightarrow> fl_le (th_temperature m) (th_temperature m')) \<and>
     (fl_le (hc_ambient_temperature c) (th_temperature m) \<and> fl_eq (hc_internal_heat c) FL_ZERO \<and>
      \<not> th_heater_commanded_on m \<longrightarrow> fl_le (th_temperature m') (th_temperature m))"
proof -
  note c = mk_thermal_config_ok[OF assms(1,2)]
  have i: "is_identifier (sm_name (th_base m))" using c assms(4) by simp
  have inv: "thermal_inv m" using assms(8) by (simp add: thermal_inv_def)
  let ?h = "if th_heater_commanded_on m then hc_heater_power c else FL_ZERO"
  let ?t = "th_temperature m" and ?a = "hc_ambient_temperature c"
  have h: "fl_amount ?h" using c by (auto simp: thermal_config_ok_def fl_amount_def)
  have k: "fl_amount (hc_conductance c)"
    and a: "fl_is_finite ?a" "fl_wf ?a" "fl_le ABSOLUTE_ZERO_C ?a"
    using c by (auto simp: thermal_config_ok_def)
  note sign = euler_delta_sign[OF conjunct1[OF c] h k assms(6-8) a]
  note tick = thermal_tick_once_quiet[OF assms(5) _ i assms(6) inv, of clock, unfolded assms(3), OF conjunct1[OF c]]
  obtain d where d: "euler_delta c ?h (hc_conductance c) ?t ?a = Inr d"
    using c fl_div_positive by (auto simp: euler_delta_def thermal_config_ok_def)
  have zero: "fl_eq FL_ZERO FL_ZERO" by simp
  have up: "fl_nonneg d" if "fl_le ?t ?a" using sign(1)[OF that] d by auto
  have down: "fl_nonpos d"
    if "fl_eq (hc_internal_heat c) FL_ZERO" "\<not> th_heater_commanded_on m" "fl_le ?a ?t"
    using sign(2)[OF that(1) _ that(3)] d that(2) by auto
  let ?t' = "fl_max ABSOLUTE_ZERO_C (fl_add ?t d)"
  have rise: "fl_le ?t ?t'" if "fl_le ?t ?a"
    using fl_le_max[OF fl_add_above[OF assms(6,7) up[OF that]] absolute_zero(2)] .
  have fall: "fl_le ?t' ?t"
    if "fl_eq (hc_internal_heat c) FL_ZERO" "\<not> th_heater_commanded_on m" "fl_le ?a ?t"
    using fl_add_below[OF assms(6,7) down[OF that]] assms(8) by (auto simp: fl_max_def)
  show ?thesis using tick d rise fall assms(3) by simp
qed

lemma thermal_step_direction_witness:
  "\<exists>m'. thermal_tick_once 3 (demo_thermal, new_fault_engine) = (Inr (), (m', new_fault_engine)) \<and>
     fl_le (th_temperature m') (fl_lit 20)"
proof -
  have "\<forall>(_, v) \<in> set demo_thermal_params. pv_wf v" by (simp add: demo_thermal_params_def)
  moreover have "fl_is_finite (th_temperature demo_thermal)" "fl_le ABSOLUTE_ZERO_C (th_temperature demo_thermal)"
    "fl_le (hc_ambient_temperature demo_thermal_config) (th_temperature demo_thermal)"
    "fl_eq (hc_internal_heat demo_thermal_config) FL_ZERO"
    by code_simp+
  moreover have "fl_wf (th_temperature demo_thermal)" by (simp add: demo_thermal_def fl_lit_def)
  moreover have "quiet new_fault_engine" by code_simp
  ultimately show ?thesis
    using thermal_step_direction[OF demo_thermal_builds(1), of demo_thermal new_fault_engine 3]
    by (auto simp: demo_thermal_def)
qed

end
