(* ===== verification/Eps.thy ===== *)
theory Eps
  imports Payload FloatOrder
begin

text \<open>
  The EPS module (\<^verbatim>\<open>modules/eps.py\<close>): battery, power modes, load shedding and the power rail of an
  attached payload. The payload is an object the EPS shares with the runtime, so an EPS acts on its own
  state and on the payload it is attached to, if any.
\<close>

section \<open>Configuration\<close>

record eps_config =
  ec_name :: string
  ec_endpoint :: "endpoint_id option"
  ec_initial_battery :: pyfloat
  ec_capacity_wh :: pyfloat
  ec_tick_seconds :: pyfloat
  ec_base_load :: pyfloat
  ec_low_power_load :: pyfloat
  ec_safe_load :: pyfloat
  ec_solar_input :: pyfloat
  ec_empty_voltage :: pyfloat
  ec_full_voltage :: pyfloat
  ec_low_threshold :: pyfloat
  ec_recovery_threshold :: pyfloat
  ec_critical_threshold :: pyfloat
  ec_rail_initially_enabled :: bool
  ec_shed_in_low_power :: bool
  ec_shed_in_safe_mode :: bool
  ec_dead_capacity_factor :: pyfloat
  ec_dead_voltage_drop :: pyfloat
  ec_undervoltage :: pyfloat

definition eps_keywords :: "string list" where
  "eps_keywords = [''initial_battery_percent'', ''battery_capacity_wh'', ''tick_seconds'', ''base_load_w'',
     ''low_power_load_w'', ''safe_load_w'', ''solar_input_w'', ''empty_voltage_v'', ''full_voltage_v'',
     ''low_power_threshold_percent'', ''recovery_threshold_percent'', ''critical_threshold_percent'',
     ''payload_rail_initially_enabled'', ''shed_payload_in_low_power'', ''shed_payload_in_safe_mode'',
     ''battery_cell_dead_capacity_factor'', ''battery_cell_dead_voltage_drop_v'',
     ''undervoltage_fault_voltage_v'']"

definition check_threshold_order :: "eps_config \<Rightarrow> module_error + unit" where
  "check_threshold_order c =
     (if fl_less (ec_low_threshold c) (ec_critical_threshold c) then Inl (ModConfig ''critical_threshold_percent'')
      else if fl_less (ec_recovery_threshold c) (ec_low_threshold c) then Inl (ModConfig ''low_power_threshold_percent'')
      else Inr ())"

definition check_voltage_order :: "eps_config \<Rightarrow> module_error + unit" where
  "check_voltage_order c =
     (if fl_less (ec_full_voltage c) (ec_empty_voltage c) then Inl (ModConfig ''empty_voltage_v'') else Inr ())"

definition mk_eps_config ::
  "string \<Rightarrow> endpoint_id option \<Rightarrow> (string \<times> py_val) list \<Rightarrow> module_error + eps_config" where
  "mk_eps_config name ep params =
     res_bind (check_keywords eps_keywords params) (\<lambda>_.
     res_bind (mod_identifier ''module name'' name) (\<lambda>name.
     res_bind (mod_optional_endpoint ''module endpoint'' ep) (\<lambda>ep.
     res_bind (param params coerce_percentage ''initial_battery_percent'' (lit 80)) (\<lambda>initial.
     res_bind (param params coerce_positive_float ''battery_capacity_wh'' (lit 20)) (\<lambda>capacity.
     res_bind (param params coerce_positive_float ''tick_seconds'' (lit 1)) (\<lambda>seconds.
     res_bind (param params coerce_non_negative_float ''base_load_w'' (lit 1)) (\<lambda>base_load.
     res_bind (param params coerce_non_negative_float ''low_power_load_w'' (lit (1/2))) (\<lambda>low_load.
     res_bind (param params coerce_non_negative_float ''safe_load_w'' (lit (2/10))) (\<lambda>safe_load.
     res_bind (param params coerce_non_negative_float ''solar_input_w'' (lit (3/2))) (\<lambda>solar.
     res_bind (param params coerce_non_negative_float ''empty_voltage_v'' (lit 6)) (\<lambda>empty_v.
     res_bind (param params coerce_non_negative_float ''full_voltage_v'' (lit (84/10))) (\<lambda>full_v.
     res_bind (param params coerce_percentage ''low_power_threshold_percent'' (lit 30)) (\<lambda>low.
     res_bind (param params coerce_percentage ''recovery_threshold_percent'' (lit 35)) (\<lambda>recovery.
     res_bind (param params coerce_percentage ''critical_threshold_percent'' (lit 10)) (\<lambda>critical.
     res_bind (param params coerce_bool ''payload_rail_initially_enabled'' (PBool True)) (\<lambda>rail.
     res_bind (param params coerce_bool ''shed_payload_in_low_power'' (PBool False)) (\<lambda>shed_low.
     res_bind (param params coerce_bool ''shed_payload_in_safe_mode'' (PBool True)) (\<lambda>shed_safe.
     res_bind (param params coerce_unit_interval ''battery_cell_dead_capacity_factor'' (lit (1/2))) (\<lambda>factor.
     res_bind (param params coerce_non_negative_float ''battery_cell_dead_voltage_drop_v'' (lit (12/10))) (\<lambda>drop_v.
     res_bind (param params coerce_non_negative_float ''undervoltage_fault_voltage_v'' (lit 5)) (\<lambda>under_v.
     let c = \<lparr>ec_name = name, ec_endpoint = ep, ec_initial_battery = initial, ec_capacity_wh = capacity,
              ec_tick_seconds = seconds, ec_base_load = base_load, ec_low_power_load = low_load,
              ec_safe_load = safe_load, ec_solar_input = solar, ec_empty_voltage = empty_v,
              ec_full_voltage = full_v, ec_low_threshold = low, ec_recovery_threshold = recovery,
              ec_critical_threshold = critical, ec_rail_initially_enabled = rail,
              ec_shed_in_low_power = shed_low, ec_shed_in_safe_mode = shed_safe,
              ec_dead_capacity_factor = factor, ec_dead_voltage_drop = drop_v, ec_undervoltage = under_v\<rparr>
     in res_bind (check_threshold_order c) (\<lambda>_.
        res_bind (check_voltage_order c) (\<lambda>_. Inr c)))))))))))))))))))))))"

section \<open>State\<close>

datatype power_mode = EPS_NOMINAL | EPS_LOW_POWER | EPS_SAFE | EPS_OFF

definition power_mode_value :: "power_mode \<Rightarrow> string" where
  "power_mode_value mode =
     (case mode of EPS_NOMINAL \<Rightarrow> ''nominal'' | EPS_LOW_POWER \<Rightarrow> ''low_power'' | EPS_SAFE \<Rightarrow> ''safe'' | EPS_OFF \<Rightarrow> ''off'')"

definition coerce_power_mode :: "py_val \<Rightarrow> module_error + power_mode" where
  "coerce_power_mode v =
     (case v of
        PStr s \<Rightarrow>
          (case find (\<lambda>mode. power_mode_value mode = s) [EPS_NOMINAL, EPS_LOW_POWER, EPS_SAFE, EPS_OFF] of
             Some mode \<Rightarrow> Inr mode
           | None \<Rightarrow> Inl (ModOutOfRange ''EPS power mode''))
      | _ \<Rightarrow> Inl (ModOutOfRange ''EPS power mode''))"

record eps_module =
  ep_base :: sim_module
  ep_config :: eps_config
  ep_battery :: pyfloat
  ep_commanded_mode :: power_mode
  ep_rail_commanded :: bool
  ep_mode :: power_mode
  ep_voltage :: pyfloat
  ep_load :: pyfloat

type_synonym eps_world = "eps_module \<times> payload_module option"

type_synonym 'a eps_act = "(eps_world, 'a) mod_act"

abbreviation eps_base :: "eps_world \<Rightarrow> sim_module" where "eps_base w \<equiv> ep_base (fst w)"

definition eps_get :: "(eps_module \<Rightarrow> 'a) \<Rightarrow> 'a eps_act" where
  "eps_get f = act_get (\<lambda>((m, _), _). f m)"

definition on_eps :: "(eps_module \<Rightarrow> eps_module) \<Rightarrow> unit eps_act" where
  "on_eps f = act_modify (\<lambda>((m, p), fe). ((f m, p), fe))"

text \<open>A call on the attached payload; \<open>dflt\<close> when there is none.\<close>

definition with_payload :: "'a \<Rightarrow> 'a payload_act \<Rightarrow> 'a eps_act" where
  "with_payload dflt act st =
     (case st of
        ((m, None), fe) \<Rightarrow> (Inr dflt, st)
      | ((m, Some p), fe) \<Rightarrow> (case act (p, fe) of (r, (p1, fe1)) \<Rightarrow> (r, ((m, Some p1), fe1))))"

section \<open>Effective values\<close>

definition max_battery_percent :: "pyfloat eps_act" where
  "max_battery_percent =
     act_bind (module_fault_active eps_base ''battery_cell_dead'') (\<lambda>dead.
     act_bind (eps_get (\<lambda>m. ec_dead_capacity_factor (ep_config m))) (\<lambda>factor.
       act_return (if dead then fl_mul (fl_lit 100) factor else fl_lit 100)))"

definition battery_percent :: "int \<Rightarrow> pyfloat eps_act" where
  "battery_percent clock =
     act_bind (eps_get ep_battery) (\<lambda>b.
     act_bind (model_field clock eps_base coerce_percentage ''battery_percent'' (PFloat b)) (\<lambda>percent.
     act_bind max_battery_percent (\<lambda>maxp. act_return (fl_min percent maxp))))"

definition battery_voltage :: "int \<Rightarrow> pyfloat eps_act" where
  "battery_voltage clock =
     act_bind (eps_get ep_voltage) (\<lambda>v.
       model_field clock eps_base coerce_non_negative_float ''battery_voltage_v'' (PFloat v))"

definition solar_input :: "int \<Rightarrow> pyfloat eps_act" where
  "solar_input clock =
     act_bind (module_fault_active eps_base ''solar_array_offline'') (\<lambda>offline.
     act_bind (eps_get (\<lambda>m. ec_solar_input (ep_config m))) (\<lambda>solar.
       model_field clock eps_base coerce_non_negative_float ''solar_input_w'' (PFloat (if offline then FL_ZERO else solar))))"

definition load_power :: "int \<Rightarrow> pyfloat eps_act" where
  "load_power clock =
     act_bind (eps_get ep_load) (\<lambda>load.
       model_field clock eps_base coerce_non_negative_float ''load_power_w'' (PFloat load))"

text \<open>The mode the thresholds give for a battery level, after the command and the mode before.\<close>

definition mode_for_level :: "eps_config \<Rightarrow> power_mode \<Rightarrow> power_mode \<Rightarrow> pyfloat \<Rightarrow> power_mode" where
  "mode_for_level c commanded previous level =
     (if fl_le level FL_ZERO then EPS_OFF
      else if fl_le level (ec_critical_threshold c) then EPS_SAFE
      else if commanded = EPS_SAFE then EPS_SAFE
      else if commanded = EPS_LOW_POWER then EPS_LOW_POWER
      else if fl_le level (ec_low_threshold c) then EPS_LOW_POWER
      else if previous = EPS_LOW_POWER \<and> fl_less level (ec_recovery_threshold c) then EPS_LOW_POWER
      else EPS_NOMINAL)"

definition automatic_power_mode :: "int \<Rightarrow> power_mode eps_act" where
  "automatic_power_mode clock =
     act_bind (eps_get ep_commanded_mode) (\<lambda>commanded.
       if commanded = EPS_OFF then act_return EPS_OFF
       else
         act_bind (battery_percent clock) (\<lambda>level.
           eps_get (\<lambda>m. mode_for_level (ep_config m) commanded (ep_mode m) level)))"

definition effective_mode :: "int \<Rightarrow> power_mode eps_act" where
  "effective_mode clock =
     act_bind (automatic_power_mode clock) (\<lambda>mode.
     act_bind (model_value clock eps_base ''power_mode'' (PStr (power_mode_value mode))) (\<lambda>resolved.
       act_lift (coerce_power_mode resolved)))"

definition mode_sheds :: "eps_config \<Rightarrow> power_mode \<Rightarrow> bool" where
  "mode_sheds c mode \<longleftrightarrow> mode = EPS_OFF \<or> mode = EPS_SAFE \<and> ec_shed_in_safe_mode c \<or>
     mode = EPS_LOW_POWER \<and> ec_shed_in_low_power c"

definition effective_rail :: "int \<Rightarrow> power_mode \<Rightarrow> bool eps_act" where
  "effective_rail clock mode =
     act_bind (eps_get (\<lambda>m. ep_rail_commanded m \<and> \<not> mode_sheds (ep_config m) mode)) (\<lambda>enabled.
     act_bind (module_fault_active eps_base ''payload_rail_stuck_off'') (\<lambda>stuck_off.
     act_bind (module_fault_active eps_base ''payload_rail_stuck_on'') (\<lambda>stuck_on.
       model_field clock eps_base coerce_bool ''payload_rail_enabled''
         (PBool (if stuck_on then True else if stuck_off then False else enabled)))))"

definition payload_rail_enabled :: "int \<Rightarrow> bool eps_act" where
  "payload_rail_enabled clock = act_bind (effective_mode clock) (effective_rail clock)"

section \<open>Operations\<close>

definition sync_payload_power :: "bool \<Rightarrow> unit eps_act" where
  "sync_payload_power rail = with_payload () (set_eps_power_available rail)"

definition calculate_load :: "int \<Rightarrow> power_mode \<Rightarrow> bool \<Rightarrow> pyfloat eps_act" where
  "calculate_load clock mode rail =
     act_bind (eps_get (\<lambda>m. case mode of
         EPS_OFF \<Rightarrow> FL_ZERO
       | EPS_SAFE \<Rightarrow> ec_safe_load (ep_config m)
       | EPS_LOW_POWER \<Rightarrow> ec_low_power_load (ep_config m)
       | EPS_NOMINAL \<Rightarrow> ec_base_load (ep_config m))) (\<lambda>base_load.
     act_bind (if rail then with_payload FL_ZERO (payload_power_draw clock) else act_return FL_ZERO) (\<lambda>payload_load.
       act_return (fl_add base_load payload_load)))"

definition calculate_voltage :: "int \<Rightarrow> pyfloat eps_act" where
  "calculate_voltage clock =
     act_bind (battery_percent clock) (\<lambda>percent.
     act_bind (act_lift (map_sum ModUncaught id (fl_div percent (fl_lit 100)))) (\<lambda>fraction.
     act_bind (eps_get ep_config) (\<lambda>c.
     let voltage = fl_add (ec_empty_voltage c) (fl_mul (fl_sub (ec_full_voltage c) (ec_empty_voltage c)) fraction) in
     act_bind (module_fault_active eps_base ''battery_cell_dead'') (\<lambda>dead.
     let voltage = (if dead then fl_sub voltage (ec_dead_voltage_drop c) else voltage) in
     act_bind (module_fault_active eps_base ''bus_undervoltage'') (\<lambda>under.
     let voltage = (if under then fl_min voltage (ec_undervoltage c) else voltage) in
       act_return (fl_max FL_ZERO voltage))))))"

definition effective_capacity :: "pyfloat eps_act" where
  "effective_capacity =
     act_bind (eps_get ep_config) (\<lambda>c.
     act_bind (module_fault_active eps_base ''battery_cell_dead'') (\<lambda>dead.
       act_return (if dead then fl_mul (ec_capacity_wh c) (ec_dead_capacity_factor c) else ec_capacity_wh c)))"

definition refresh_derived_state :: "int \<Rightarrow> unit eps_act" where
  "refresh_derived_state clock =
     act_bind (effective_mode clock) (\<lambda>mode.
     act_bind (effective_rail clock mode) (\<lambda>rail.
     act_bind (sync_payload_power rail) (\<lambda>_.
     act_bind (on_eps (\<lambda>m. m\<lparr>ep_mode := mode\<rparr>)) (\<lambda>_.
     act_bind (calculate_load clock mode rail) (\<lambda>load.
     act_bind (on_eps (\<lambda>m. m\<lparr>ep_load := load\<rparr>)) (\<lambda>_.
     act_bind (calculate_voltage clock) (\<lambda>voltage.
       on_eps (\<lambda>m. m\<lparr>ep_voltage := voltage\<rparr>))))))))"

definition fresh_eps :: "sim_module \<Rightarrow> eps_config \<Rightarrow> eps_module" where
  "fresh_eps base c = \<lparr>ep_base = base, ep_config = c, ep_battery = ec_initial_battery c,
     ep_commanded_mode = EPS_NOMINAL, ep_rail_commanded = ec_rail_initially_enabled c,
     ep_mode = EPS_NOMINAL, ep_voltage = FL_ZERO, ep_load = FL_ZERO\<rparr>"

text \<open>The constructor; the object exists only when it does not raise.\<close>

definition mk_eps ::
  "int \<Rightarrow> eps_config \<Rightarrow> bool \<Rightarrow> payload_module option \<times> fault_engine
    \<Rightarrow> (module_error + eps_module) \<times> payload_module option \<times> fault_engine" where
  "mk_eps clock c has_fault_engine st =
     (case mk_sim_module (ec_name c) (ec_endpoint c) has_fault_engine of
        Inl e \<Rightarrow> (Inl e, st)
      | Inr base \<Rightarrow>
          (case refresh_derived_state clock ((fresh_eps base c, fst st), snd st) of
             (r, ((m, p), fe)) \<Rightarrow> (map_sum id (\<lambda>_. m) r, (p, fe))))"

definition attach_payload :: "int \<Rightarrow> payload_module option \<Rightarrow> unit eps_act" where
  "attach_payload clock payload =
     act_then (act_modify (\<lambda>((m, _), fe). ((m, payload), fe))) (refresh_derived_state clock)"

definition set_payload_rail_enabled :: "int \<Rightarrow> bool \<Rightarrow> unit eps_act" where
  "set_payload_rail_enabled clock enabled =
     act_then (on_eps (\<lambda>m. m\<lparr>ep_rail_commanded := enabled\<rparr>)) (refresh_derived_state clock)"

definition set_power_mode :: "int \<Rightarrow> py_val \<Rightarrow> unit eps_act" where
  "set_power_mode clock v =
     act_bind (act_lift (coerce_power_mode v)) (\<lambda>mode.
       act_then (on_eps (\<lambda>m. m\<lparr>ep_commanded_mode := mode\<rparr>)) (refresh_derived_state clock))"

definition extract_power_mode :: "py_val \<Rightarrow> module_error + power_mode" where
  "extract_power_mode payload =
     (case payload of
        PDict d \<Rightarrow>
          (case dict_get d ''mode'' of
             None \<Rightarrow> Inl (ModCommandPayload ''eps_set_power_mode'')
           | Some v \<Rightarrow> coerce_power_mode v)
      | _ \<Rightarrow> coerce_power_mode payload)"

definition eps_command :: "int \<Rightarrow> command_request \<Rightarrow> unit eps_act" where
  "eps_command clock request =
     (let command = cr_command request;
          set_mode = (\<lambda>mode. set_power_mode clock (PStr (power_mode_value mode))) in
      if command = ''eps_payload_rail_on'' then set_payload_rail_enabled clock True
      else if command = ''eps_payload_rail_off'' then set_payload_rail_enabled clock False
      else if command = ''eps_set_power_mode''
      then act_bind (act_lift (extract_power_mode (cr_payload request))) set_mode
      else if command = ''eps_power_mode_nominal'' then set_mode EPS_NOMINAL
      else if command = ''eps_power_mode_low_power'' then set_mode EPS_LOW_POWER
      else if command = ''eps_power_mode_safe'' then set_mode EPS_SAFE
      else if command = ''eps_power_off'' then set_mode EPS_OFF
      else act_fail (ModUnsupportedCommand command))"

definition eps_handle_command :: "int \<Rightarrow> command_request \<Rightarrow> bool eps_act" where
  "eps_handle_command clock request =
     act_bind (eps_get (\<lambda>m. command_targets_module (ep_base m) request)) (\<lambda>mine.
       if \<not> mine then act_return False
       else act_bind (eps_command clock request) (\<lambda>_. act_return True))"

definition eps_tick_once :: "int \<Rightarrow> unit eps_act" where
  "eps_tick_once clock =
     act_bind (effective_mode clock) (\<lambda>mode.
     act_bind (effective_rail clock mode) (\<lambda>rail.
     act_bind (sync_payload_power rail) (\<lambda>_.
     act_bind (calculate_load clock mode rail) (\<lambda>load.
     act_bind (solar_input clock) (\<lambda>solar.
     act_bind (eps_get (\<lambda>m. ec_tick_seconds (ep_config m))) (\<lambda>seconds.
     act_bind (act_lift (map_sum ModUncaught id (fl_div (fl_mul (fl_sub solar load) seconds) (fl_lit 3600)))) (\<lambda>energy.
     act_bind effective_capacity (\<lambda>capacity.
     act_bind (act_lift (map_sum ModUncaught id (fl_div energy capacity))) (\<lambda>fraction.
     act_bind (battery_percent clock) (\<lambda>percent.
     act_bind max_battery_percent (\<lambda>maxp.
     act_bind (on_eps (\<lambda>m. m\<lparr>ep_battery := clamp (fl_add percent (fl_mul fraction (fl_lit 100))) FL_ZERO maxp\<rparr>)) (\<lambda>_.
       refresh_derived_state clock))))))))))))"

definition eps_telemetry :: "int \<Rightarrow> int option \<Rightarrow> (eps_world, (string \<times> py_val) list) mod_act" where
  "eps_telemetry clock now =
     act_bind (refresh_derived_state clock) (\<lambda>_.
     act_bind (battery_percent clock) (\<lambda>battery.
     act_bind (battery_voltage clock) (\<lambda>voltage.
     act_bind (load_power clock) (\<lambda>load.
     act_bind (solar_input clock) (\<lambda>solar.
     act_bind (effective_mode clock) (\<lambda>mode.
     act_bind (payload_rail_enabled clock) (\<lambda>rail.
       signal_values clock eps_base now
         [(''battery_percent'', PFloat battery), (''battery_voltage_v'', PFloat voltage),
          (''load_power_w'', PFloat load), (''solar_input_w'', PFloat solar),
          (''power_mode'', PStr (power_mode_value mode)), (''payload_rail_enabled'', PBool rail)])))))))"

definition eps_tick :: "int \<Rightarrow> int \<Rightarrow> (eps_world, (string \<times> py_val) list) mod_act" where
  "eps_tick clock ticks =
     act_bind (act_lift (coerce_non_negative_int ''EPS tick count'' (PInt ticks))) (\<lambda>tick_count.
     act_bind (act_repeat (nat tick_count) (eps_tick_once clock)) (\<lambda>_.
     act_bind (if tick_count = 0 then refresh_derived_state clock else act_return ()) (\<lambda>_.
       eps_telemetry clock None)))"

definition eps_emit_telemetry ::
  "string list option \<Rightarrow> int \<Rightarrow> endpoint_id option \<Rightarrow> ('h, eps_world, telemetry_sample list) sample_act" where
  "eps_emit_telemetry = emit_telemetry eps_base eps_telemetry"

section \<open>The battery level and the voltage stay in their ranges\<close>

definition in_percent :: "pyfloat \<Rightarrow> bool" where
  "in_percent x \<longleftrightarrow> fl_le FL_ZERO x \<and> fl_le x (fl_lit 100)"

definition eps_inv :: "eps_module \<Rightarrow> bool" where
  "eps_inv m \<longleftrightarrow> in_percent (ep_battery m) \<and> fl_nonneg (ep_voltage m) \<and>
     fl_less FL_ZERO (ec_dead_capacity_factor (ep_config m)) \<and> fl_le (ec_dead_capacity_factor (ep_config m)) FL_ONE"

abbreviation keeps_eps :: "'a eps_act \<Rightarrow> bool" where
  "keeps_eps \<equiv> act_keeps (\<lambda>s. eps_inv (fst (fst s)))"

lemma lit_100: "fl_lit 100 = FFin False 100" and lit_3600: "fl_lit 3600 = FFin False 3600"
  by code_simp+

lemma reads_keeps_eps: "reads m \<Longrightarrow> keeps_eps m"
  by (rule reads_keeps[of m "\<lambda>w. eps_inv (fst w)"])

lemma keeps_with_payload: "keeps_eps (with_payload dflt act)"
  by (rule act_keepsI) (auto simp: with_payload_def split: option.splits prod.splits)

lemma keeps_on_eps: "(\<And>m. eps_inv m \<Longrightarrow> eps_inv (f m)) \<Longrightarrow> keeps_eps (on_eps f)"
  by (auto simp: on_eps_def intro!: act_intros)

lemma reads_eps_get [reads_intros]: "reads (eps_get f)"
  by (simp add: eps_get_def reads_intros)

lemma reads_eps [reads_intros]:
  "reads max_battery_percent" "reads (battery_percent clock)" "reads (battery_voltage clock)"
  "reads (solar_input clock)" "reads (load_power clock)" "reads (automatic_power_mode clock)"
  "reads (effective_mode clock)" "reads (effective_rail clock mode)" "reads (payload_rail_enabled clock)"
  "reads (calculate_voltage clock)" "reads effective_capacity"
proof -
  show m: "reads max_battery_percent" by (auto simp: max_battery_percent_def intro!: reads_intros)
  then show b: "reads (battery_percent clock)" by (auto simp: battery_percent_def intro!: reads_intros)
  show "reads (battery_voltage clock)" by (auto simp: battery_voltage_def intro!: reads_intros)
  show "reads (solar_input clock)" by (auto simp: solar_input_def intro!: reads_intros)
  show "reads (load_power clock)" by (auto simp: load_power_def intro!: reads_intros)
  show a: "reads (automatic_power_mode clock)" using b by (auto simp: automatic_power_mode_def intro!: reads_intros)
  then show e: "reads (effective_mode clock)" by (auto simp: effective_mode_def intro!: reads_intros)
  show r: "reads (effective_rail clock mode)" for mode by (auto simp: effective_rail_def intro!: reads_intros)
  from e r show "reads (payload_rail_enabled clock)" by (auto simp: payload_rail_enabled_def intro!: reads_intros)
  from b show "reads (calculate_voltage clock)" by (auto simp: calculate_voltage_def Let_def intro!: reads_intros)
  show "reads effective_capacity" by (auto simp: effective_capacity_def intro!: reads_intros)
qed

lemmas keeps_eps_intros = act_intros keeps_with_payload reads_eps[THEN reads_keeps_eps] reads_eps_get[THEN reads_keeps_eps]

lemma keeps_calculate_load: "keeps_eps (calculate_load clock mode rail)"
  unfolding calculate_load_def by (intro keeps_eps_intros)

lemma calculate_voltage_nonneg: "calculate_voltage clock s = (Inr v, s1) \<Longrightarrow> fl_nonneg v"
  by (auto simp: calculate_voltage_def Let_def act_bind_Inr act_run fl_nonneg_def fl_max_ge_left)

lemma keeps_refresh: "keeps_eps (refresh_derived_state clock)"
  unfolding refresh_derived_state_def sync_payload_power_def
  by (intro act_keeps_bind_post[where Q = fl_nonneg, OF reads_keeps_eps[OF reads_eps(10)] calculate_voltage_nonneg]
      keeps_calculate_load keeps_on_eps keeps_eps_intros)
    (auto simp: eps_inv_def)

lemma scaled_percent:
  assumes "fl_less FL_ZERO f" "fl_le f FL_ONE"
  shows "in_percent (fl_mul (fl_lit 100) f) \<and> fl_is_finite (fl_mul (fl_lit 100) f)"
proof -
  obtain s m where f: "f = FFin s m" "0 < sgn_mag s m" "sgn_mag s m \<le> 1"
    using assms by (cases f) (auto simp: fl_le_def sgn_mag_def)
  let ?r = "fl_round 53 (- 1074) (100 * m)"
  have rep: "fl_repr 53 (- 1074) 100" using fl_repr_of_int[of 53 "- 1074" 100] by simp
  have le: "?r \<le> 100" if "\<not> s"
    using fl_round_mono[of 53 "100 * m" 100 "- 1074"] fl_round_repr[OF rep] f that by (simp add: sgn_mag_def)
  have neg: "100 * m \<le> 0" if s using f(2) that by (simp add: sgn_mag_def)
  have fin: "fl64 s (100 * m) = FFin s ?r"
  proof (cases s)
    case True
    then show ?thesis using neg by (simp add: fl64_def fl_round_def not_le)
  next
    case False
    then show ?thesis using le by (auto simp: fl64_def Let_def not_le fl_limit_numeral)
  qed
  show ?thesis
    using le neg fin fl_round_nonneg[of 53 "- 1074" "100 * m"]
    by (auto simp: in_percent_def lit_100 f(1) fl_le_def sgn_mag_def fl_round_def)
qed

lemma max_battery_percent_range:
  assumes "eps_inv (fst (fst s))" "max_battery_percent s = (Inr x, s1)"
  shows "in_percent x \<and> fl_is_finite x"
proof -
  obtain dead s2 where "module_fault_active eps_base ''battery_cell_dead'' s = (Inr dead, s2)"
    and x: "x = (if dead then fl_mul (fl_lit 100) (ec_dead_capacity_factor (ep_config (fst (fst s2)))) else fl_lit 100)"
    using assms(2) by (auto simp: max_battery_percent_def act_bind_Inr act_run eps_get_def split: prod.splits)
  moreover have "fst (fst s2) = fst (fst s)"
    using calculation(1) readsD[OF reads_module_fault, of eps_base "''battery_cell_dead''" "fst s" "snd s" "Inr dead" "fst s2" "snd s2"]
    by simp
  moreover have "in_percent (fl_lit 100) \<and> fl_is_finite (fl_lit 100)"
    by (simp add: in_percent_def lit_100 fl_le_def sgn_mag_def)
  ultimately show ?thesis
    using assms(1) scaled_percent by (auto simp: eps_inv_def)
qed

lemma keeps_eps_tick_once: "keeps_eps (eps_tick_once clock)"
  unfolding eps_tick_once_def sync_payload_power_def
  by (intro act_keeps_bind_post[where Q = "\<lambda>x. in_percent x \<and> fl_is_finite x", OF reads_keeps_eps[OF reads_eps(1)] max_battery_percent_range]
      keeps_calculate_load keeps_refresh keeps_on_eps keeps_eps_intros)
    (auto simp: eps_inv_def in_percent_def clamp_def fl_clamp_bounds lit_100 intro: fl_le_trans[OF fl_clamp_bounds(3)])

lemma keeps_eps_telemetry: "keeps_eps (eps_telemetry clock now)"
  unfolding eps_telemetry_def
  by (intro keeps_refresh keeps_eps_intros reads_signal_values[THEN reads_keeps_eps])

lemma keeps_eps_tick: "keeps_eps (eps_tick clock n)"
  unfolding eps_tick_def by (intro keeps_eps_tick_once keeps_refresh keeps_eps_telemetry keeps_eps_intros)

lemma keeps_eps_command: "keeps_eps (eps_handle_command clock request)"
proof -
  have "keeps_eps (set_payload_rail_enabled clock b)" for b
    unfolding set_payload_rail_enabled_def by (intro keeps_refresh keeps_on_eps keeps_eps_intros) (simp add: eps_inv_def)
  moreover have "keeps_eps (set_power_mode clock v)" for v
    unfolding set_power_mode_def by (intro keeps_refresh keeps_on_eps keeps_eps_intros) (simp add: eps_inv_def)
  ultimately have "keeps_eps (eps_command clock request)"
    unfolding eps_command_def Let_def by (intro keeps_eps_intros)
  then show ?thesis unfolding eps_handle_command_def by (intro keeps_eps_intros)
qed

lemma keeps_attach_payload: "keeps_eps (attach_payload clock p)"
  unfolding attach_payload_def by (intro keeps_refresh keeps_eps_intros) auto

datatype eps_op =
    EpTick int
  | EpCommand command_request
  | EpAttach "payload_module option"
  | EpTelemetry "int option"
  | EpFaults fault_engine

primrec eps_op_run :: "int \<Rightarrow> eps_op \<Rightarrow> unit eps_act" where
  "eps_op_run clock (EpTick n) = act_then (eps_tick clock n) (act_return ())"
| "eps_op_run clock (EpCommand r) = act_then (eps_handle_command clock r) (act_return ())"
| "eps_op_run clock (EpAttach p) = attach_payload clock p"
| "eps_op_run clock (EpTelemetry now) = act_then (eps_telemetry clock now) (act_return ())"
| "eps_op_run clock (EpFaults fe) = act_modify (\<lambda>(w, _). (w, fe))"

fun eps_run :: "(int \<times> eps_op) list \<Rightarrow> eps_world \<times> fault_engine \<Rightarrow> eps_world \<times> fault_engine" where
  "eps_run [] s = s"
| "eps_run ((clock, oper) # ops) s = eps_run ops (snd (eps_op_run clock oper s))"

lemma eps_run_inv: "eps_inv (fst (fst s)) \<Longrightarrow> eps_inv (fst (fst (eps_run ops s)))"
proof (induction ops arbitrary: s)
  case (Cons c ops)
  obtain clock oper where c: "c = (clock, oper)" by (cases c)
  have "keeps_eps (eps_op_run clock oper)"
  proof (cases oper)
    case (EpFaults fe)
    then show ?thesis by (auto simp: act_keeps_def act_run)
  qed (auto intro!: act_intros keeps_eps_tick keeps_eps_command keeps_attach_payload keeps_eps_telemetry)
  then have "eps_inv (fst (fst (snd (eps_op_run clock oper s))))"
    using Cons.prems unfolding act_keeps_def by blast
  then show ?case using Cons.IH by (simp add: c)
qed simp

section \<open>Refreshing without faults\<close>

definition payload_ready :: "payload_module \<Rightarrow> bool" where
  "payload_ready p \<longleftrightarrow> is_identifier (sm_name (py_base p)) \<and>
     (let c = py_config p in fl_is_finite (yc_standby_power_w c) \<and> \<not> fl_less (yc_standby_power_w c) FL_ZERO \<and>
       fl_is_finite (yc_active_power_w c) \<and> \<not> fl_less (yc_active_power_w c) FL_ZERO)"

definition payload_draw :: "payload_module \<Rightarrow> pyfloat" where
  "payload_draw p = (if \<not> (py_commanded_on p \<and> py_eps_power p) then FL_ZERO
     else if py_capture p then yc_active_power_w (py_config p) else yc_standby_power_w (py_config p))"

lemma eps_ident_lit:
  "is_identifier ''battery_percent''" "is_identifier ''power_mode''" "is_identifier ''payload_rail_enabled''"
  "is_identifier ''battery_cell_dead''" "is_identifier ''bus_undervoltage''" "is_identifier ''payload_rail_stuck_off''"
  "is_identifier ''payload_rail_stuck_on''" "is_identifier ''power_draw_w''" "is_identifier ''solar_array_offline''"
  "is_identifier ''solar_input_w''"
  by (simp_all add: is_identifier_def ident_char_def is_letter_def is_digit_def)

lemma payload_draw_quiet:
  assumes q: "quiet fe" and p: "payload_ready p"
  shows "payload_power_draw clock (p, fe) = (Inr (payload_draw p), (p, fe))"
proof -
  have i: "is_identifier (sm_name (py_base p))" using p by (simp add: payload_ready_def)
  have "coerce_non_negative_float kind (PFloat (payload_draw p)) = Inr (payload_draw p)" for kind
    using p by (auto simp: payload_ready_def payload_draw_def Let_def coerce_non_negative_float_def coerce_finite_float_def)
  then show ?thesis
    by (auto simp: payload_power_draw_def act_bind_def act_run payload_powered_quiet[OF q i] payload_capture_quiet[OF q i]
        model_field_quiet[of _ py_base, OF q i] eps_ident_lit payload_draw_def split: if_splits)
qed

lemma coerce_percentage_float: "in_percent x \<Longrightarrow> coerce_percentage kind (PFloat x) = Inr x"
  by (cases x) (auto simp: coerce_percentage_def coerce_finite_float_def in_percent_def lit_100 fl_le_def sgn_mag_def)

lemma coerce_power_mode_value [simp]: "coerce_power_mode (PStr (power_mode_value mode)) = Inr mode"
  by (cases mode) (simp_all add: coerce_power_mode_def power_mode_value_def)

definition eps_calm :: "eps_module \<Rightarrow> fault_engine \<Rightarrow> bool" where
  "eps_calm m fe \<longleftrightarrow> quiet fe \<and> is_identifier (sm_name (ep_base m)) \<and> in_percent (ep_battery m)"

definition calm_mode :: "eps_module \<Rightarrow> power_mode" where
  "calm_mode m = (if ep_commanded_mode m = EPS_OFF then EPS_OFF
     else mode_for_level (ep_config m) (ep_commanded_mode m) (ep_mode m) (ep_battery m))"

definition calm_rail :: "eps_module \<Rightarrow> bool" where
  "calm_rail m \<longleftrightarrow> ep_rail_commanded m \<and> \<not> mode_sheds (ep_config m) (calm_mode m)"

definition mode_load :: "eps_config \<Rightarrow> power_mode \<Rightarrow> pyfloat" where
  "mode_load c mode = (case mode of EPS_OFF \<Rightarrow> FL_ZERO | EPS_SAFE \<Rightarrow> ec_safe_load c
     | EPS_LOW_POWER \<Rightarrow> ec_low_power_load c | EPS_NOMINAL \<Rightarrow> ec_base_load c)"

definition rail_payload :: "bool \<Rightarrow> payload_module \<Rightarrow> payload_module" where
  "rail_payload rail p = p\<lparr>py_eps_power := rail, py_capture := rail \<and> py_capture p\<rparr>"

definition rail_load :: "bool \<Rightarrow> payload_module option \<Rightarrow> pyfloat" where
  "rail_load rail pay = (if rail then (case pay of None \<Rightarrow> FL_ZERO | Some p \<Rightarrow> payload_draw (rail_payload True p)) else FL_ZERO)"

lemma eps_fault_calm:
  assumes "eps_calm m fe" "is_identifier name"
  shows "module_fault_active eps_base name ((m, pay), fe) = (Inr False, ((m, pay), fe))"
  using module_fault_quiet[of fe eps_base "(m, pay)" name] assms by (simp add: eps_calm_def)

lemma eps_field_calm:
  assumes "eps_calm m fe" "is_identifier field"
  shows "model_field clock eps_base coerce field v ((m, pay), fe) =
     (coerce (sm_name (ep_base m) @ ''.model.'' @ field) v, ((m, pay), fe))"
  using model_field_quiet[of fe eps_base "(m, pay)" field] assms by (simp add: eps_calm_def)

lemma max_percent_calm: "eps_calm m fe \<Longrightarrow> max_battery_percent ((m, pay), fe) = (Inr (fl_lit 100), ((m, pay), fe))"
  by (simp add: max_battery_percent_def act_bind_def eps_fault_calm eps_ident_lit eps_get_def act_run)

lemma battery_calm: "eps_calm m fe \<Longrightarrow> battery_percent clock ((m, pay), fe) = (Inr (ep_battery m), ((m, pay), fe))"
proof -
  assume a: "eps_calm m fe"
  have b: "in_percent (ep_battery m)" using a by (simp add: eps_calm_def)
  then have "fl_min (ep_battery m) (fl_lit 100) = ep_battery m"
    by (cases "ep_battery m") (auto simp: fl_min_def in_percent_def lit_100 fl_le_def)
  then show ?thesis
    by (simp add: battery_percent_def act_bind_def eps_get_def act_run eps_field_calm[OF a] max_percent_calm[OF a]
        eps_ident_lit coerce_percentage_float[OF b])
qed

lemma mode_calm: "eps_calm m fe \<Longrightarrow> effective_mode clock ((m, pay), fe) = (Inr (calm_mode m), ((m, pay), fe))"
proof -
  assume a: "eps_calm m fe"
  have v: "model_value clock eps_base ''power_mode'' x ((m, pay), fe) = (Inr x, ((m, pay), fe))" for x
    using model_value_quiet[of fe eps_base "(m, pay)" "''power_mode''"] a eps_ident_lit by (simp add: eps_calm_def)
  have "automatic_power_mode clock ((m, pay), fe) = (Inr (calm_mode m), ((m, pay), fe))"
    by (auto simp: automatic_power_mode_def act_bind_def eps_get_def act_run battery_calm[OF a] calm_mode_def)
  then show ?thesis by (simp add: effective_mode_def act_bind_def v act_run)
qed

lemma rail_calm:
  "eps_calm m fe \<Longrightarrow> effective_rail clock (calm_mode m) ((m, pay), fe) = (Inr (calm_rail m), ((m, pay), fe))"
  by (simp add: effective_rail_def act_bind_def eps_get_def act_run eps_fault_calm eps_field_calm eps_ident_lit
      coerce_bool_def calm_rail_def)

lemma sync_run: "sync_payload_power rail ((m, pay), fe) = (Inr (), ((m, map_option (rail_payload rail) pay), fe))"
  by (cases pay) (simp_all add: sync_payload_power_def with_payload_def set_eps_power_available_def on_payload_def act_run rail_payload_def)

lemma rail_payload_ready: "payload_ready (rail_payload r p) = payload_ready p"
  by (simp add: payload_ready_def rail_payload_def)

lemma rail_payload_option_ready: "pred_option payload_ready (map_option (rail_payload r) pay) = pred_option payload_ready pay"
  by (cases pay) (simp_all add: rail_payload_ready)

lemma load_calm:
  assumes "quiet fe" "pred_option payload_ready pay"
  shows "calculate_load clock mode rail ((m, map_option (rail_payload rail) pay), fe) =
     (Inr (fl_add (mode_load (ep_config m) mode) (rail_load rail pay)), ((m, map_option (rail_payload rail) pay), fe))"
  using assms
  by (cases pay) (auto simp: calculate_load_def act_bind_def eps_get_def act_run with_payload_def mode_load_def rail_load_def
      payload_draw_quiet rail_payload_ready)

lemma voltage_calm: "eps_calm m fe \<Longrightarrow> \<exists>v. calculate_voltage clock ((m, pay), fe) = (Inr v, ((m, pay), fe))"
proof -
  assume a: "eps_calm m fe"
  obtain z where z: "fl_div (ep_battery m) (FFin False 100) = Inr z" by (cases "ep_battery m") auto
  show ?thesis
    by (simp add: calculate_voltage_def act_bind_def battery_calm[OF a] lit_100 z act_run eps_get_def Let_def
        eps_fault_calm[OF a] eps_ident_lit)
qed

lemma refresh_calm:
  assumes a: "eps_calm m fe" and p: "pred_option payload_ready pay"
  shows "\<exists>v. refresh_derived_state clock ((m, pay), fe) = (Inr (),
     ((m\<lparr>ep_mode := calm_mode m, ep_load := fl_add (mode_load (ep_config m) (calm_mode m)) (rail_load (calm_rail m) pay),
         ep_voltage := v\<rparr>, map_option (rail_payload (calm_rail m)) pay), fe))"
proof -
  have q: "quiet fe" using a by (simp add: eps_calm_def)
  let ?l = "fl_add (mode_load (ep_config m) (calm_mode m)) (rail_load (calm_rail m) pay)"
  let ?m = "m\<lparr>ep_mode := calm_mode m, ep_load := ?l\<rparr>" and ?p = "map_option (rail_payload (calm_rail m)) pay"
  have "eps_calm ?m fe" using a by (simp add: eps_calm_def)
  then obtain v where "calculate_voltage clock ((?m, ?p), fe) = (Inr v, ((?m, ?p), fe))"
    using voltage_calm by blast
  then show ?thesis
    using load_calm[OF q p, where clock = clock and mode = "calm_mode m" and rail = "calm_rail m"
        and m = "m\<lparr>ep_mode := calm_mode m\<rparr>"]
    by (intro exI[of _ v]) (simp add: refresh_derived_state_def act_bind_def mode_calm[OF a] rail_calm[OF a] sync_run on_eps_def act_run)
qed

section \<open>The hysteresis of the power mode\<close>

text \<open>
  The battery levels of successive refreshes: before each one the level is set, as a tick does.
\<close>

definition refresh_at :: "int \<Rightarrow> pyfloat \<Rightarrow> eps_world \<times> fault_engine \<Rightarrow> eps_world \<times> fault_engine" where
  "refresh_at clock level s =
     snd (refresh_derived_state clock ((fst (fst s)\<lparr>ep_battery := level\<rparr>, snd (fst s)), snd s))"

fun refresh_modes :: "(int \<times> pyfloat) list \<Rightarrow> eps_world \<times> fault_engine \<Rightarrow> power_mode list" where
  "refresh_modes [] s = []"
| "refresh_modes ((clock, level) # ls) s =
     (let s1 = refresh_at clock level s in ep_mode (fst (fst s1)) # refresh_modes ls s1)"

fun level_modes :: "eps_config \<Rightarrow> power_mode \<Rightarrow> pyfloat list \<Rightarrow> power_mode list" where
  "level_modes c prev [] = []"
| "level_modes c prev (l # ls) =
     (let mode = mode_for_level c EPS_NOMINAL prev l in mode # level_modes c mode ls)"

lemma refresh_modes_levels:
  assumes "eps_calm m fe" "pred_option payload_ready pay" "ep_commanded_mode m = EPS_NOMINAL"
    and "\<forall>(_, l) \<in> set ls. in_percent l"
  shows "refresh_modes ls ((m, pay), fe) = level_modes (ep_config m) (ep_mode m) (map snd ls)"
  using assms
proof (induction ls arbitrary: m pay)
  case (Cons x ls)
  obtain clock l where x: "x = (clock, l)" by (cases x)
  let ?m = "m\<lparr>ep_battery := l\<rparr>"
  have a: "eps_calm ?m fe" using Cons.prems(1,4) by (simp add: eps_calm_def x)
  obtain v where r: "refresh_derived_state clock ((?m, pay), fe) = (Inr (),
     ((?m\<lparr>ep_mode := calm_mode ?m, ep_load := fl_add (mode_load (ep_config ?m) (calm_mode ?m)) (rail_load (calm_rail ?m) pay),
         ep_voltage := v\<rparr>, map_option (rail_payload (calm_rail ?m)) pay), fe))"
    using refresh_calm[OF a Cons.prems(2)] by blast
  let ?m1 = "?m\<lparr>ep_mode := calm_mode ?m, ep_load := fl_add (mode_load (ep_config ?m) (calm_mode ?m)) (rail_load (calm_rail ?m) pay),
         ep_voltage := v\<rparr>"
  have s1: "refresh_at clock l ((m, pay), fe) = ((?m1, map_option (rail_payload (calm_rail ?m)) pay), fe)"
    using r by (simp add: refresh_at_def)
  have mode: "calm_mode ?m = mode_for_level (ep_config m) EPS_NOMINAL (ep_mode m) l"
    using Cons.prems(3) by (simp add: calm_mode_def)
  have "refresh_modes ls ((?m1, map_option (rail_payload (calm_rail ?m)) pay), fe) = level_modes (ep_config m) (calm_mode ?m) (map snd ls)"
    using Cons.IH[of ?m1 "map_option (rail_payload (calm_rail ?m)) pay"] Cons.prems a
    by (auto simp: eps_calm_def rail_payload_option_ready)
  then show ?case by (simp only: x refresh_modes.simps s1 Let_def fst_conv) (simp add: mode Let_def)
qed simp

lemma length_level_modes [simp]: "length (level_modes c prev ls) = length ls"
  by (induction ls arbitrary: prev) (auto simp: Let_def)

lemma level_modes_Suc:
  "Suc n < length ls \<Longrightarrow> level_modes c prev ls ! Suc n =
     mode_for_level c EPS_NOMINAL (level_modes c prev ls ! n) (ls ! Suc n)"
proof (induction ls arbitrary: prev n)
  case (Cons l ls)
  show ?case
  proof (cases n)
    case 0
    then show ?thesis using Cons.prems by (cases ls) (auto simp: Let_def)
  next
    case (Suc m)
    then show ?thesis using Cons by (simp add: Let_def)
  qed
qed simp

definition level_live :: "eps_config \<Rightarrow> pyfloat \<Rightarrow> bool" where
  "level_live c l \<longleftrightarrow> fl_less FL_ZERO l \<and> fl_less (ec_critical_threshold c) l"

text \<open>The trigger: a level at or below the low threshold, and below the recovery threshold ever since.\<close>

definition low_since :: "eps_config \<Rightarrow> pyfloat list \<Rightarrow> nat \<Rightarrow> bool" where
  "low_since c ls n \<longleftrightarrow> (\<exists>i \<le> n. fl_le (ls ! i) (ec_low_threshold c) \<and> (\<forall>j \<in> {i..n}. level_live c (ls ! j)) \<and>
     (\<forall>j \<in> {i<..n}. fl_less (ls ! j) (ec_recovery_threshold c)))"

lemma low_since_0: "low_since c ls 0 \<longleftrightarrow> fl_le (ls ! 0) (ec_low_threshold c) \<and> level_live c (ls ! 0)"
  by (auto simp: low_since_def)

lemma low_since_Suc:
  "low_since c ls (Suc n) \<longleftrightarrow> level_live c (ls ! Suc n) \<and>
     (fl_le (ls ! Suc n) (ec_low_threshold c) \<or> low_since c ls n \<and> fl_less (ls ! Suc n) (ec_recovery_threshold c))"
proof -
  let ?P = "\<lambda>m i. fl_le (ls ! i) (ec_low_threshold c) \<and> (\<forall>j \<in> {i..m}. level_live c (ls ! j)) \<and>
     (\<forall>j \<in> {i<..m}. fl_less (ls ! j) (ec_recovery_threshold c))"
  have "?P (Suc n) i \<longleftrightarrow> ?P n i \<and> level_live c (ls ! Suc n) \<and> fl_less (ls ! Suc n) (ec_recovery_threshold c)"
    if "i \<le> n" for i
    using that by (auto simp: atLeastAtMostSuc_conv atLeast_Suc_greaterThan[symmetric] le_Suc_eq)
  then have "(\<exists>i \<le> n. ?P (Suc n) i) \<longleftrightarrow>
      low_since c ls n \<and> level_live c (ls ! Suc n) \<and> fl_less (ls ! Suc n) (ec_recovery_threshold c)"
    unfolding low_since_def by blast
  moreover have "low_since c ls (Suc n) \<longleftrightarrow> ?P (Suc n) (Suc n) \<or> (\<exists>i \<le> n. ?P (Suc n) i)"
    unfolding low_since_def by (auto simp: le_Suc_eq)
  moreover have "?P (Suc n) (Suc n) \<longleftrightarrow> fl_le (ls ! Suc n) (ec_low_threshold c) \<and> level_live c (ls ! Suc n)"
    by simp
  ultimately show ?thesis by blast
qed

lemma mode_low_iff:
  assumes "l \<noteq> FNaN" "ec_critical_threshold c \<noteq> FNaN"
  shows "mode_for_level c EPS_NOMINAL prev l = EPS_LOW_POWER \<longleftrightarrow> level_live c l \<and>
     (fl_le l (ec_low_threshold c) \<or> prev = EPS_LOW_POWER \<and> fl_less l (ec_recovery_threshold c))"
  using assms by (auto simp: mode_for_level_def level_live_def fl_le_not_less)

lemma level_modes_hysteresis:
  assumes "n < length ls" "\<forall>l \<in> set ls. l \<noteq> FNaN" "prev \<noteq> EPS_LOW_POWER" "ec_critical_threshold c \<noteq> FNaN"
  shows "level_modes c prev ls ! n = EPS_LOW_POWER \<longleftrightarrow> low_since c ls n"
  using assms(1)
proof (induction n)
  case 0
  then show ?case
    using assms(2-4) by (cases ls) (auto simp: Let_def low_since_0 mode_low_iff)
next
  case (Suc n)
  have "ls ! Suc n \<noteq> FNaN" using Suc.prems assms(2) nth_mem by blast
  then show ?case using Suc assms(4) by (auto simp: level_modes_Suc low_since_Suc mode_low_iff)
qed

section \<open>A payload without power records nothing\<close>

definition unpowered :: "int \<Rightarrow> payload_module \<times> fault_engine \<Rightarrow> bool" where
  "unpowered v s \<longleftrightarrow> quiet (snd s) \<and> is_identifier (sm_name (py_base (fst s))) \<and> \<not> py_eps_power (fst s) \<and>
     0 \<le> py_volume (fst s) \<and> py_volume (fst s) \<le> v \<and> 0 \<le> yc_one_shot_bytes (py_config (fst s))"

lemma quiet_resolve:
  "quiet fe \<Longrightarrow> resolve_state_value clock target v now fe = Inr (x, fe1) \<Longrightarrow> quiet fe1"
  "quiet fe \<Longrightarrow> resolve_signal_value clock target v now fe = Inr (x, fe1) \<Longrightarrow> quiet fe1"
  by (auto simp: quiet_def resolve_state_value_def resolve_signal_value_def get_state_override_def get_signal_override_def
      clear_expired_def res_bind_eq_Inr Let_def live_overrides_def)

lemma unpowered_reads:
  assumes "reads m" "act_keeps (\<lambda>s. quiet (snd s)) m"
  shows "act_keeps (unpowered v) m"
  using assms by (auto simp: act_keeps_def unpowered_def reads_def)

lemma quiet_resolve_module:
  "quiet fe \<Longrightarrow> resolve_model_value clock b field v now fe = Inr (x, fe1) \<Longrightarrow> quiet fe1"
  "quiet fe \<Longrightarrow> resolve_telemetry_value clock b field v now fe = Inr (x, fe1) \<Longrightarrow> quiet fe1"
  by (auto simp: resolve_model_value_def resolve_telemetry_value_def res_bind_eq_Inr map_sum_Inr
      dest: quiet_resolve split: if_splits)

abbreviation keeps_quiet :: "('m, 'a) mod_act \<Rightarrow> bool" where
  "keeps_quiet \<equiv> act_keeps (\<lambda>s. quiet (snd s))"

lemma quiet_act_pure:
  assumes "\<And>m fe x fe1. quiet fe \<Longrightarrow> f m fe = Inr (x, fe1) \<Longrightarrow> quiet fe1"
  shows "keeps_quiet (act_pure (\<lambda>(m, fe). map_sum id (\<lambda>(x, fe1). (g x, (m, fe1))) (f m fe)))"
proof (rule act_keeps_pure)
  fix s x s1
  assume q: "quiet (snd s)" and run: "(case s of (m, fe) \<Rightarrow> map_sum id (\<lambda>(x, fe1). (g x, (m, fe1))) (f m fe)) = Inr (x, s1)"
  obtain m fe where s: "s = (m, fe)" by (cases s)
  show "quiet (snd s1)"
    using run q assms[of fe m] by (cases "f m fe") (auto simp: s)
qed

lemma quiet_model_value: "keeps_quiet (model_value clock base field v)"
  using quiet_act_pure[of "\<lambda>m fe. resolve_model_value clock (base m) field v None fe" "\<lambda>x. x"] quiet_resolve_module(1)
  unfolding model_value_def by blast

lemma quiet_signal_values: "keeps_quiet (signal_values clock base now vals)"
proof -
  have "keeps_quiet (signal_value clock base now x)" for x
    using quiet_act_pure[of "\<lambda>m fe. resolve_telemetry_value clock (base m) (fst x) (snd x) now fe" "Pair (fst x)"]
      quiet_resolve_module(2) unfolding signal_value_def by blast
  then show ?thesis unfolding signal_values_def by (intro act_intros)
qed

lemmas quiet_intros = act_intros quiet_model_value quiet_signal_values

lemma quiet_model_field: "keeps_quiet (model_field clock base coerce field v)"
  unfolding model_field_def by (intro quiet_intros)

lemma quiet_payload:
  "keeps_quiet (payload_powered clock)" "keeps_quiet (payload_capture_enabled clock)" "keeps_quiet (payload_telemetry clock now)"
proof -
  show p: "keeps_quiet (payload_powered clock)" unfolding payload_powered_def by (intro quiet_intros quiet_model_field)
  show c: "keeps_quiet (payload_capture_enabled clock)" unfolding payload_capture_enabled_def by (intro quiet_intros p)
  have "keeps_quiet (payload_data_volume clock)" "keeps_quiet (payload_power_draw clock)"
    unfolding payload_data_volume_def payload_power_draw_def case_prod_unfold
    by (intro quiet_intros quiet_model_field p c)+
  then show "keeps_quiet (payload_telemetry clock now)"
    unfolding payload_telemetry_def payload_power_status_def by (intro quiet_intros p c)
qed

definition payload_own_op :: "payload_op \<Rightarrow> bool" where
  "payload_own_op oper = (case oper of PyTick n \<Rightarrow> 0 \<le> n | PyCommand _ \<Rightarrow> True | PyTelemetry _ \<Rightarrow> True | _ \<Rightarrow> False)"

lemma unpowered_increase: "unpowered v s \<Longrightarrow> increase_data_volume clock n s = (Inr 0, s)"
  by (cases s) (auto simp: increase_data_volume_def act_bind_def act_run payload_powered_quiet unpowered_def)

lemma unpowered_keeps_increase: "act_keeps (unpowered v) (increase_data_volume clock n)"
  using unpowered_increase by (fastforce simp: act_keeps_def)

lemma unpowered_on_payload:
  assumes "\<And>s. unpowered v s \<Longrightarrow> unpowered v (f (fst s), snd s)"
  shows "act_keeps (unpowered v) (on_payload f)"
  using assms unfolding on_payload_def by (intro act_intros) (auto simp: case_prod_unfold)

lemma unpowered_decrease: "0 \<le> n \<Longrightarrow> act_keeps (unpowered v) (decrease_data_volume n)"
  by (auto simp: decrease_data_volume_def act_keeps_def act_bind_def act_run on_payload_def unpowered_def Let_def)

lemma unpowered_byte_count: "unpowered v s \<Longrightarrow> byte_count_of request s = (Inr n, s1) \<Longrightarrow> 0 \<le> n"
  by (cases s) (auto simp: byte_count_run unpowered_def dest: extract_byte_count_Inr)

lemma unpowered_keeps_byte_count: "act_keeps (unpowered v) (byte_count_of request)"
  by (intro unpowered_reads reads_payload) (auto simp: byte_count_of_def intro!: act_intros)

lemma unpowered_command: "act_keeps (unpowered v) (payload_handle_command clock request)"
proof -
  have "act_keeps (unpowered v) (payload_command clock request)"
    unfolding payload_command_def Let_def
    by (intro act_keeps_bind_post[where Q = "\<lambda>n. 0 \<le> n", OF unpowered_keeps_byte_count unpowered_byte_count]
        unpowered_keeps_increase unpowered_decrease unpowered_on_payload act_intros)
      (auto simp: unpowered_def)
  then show ?thesis unfolding payload_handle_command_def by (intro act_intros)
qed

lemma unpowered_op:
  assumes "payload_own_op oper"
  shows "act_keeps (unpowered v) (payload_op_run clock oper)"
proof -
  have "act_keeps (unpowered v) (payload_tick clock n)" for n
    unfolding payload_tick_def
    by (intro act_intros unpowered_keeps_increase unpowered_reads[OF reads_payload(3) quiet_payload(2)])
  moreover have "act_keeps (unpowered v) (payload_telemetry clock now)" for now
    by (intro unpowered_reads reads_payload quiet_payload)
  ultimately show ?thesis
    using assms unpowered_command by (cases oper) (auto simp: payload_own_op_def intro!: act_intros)
qed

lemma unpowered_run:
  "unpowered v s \<Longrightarrow> \<forall>(_, oper) \<in> set ops. payload_own_op oper \<Longrightarrow> unpowered v (payload_run ops s)"
proof (induction ops arbitrary: s)
  case (Cons x ops)
  obtain clock oper where x: "x = (clock, oper)" by (cases x)
  have "unpowered v (snd (payload_op_run clock oper s))"
    using Cons.prems unpowered_op[of oper v clock] unfolding x act_keeps_def by (cases s) auto
  then show ?case using Cons by (simp add: x)
qed simp

section \<open>Properties\<close>

definition demo_eps_config :: eps_config where
  "demo_eps_config = \<lparr>ec_name = ''eps'', ec_endpoint = Some (EpNumber 3), ec_initial_battery = fl_lit 80,
     ec_capacity_wh = fl_lit 20, ec_tick_seconds = fl_lit 1, ec_base_load = fl_lit 1, ec_low_power_load = fl_lit (1/2),
     ec_safe_load = fl_lit (2/10), ec_solar_input = fl_lit (3/2), ec_empty_voltage = fl_lit 6,
     ec_full_voltage = fl_lit (84/10), ec_low_threshold = fl_lit 30, ec_recovery_threshold = fl_lit 35,
     ec_critical_threshold = fl_lit 10, ec_rail_initially_enabled = True, ec_shed_in_low_power = False,
     ec_shed_in_safe_mode = True, ec_dead_capacity_factor = fl_lit (1/2), ec_dead_voltage_drop = fl_lit (12/10),
     ec_undervoltage = fl_lit 5\<rparr>"

lemma demo_eps_config_builds: "mk_eps_config ''eps'' (Some (EpNumber 3)) [] = Inr demo_eps_config"
  by code_simp

definition demo_eps :: eps_module where
  "demo_eps = \<lparr>ep_base = \<lparr>sm_name = ''eps'', sm_endpoint = Some (EpNumber 3), sm_has_fault_engine = True\<rparr>,
     ep_config = demo_eps_config, ep_battery = fl_lit 80, ep_commanded_mode = EPS_NOMINAL, ep_rail_commanded = True,
     ep_mode = EPS_NOMINAL, ep_voltage = FL_ZERO, ep_load = FL_ZERO\<rparr>"

lemma mk_eps_config_Inr:
  assumes "mk_eps_config name ep params = Inr c"
  shows "is_identifier name" "ec_name c = name" "in_percent (ec_initial_battery c)"
    "in_percent (ec_critical_threshold c)" "in_percent (ec_low_threshold c)" "in_percent (ec_recovery_threshold c)"
    "fl_less FL_ZERO (ec_dead_capacity_factor c)" "fl_le (ec_dead_capacity_factor c) FL_ONE"
proof -
  have pc: "coerce_percentage kind v = Inr x \<Longrightarrow> in_percent x" for kind v x
    by (auto simp: coerce_percentage_def res_bind_eq_Inr in_percent_def split: if_splits)
  have un: "coerce_unit_interval kind v = Inr x \<Longrightarrow> fl_less FL_ZERO x \<and> fl_le x FL_ONE" for kind v x
    by (auto simp: coerce_unit_interval_def res_bind_eq_Inr split: if_splits)
  show "is_identifier name" "ec_name c = name" "in_percent (ec_initial_battery c)"
    "in_percent (ec_critical_threshold c)" "in_percent (ec_low_threshold c)" "in_percent (ec_recovery_threshold c)"
    "fl_less FL_ZERO (ec_dead_capacity_factor c)" "fl_le (ec_dead_capacity_factor c) FL_ONE"
    using assms pc un
    by (auto simp: mk_eps_config_def res_bind_eq_Inr param_def Let_def mod_identifier_def split: if_splits)
qed

text \<open>
  C10: The battery of an EPS stays between empty and full. From any configuration it accepts and any
  payload, after construction and any sequence of ticks, commands, attachments, telemetry reads and
  arbitrary changes of the fault state, the ones that raise included, the stored level is a number in
  0..100 and the stored voltage is not negative, whatever the overrides, loads and float overflows.
\<close>

theorem eps_battery_in_range:
  assumes "mk_eps_config name ep params = Inr c" "mk_eps clock c hf (pay, fe) = (Inr m, (pay', fe'))"
  shows "let m' = fst (fst (eps_run ops ((m, pay'), fe')))
     in fl_le FL_ZERO (ep_battery m') \<and> fl_le (ep_battery m') (fl_lit 100) \<and> fl_le FL_ZERO (ep_voltage m')"
proof -
  note c = mk_eps_config_Inr[OF assms(1)]
  obtain b where "mk_sim_module (ec_name c) (ec_endpoint c) hf = Inr b"
    using assms(2) by (cases "mk_sim_module (ec_name c) (ec_endpoint c) hf") (auto simp: mk_eps_def)
  then obtain base where ref: "refresh_derived_state clock ((fresh_eps base c, pay), fe) = (Inr (), ((m, pay'), fe'))"
    using assms(2) by (cases "fst (refresh_derived_state clock ((fresh_eps b c, pay), fe))")
      (auto simp: mk_eps_def split: prod.splits)
  have "eps_inv (fresh_eps base c)" using c by (simp add: eps_inv_def fresh_eps_def)
  then have "eps_inv m" using act_keepsD[OF keeps_refresh _ ref] by simp
  then have "eps_inv (fst (fst (eps_run ops ((m, pay'), fe'))))" by (intro eps_run_inv) simp
  then show ?thesis by (simp add: Let_def eps_inv_def in_percent_def fl_nonneg_def)
qed

lemma demo_eps_calm: "eps_calm (fresh_eps \<lparr>sm_name = ''eps'', sm_endpoint = Some (EpNumber 3), sm_has_fault_engine = True\<rparr>
    demo_eps_config) new_fault_engine" "payload_ready demo_payload"
proof -
  have "in_percent (ec_initial_battery demo_eps_config)" using mk_eps_config_Inr[OF demo_eps_config_builds] by simp
  then show "eps_calm (fresh_eps \<lparr>sm_name = ''eps'', sm_endpoint = Some (EpNumber 3), sm_has_fault_engine = True\<rparr>
      demo_eps_config) new_fault_engine"
    by (simp add: eps_calm_def fresh_eps_def quiet_def new_fault_engine_def is_identifier_def ident_char_def is_letter_def is_digit_def)
  show "payload_ready demo_payload" by code_simp
qed

lemma demo_eps_builds:
  "\<exists>m pay'. mk_eps 0 demo_eps_config True (Some demo_payload, new_fault_engine) = (Inr m, (pay', new_fault_engine))"
proof -
  have "mk_sim_module (ec_name demo_eps_config) (ec_endpoint demo_eps_config) True =
      Inr \<lparr>sm_name = ''eps'', sm_endpoint = Some (EpNumber 3), sm_has_fault_engine = True\<rparr>" by code_simp
  then show ?thesis
    using refresh_calm[OF demo_eps_calm(1), of "Some demo_payload" 0] demo_eps_calm(2) by (auto simp: mk_eps_def)
qed

lemma eps_battery_in_range_witness:
  "\<exists>m pay'. mk_eps 0 demo_eps_config True (Some demo_payload, new_fault_engine) = (Inr m, (pay', new_fault_engine)) \<and>
     (let m' = fst (fst (eps_run [(1, EpTick 5), (2, EpTelemetry None)] ((m, pay'), new_fault_engine)))
      in fl_le FL_ZERO (ep_battery m') \<and> fl_le (ep_battery m') (fl_lit 100) \<and> fl_le FL_ZERO (ep_voltage m'))"
  using demo_eps_builds eps_battery_in_range[OF demo_eps_config_builds] by blast

text \<open>
  C24: The low-power mode is a threshold with hysteresis. Without active faults and commanded to nominal,
  an EPS that was not in low-power mode and whose battery takes any sequence of levels is in low-power
  mode after the last refresh exactly if at some refresh the level was at or below the low-power
  threshold, it has been below the recovery threshold at every refresh after that one, and it has been
  above zero and above the critical threshold since.
\<close>

theorem eps_low_power_hysteresis:
  assumes "mk_eps_config name ep params = Inr c" "ep_config m = c" "sm_name (ep_base m) = name" "quiet fe"
    and "in_percent (ep_battery m)" "ep_commanded_mode m = EPS_NOMINAL" "ep_mode m \<noteq> EPS_LOW_POWER"
    and "pred_option payload_ready pay" "\<forall>(_, l) \<in> set ls. in_percent l" "n < length ls"
  shows "refresh_modes ls ((m, pay), fe) ! n = EPS_LOW_POWER \<longleftrightarrow>
     (\<exists>i \<le> n. fl_le (snd (ls ! i)) (ec_low_threshold c) \<and>
        (\<forall>j \<in> {i<..n}. fl_less (snd (ls ! j)) (ec_recovery_threshold c)) \<and>
        (\<forall>j \<in> {i..n}. fl_less FL_ZERO (snd (ls ! j)) \<and> fl_less (ec_critical_threshold c) (snd (ls ! j))))"
proof -
  note c = mk_eps_config_Inr[OF assms(1)]
  have "eps_calm m fe" using assms c by (simp add: eps_calm_def)
  note modes = refresh_modes_levels[OF this assms(8,6,9)]
  have "in_percent x \<Longrightarrow> x \<noteq> FNaN" for x by (auto simp: in_percent_def dest: fl_le_not_nan)
  then have "\<forall>l \<in> set (map snd ls). l \<noteq> FNaN" "ec_critical_threshold c \<noteq> FNaN" using assms(9) c by auto
  then have "refresh_modes ls ((m, pay), fe) ! n = EPS_LOW_POWER \<longleftrightarrow> low_since c (map snd ls) n"
    using level_modes_hysteresis[of n "map snd ls"] assms(2,7,10) by (simp add: modes)
  then show ?thesis using assms(10) by (auto simp: low_since_def level_live_def)
qed

definition demo_levels :: "(int \<times> pyfloat) list" where
  "demo_levels = [(1, fl_lit 80), (2, fl_lit 29), (3, fl_lit 33)]"

lemma eps_low_power_hysteresis_witness:
  "refresh_modes demo_levels ((fresh_eps \<lparr>sm_name = ''eps'', sm_endpoint = Some (EpNumber 3), sm_has_fault_engine = True\<rparr>
     demo_eps_config, Some demo_payload), new_fault_engine) ! 2 = EPS_LOW_POWER"
proof -
  have ivl: "{1<..2} = {2::nat}" "{1..2} = {1, 2::nat}" by auto
  have lits: "fl_le (fl_lit 29) (ec_low_threshold demo_eps_config)" "fl_less (fl_lit 33) (ec_recovery_threshold demo_eps_config)"
    "fl_less FL_ZERO (fl_lit 29)" "fl_less (ec_critical_threshold demo_eps_config) (fl_lit 29)"
    "fl_less FL_ZERO (fl_lit 33)" "fl_less (ec_critical_threshold demo_eps_config) (fl_lit 33)"
    "in_percent (fl_lit 80)" "in_percent (fl_lit 29)" "in_percent (fl_lit 33)"
    by code_simp+
  have "\<exists>i \<le> 2. fl_le (snd (demo_levels ! i)) (ec_low_threshold demo_eps_config) \<and>
        (\<forall>j \<in> {i<..2}. fl_less (snd (demo_levels ! j)) (ec_recovery_threshold demo_eps_config)) \<and>
        (\<forall>j \<in> {i..2}. fl_less FL_ZERO (snd (demo_levels ! j)) \<and>
           fl_less (ec_critical_threshold demo_eps_config) (snd (demo_levels ! j)))"
    using lits by (intro exI[of _ "1::nat"]) (simp add: demo_levels_def ivl ivl[simplified])
  then show ?thesis
    using eps_low_power_hysteresis[OF demo_eps_config_builds, of _ new_fault_engine "Some demo_payload" demo_levels 2]
      demo_eps_calm lits(7-9) by (simp add: eps_calm_def fresh_eps_def demo_levels_def)
qed

text \<open>
  C37: Shedding a payload takes its power until the EPS gives it back. Without active faults, when a
  refresh finds a mode that sheds the payload (off, or a low mode configured to shed), the payload loses
  its power and stops capturing, it draws nothing and the load is that of the mode alone; and from there
  no sequence of commands to the payload, ticks and telemetry reads records any data, until the EPS
  switches the rail or a fault is set.
\<close>

theorem eps_shed_payload_records_nothing:
  assumes "eps_calm m fe" "payload_ready p" "payload_inv p" "mode_sheds (ep_config m) (calm_mode m)"
    and "\<forall>(_, oper) \<in> set ops. payload_own_op oper"
  shows "\<exists>m' p'. refresh_derived_state clock ((m, Some p), fe) = (Inr (), ((m', Some p'), fe)) \<and>
     ep_mode m' = calm_mode m \<and> \<not> py_eps_power p' \<and> \<not> py_capture p' \<and>
     payload_power_draw clock' (p', fe) = (Inr FL_ZERO, (p', fe)) \<and>
     ep_load m' = fl_add (mode_load (ep_config m) (calm_mode m)) FL_ZERO \<and>
     py_volume (fst (payload_run ops (p', fe))) \<le> py_volume p"
proof -
  let ?p = "rail_payload False p"
  have rail: "\<not> calm_rail m" using assms(4) by (simp add: calm_rail_def)
  have q: "quiet fe" using assms(1) by (simp add: eps_calm_def)
  obtain m' where m': "refresh_derived_state clock ((m, Some p), fe) = (Inr (), ((m', Some ?p), fe))"
    "ep_mode m' = calm_mode m" "ep_load m' = fl_add (mode_load (ep_config m) (calm_mode m)) FL_ZERO"
    using refresh_calm[OF assms(1), of "Some p" clock] assms(2) rail by (auto simp: rail_load_def)
  have draw: "payload_power_draw clock' (?p, fe) = (Inr FL_ZERO, (?p, fe))"
    using payload_draw_quiet[OF q, of ?p clock'] assms(2)[folded rail_payload_ready[of False p]]
    by (simp add: payload_draw_def) (simp add: rail_payload_def)
  have "unpowered (py_volume p) (?p, fe)"
    using q assms(2,3) by (simp add: unpowered_def rail_payload_def payload_ready_def payload_inv_def)
  then have "unpowered (py_volume p) (payload_run ops (?p, fe))" using assms(5) by (rule unpowered_run)
  then show ?thesis using m' draw by (intro exI[of _ m'] exI[of _ ?p]) (simp add: rail_payload_def unpowered_def)
qed

lemma eps_shed_payload_records_nothing_witness:
  "\<exists>m' p'. refresh_derived_state 4 ((fresh_eps \<lparr>sm_name = ''eps'', sm_endpoint = Some (EpNumber 3), sm_has_fault_engine = True\<rparr>
       demo_eps_config\<lparr>ep_commanded_mode := EPS_OFF\<rparr>, Some (demo_payload\<lparr>py_capture := True\<rparr>)), new_fault_engine) =
       (Inr (), ((m', Some p'), new_fault_engine)) \<and> ep_mode m' = EPS_OFF \<and>
     py_volume (fst (payload_run [(5, PyCommand (payload_request ''payload_start_capture'' PNone)), (6, PyTick 9)]
       (p', new_fault_engine))) \<le> 0"
proof -
  let ?m = "fresh_eps \<lparr>sm_name = ''eps'', sm_endpoint = Some (EpNumber 3), sm_has_fault_engine = True\<rparr>
       demo_eps_config\<lparr>ep_commanded_mode := EPS_OFF\<rparr>"
  have "eps_calm ?m new_fault_engine" using demo_eps_calm(1) by (simp add: eps_calm_def)
  moreover have "payload_ready (demo_payload\<lparr>py_capture := True\<rparr>)" using demo_eps_calm(2) by (simp add: payload_ready_def)
  moreover have "payload_inv (demo_payload\<lparr>py_capture := True\<rparr>)" by code_simp
  moreover have "calm_mode ?m = EPS_OFF" by (simp add: calm_mode_def)
  moreover have "mode_sheds (ep_config ?m) EPS_OFF" by (simp add: mode_sheds_def)
  moreover have "py_volume (demo_payload\<lparr>py_capture := True\<rparr>) = 0" by (simp add: demo_payload_def)
  ultimately show ?thesis
    using eps_shed_payload_records_nothing[of ?m new_fault_engine "demo_payload\<lparr>py_capture := True\<rparr>"
        "[(5, PyCommand (payload_request ''payload_start_capture'' PNone)), (6, PyTick 9)]" 4 0]
    by (auto simp: payload_own_op_def)
qed

end
