(* ===== verification/Clock.thy ===== *)
theory Clock
  imports ModuleBase
begin

text \<open>
  The pacing clocks (\<^verbatim>\<open>clock.py\<close>). A real-time clock fixes at its construction the wall-clock reading that
  stands for a virtual time; \<open>seconds_until\<close> takes the reading it makes now as an argument. The
  arithmetic is that of Python floats.
\<close>

datatype clock_error =
    ClockNegative string int
  | ClockScale
  | ClockFloat py_exn

record real_time_clock =
  rc_origin_virtual :: int
  rc_time_scale :: pyfloat
  rc_origin_wall :: pyfloat

definition clock_virtual_time :: "string \<Rightarrow> int \<Rightarrow> clock_error + int" where
  "clock_virtual_time name v = (if v < 0 then Inl (ClockNegative name v) else Inr v)"

definition clock_positive_finite :: "py_val \<Rightarrow> clock_error + pyfloat" where
  "clock_positive_finite v =
     (if \<not> is_real_number v then Inl ClockScale
      else res_bind (map_sum ClockFloat id (py_float v)) (\<lambda>x.
             if \<not> fl_is_finite x \<or> fl_le x FL_ZERO then Inl ClockScale else Inr x))"

definition mk_real_time_clock :: "int \<Rightarrow> py_val \<Rightarrow> pyfloat \<Rightarrow> clock_error + real_time_clock" where
  "mk_real_time_clock origin scale wall =
     res_bind (clock_virtual_time ''origin_virtual_time'' origin) (\<lambda>origin.
     res_bind (clock_positive_finite scale) (\<lambda>scale.
       Inr \<lparr>rc_origin_virtual = origin, rc_time_scale = scale, rc_origin_wall = wall\<rparr>))"

definition target_wall_time :: "real_time_clock \<Rightarrow> int \<Rightarrow> clock_error + pyfloat" where
  "target_wall_time c target =
     res_bind (map_sum ClockFloat id (int_to_float (target - rc_origin_virtual c))) (\<lambda>elapsed_us.
     res_bind (map_sum ClockFloat id (fl_div elapsed_us (fl_lit 1000000))) (\<lambda>elapsed.
     res_bind (map_sum ClockFloat id (fl_div elapsed (rc_time_scale c))) (\<lambda>scaled.
       Inr (fl_add (rc_origin_wall c) scaled))))"

definition seconds_until :: "real_time_clock \<Rightarrow> int \<Rightarrow> pyfloat \<Rightarrow> clock_error + pyfloat" where
  "seconds_until c target wall =
     res_bind (clock_virtual_time ''target'' target) (\<lambda>target.
     res_bind (target_wall_time c target) (\<lambda>due.
       Inr (fl_max FL_ZERO (fl_sub due wall))))"

definition virtual_seconds_until :: "int \<Rightarrow> pyfloat" where
  "virtual_seconds_until target = FL_ZERO"

text \<open>A wait is never negative, and a wall clock past the target waits no longer.\<close>

lemma fl_max_zero_nonneg: "\<not> fl_less (fl_max FL_ZERO y) FL_ZERO"
  by (cases y) (auto simp: fl_max_def)

lemma seconds_until_nonneg: "seconds_until c target wall = Inr x \<Longrightarrow> \<not> fl_less x FL_ZERO"
  by (auto simp: seconds_until_def res_bind_eq_Inr fl_max_zero_nonneg)

end
