(* ===== verification/Runner.thy ===== *)
theory Runner
  imports Routing Assertions ObcPeer EngineNested ModuleActions Clock
begin

text \<open>
  The scenario runner (\<^verbatim>\<open>scenario/runner.py\<close>): packets out and in, the settling of events and bus traffic,
  the recurring physical step, waiting, the scenario steps and the run itself. The modules are objects
  of any registered module type, the transport is any adapter, and the text of an assertion detail is
  rendered by Python's \<^verbatim>\<open>repr\<close>: all three are arguments, collected in \<open>runner_env\<close>. A module acts on its
  \<open>world\<close>: the engine, the fault engine, the transport and the modules, not on what the runner itself
  keeps. The runner nests the engine's run loop inside a handler; \<open>exec_runner\<close> takes the nesting depth, and
  \<open>FailNesting\<close> and \<open>FailDrainDiverges\<close> stand for a run that does not return, which BuiltIn.thy rules out.
\<close>

section \<open>Failures\<close>

datatype run_fail =
    FailRoute runner_error
  | FailNoModule string
  | FailNotCommandable string
  | FailNotHandled string string string
  | FailUnsettled nat
  | FailWaitExceeded int
  | FailPacedRounds int
  | FailNegativeWait int
  | FailNotTelemetry
  | FailNotCommand
  | FailModule module_error
  | FailPeer peer_error
  | FailEngine engine_error
  | FailFault fault_error
  | FailTransport transport_error
  | FailCsp csp_error
  | FailCodec telemetry_codec_error
  | FailClock clock_error
  | FailMissingValue string string
  | FailAssertion assertion_error
  | FailOrder order_error
  | FailTransportKind
  | FailMaxSettle
  | FailNoEnvelope
  | FailDrainDiverges
  | FailNesting

text \<open>The failures that stand for a run that does not return.\<close>

definition fail_diverges :: "run_fail \<Rightarrow> bool" where
  "fail_diverges x \<longleftrightarrow> x = FailDrainDiverges \<or> x = FailNesting"

section \<open>State\<close>

datatype 'h runner_handler =
    ModuleHandler 'h
  | FaultEngineHandler
  | RecordTelemetry
  | PhysicalStep
  | EmitCommand command_route

datatype drop_detail =
    DropReassembly reassembly_detail
  | DropOverLimit nat int
  | DropLine kiss_detail

datatype drop_reason =
    ReassemblyReason reassembly_drop_reason
  | LineReason kiss_drop_reason

record dropped_packet =
  dr_time :: int
  dr_destination :: "int option"
  dr_sender :: "int option"
  dr_reason :: drop_reason
  dr_detail :: drop_detail
  dr_limit :: "int option"

record ('t, 'm) runner_state =
  rn_fault :: fault_engine
  rn_transport :: 't
  rn_modules :: 'm
  rn_latest :: "(string \<times> py_val) list"
  rn_results :: "assertion_result list"
  rn_semantic :: "(nat \<times> py_val) list"
  rn_reassemblers :: "(int \<times> reassembler) list"
  rn_senders :: "(int \<times> packet_sender) list"
  rn_drops :: "dropped_packet list"
  rn_output :: "string list"

type_synonym ('h, 't, 'm) run_state = "'h runner_handler engine \<times> ('t, 'm) runner_state"

type_synonym ('h, 't, 'm, 'a) run_act = "(('h, 't, 'm) run_state, run_fail, 'a) act"

type_synonym ('h, 't, 'm) world = "'h runner_handler engine \<times> fault_engine \<times> 't \<times> 'm"

type_synonym ('h, 't, 'm, 'a) world_act = "(('h, 't, 'm) world, run_fail, 'a) act"

text \<open>
  \<open>re_modules\<close> are the names of the modules; an operation a module does not have is \<open>None\<close>. \<open>re_clock\<close> is
  the real-time clock of a paced run, \<open>None\<close> for the virtual clock; \<open>re_wall\<close> reads the wall clock and
  \<open>re_receive_timed\<close> is a receive that blocks for at most so many seconds.
\<close>

record ('h, 't, 'm) runner_env =
  re_commands :: "command_route list"
  re_telemetry :: "telemetry_route list"
  re_fields_by_node :: "(string \<times> string list) list"
  re_telemetry_order :: "string list"
  re_tick_order :: "string list"
  re_limits :: "(int \<times> int) list"
  re_max_settle :: nat
  re_adapter :: "'t adapter_ops"
  re_receive :: "'t \<Rightarrow> transport_envelope option \<times> 't"
  re_take_drops :: "'t \<Rightarrow> transport_drop list \<times> 't"
  re_clock :: "real_time_clock option"
  re_wall :: "'t \<Rightarrow> pyfloat \<times> 't"
  re_receive_timed :: "pyfloat \<Rightarrow> 't \<Rightarrow> transport_envelope option \<times> 't"
  re_render :: "assertion_detail \<Rightarrow> string"
  re_modules :: "string list"
  re_tick :: "string \<Rightarrow> (int \<Rightarrow> ('h, 't, 'm, unit) world_act) option"
  re_report :: "string \<Rightarrow> (int \<Rightarrow> ('h, 't, 'm, (string \<times> py_val) list) world_act) option"
  re_command :: "string \<Rightarrow> (command_payload \<Rightarrow> ('h, 't, 'm, bool) world_act) option"
  re_handle :: "'h \<Rightarrow> simulation_event \<Rightarrow> ('h, 't, 'm, unit) world_act"

definition on_state :: "(('t, 'm) runner_state \<Rightarrow> ('t, 'm) runner_state) \<Rightarrow> ('h, 't, 'm, unit) run_act" where
  "on_state f = act_modify (\<lambda>(e, rs). (e, f rs))"

definition on_engine ::
  "('h runner_handler engine \<Rightarrow> (engine_error + 'a) \<times> 'h runner_handler engine) \<Rightarrow> ('h, 't, 'm, 'a) run_act" where
  "on_engine f = act_on fst (\<lambda>e (_, rs). (e, rs)) (act_err FailEngine f)"

definition on_transport :: "('t \<Rightarrow> 'a \<times> 't) \<Rightarrow> ('h, 't, 'm, 'a) run_act" where
  "on_transport f = act_on (\<lambda>(_, rs). rn_transport rs) (\<lambda>t (e, rs). (e, rs\<lparr>rn_transport := t\<rparr>))
     (\<lambda>t. case f t of (x, t1) \<Rightarrow> (Inr x, t1))"

definition world_of :: "('h, 't, 'm) run_state \<Rightarrow> ('h, 't, 'm) world" where
  "world_of st = (fst st, rn_fault (snd st), rn_transport (snd st), rn_modules (snd st))"

definition put_world :: "('h, 't, 'm) world \<Rightarrow> ('h, 't, 'm) run_state \<Rightarrow> ('h, 't, 'm) run_state" where
  "put_world w st =
     (case w of (e, fe, t, ms) \<Rightarrow> (e, (snd st)\<lparr>rn_fault := fe, rn_transport := t, rn_modules := ms\<rparr>))"

definition on_world :: "('h, 't, 'm, 'a) world_act \<Rightarrow> ('h, 't, 'm, 'a) run_act" where
  "on_world = act_on world_of put_world"

abbreviation now_of :: "('h, 't, 'm, int) run_act" where
  "now_of \<equiv> act_get (\<lambda>st. eng_now (fst st))"

definition limit_of :: "('h, 't, 'm) runner_env \<Rightarrow> int \<Rightarrow> int" where
  "limit_of env address =
     (case map_of (re_limits env) address of Some m \<Rightarrow> m | None \<Rightarrow> CSP_V2_DEFAULT_MAX_PACKET_BYTES)"

definition limits_by_address :: "testbed_config \<Rightarrow> (int \<times> int) list" where
  "limits_by_address setup =
     fold (\<lambda>(_, node). AList.update (nc_address node) (nc_max_packet_bytes node)) (tc_nodes setup) []"

section \<open>Packets out\<close>

definition sender_for :: "('h, 't, 'm) runner_env \<Rightarrow> int \<Rightarrow> ('h, 't, 'm, packet_sender) run_act" where
  "sender_for env source =
     act_bind (act_get (\<lambda>st. map_of (rn_senders (snd st)) source)) (\<lambda>known.
       case known of
         Some s \<Rightarrow> act_return s
       | None \<Rightarrow>
           act_bind (act_lift (map_sum FailCsp id (ad_new_sender (re_adapter env) (limit_of env source)))) (\<lambda>s.
           act_bind (on_state (\<lambda>rs. rs\<lparr>rn_senders := AList.update source s (rn_senders rs)\<rparr>)) (\<lambda>_.
             act_return s)))"

definition send_packet ::
  "('h, 't, 'm) runner_env \<Rightarrow> csp_fields \<Rightarrow> byte list \<Rightarrow> ('h, 't, 'm, transport_envelope) run_act" where
  "send_packet env f payload =
     act_bind (sender_for env (cf_source f)) (\<lambda>sender.
     act_bind (act_lift (map_sum FailCsp id (sender_frames sender f payload))) (\<lambda>(frames, sender').
     act_bind (on_state (\<lambda>rs. rs\<lparr>rn_senders := AList.update (cf_source f) sender' (rn_senders rs)\<rparr>)) (\<lambda>_.
     act_bind (on_transport (send_frames (re_adapter env) (EpNumber (cf_source f)) frames)) (\<lambda>sent.
       case sent of
         Inl e \<Rightarrow> act_fail (FailTransport e)
       | Inr envs \<Rightarrow> if envs = [] then act_fail FailNoEnvelope else act_return (last envs)))))"

definition send_route ::
  "('h, 't, 'm) runner_env \<Rightarrow> command_route \<Rightarrow> py_val \<Rightarrow> ('h, 't, 'm, unit) run_act" where
  "send_route env route payload =
     act_bind (act_lift (map_sum FailCsp id (command_packet_fields route))) (\<lambda>f.
     act_bind (send_packet env f (ro_payload_hex route)) (\<lambda>envelope.
       if payload = PNone then act_return ()
       else on_state (\<lambda>rs. rs\<lparr>rn_semantic := AList.update (env_sequence envelope) payload (rn_semantic rs)\<rparr>)))"

definition send_telemetry_route ::
  "('h, 't, 'm) runner_env \<Rightarrow> telemetry_route \<Rightarrow> py_val \<Rightarrow> ('h, 't, 'm, unit) run_act" where
  "send_telemetry_route env route v =
     act_bind (act_lift (map_sum FailCodec id (encode_telemetry_value (tr_field_name route) (tr_mapping route) v))) (\<lambda>payload.
     act_bind (act_lift (map_sum FailCsp id (telemetry_packet_fields route))) (\<lambda>f.
     act_bind (send_packet env f payload) (\<lambda>_. act_return ())))"

section \<open>Packets in\<close>

definition append_drop :: "dropped_packet \<Rightarrow> ('h, 't, 'm, unit) run_act" where
  "append_drop d = on_state (\<lambda>rs. rs\<lparr>rn_drops := rn_drops rs @ [d]\<rparr>)"

definition record_drop :: "reassembly_event \<Rightarrow> int option \<Rightarrow> ('h, 't, 'm, unit) run_act" where
  "record_drop event destination =
     (case event of
        EvDropped t frame reason detail sender dest limit \<Rightarrow>
          append_drop \<lparr>dr_time = t, dr_destination = (if destination \<noteq> None then destination else dest),
            dr_sender = sender, dr_reason = ReassemblyReason reason, dr_detail = DropReassembly detail,
            dr_limit = limit\<rparr>
      | _ \<Rightarrow> act_return ())"

definition collect_transport_drops :: "('h, 't, 'm) runner_env \<Rightarrow> ('h, 't, 'm, unit) run_act" where
  "collect_transport_drops env =
     act_bind (on_transport (re_take_drops env)) (\<lambda>drops.
     act_bind now_of (\<lambda>now.
       act_each (\<lambda>d. append_drop \<lparr>dr_time = now, dr_destination = td_destination d, dr_sender = td_source d,
           dr_reason = LineReason (td_reason d), dr_detail = DropLine (td_detail d), dr_limit = td_limit d\<rparr>) drops))"

definition pop_semantic :: "nat \<Rightarrow> ('h, 't, 'm, py_val option) run_act" where
  "pop_semantic sequence =
     act_bind (act_get (\<lambda>st. map_of (rn_semantic (snd st)) sequence)) (\<lambda>v.
     act_bind (on_state (\<lambda>rs. rs\<lparr>rn_semantic := AList.delete sequence (rn_semantic rs)\<rparr>)) (\<lambda>_. act_return v))"

definition deliver_command ::
  "('h, 't, 'm) runner_env \<Rightarrow> command_route \<Rightarrow> byte list \<Rightarrow> transport_envelope \<Rightarrow> ('h, 't, 'm, unit) run_act" where
  "deliver_command env route payload envelope =
     (if ro_target_node route \<notin> set (re_modules env) then act_fail (FailNoModule (ro_target_node route))
      else case re_command env (ro_target_node route) of
             None \<Rightarrow> act_fail (FailNotCommandable (ro_target_node route))
           | Some handle_command \<Rightarrow>
               act_bind (pop_semantic (env_sequence envelope)) (\<lambda>semantic.
               act_bind (act_lift (map_sum FailEngine id
                 (mk_command_payload (ro_command route)
                   (case semantic of Some v \<Rightarrow> v | None \<Rightarrow> if payload = [] then PNone else PBytes payload)
                   (Some (EpName (ro_source_node route))) (Some (EpName (ro_target_node route)))))) (\<lambda>command.
               act_bind (on_world (handle_command command)) (\<lambda>handled.
                 if handled then act_return ()
                 else act_fail (FailNotHandled (ro_source_node route) (ro_command route) (ro_target_node route))))))"

definition deliver_telemetry :: "telemetry_route \<Rightarrow> byte list \<Rightarrow> ('h, 't, 'm, unit) run_act" where
  "deliver_telemetry route payload =
     act_bind (act_lift (map_sum FailCodec id (decode_telemetry_value (tr_field_name route) (tr_mapping route) payload))) (\<lambda>v.
     act_bind (on_engine (schedule_telemetry (tr_signal route) v 0 (Some (EpName (tr_node_name route))) None)) (\<lambda>_.
       act_return ()))"

text \<open>An unrouted packet is a warning only.\<close>

definition route_packet ::
  "('h, 't, 'm) runner_env \<Rightarrow> csp_fields \<Rightarrow> byte list \<Rightarrow> transport_envelope \<Rightarrow> ('h, 't, 'm, unit) run_act" where
  "route_packet env f payload envelope =
     act_bind (act_lift (map_sum FailRoute id (packet_route (re_commands env) (re_telemetry env) f payload))) (\<lambda>dest.
       case dest of
         ToCommand r \<Rightarrow> deliver_command env r payload envelope
       | ToTelemetry r \<Rightarrow> deliver_telemetry r payload
       | Unrouted \<Rightarrow> act_return ())"

definition reassembler_for :: "('h, 't, 'm) runner_env \<Rightarrow> int \<Rightarrow> ('h, 't, 'm, reassembler) run_act" where
  "reassembler_for env key =
     act_bind (act_get (\<lambda>st. map_of (rn_reassemblers (snd st)) key)) (\<lambda>known.
       case known of
         Some r \<Rightarrow> act_return r
       | None \<Rightarrow>
           act_bind (act_lift (map_sum FailCsp id (mk_reassembler (Some (limit_of env key)) 1000000))) (\<lambda>r.
           act_bind (on_state (\<lambda>rs. rs\<lparr>rn_reassemblers := AList.update key r (rn_reassemblers rs)\<rparr>)) (\<lambda>_.
             act_return r)))"

definition deliver_whole_packet ::
  "('h, 't, 'm) runner_env \<Rightarrow> csp_packet_frame \<Rightarrow> transport_envelope \<Rightarrow> ('h, 't, 'm, unit) run_act" where
  "deliver_whole_packet env packet envelope =
     (let destination = cf_destination (cp_fields packet); limit = limit_of env destination in
      if int (length (cp_payload packet)) > limit
      then act_bind now_of (\<lambda>now.
             append_drop \<lparr>dr_time = now, dr_destination = Some destination,
               dr_sender = Some (cf_source (cp_fields packet)), dr_reason = ReassemblyReason OVERFLOW,
               dr_detail = DropOverLimit (length (cp_payload packet)) limit, dr_limit = Some limit\<rparr>)
      else route_packet env (cp_fields packet) (cp_payload packet) envelope)"

definition handle_reassembly_event ::
  "('h, 't, 'm) runner_env \<Rightarrow> int option \<Rightarrow> transport_envelope \<Rightarrow> reassembly_event \<Rightarrow> ('h, 't, 'm, unit) run_act" where
  "handle_reassembly_event env destination envelope event =
     (case event of
        EvDropped _ _ _ _ _ _ _ \<Rightarrow> record_drop event destination
      | EvComplete _ _ packet _ _ \<Rightarrow> route_packet env (dp_fields packet) (dp_payload packet) envelope
      | EvPending _ _ _ _ \<Rightarrow> act_return ())"

definition deliver_can_frame ::
  "('h, 't, 'm) runner_env \<Rightarrow> can_frame \<Rightarrow> transport_envelope \<Rightarrow> ('h, 't, 'm, unit) run_act" where
  "deliver_can_frame env frame envelope =
     act_bind (act_lift (if fr_is_extended frame
                         then map_sum FailCsp (\<lambda>c. Some (ci_destination c)) (decode_can_id (fr_can_id frame))
                         else Inr None)) (\<lambda>destination.
     let key = (case destination of None \<Rightarrow> -1 | Some d \<Rightarrow> d) in
     act_bind (reassembler_for env key) (\<lambda>r.
     act_bind now_of (\<lambda>now.
     act_bind (act_lift (map_sum FailCsp id (feed r frame now))) (\<lambda>(events, r').
     act_bind (on_state (\<lambda>rs. rs\<lparr>rn_reassemblers := AList.update key r' (rn_reassemblers rs)\<rparr>)) (\<lambda>_.
       act_each (handle_reassembly_event env destination envelope) events)))))"

definition deliver_envelope :: "('h, 't, 'm) runner_env \<Rightarrow> transport_envelope \<Rightarrow> ('h, 't, 'm, unit) run_act" where
  "deliver_envelope env envelope =
     (case env_frame envelope of
        PacketFrame packet \<Rightarrow> deliver_whole_packet env packet envelope
      | CanFrame frame \<Rightarrow> deliver_can_frame env frame envelope)"

text \<open>Whether any frame was delivered. The stream is emptied before the first frame is looked at.\<close>

definition drain_transport_frames :: "('h, 't, 'm) runner_env \<Rightarrow> ('h, 't, 'm, bool) run_act" where
  "drain_transport_frames env st =
     (case drain (re_receive env) (rn_transport (snd st)) of
        None \<Rightarrow> (Inl FailDrainDiverges, st)
      | Some (envelopes, t) \<Rightarrow>
          act_bind (act_each (deliver_envelope env) envelopes) (\<lambda>_.
          act_bind (collect_transport_drops env) (\<lambda>_. act_return (envelopes \<noteq> [])))
            (fst st, (snd st)\<lparr>rn_transport := t\<rparr>))"

definition expire_partial_packets :: "('h, 't, 'm, unit) run_act" where
  "expire_partial_packets st =
     (let now = eng_now (fst st); expired = map (\<lambda>(key, r). (key, expire r now)) (rn_reassemblers (snd st)) in
      act_each (\<lambda>(key, events, _). act_each (\<lambda>ev. record_drop ev (if key = -1 then None else Some key)) events)
        expired (fst st, (snd st)\<lparr>rn_reassemblers := map (\<lambda>(key, _, r). (key, r)) expired\<rparr>))"

section \<open>Settling\<close>

type_synonym ('h, 't, 'm) runner_exec = "('h runner_handler, ('t, 'm) runner_state, run_fail) handler_exec"

definition engine_run_until ::
  "('h, 't, 'm) runner_exec \<Rightarrow> int \<Rightarrow> nat \<Rightarrow> ('h, 't, 'm, simulation_event list) run_act" where
  "engine_run_until exec time max_events st =
     (case run_until exec time (Some (int max_events)) st of
        None \<Rightarrow> (Inl FailNesting, st)
      | Some (r, st1) \<Rightarrow>
          ((case r of Inr evs \<Rightarrow> Inr evs | Inl (EngineFailed e) \<Rightarrow> Inl (FailEngine e) | Inl (HandlerRaised x) \<Rightarrow> Inl x), st1))"

fun settle_rounds ::
  "('h, 't, 'm) runner_env \<Rightarrow> ('h, 't, 'm) runner_exec \<Rightarrow> nat \<Rightarrow> ('h, 't, 'm, unit) run_act" where
  "settle_rounds env exec 0 = act_fail (FailUnsettled (re_max_settle env))"
| "settle_rounds env exec (Suc n) =
     act_bind now_of (\<lambda>now.
     act_bind (engine_run_until exec now (re_max_settle env)) (\<lambda>dispatched.
     act_bind (drain_transport_frames env) (\<lambda>drained_any.
       if dispatched = [] \<and> \<not> drained_any then act_return () else settle_rounds env exec n)))"

definition run_current_events ::
  "('h, 't, 'm) runner_env \<Rightarrow> ('h, 't, 'm) runner_exec \<Rightarrow> ('h, 't, 'm, unit) run_act" where
  "run_current_events env exec = settle_rounds env exec (re_max_settle env)"

definition emit_field ::
  "('h, 't, 'm) runner_env \<Rightarrow> string \<Rightarrow> (string \<times> py_val) list \<Rightarrow> string \<Rightarrow> ('h, 't, 'm, unit) run_act" where
  "emit_field env node_name vals field_name =
     (case map_of (map (\<lambda>r. (tr_signal r, r)) (rev (re_telemetry env))) (node_name @ ''.telemetry.'' @ field_name) of
        None \<Rightarrow> act_fail (FailMissingValue node_name field_name)
      | Some route \<Rightarrow>
          (case map_of vals field_name of
             None \<Rightarrow> act_fail (FailMissingValue node_name field_name)
           | Some v \<Rightarrow> send_telemetry_route env route v))"

definition emit_node :: "('h, 't, 'm) runner_env \<Rightarrow> string \<Rightarrow> ('h, 't, 'm, unit) run_act" where
  "emit_node env node_name =
     (if node_name \<notin> set (re_modules env) then act_return ()
      else case re_report env node_name of
             None \<Rightarrow> act_return ()
           | Some telemetry \<Rightarrow>
               act_bind now_of (\<lambda>now.
               act_bind (on_world (telemetry now)) (\<lambda>vals.
                 act_each (emit_field env node_name vals)
                   (case map_of (re_fields_by_node env) node_name of None \<Rightarrow> [] | Some fs \<Rightarrow> fs))))"

definition emit_configured_telemetry ::
  "('h, 't, 'm) runner_env \<Rightarrow> ('h, 't, 'm) runner_exec \<Rightarrow> ('h, 't, 'm, unit) run_act" where
  "emit_configured_telemetry env exec =
     act_bind (act_each (emit_node env) (re_telemetry_order env)) (\<lambda>_. run_current_events env exec)"

definition tick_module :: "('h, 't, 'm) runner_env \<Rightarrow> int \<Rightarrow> string \<Rightarrow> ('h, 't, 'm, unit) run_act" where
  "tick_module env ticks node_name =
     (if node_name \<notin> set (re_modules env) then act_fail (FailNoModule node_name)
      else case re_tick env node_name of None \<Rightarrow> act_return () | Some tick \<Rightarrow> on_world (tick ticks))"

section \<open>Handlers\<close>

abbreviation "PHYSICAL_STEP_US \<equiv> 1000000 :: int"

definition record_telemetry :: "simulation_event \<Rightarrow> ('h, 't, 'm, unit) run_act" where
  "record_telemetry ev =
     (case ev_payload ev of
        TelemetryPayload p \<Rightarrow>
          on_state (\<lambda>rs. rs\<lparr>rn_latest := AList.update (tlm_signal p) (tlm_value p) (rn_latest rs)\<rparr>)
      | _ \<Rightarrow> act_fail FailNotTelemetry)"

definition advance_fault_cycles :: "int \<Rightarrow> ('h, 't, 'm, unit) run_act" where
  "advance_fault_cycles number st =
     (let now = eng_now (fst st) in
      case advance_cycles now number (Some now) (rn_fault (snd st)) of
        (r, fe) \<Rightarrow> (map_sum FailFault (\<lambda>_. ()) r, (fst st, (snd st)\<lparr>rn_fault := fe\<rparr>)))"

definition physical_step ::
  "('h, 't, 'm) runner_env \<Rightarrow> ('h, 't, 'm) runner_exec \<Rightarrow> ('h, 't, 'm, unit) run_act" where
  "physical_step env exec =
     act_bind (run_current_events env exec) (\<lambda>_.
     act_bind (advance_fault_cycles 1) (\<lambda>_.
     act_bind (act_each (tick_module env 1) (re_tick_order env)) (\<lambda>_.
     act_bind (emit_configured_telemetry env exec) (\<lambda>_.
     act_bind (on_engine (schedule_timer PHYSICAL_STEP_US None (Some PhysicalStep))) (\<lambda>_. act_return ())))))"

definition fault_engine_handler :: "simulation_event \<Rightarrow> ('h, 't, 'm, unit) run_act" where
  "fault_engine_handler ev st =
     (case handle_fault_event ev (eng_now (fst st)) (rn_fault (snd st)) of
        Inl e \<Rightarrow> (Inl (FailFault e), st)
      | Inr (_, fe) \<Rightarrow> (Inr (), (fst st, (snd st)\<lparr>rn_fault := fe\<rparr>)))"

definition emit_command_handler ::
  "('h, 't, 'm) runner_env \<Rightarrow> command_route \<Rightarrow> simulation_event \<Rightarrow> ('h, 't, 'm, unit) run_act" where
  "emit_command_handler env route ev =
     (case ev_payload ev of
        CommandPayload p \<Rightarrow> send_route env route (cmd_payload p)
      | _ \<Rightarrow> act_fail FailNotCommand)"

definition exec_handler ::
  "('h, 't, 'm) runner_env \<Rightarrow> ('h, 't, 'm, unit) run_act \<Rightarrow> ('h, 't, 'm) runner_exec" where
  "exec_handler env step h ev =
     (case h of
        ModuleHandler m \<Rightarrow> on_world (re_handle env m ev)
      | FaultEngineHandler \<Rightarrow> fault_engine_handler ev
      | RecordTelemetry \<Rightarrow> record_telemetry ev
      | EmitCommand route \<Rightarrow> emit_command_handler env route ev
      | PhysicalStep \<Rightarrow> step)"

primrec exec_runner :: "('h, 't, 'm) runner_env \<Rightarrow> nat \<Rightarrow> ('h, 't, 'm) runner_exec" where
  "exec_runner env 0 = exec_handler env (act_fail FailNesting)"
| "exec_runner env (Suc n) = exec_handler env (physical_step env (exec_runner env n))"

text \<open>\<^verbatim>\<open>ScenarioRunner.__init__\<close>: listen to telemetry events and arm the step.\<close>

definition start_runner :: "('h, 't, 'm, unit) run_act" where
  "start_runner =
     act_bind (on_engine (\<lambda>e. case add_handler (Kind TELEMETRY) RecordTelemetry e of
         Inl err \<Rightarrow> (Inl err, e) | Inr e1 \<Rightarrow> (Inr (), e1))) (\<lambda>_.
     act_bind (on_engine (schedule_timer PHYSICAL_STEP_US None (Some PhysicalStep))) (\<lambda>_. act_return ()))"

section \<open>Waiting\<close>

definition seconds_to :: "('h, 't, 'm) runner_env \<Rightarrow> int \<Rightarrow> ('h, 't, 'm, pyfloat) run_act" where
  "seconds_to env target =
     (case re_clock env of
        None \<Rightarrow> act_return (virtual_seconds_until target)
      | Some c \<Rightarrow>
          act_bind (on_transport (re_wall env)) (\<lambda>wall.
            act_lift (map_sum FailClock id (seconds_until c target wall))))"

fun wait_paced ::
  "('h, 't, 'm) runner_env \<Rightarrow> ('h, 't, 'm) runner_exec \<Rightarrow> int \<Rightarrow> nat \<Rightarrow> ('h, 't, 'm, unit) run_act" where
  "wait_paced env exec target 0 = act_fail (FailPacedRounds target)"
| "wait_paced env exec target (Suc n) =
     act_bind (act_get fst) (\<lambda>e.
       if target \<le> eng_now e then act_return ()
       else
         let next_stop = (case next_event_time e of None \<Rightarrow> target | Some t \<Rightarrow> min t target) in
         act_bind (seconds_to env next_stop) (\<lambda>remaining.
         act_bind (on_transport (re_receive_timed env remaining)) (\<lambda>envelope.
         act_bind (collect_transport_drops env) (\<lambda>_.
           case envelope of
             Some envl \<Rightarrow> act_then (deliver_envelope env envl) (wait_paced env exec target n)
           | None \<Rightarrow>
               act_then (engine_run_until exec next_stop (re_max_settle env))
                 (wait_paced env exec target n)))))"

definition wait_jump ::
  "('h, 't, 'm) runner_env \<Rightarrow> ('h, 't, 'm) runner_exec \<Rightarrow> int \<Rightarrow> ('h, 't, 'm, unit) run_act" where
  "wait_jump env exec target =
     act_bind (engine_run_until exec target (re_max_settle env)) (\<lambda>_.
     act_bind now_of (\<lambda>now.
       if now < target then act_fail (FailWaitExceeded target) else act_return ()))"

definition wait ::
  "('h, 't, 'm) runner_env \<Rightarrow> ('h, 't, 'm) runner_exec \<Rightarrow> int \<Rightarrow> ('h, 't, 'm, unit) run_act" where
  "wait env exec virtual_time =
     (if virtual_time < 0 then act_fail (FailNegativeWait virtual_time)
      else if virtual_time = 0
      then act_bind (run_current_events env exec) (\<lambda>_. emit_configured_telemetry env exec)
      else
        act_bind now_of (\<lambda>now.
        act_bind (if re_clock env \<noteq> None then wait_paced env exec (now + virtual_time) (re_max_settle env)
                  else wait_jump env exec (now + virtual_time)) (\<lambda>_.
          run_current_events env exec)))"

section \<open>Scenario steps\<close>

definition inject_fault ::
  "('h, 't, 'm) runner_env \<Rightarrow> ('h, 't, 'm) runner_exec \<Rightarrow> fault_kind \<Rightarrow> string \<Rightarrow> py_val \<Rightarrow> int option \<Rightarrow> int option
    \<Rightarrow> ('h, 't, 'm, unit) run_act" where
  "inject_fault env exec kind target v duration cycles =
     act_bind (on_engine (schedule_fault (fault_type_value kind) target 0 v duration cycles None)) (\<lambda>_.
     act_bind (run_current_events env exec) (\<lambda>_. emit_configured_telemetry env exec))"

definition send_command ::
  "('h, 't, 'm) runner_env \<Rightarrow> ('h, 't, 'm) runner_exec \<Rightarrow> string \<Rightarrow> string option \<Rightarrow> string option \<Rightarrow> py_val
    \<Rightarrow> ('h, 't, 'm, unit) run_act" where
  "send_command env exec command source target payload =
     act_bind (act_lift (map_sum FailRoute id (resolve_command_route (re_commands env) command source target))) (\<lambda>route.
     act_bind (on_engine (schedule_command (ro_command route) 0 payload (Some (EpName (ro_source_node route)))
                 (Some (EpName (ro_target_node route))) (Some (EmitCommand route)))) (\<lambda>_.
     act_bind (run_current_events env exec) (\<lambda>_. emit_configured_telemetry env exec)))"

definition try_read_signal :: "string \<Rightarrow> ('h, 't, 'm, py_val option) run_act" where
  "try_read_signal signal =
     act_bind (act_lift (map_sum FailRoute id (split_telemetry_signal signal))) (\<lambda>_.
       act_get (\<lambda>st. map_of (rn_latest (snd st)) signal))"

definition never_observed :: "telemetry_assertion \<Rightarrow> int \<Rightarrow> assertion_result" where
  "never_observed a now =
     \<lparr>at_name = ta_name a, at_signal = ta_signal a, at_operator = ta_operator a,
      at_expected = ta_expected a, at_actual = PNone, at_passed = False, at_evaluated_at = now,
      at_detail = DetailNeverObserved (ta_signal a)\<rparr>"

text \<open>One look at the signal: the final result, or none if the assertion may still come true.\<close>

definition assert_look :: "telemetry_assertion \<Rightarrow> int \<Rightarrow> ('h, 't, 'm, assertion_result option) run_act" where
  "assert_look a deadline =
     act_bind (try_read_signal (ta_signal a)) (\<lambda>observed.
     act_bind now_of (\<lambda>now.
       case observed of
         Some actual \<Rightarrow>
           act_bind (act_lift (map_sum FailAssertion id (evaluate_assertion a actual now))) (\<lambda>res.
             act_return (if at_passed res \<or> deadline \<le> now then Some res else None))
       | None \<Rightarrow> act_return (if deadline \<le> now then Some (never_observed a now) else None)))"

partial_function (option) assert_loop ::
  "('h, 't, 'm) runner_env \<Rightarrow> ('h, 't, 'm) runner_exec \<Rightarrow> telemetry_assertion \<Rightarrow> int \<Rightarrow> ('h, 't, 'm) run_state
    \<Rightarrow> ((run_fail + assertion_result) \<times> ('h, 't, 'm) run_state) option" where
  "assert_loop env exec a deadline st =
     (case assert_look a deadline st of
        (Inl e, st1) \<Rightarrow> Some (Inl e, st1)
      | (Inr (Some res), st1) \<Rightarrow> Some (Inr res, st1)
      | (Inr None, st1) \<Rightarrow>
          let e = fst st1;
              next_stop = (case next_event_time e of None \<Rightarrow> deadline | Some t \<Rightarrow> min t deadline)
          in (case wait env exec (next_stop - eng_now e) st1 of
                (Inl err, st2) \<Rightarrow> Some (Inl err, st2)
              | (Inr _, st2) \<Rightarrow> assert_loop env exec a deadline st2))"

definition format_assertion_result :: "(assertion_detail \<Rightarrow> string) \<Rightarrow> assertion_result \<Rightarrow> string" where
  "format_assertion_result render r =
     (if at_passed r then ''PASS'' else ''FAIL'') @ '' t='' @ int_str (at_evaluated_at r) @ '' '' @ at_name r @
     '': '' @ render (at_detail r)"

definition finish_assertion ::
  "('h, 't, 'm) runner_env \<Rightarrow> ('h, 't, 'm) runner_exec \<Rightarrow> assertion_result \<Rightarrow> ('h, 't, 'm, unit) run_act" where
  "finish_assertion env exec res =
     act_bind (on_state (\<lambda>rs. rs\<lparr>rn_results := rn_results rs @ [res],
                 rn_output := rn_output rs @ [format_assertion_result (re_render env) res]\<rparr>)) (\<lambda>_.
     act_bind (on_engine (schedule_assertion (at_name res) 0 (Some (at_passed res))
                 (Some (re_render env (at_detail res))) None)) (\<lambda>_.
       run_current_events env exec))"

definition assertion_name :: "string option \<Rightarrow> nat \<Rightarrow> string" where
  "assertion_name name index = (case name of Some n \<Rightarrow> n | None \<Rightarrow> ''assert_'' @ int_str (int index))"

definition assert_step ::
  "('h, 't, 'm) runner_env \<Rightarrow> ('h, 't, 'm) runner_exec \<Rightarrow> nat \<Rightarrow> string \<Rightarrow> assertion_op \<Rightarrow> py_val \<Rightarrow> int option
    \<Rightarrow> string option \<Rightarrow> ('h, 't, 'm) run_state \<Rightarrow> ((run_fail + assertion_result) \<times> ('h, 't, 'm) run_state) option" where
  "assert_step env exec index signal opr expected timeout name st =
     (case mk_telemetry_assertion (assertion_name name index) signal (assertion_op_value opr) expected timeout of
        Inl e \<Rightarrow> Some (Inl (FailAssertion e), st)
      | Inr a \<Rightarrow>
          (case assert_loop env exec a (eng_now (fst st) + (case ta_timeout a of None \<Rightarrow> 0 | Some t \<Rightarrow> t)) st of
             None \<Rightarrow> None
           | Some (Inl e, st1) \<Rightarrow> Some (Inl e, st1)
           | Some (Inr res, st1) \<Rightarrow>
               Some (case finish_assertion env exec res st1 of
                       (Inl e, st2) \<Rightarrow> (Inl e, st2) | (Inr _, st2) \<Rightarrow> (Inr res, st2))))"

definition run_step ::
  "('h, 't, 'm) runner_env \<Rightarrow> ('h, 't, 'm) runner_exec \<Rightarrow> nat \<Rightarrow> scenario_step \<Rightarrow> ('h, 't, 'm) run_state
    \<Rightarrow> ((run_fail + unit) \<times> ('h, 't, 'm) run_state) option" where
  "run_step env exec index step st =
     (case step of
        WaitStep virtual_time \<Rightarrow> Some (wait env exec virtual_time st)
      | InjectFaultStep kind target v duration cycles \<Rightarrow>
          Some (inject_fault env exec kind target v duration cycles st)
      | SendCommandStep command source target payload \<Rightarrow>
          Some (send_command env exec command source target payload st)
      | AssertStep signal opr v timeout name \<Rightarrow>
          map_option (\<lambda>(r, st1). (map_sum id (\<lambda>_. ()) r, st1))
            (assert_step env exec index signal opr v timeout name st))"

fun run_steps ::
  "('h, 't, 'm) runner_env \<Rightarrow> ('h, 't, 'm) runner_exec \<Rightarrow> nat \<Rightarrow> scenario_step list \<Rightarrow> ('h, 't, 'm) run_state
    \<Rightarrow> ((run_fail + unit) \<times> ('h, 't, 'm) run_state) option" where
  "run_steps env exec index [] st = Some (Inr (), st)"
| "run_steps env exec index (step # steps) st =
     (case run_step env exec index step st of
        None \<Rightarrow> None
      | Some (Inl e, st1) \<Rightarrow> Some (Inl e, st1)
      | Some (Inr _, st1) \<Rightarrow> run_steps env exec (index + 1) steps st1)"

record run_result =
  rr_scenario_name :: string
  rr_started_at :: int
  rr_finished_at :: int
  rr_assertions :: "assertion_result list"
  rr_dropped_packets :: "dropped_packet list"

definition run_passed :: "run_result \<Rightarrow> bool" where
  "run_passed r \<longleftrightarrow> (\<forall>a \<in> set (rr_assertions r). at_passed a)"

definition finish_run ::
  "('h, 't, 'm) runner_env \<Rightarrow> ('h, 't, 'm) runner_exec \<Rightarrow> string \<Rightarrow> int \<Rightarrow> ('h, 't, 'm, run_result) run_act" where
  "finish_run env exec name started_at =
     act_bind (run_current_events env exec) (\<lambda>_.
     act_bind (collect_transport_drops env) (\<lambda>_.
     act_bind expire_partial_packets (\<lambda>_.
       act_get (\<lambda>st. \<lparr>rr_scenario_name = name, rr_started_at = started_at,
         rr_finished_at = eng_now (fst st), rr_assertions = rn_results (snd st),
         rr_dropped_packets = rn_drops (snd st)\<rparr>))))"

definition run_scenario ::
  "('h, 't, 'm) runner_env \<Rightarrow> ('h, 't, 'm) runner_exec \<Rightarrow> scenario_script \<Rightarrow> ('h, 't, 'm) run_state
    \<Rightarrow> ((run_fail + run_result) \<times> ('h, 't, 'm) run_state) option" where
  "run_scenario env exec scenario st =
     (case run_steps env exec 1 (ss_steps scenario) (fst st, (snd st)\<lparr>rn_results := [], rn_drops := []\<rparr>) of
        None \<Rightarrow> None
      | Some (Inl e, st1) \<Rightarrow> Some (Inl e, st1)
      | Some (Inr _, st1) \<Rightarrow> Some (finish_run env exec (ss_name scenario) (eng_now (fst st)) st1))"

end
