(* ===== verification/RunnerSafe.thy ===== *)
theory RunnerSafe
  imports Runner
begin

text \<open>
  What holds of the runner for every set of modules that keep \<open>module_contract\<close>: a module acts at one
  virtual time and leaves the recurring step alone. \<open>leaf\<close> is an action that does not run the engine;
  \<open>safe\<close> is one that, when it returns, has kept an invariant and the virtual time. Neither fails in a way
  that stands for not returning. The recurring step is pending exactly once between steps (\<open>armed\<close>) and
  not at all inside one (\<open>unarmed\<close>), so a step never runs inside a step.
\<close>

section \<open>Actions that do not run the engine\<close>

definition step_times :: "'h runner_handler engine \<Rightarrow> int list" where
  "step_times e = map qe_time (filter (\<lambda>q. qe_handler q = Some PhysicalStep) (eng_queue e))"

definition step_listed :: "'h runner_handler engine \<Rightarrow> bool" where
  "step_listed e \<longleftrightarrow> (\<exists>hs \<in> snd ` set (eng_handlers e). PhysicalStep \<in> set hs)"

definition engine_leaf :: "'h runner_handler engine \<Rightarrow> 'h runner_handler engine \<Rightarrow> bool" where
  "engine_leaf e e' \<longleftrightarrow> (engine_inv e \<longrightarrow>
     engine_inv e' \<and> eng_now e' = eng_now e \<and> step_times e' = step_times e \<and> step_listed e' = step_listed e)"

definition leaf :: "('s \<Rightarrow> 's \<Rightarrow> bool) \<Rightarrow> ('s, run_fail, 'a) act \<Rightarrow> bool" where
  "leaf R m \<longleftrightarrow> (\<forall>s. case m s of (Inl x, _) \<Rightarrow> \<not> fail_diverges x | (Inr _, s1) \<Rightarrow> R s s1)"

definition still :: "('h, 't, 'm) run_state \<Rightarrow> ('h, 't, 'm) run_state \<Rightarrow> bool" where
  "still st st' \<longleftrightarrow> engine_leaf (fst st) (fst st') \<and> rn_results (snd st') = rn_results (snd st)"

abbreviation run_leaf :: "('h, 't, 'm, 'a) run_act \<Rightarrow> bool" where "run_leaf \<equiv> leaf still"

abbreviation world_leaf :: "('h, 't, 'm, 'a) world_act \<Rightarrow> bool" where
  "world_leaf \<equiv> leaf (\<lambda>w w'. engine_leaf (fst w) (fst w'))"

named_theorems leaf_intros \<open>actions that do not run the engine\<close>

lemma fail_diverges_simps [simp]:
  "fail_diverges FailDrainDiverges" "fail_diverges FailNesting"
  "\<not> fail_diverges (FailRoute e1)" "\<not> fail_diverges (FailNoModule s)" "\<not> fail_diverges (FailNotCommandable s)"
  "\<not> fail_diverges (FailNotHandled s t u)" "\<not> fail_diverges (FailUnsettled n)" "\<not> fail_diverges (FailWaitExceeded i)"
  "\<not> fail_diverges (FailPacedRounds i)" "\<not> fail_diverges (FailNegativeWait i)" "\<not> fail_diverges FailNotTelemetry"
  "\<not> fail_diverges FailNotCommand" "\<not> fail_diverges (FailModule e2)" "\<not> fail_diverges (FailPeer e3)"
  "\<not> fail_diverges (FailEngine e4)" "\<not> fail_diverges (FailFault e5)" "\<not> fail_diverges (FailTransport e6)"
  "\<not> fail_diverges (FailCsp e7)" "\<not> fail_diverges (FailCodec e8)" "\<not> fail_diverges (FailClock e9)"
  "\<not> fail_diverges (FailMissingValue s t)" "\<not> fail_diverges (FailAssertion e10)" "\<not> fail_diverges FailNoEnvelope"
  "\<not> fail_diverges (FailOrder e11)" "\<not> fail_diverges FailTransportKind" "\<not> fail_diverges FailMaxSettle"
  by (simp_all add: fail_diverges_def)

lemma engine_leaf_refl [simp]: "engine_leaf e e"
  by (simp add: engine_leaf_def)

lemma still_refl [simp]: "still st st"
  by (simp add: still_def)

lemma still_trans: "still a b \<Longrightarrow> still b c \<Longrightarrow> still a c"
  by (auto simp: still_def engine_leaf_def)

lemma leaf_bind:
  assumes "transp R" "leaf R m" "\<And>x. leaf R (f x)"
  shows "leaf R (act_bind m f)"
  unfolding leaf_def
proof
  fix s
  obtain r s1 where m: "m s = (r, s1)" by (cases "m s")
  show "case act_bind m f s of (Inl x, _) \<Rightarrow> \<not> fail_diverges x | (Inr _, s2) \<Rightarrow> R s s2"
  proof (cases r)
    case (Inl x)
    then show ?thesis using m assms(2) by (auto simp: act_bind_def leaf_def dest: spec[of _ s])
  next
    case (Inr x)
    obtain r2 s2 where f: "f x s1 = (r2, s2)" by (cases "f x s1")
    have "R s s1" using m Inr assms(2) by (auto simp: leaf_def dest: spec[of _ s])
    moreover have "case r2 of Inl x \<Rightarrow> \<not> fail_diverges x | Inr _ \<Rightarrow> R s1 s2"
      using f assms(3)[of x] by (auto simp: leaf_def dest: spec[of _ s1] split: sum.splits)
    ultimately show ?thesis
      using m Inr f assms(1) by (auto simp: act_bind_def split: sum.splits dest: transpD)
  qed
qed

lemma transp_still: "transp still"
  by (auto intro: transpI still_trans)

lemma run_leaf_bind [leaf_intros]:
  "run_leaf m \<Longrightarrow> (\<And>x. run_leaf (f x)) \<Longrightarrow> run_leaf (act_bind m f)"
  by (rule leaf_bind[OF transp_still])

lemma run_leaf_simple [leaf_intros]:
  "run_leaf (act_return x)" "\<not> fail_diverges e \<Longrightarrow> run_leaf (act_fail e)" "run_leaf (act_get g)"
  by (simp_all add: leaf_def act_defs)

lemma run_leaf_lift [leaf_intros]:
  "(\<And>e. \<not> fail_diverges (f e)) \<Longrightarrow> run_leaf (act_lift (map_sum f g r))"
  by (cases r) (simp_all add: leaf_def act_defs)

lemma run_leaf_lift_Inr [leaf_intros]: "run_leaf (act_lift (Inr x))"
  by (simp add: leaf_def act_defs)

lemma run_leaf_if [leaf_intros]: "(b \<Longrightarrow> run_leaf m) \<Longrightarrow> (\<not> b \<Longrightarrow> run_leaf n) \<Longrightarrow> run_leaf (if b then m else n)"
  by simp

lemma run_leaf_each [leaf_intros]: "(\<And>x. run_leaf (f x)) \<Longrightarrow> run_leaf (act_each f xs)"
  by (induction xs) (auto intro!: leaf_intros)

lemma run_leaf_on_state [leaf_intros]:
  "(\<And>rs. rn_results (f rs) = rn_results rs) \<Longrightarrow> run_leaf (on_state f)"
  by (simp add: leaf_def on_state_def act_defs still_def)

lemma run_leaf_on_transport [leaf_intros]: "run_leaf (on_transport f)"
  by (simp add: leaf_def on_transport_def act_defs still_def split: prod.splits)

lemma run_leaf_on_world [leaf_intros]: "world_leaf m \<Longrightarrow> run_leaf (on_world m)"
  unfolding leaf_def on_world_def act_on_def still_def world_of_def put_world_def
  by (fastforce split: prod.splits sum.splits)

lemma step_times_schedule:
  assumes "h \<noteq> Some PhysicalStep"
  shows "step_times (snd (schedule_payload delay k payload h e)) = step_times e"
    "step_listed (snd (schedule_payload delay k payload h e)) = step_listed e"
proof -
  have "step_times (snd (schedule_at t (Kind k) p h e)) = step_times e" for t p
    using assms by (auto simp: schedule_at_def step_times_def filter_insort_triv coerce_event_kind_def Let_def split: sum.splits)
  then show "step_times (snd (schedule_payload delay k payload h e)) = step_times e"
    by (cases payload) (auto simp: schedule_payload_def schedule_after_def split: sum.splits)
  have "eng_handlers (snd (schedule_at t (Kind k) p h e)) = eng_handlers e" for t p
    by (auto simp: schedule_at_def coerce_event_kind_def Let_def split: sum.splits)
  then have "eng_handlers (snd (schedule_payload delay k payload h e)) = eng_handlers e"
    by (cases payload) (auto simp: schedule_payload_def schedule_after_def split: sum.splits)
  then show "step_listed (snd (schedule_payload delay k payload h e)) = step_listed e"
    by (simp add: step_listed_def)
qed

lemma schedule_payload_keeps:
  "0 \<le> delay \<Longrightarrow> engine_inv e \<Longrightarrow>
     engine_inv (snd (schedule_payload delay k payload h e)) \<and>
     eng_now (snd (schedule_payload delay k payload h e)) = eng_now e"
  using engine_apis_extend[OF schedule_payload_api[of 0 delay e k payload h]] by (auto simp: engine_extends_def)

lemma run_leaf_on_engine: "(\<And>e. engine_leaf e (snd (f e))) \<Longrightarrow> run_leaf (on_engine f)"
  unfolding leaf_def on_engine_def act_on_def act_err_def still_def
  by (auto simp: case_prod_unfold map_sum_def split: sum.splits)

lemma run_leaf_schedule [leaf_intros]:
  assumes "h \<noteq> Some PhysicalStep" "0 \<le> delay"
  shows "run_leaf (on_engine (schedule_payload delay k payload h))"
  by (intro run_leaf_on_engine)
    (simp add: engine_leaf_def step_times_schedule[OF assms(1)] schedule_payload_keeps[OF assms(2)])

lemmas schedule_defs = schedule_timer_def schedule_telemetry_def schedule_command_def schedule_fault_def
  schedule_assertion_def

section \<open>Packets\<close>

lemma leaf_sender_for [leaf_intros]: "run_leaf (sender_for env source)"
  unfolding sender_for_def by (intro leaf_intros) (auto intro!: leaf_intros split: option.splits)

lemma leaf_send_packet [leaf_intros]: "run_leaf (send_packet env f payload)"
  unfolding send_packet_def
  by (intro leaf_intros) (auto intro!: leaf_intros split: prod.splits sum.splits)

lemma leaf_send_route [leaf_intros]: "run_leaf (send_route env route payload)"
  unfolding send_route_def by (auto intro!: leaf_intros)

lemma leaf_send_telemetry_route [leaf_intros]: "run_leaf (send_telemetry_route env route v)"
  unfolding send_telemetry_route_def by (auto intro!: leaf_intros)

lemma leaf_append_drop [leaf_intros]: "run_leaf (append_drop d)"
  unfolding append_drop_def by (auto intro!: leaf_intros)

lemma leaf_record_drop [leaf_intros]: "run_leaf (record_drop ev destination)"
  unfolding record_drop_def by (auto intro!: leaf_intros split: reassembly_event.splits)

lemma leaf_collect_drops [leaf_intros]: "run_leaf (collect_transport_drops env)"
  unfolding collect_transport_drops_def by (auto intro!: leaf_intros)

lemma leaf_pop_semantic [leaf_intros]: "run_leaf (pop_semantic n)"
  unfolding pop_semantic_def by (auto intro!: leaf_intros)

lemma leaf_reassembler_for [leaf_intros]: "run_leaf (reassembler_for env key)"
  unfolding reassembler_for_def by (intro leaf_intros) (auto intro!: leaf_intros split: option.splits)

lemma leaf_deliver_telemetry [leaf_intros]: "run_leaf (deliver_telemetry route payload)"
  unfolding deliver_telemetry_def schedule_defs by (auto intro!: leaf_intros)

lemma leaf_record_telemetry [leaf_intros]: "run_leaf (record_telemetry ev)"
  unfolding record_telemetry_def by (auto intro!: leaf_intros split: event_payload.splits)

lemma leaf_advance_cycles [leaf_intros]: "run_leaf (advance_fault_cycles n)"
  unfolding leaf_def advance_fault_cycles_def still_def
  by (auto simp: Let_def map_sum_def split: prod.splits sum.splits)

lemma leaf_fault_handler [leaf_intros]: "run_leaf (fault_engine_handler ev)"
  unfolding leaf_def fault_engine_handler_def still_def by (auto split: sum.splits prod.splits)

lemma leaf_emit_command [leaf_intros]: "run_leaf (emit_command_handler env route ev)"
  unfolding emit_command_handler_def by (auto intro!: leaf_intros split: event_payload.splits)

lemma run_leaf_from:
  assumes "run_leaf m" "still st st1"
  shows "case m st1 of (Inl x, _) \<Rightarrow> \<not> fail_diverges x | (Inr _, st2) \<Rightarrow> still st st2"
proof -
  have "case m st1 of (Inl x, _) \<Rightarrow> \<not> fail_diverges x | (Inr _, st2) \<Rightarrow> still st1 st2"
    using assms(1) unfolding leaf_def by (rule spec)
  then show ?thesis using still_trans[OF assms(2)] by (auto split: prod.splits sum.splits)
qed

lemma leaf_expire [leaf_intros]: "run_leaf expire_partial_packets"
  unfolding leaf_def expire_partial_packets_def Let_def
  by (intro allI run_leaf_from) (auto intro!: leaf_intros simp: still_def)

lemma leaf_seconds_to [leaf_intros]: "run_leaf (seconds_to env target)"
  unfolding seconds_to_def by (auto intro!: leaf_intros split: option.splits)

section \<open>The contract of the modules and the transport\<close>

text \<open>
  The operations of a module act at one virtual time and leave the recurring step alone; the receive
  stream of the transport comes to an end.
\<close>

locale module_contract =
  fixes env :: "('h, 't, 'm) runner_env"
  assumes tick_leaf: "re_tick env name = Some tick \<Longrightarrow> world_leaf (tick n)"
    and report_leaf: "re_report env name = Some report \<Longrightarrow> world_leaf (report now)"
    and command_leaf: "re_command env name = Some handle_command \<Longrightarrow> world_leaf (handle_command c)"
    and handle_leaf: "world_leaf (re_handle env h ev)"
    and drains: "\<exists>out. drain (re_receive env) t = Some out"
    and settle_pos: "0 < re_max_settle env"
begin

lemma leaf_deliver_command [leaf_intros]: "run_leaf (deliver_command env route payload envelope)"
  unfolding deliver_command_def by (auto intro!: leaf_intros dest: command_leaf split: option.splits)

lemma leaf_route_packet [leaf_intros]: "run_leaf (route_packet env f payload envelope)"
  unfolding route_packet_def by (intro leaf_intros) (auto intro!: leaf_intros split: packet_destination.splits)

lemma leaf_deliver_whole [leaf_intros]: "run_leaf (deliver_whole_packet env packet envelope)"
  unfolding deliver_whole_packet_def Let_def by (auto intro!: leaf_intros)

lemma leaf_reassembly_event [leaf_intros]: "run_leaf (handle_reassembly_event env destination envelope ev)"
  unfolding handle_reassembly_event_def by (auto intro!: leaf_intros split: reassembly_event.splits)

lemma leaf_deliver_can [leaf_intros]: "run_leaf (deliver_can_frame env frame envelope)"
  unfolding deliver_can_frame_def Let_def by (auto intro!: leaf_intros)

lemma leaf_deliver_envelope [leaf_intros]: "run_leaf (deliver_envelope env envelope)"
  unfolding deliver_envelope_def by (auto intro!: leaf_intros split: frame.splits)

lemma leaf_drain [leaf_intros]: "run_leaf (drain_transport_frames env)"
  unfolding leaf_def
proof
  fix st :: "('h, 't, 'm) run_state"
  obtain envs t where d: "drain (re_receive env) (rn_transport (snd st)) = Some (envs, t)" using drains by fastforce
  show "case drain_transport_frames env st of (Inl x, _) \<Rightarrow> \<not> fail_diverges x | (Inr _, st1) \<Rightarrow> still st st1"
    unfolding drain_transport_frames_def d option.case prod.case
    by (rule run_leaf_from) (auto intro!: leaf_intros simp: still_def)
qed

lemma leaf_emit_field [leaf_intros]: "run_leaf (emit_field env node_name vals field_name)"
  unfolding emit_field_def by (auto intro!: leaf_intros split: option.splits)

lemma leaf_emit_node [leaf_intros]: "run_leaf (emit_node env node_name)"
  unfolding emit_node_def by (auto intro!: leaf_intros dest: report_leaf split: option.splits)

lemma leaf_tick_module [leaf_intros]: "run_leaf (tick_module env ticks node_name)"
  unfolding tick_module_def by (auto intro!: leaf_intros dest: tick_leaf split: option.splits)

lemma leaf_exec_handler: "h \<noteq> PhysicalStep \<Longrightarrow> run_leaf (exec_handler env step h ev)"
  by (cases h) (auto intro!: leaf_intros handle_leaf simp: exec_handler_def)

end

section \<open>Actions that run the engine\<close>

definition safe :: "(('h, 't, 'm) run_state \<Rightarrow> bool) \<Rightarrow> ('h, 't, 'm, 'a) run_act \<Rightarrow> bool" where
  "safe I m \<longleftrightarrow> (\<forall>st. I st \<longrightarrow> (case m st of
     (Inl x, _) \<Rightarrow> \<not> fail_diverges x | (Inr _, st1) \<Rightarrow> I st1 \<and> eng_now (fst st1) = eng_now (fst st)))"

definition stable :: "(('h, 't, 'm) run_state \<Rightarrow> bool) \<Rightarrow> bool" where
  "stable I \<longleftrightarrow> (\<forall>st. I st \<longrightarrow> engine_inv (fst st)) \<and> (\<forall>st st1. I st \<and> still st st1 \<longrightarrow> I st1)"

named_theorems safe_intros \<open>actions that keep an invariant and the virtual time\<close>

lemma safeD:
  "safe I m \<Longrightarrow> I st \<Longrightarrow> m st = (Inr x, st1) \<Longrightarrow> I st1 \<and> eng_now (fst st1) = eng_now (fst st)"
  "safe I m \<Longrightarrow> I st \<Longrightarrow> m st = (Inl y, st1) \<Longrightarrow> \<not> fail_diverges y"
proof -
  assume s: "safe I m" "I st"
  have "case m st of (Inl x, _) \<Rightarrow> \<not> fail_diverges x | (Inr _, st1) \<Rightarrow> I st1 \<and> eng_now (fst st1) = eng_now (fst st)"
    using s(1)[unfolded safe_def, THEN spec, THEN mp, OF s(2)] .
  then show "m st = (Inr x, st1) \<Longrightarrow> I st1 \<and> eng_now (fst st1) = eng_now (fst st)"
    "m st = (Inl y, st1) \<Longrightarrow> \<not> fail_diverges y" by simp_all
qed

lemma leaf_safe:
  assumes "stable I" "run_leaf m"
  shows "safe I m"
  unfolding safe_def
proof (intro allI impI)
  fix st assume I: "I st"
  obtain r st1 where m: "m st = (r, st1)" by (cases "m st")
  have "case m st of (Inl x, _) \<Rightarrow> \<not> fail_diverges x | (Inr _, st1) \<Rightarrow> still st st1"
    using assms(2) unfolding leaf_def by (rule spec)
  moreover have "I st1 \<and> eng_now (fst st1) = eng_now (fst st)" if "still st st1"
    using that I assms(1) unfolding stable_def still_def engine_leaf_def by blast
  ultimately show "case m st of (Inl x, _) \<Rightarrow> \<not> fail_diverges x
      | (Inr _, st1) \<Rightarrow> I st1 \<and> eng_now (fst st1) = eng_now (fst st)"
    using m by (cases r) simp_all
qed

lemma safe_bind [safe_intros]:
  assumes "safe I m" "\<And>x. safe I (f x)"
  shows "safe I (act_bind m f)"
  unfolding safe_def
proof (intro allI impI)
  fix st assume I: "I st"
  obtain r st1 where m: "m st = (r, st1)" by (cases "m st")
  show "case act_bind m f st of (Inl x, _) \<Rightarrow> \<not> fail_diverges x
      | (Inr _, st2) \<Rightarrow> I st2 \<and> eng_now (fst st2) = eng_now (fst st)"
  proof (cases r)
    case (Inl x)
    then show ?thesis using m safeD(2)[OF assms(1) I] by (simp add: act_bind_def)
  next
    case (Inr x)
    obtain r2 st2 where f: "f x st1 = (r2, st2)" by (cases "f x st1")
    have st1: "I st1" "eng_now (fst st1) = eng_now (fst st)" using safeD(1)[OF assms(1) I] m Inr by auto
    show ?thesis
      using m Inr f st1 safeD[OF assms(2) st1(1)] by (cases r2) (auto simp: act_bind_def)
  qed
qed

lemma safe_each [safe_intros]: "(\<And>x. safe I (f x)) \<Longrightarrow> safe I (act_each f xs)"
proof (induction xs)
  case Nil
  then show ?case by (simp add: safe_def act_defs)
qed (simp add: safe_intros)

lemma safe_simple [safe_intros]:
  "safe I (act_return x)" "\<not> fail_diverges e \<Longrightarrow> safe I (act_fail e)" "safe I (act_get g)"
  by (simp_all add: safe_def act_defs)

lemma drops_keep_engine:
  "collect_transport_drops env st = (Inr u, st1) \<Longrightarrow>
     fst st1 = fst st \<and> rn_transport (snd st1) = snd (re_take_drops env (rn_transport (snd st)))"
proof -
  have each: "act_each (\<lambda>d. append_drop (f d)) ds (st :: ('a, 'b, 'c) run_state) = (Inr u, st1) \<Longrightarrow>
      fst st1 = fst st \<and> rn_transport (snd st1) = rn_transport (snd st)"
    for f :: "'x \<Rightarrow> dropped_packet" and ds st st1 u
    by (induction ds arbitrary: st) (auto simp: act_bind_Inr act_run append_drop_def on_state_def split: prod.splits)
  assume "collect_transport_drops env st = (Inr u, st1)"
  then show ?thesis
    by (auto simp: collect_transport_drops_def act_bind_Inr on_transport_def act_on_def act_run
        split: prod.splits dest!: each)
qed

text \<open>Settled: nothing is due at the present time, and the last drain found the receive stream empty.\<close>

definition settled :: "('h, 't, 'm) runner_env \<Rightarrow> ('h, 't, 'm) run_state \<Rightarrow> bool" where
  "settled env st \<longleftrightarrow> \<not> due (Some (eng_now (fst st))) (fst st) \<and>
     (\<exists>t t1. drain (re_receive env) t = Some ([], t1) \<and> rn_transport (snd st) = snd (re_take_drops env t1))"

locale runner_level = module_contract env + nested_handlers exec I "\<lambda>x. \<not> fail_diverges x"
  for env :: "('h, 't, 'm) runner_env" and exec :: "('h, 't, 'm) runner_exec"
    and I :: "('h, 't, 'm) run_state \<Rightarrow> bool" +
  assumes stable: "stable I"
begin

lemmas level_leaf = leaf_safe[OF stable]

lemma engine_run_until_level:
  assumes "I st" "eng_now (fst st) \<le> time" "engine_run_until exec time n st = (r, st1)"
  shows "case r of Inl x \<Rightarrow> \<not> fail_diverges x
     | Inr evs \<Rightarrow> I st1 \<and> eng_now (fst st) \<le> eng_now (fst st1) \<and> eng_now (fst st1) \<le> time \<and>
         (length evs < n \<longrightarrow> eng_now (fst st1) = time \<and> \<not> due (Some time) (fst st1))"
proof -
  obtain e s where st: "st = (e, s)" by (cases st)
  obtain r' e1 s1 where run: "run_until exec time (Some (int n)) (e, s) = Some (r', (e1, s1))"
      "case r' of Inl (HandlerRaised x) \<Rightarrow> \<not> fail_diverges x | Inl (EngineFailed _) \<Rightarrow> False
       | Inr evs \<Rightarrow> I (e1, s1) \<and> eng_now e \<le> eng_now e1 \<and> eng_now e1 \<le> time \<and>
          (int (length evs) < int n \<longrightarrow> eng_now e1 = time \<and> \<not> due (Some time) e1)"
    using run_until_nested[of e s time "int n"] assms(1,2) st by (metis fst_conv of_nat_0_le_iff)
  then show ?thesis
    using assms(3) st by (auto simp: engine_run_until_def split: sum.splits run_error.splits)
qed

lemma safe_engine_run:
  "safe I (act_bind now_of (\<lambda>now. engine_run_until exec now n))"
  unfolding safe_def act_bind_def act_get_def
proof (intro allI impI)
  fix st assume I: "I st"
  obtain r st1 where run: "engine_run_until exec (eng_now (fst st)) n st = (r, st1)" by (metis surj_pair)
  show "case case (Inr (eng_now (fst st)), st) of (Inl e, s1) \<Rightarrow> (Inl e, s1)
      | (Inr now, s) \<Rightarrow> engine_run_until exec now n s of (Inl x, _) \<Rightarrow> \<not> fail_diverges x
      | (Inr _, st1) \<Rightarrow> I st1 \<and> eng_now (fst st1) = eng_now (fst st)"
    using engine_run_until_level[OF I _ run] run by (auto split: sum.splits)
qed

lemma safe_settle_rounds: "safe I (settle_rounds env exec n)"
proof (induction n)
  case 0
  then show ?case by (simp add: safe_intros)
next
  case (Suc n)
  have "settle_rounds env exec (Suc n) =
      act_bind (act_bind now_of (\<lambda>now. engine_run_until exec now (re_max_settle env))) (\<lambda>dispatched.
      act_bind (drain_transport_frames env) (\<lambda>drained_any.
        if dispatched = [] \<and> \<not> drained_any then act_return () else settle_rounds env exec n))"
    by (rule ext) (simp add: act_bind_def act_get_def)
  moreover have "safe I (if dispatched = [] \<and> \<not> drained_any then act_return () else settle_rounds env exec n)"
    for dispatched :: "simulation_event list" and drained_any
    using Suc by (simp add: safe_intros)
  ultimately show ?case by (simp only:) (intro safe_bind safe_engine_run level_leaf[OF leaf_drain])
qed

lemma safe_run_current_events [safe_intros]: "safe I (run_current_events env exec)"
  by (simp add: run_current_events_def safe_settle_rounds)

lemma drained_nothing:
  assumes "drain_transport_frames env st = (Inr False, st1)"
  shows "fst st1 = fst st \<and> (\<exists>t t1. drain (re_receive env) t = Some ([], t1) \<and>
     rn_transport (snd st1) = snd (re_take_drops env t1))"
proof -
  obtain t1 where d: "drain (re_receive env) (rn_transport (snd st)) = Some ([], t1)"
    and c: "collect_transport_drops env (fst st, (snd st)\<lparr>rn_transport := t1\<rparr>) = (Inr (), st1)"
    using assms by (auto simp: drain_transport_frames_def act_bind_Inr act_run split: option.splits prod.splits)
  from drops_keep_engine[OF c] d show ?thesis by auto
qed

lemma settle_settled:
  "I st \<Longrightarrow> settle_rounds env exec n st = (Inr u, st1) \<Longrightarrow> settled env st1"
proof (induction n arbitrary: st)
  case 0
  then show ?case by (simp add: act_run)
next
  case (Suc n)
  obtain evs st2 any st3 where run: "engine_run_until exec (eng_now (fst st)) (re_max_settle env) st = (Inr evs, st2)"
      and dr: "drain_transport_frames env st2 = (Inr any, st3)"
      and rest: "(if evs = [] \<and> \<not> any then act_return () else settle_rounds env exec n) st3 = (Inr u, st1)"
    using Suc.prems(2) by (auto simp: act_bind_Inr act_run)
  have st2: "I st2" "length evs < re_max_settle env \<longrightarrow>
      eng_now (fst st2) = eng_now (fst st) \<and> \<not> due (Some (eng_now (fst st))) (fst st2)"
    using engine_run_until_level[OF Suc.prems(1) _ run] by auto
  have st3: "I st3" using safeD(1)[OF level_leaf[OF leaf_drain] st2(1) dr] by simp
  show ?case
  proof (cases "evs = [] \<and> \<not> any")
    case True
    then have "st1 = st3" "drain_transport_frames env st2 = (Inr False, st3)" using rest dr by (simp_all add: act_run)
    then show ?thesis
      using drained_nothing[of st2 st3] st2(2) settle_pos True unfolding settled_def by simp
  next
    case False
    then have "settle_rounds env exec n st3 = (Inr u, st1)" using rest by (simp only: if_False)
    then show ?thesis by (rule Suc.IH[OF st3])
  qed
qed

lemma run_current_settled:
  "I st \<Longrightarrow> run_current_events env exec st = (Inr u, st1) \<Longrightarrow> settled env st1"
  unfolding run_current_events_def by (rule settle_settled)

lemma safe_emit_configured [safe_intros]: "safe I (emit_configured_telemetry env exec)"
  unfolding emit_configured_telemetry_def by (intro safe_intros level_leaf leaf_emit_node)

lemma emit_configured_settled:
  assumes "I st" "emit_configured_telemetry env exec st = (Inr u, st1)"
  shows "settled env st1"
proof -
  obtain st2 where st2: "act_each (emit_node env) (re_telemetry_order env) st = (Inr (), st2)"
      "run_current_events env exec st2 = (Inr u, st1)"
    using assms(2) by (auto simp: emit_configured_telemetry_def act_bind_Inr)
  have "safe I (act_each (emit_node env) (re_telemetry_order env))"
    by (intro safe_intros level_leaf leaf_emit_node)
  from safeD(1)[OF this assms(1) st2(1)] run_current_settled st2(2) show ?thesis by blast
qed

section \<open>Waiting\<close>

text \<open>\<open>reaches I m t\<close>: when \<open>m\<close> returns, the clock reads \<open>t\<close>.\<close>

definition reaches :: "int \<Rightarrow> ('h, 't, 'm, unit) run_act \<Rightarrow> ('h, 't, 'm) run_state \<Rightarrow> bool" where
  "reaches target m st \<longleftrightarrow> (case m st of
     (Inl x, _) \<Rightarrow> \<not> fail_diverges x | (Inr _, st1) \<Rightarrow> I st1 \<and> eng_now (fst st1) = target)"

lemma wait_jump_reaches:
  assumes "I st" "eng_now (fst st) \<le> target"
  shows "reaches target (wait_jump env exec target) st"
proof -
  obtain r st1 where run: "engine_run_until exec target (re_max_settle env) st = (r, st1)" by (metis surj_pair)
  show ?thesis
    using engine_run_until_level[OF assms run] run
    by (cases r) (auto simp: reaches_def wait_jump_def act_bind_def act_get_def act_defs)
qed

lemma next_stop_ok:
  assumes "engine_inv e" "eng_now e < target"
  shows "eng_now e \<le> (case next_event_time e of None \<Rightarrow> target | Some t \<Rightarrow> min t target)"
    and "(case next_event_time e of None \<Rightarrow> target | Some t \<Rightarrow> min t target) \<le> target"
  using assms by (auto simp: next_event_time_def engine_inv_def split: list.splits)

lemma reaches_leaf:
  assumes "run_leaf m" "I st \<and> eng_now (fst st) = now"
    and "\<And>x st1. I st1 \<and> eng_now (fst st1) = now \<Longrightarrow> reaches target (f x) st1"
  shows "reaches target (act_bind m f) st"
proof -
  obtain r st1 where m: "m st = (r, st1)" by (cases "m st")
  note k = safeD[OF level_leaf[OF assms(1)] conjunct1[OF assms(2)]]
  show ?thesis
  proof (cases r)
    case (Inl x)
    then show ?thesis using k(2) m by (simp add: reaches_def act_bind_def)
  next
    case (Inr x)
    then have "reaches target (f x) st1" using k(1)[of x st1] m assms(2) by (intro assms(3)) simp
    then show ?thesis using m Inr by (simp add: reaches_def act_bind_def)
  qed
qed

lemma wait_paced_reaches:
  "I st \<Longrightarrow> eng_now (fst st) \<le> target \<Longrightarrow> reaches target (wait_paced env exec target n) st"
proof (induction n arbitrary: st)
  case 0
  then show ?case by (simp add: reaches_def act_run)
next
  case (Suc n)
  let ?stop = "case next_event_time (fst st) of None \<Rightarrow> target | Some t \<Rightarrow> min t target"
  show ?case
  proof (cases "target \<le> eng_now (fst st)")
    case True
    then show ?thesis using Suc.prems by (simp add: reaches_def act_bind_def act_get_def act_return_def)
  next
    case False
    have inv: "engine_inv (fst st)" using Suc.prems(1) stable unfolding stable_def by blast
    have go: "reaches target (act_then (deliver_envelope env envl) (wait_paced env exec target n)) st1"
      if "I st1 \<and> eng_now (fst st1) = eng_now (fst st)" for envl st1
      using Suc.prems(2) by (intro reaches_leaf[OF leaf_deliver_envelope that] Suc.IH) auto
    have stop: "reaches target (act_then (engine_run_until exec ?stop (re_max_settle env))
        (wait_paced env exec target n)) st1"
      if "I st1 \<and> eng_now (fst st1) = eng_now (fst st)" for st1
    proof -
      obtain r st2 where run: "engine_run_until exec ?stop (re_max_settle env) st1 = (r, st2)" by (metis surj_pair)
      note c = engine_run_until_level[OF conjunct1[OF that] _ run]
      have "case r of Inl x \<Rightarrow> \<not> fail_diverges x | Inr _ \<Rightarrow> I st2 \<and> eng_now (fst st2) \<le> target"
        using c next_stop_ok[OF inv, of target] that False by (cases r) auto
      then show ?thesis using run Suc.IH[of st2] by (cases r) (auto simp: reaches_def act_bind_def)
    qed
    have round: "reaches target (act_bind (seconds_to env ?stop) (\<lambda>remaining.
         act_bind (on_transport (re_receive_timed env remaining)) (\<lambda>envelope.
         act_bind (collect_transport_drops env) (\<lambda>_.
           case envelope of
             Some envl \<Rightarrow> act_then (deliver_envelope env envl) (wait_paced env exec target n)
           | None \<Rightarrow> act_then (engine_run_until exec ?stop (re_max_settle env)) (wait_paced env exec target n))))) st"
      using Suc.prems(1) go stop
      by (intro reaches_leaf[where now = "eng_now (fst st)"] leaf_intros) (auto split: option.split)
    have "wait_paced env exec target (Suc n) st = act_bind (seconds_to env ?stop) (\<lambda>remaining.
         act_bind (on_transport (re_receive_timed env remaining)) (\<lambda>envelope.
         act_bind (collect_transport_drops env) (\<lambda>_.
           case envelope of
             Some envl \<Rightarrow> act_then (deliver_envelope env envl) (wait_paced env exec target n)
           | None \<Rightarrow> act_then (engine_run_until exec ?stop (re_max_settle env)) (wait_paced env exec target n)))) st"
      using False by (simp add: act_bind_def[of "act_get fst"] act_get_def Let_def)
    then show ?thesis using round by (simp add: reaches_def)
  qed
qed

lemma wait_level:
  assumes "I st" "wait env exec d st = (r, st1)"
  shows "case r of Inl x \<Rightarrow> \<not> fail_diverges x
     | Inr _ \<Rightarrow> 0 \<le> d \<and> I st1 \<and> eng_now (fst st1) = eng_now (fst st) + d \<and> settled env st1"
proof -
  consider (neg) "d < 0" | (zero) "d = 0" | (pos) "0 < d" by linarith
  then show ?thesis
  proof cases
    case neg
    then show ?thesis using assms(2) by (auto simp: wait_def act_run)
  next
    case zero
    have safe: "safe I (act_then (run_current_events env exec) (emit_configured_telemetry env exec))"
      by (intro safe_intros)
    have run: "act_then (run_current_events env exec) (emit_configured_telemetry env exec) st = (r, st1)"
      using assms(2) zero by (simp add: wait_def)
    show ?thesis
    proof (cases r)
      case (Inr u)
      then obtain st2 where st2: "run_current_events env exec st = (Inr (), st2)"
          "emit_configured_telemetry env exec st2 = (Inr u, st1)"
        using run by (auto simp: act_bind_Inr)
      have "I st2" using safeD(1)[OF safe_run_current_events assms(1) st2(1)] by simp
      from emit_configured_settled[OF this st2(2)] safeD(1)[OF safe assms(1), of u st1] run Inr zero
      show ?thesis by simp
    qed (use safeD(2)[OF safe assms(1)] run in auto)
  next
    case pos
    let ?target = "eng_now (fst st) + d"
    define m where "m = (if re_clock env \<noteq> None then wait_paced env exec ?target (re_max_settle env)
      else wait_jump env exec ?target)"
    have reach: "reaches ?target m st"
      using wait_paced_reaches[OF assms(1)] wait_jump_reaches[OF assms(1)] pos by (simp add: m_def)
    have run: "act_then m (run_current_events env exec) st = (r, st1)"
      using assms(2) pos by (simp add: wait_def m_def act_bind_def[of now_of] act_get_def)
    obtain r2 st2 where m: "m st = (r2, st2)" by (cases "m st")
    show ?thesis
    proof (cases r2)
      case (Inl x)
      then show ?thesis using reach run m by (auto simp: reaches_def act_bind_def)
    next
      case (Inr u)
      then have st2: "I st2" "eng_now (fst st2) = ?target" and rc: "run_current_events env exec st2 = (r, st1)"
        using reach run m by (auto simp: reaches_def act_bind_def)
      show ?thesis
        using safeD[OF safe_run_current_events st2(1)] rc st2 run_current_settled[OF st2(1)] pos
        by (cases r) auto
    qed
  qed
qed

section \<open>The recurring step\<close>

lemma physical_step_level:
  assumes "I st" "physical_step env exec st = (r, st1)"
  shows "case r of Inl x \<Rightarrow> \<not> fail_diverges x
     | Inr _ \<Rightarrow> \<exists>st2 ev. I st2 \<and> eng_now (fst st2) = eng_now (fst st) \<and> snd st1 = snd st2 \<and>
         schedule_timer PHYSICAL_STEP_US None (Some PhysicalStep) (fst st2) = (Inr ev, fst st1)"
proof -
  define body where "body = act_then (run_current_events env exec) (act_then (advance_fault_cycles 1)
     (act_then (act_each (tick_module env 1) (re_tick_order env)) (emit_configured_telemetry env exec)))"
  define arm :: "('h, 't, 'm, unit) run_act" where
    "arm = act_then (on_engine (schedule_timer PHYSICAL_STEP_US None (Some PhysicalStep))) (act_return ())"
  have assoc: "act_then (act_then a b) c = act_then a (act_then b c)" for a b c :: "('h, 't, 'm, unit) run_act"
    by (rule ext) (auto simp: act_bind_def split: prod.splits sum.splits)
  have "physical_step env exec = act_then body arm"
    by (simp add: physical_step_def body_def arm_def assoc)
  then have run: "act_then body arm st = (r, st1)" using assms(2) by simp
  have safe: "safe I body"
    unfolding body_def by (intro safe_intros level_leaf leaf_advance_cycles leaf_tick_module)
  obtain r2 st2 where b: "body st = (r2, st2)" by (cases "body st")
  show ?thesis
  proof (cases r2)
    case (Inl x)
    then show ?thesis using safeD(2)[OF safe assms(1)] b run by (auto simp: act_bind_def)
  next
    case (Inr u)
    then have st2: "I st2" "eng_now (fst st2) = eng_now (fst st)" using safeD(1)[OF safe assms(1)] b by auto
    have arm: "arm st2 = (r, st1)" using run b Inr by (simp add: act_bind_def)
    show ?thesis
      using arm st2
      by (auto simp: arm_def act_bind_def on_engine_def act_on_def act_err_def act_return_def map_sum_def
          split: sum.splits prod.splits)
  qed
qed

end

definition unarmed :: "assertion_result list \<Rightarrow> ('h, 't, 'm) run_state \<Rightarrow> bool" where
  "unarmed results st \<longleftrightarrow> engine_inv (fst st) \<and> \<not> step_listed (fst st) \<and> rn_results (snd st) = results \<and>
     step_times (fst st) = []"

text \<open>The step is pending once, within one period, at a whole number of periods from the start \<open>t0\<close>.\<close>

definition armed :: "int \<Rightarrow> assertion_result list \<Rightarrow> ('h, 't, 'm) run_state \<Rightarrow> bool" where
  "armed t0 results st \<longleftrightarrow> engine_inv (fst st) \<and> \<not> step_listed (fst st) \<and> rn_results (snd st) = results \<and>
     (\<exists>t. step_times (fst st) = [t] \<and> t \<le> eng_now (fst st) + PHYSICAL_STEP_US \<and> (t - t0) mod PHYSICAL_STEP_US = 0)"

lemma stable_unarmed: "stable (unarmed results)"
  unfolding stable_def unarmed_def still_def engine_leaf_def by simp

lemma stable_armed: "stable (armed t0 results)"
  unfolding stable_def armed_def still_def engine_leaf_def by simp

lemma unlisted_handlers: "\<not> step_listed e \<Longrightarrow> PhysicalStep \<notin> set (kind_handlers k e)"
  by (auto simp: step_listed_def kind_handlers_def split: option.splits) (metis map_of_SomeD snd_conv)

context module_contract
begin

lemma safe_run_handlers:
  "stable I \<Longrightarrow> PhysicalStep \<notin> set hs \<Longrightarrow> safe I (run_handlers (exec_handler env step) ev hs)"
proof (induction hs)
  case Nil
  then show ?case by (simp add: safe_def)
next
  case (Cons h hs)
  have "run_handlers (exec_handler env step) ev (h # hs) =
      act_then (exec_handler env step h ev) (run_handlers (exec_handler env step) ev hs)"
    by (rule ext) (simp add: act_bind_def split: prod.splits sum.splits)
  moreover have "h \<noteq> PhysicalStep" using Cons.prems(2) by auto
  then have "safe I (exec_handler env step h ev)" by (intro leaf_safe[OF Cons.prems(1)] leaf_exec_handler)
  ultimately show ?case using Cons by (simp add: safe_bind)
qed

text \<open>A dispatch whose own handler leads to the invariant keeps it through the handlers of the kind.\<close>

lemma dispatch_level:
  assumes "stable I" "\<And>st. I st \<Longrightarrow> \<not> step_listed (fst st)"
    and "case (case qe_handler q of None \<Rightarrow> (Inr (), st) | Some h \<Rightarrow> exec_handler env step h (qe_event q) st) of
      (Inl x, _) \<Rightarrow> \<not> fail_diverges x | (Inr _, st1) \<Rightarrow> I st1 \<and> eng_now (fst st1) = now"
    and "dispatch (exec_handler env step) q st = (r, st2)"
  shows "case r of Inl x \<Rightarrow> \<not> fail_diverges x | Inr _ \<Rightarrow> I st2 \<and> eng_now (fst st2) = now"
proof -
  let ?one = "case qe_handler q of None \<Rightarrow> (Inr (), st) | Some h \<Rightarrow> exec_handler env step h (qe_event q) st"
  obtain r1 st1 where one: "?one = (r1, st1)" by (cases ?one)
  show ?thesis
  proof (cases r1)
    case (Inl x)
    then show ?thesis using assms(3,4) one by (auto simp: dispatch_def Let_def)
  next
    case (Inr u)
    then have st1: "I st1" "eng_now (fst st1) = now" using assms(3) one by auto
    have "run_handlers (exec_handler env step) (qe_event q) (kind_handlers (ev_kind (qe_event q)) (fst st1)) st1 = (r, st2)"
      using assms(4) one Inr by (simp add: dispatch_def Let_def)
    then show ?thesis
      using safeD[OF safe_run_handlers[OF assms(1) unlisted_handlers[OF assms(2)[OF st1(1)]]] st1(1)] st1(2)
      by (cases r) auto
  qed
qed

lemma first_handler_level:
  assumes "stable I" "I st" "qe_handler q \<noteq> Some PhysicalStep" "eng_now (fst st) = now"
  shows "case (case qe_handler q of None \<Rightarrow> (Inr (), st) | Some h \<Rightarrow> exec_handler env step h (qe_event q) st) of
      (Inl x, _) \<Rightarrow> \<not> fail_diverges x | (Inr _, st1) \<Rightarrow> I st1 \<and> eng_now (fst st1) = now"
proof (cases "qe_handler q")
  case None
  then show ?thesis using assms(2,4) by simp
next
  case (Some h)
  then have "h \<noteq> PhysicalStep" using assms(3) by auto
  then have "safe I (exec_handler env step h (qe_event q))" by (intro leaf_safe[OF assms(1)] leaf_exec_handler)
  from this[unfolded safe_def, THEN spec, THEN mp, OF assms(2)] Some show ?thesis unfolding assms(4)[symmetric] by simp
qed

end

lemma popped_step_times:
  "eng_queue e = q # rest \<Longrightarrow> step_times e =
     (if qe_handler q = Some PhysicalStep then [qe_time q] else []) @
     step_times (e\<lparr>eng_queue := rest, eng_now := t\<rparr>)"
  by (simp add: step_times_def)

lemma jump_unchanged [simp]:
  "step_times (e\<lparr>eng_now := t\<rparr>) = step_times e" "step_listed (e\<lparr>eng_now := t\<rparr>) = step_listed e"
  "step_listed (e\<lparr>eng_queue := q\<rparr>) = step_listed e"
  by (simp_all add: step_times_def step_listed_def)

lemma jump_inv: "engine_inv e \<Longrightarrow> \<not> due (Some h) e \<Longrightarrow> eng_now e \<le> h \<Longrightarrow> engine_inv (e\<lparr>eng_now := h\<rparr>)"
  using inv_at_horizon[of e h] by (simp add: engine_inv_def)

text \<open>Inside a step no step is pending, and none is dispatched.\<close>

sublocale module_contract \<subseteq> inner: runner_level env "exec_runner env 0" "unarmed results" for results
proof unfold_locales
  fix e s assume "unarmed results (e, s)"
  then show "engine_inv e" by (simp add: unarmed_def)
next
  fix e s h assume "unarmed results (e, s)" "\<not> due (Some h) e" "eng_now e \<le> h"
  then show "unarmed results (e\<lparr>eng_now := h\<rparr>, s)" by (simp add: unarmed_def jump_inv)
next
  fix e s q rest r e' s'
  assume un: "unarmed results (e, s)" and q: "eng_queue e = q # rest"
    and d: "dispatch (exec_runner env 0) q (e\<lparr>eng_queue := rest, eng_now := qe_time q\<rparr>, s) = (r, (e', s'))"
  let ?st = "(e\<lparr>eng_queue := rest, eng_now := qe_time q\<rparr>, s)"
  have st: "unarmed results ?st" "qe_handler q \<noteq> Some PhysicalStep"
    using un popped_inv[OF _ q] popped_step_times[OF q, of "qe_time q"] by (auto simp: unarmed_def split: if_splits)
  have "\<not> step_listed (fst st)" if "unarmed results st" for st :: "('a, 'b, 'c) run_state"
    using that by (simp add: unarmed_def)
  from dispatch_level[OF stable_unarmed this first_handler_level[OF stable_unarmed st, of "qe_time q"] d[unfolded exec_runner.simps]]
  show "case r of Inl x \<Rightarrow> \<not> fail_diverges x | Inr _ \<Rightarrow> unarmed results (e', s') \<and> eng_now e' = qe_time q"
    by (simp split: sum.splits)
qed (rule stable_unarmed)

text \<open>Between steps exactly one is pending; it runs with none pending and arms the next.\<close>

lemma armed_again:
  fixes st :: "('a, 'b, 'c) run_state"
  assumes "unarmed results st" "schedule_timer PHYSICAL_STEP_US None (Some PhysicalStep) (fst st) = (Inr ev, e1)"
    and "(eng_now (fst st) - t0) mod PHYSICAL_STEP_US = 0"
  shows "armed t0 results (e1, snd st)" "eng_now e1 = eng_now (fst st)"
    "step_times e1 = [eng_now (fst st) + PHYSICAL_STEP_US]"
proof -
  let ?e = "fst st"
  have e1: "engine_inv e1" "eng_now e1 = eng_now ?e"
    using schedule_payload_keeps[of PHYSICAL_STEP_US ?e] assms(1,2)
    by (auto simp: unarmed_def schedule_timer_def) (metis snd_conv)+
  define t where "t = eng_now ?e + PHYSICAL_STEP_US"
  define item :: "'a runner_handler queued_event" where "item = \<lparr>qe_time = t, qe_sequence = eng_next_sequence ?e, qe_event = ev, qe_handler = Some PhysicalStep\<rparr>"
  have q: "eng_queue e1 = insort_key qe_key item (eng_queue ?e)" "eng_handlers e1 = eng_handlers ?e"
    using assms(1,2)
    by (auto simp: schedule_timer_def mk_timer_payload_def schedule_payload_def schedule_after_def schedule_at_def
        coerce_event_kind_def item_def t_def Let_def check_virtual_time_def unarmed_def engine_inv_def split: if_splits)
  have none: "filter (\<lambda>q. qe_handler q = Some PhysicalStep) (eng_queue ?e) = []"
    using assms(1) by (simp add: unarmed_def step_times_def)
  have "filter (\<lambda>q. qe_handler q = Some PhysicalStep) (insort_key qe_key item xs) = [item]"
    if "filter (\<lambda>q. qe_handler q = Some PhysicalStep) xs = []" for xs
    using that by (induction xs) (auto simp: item_def split: if_splits)
  then have "step_times e1 = [t]" using none q(1) by (simp add: step_times_def item_def)
  then show "step_times e1 = [eng_now ?e + PHYSICAL_STEP_US]" by (simp add: t_def)
  note \<open>step_times e1 = [t]\<close>
  moreover have "(t - t0) mod PHYSICAL_STEP_US = 0"
    using assms(3) mod_add_self2[of "eng_now ?e - t0" PHYSICAL_STEP_US] unfolding t_def by (simp add: algebra_simps)
  moreover have "\<not> step_listed e1" "rn_results (snd st) = results"
    using q(2) assms(1) by (simp_all add: unarmed_def step_listed_def)
  ultimately show "armed t0 results (e1, snd st)"
    unfolding armed_def using e1 t_def by (intro conjI exI[of _ t]) simp_all
  show "eng_now e1 = eng_now ?e" by (rule e1(2))
qed

sublocale module_contract \<subseteq> outer: runner_level env "exec_runner env (Suc 0)" "armed t0 results" for t0 results
proof unfold_locales
  fix e s assume "armed t0 results (e, s)"
  then show "engine_inv e" by (simp add: armed_def)
next
  fix e s h assume a: "armed t0 results (e, s)" and h: "\<not> due (Some h) e" "eng_now e \<le> h"
  then show "armed t0 results (e\<lparr>eng_now := h\<rparr>, s)" by (auto simp: armed_def jump_inv)
next
  fix e s q rest r e' s'
  assume a: "armed t0 results (e, s)" and q: "eng_queue e = q # rest"
    and d: "dispatch (exec_runner env (Suc 0)) q (e\<lparr>eng_queue := rest, eng_now := qe_time q\<rparr>, s) = (r, (e', s'))"
  let ?st = "(e\<lparr>eng_queue := rest, eng_now := qe_time q\<rparr>, s)"
  let ?step = "physical_step env (exec_runner env 0)"
  obtain t where t: "step_times e = [t]" "t \<le> eng_now e + PHYSICAL_STEP_US" "(t - t0) mod PHYSICAL_STEP_US = 0"
    using a by (auto simp: armed_def)
  have inv: "engine_inv (fst ?st)" "eng_now e \<le> qe_time q" using popped_inv[OF _ q] a by (auto simp: armed_def)
  have unlisted: "\<not> step_listed (fst st)" if "armed t0 results st" for st :: "('a, 'b, 'c) run_state"
    using that by (simp add: armed_def)
  have first: "case (case qe_handler q of None \<Rightarrow> (Inr (), ?st) | Some h \<Rightarrow> exec_handler env ?step h (qe_event q) ?st) of
      (Inl x, _) \<Rightarrow> \<not> fail_diverges x | (Inr _, st1) \<Rightarrow> armed t0 results st1 \<and> eng_now (fst st1) = qe_time q"
  proof (cases "qe_handler q = Some PhysicalStep")
    case True
    then have un: "unarmed results ?st" "qe_time q = t"
      using a t inv popped_step_times[OF q, of "qe_time q"] by (auto simp: unarmed_def armed_def)
    obtain r1 st1 where p: "?step ?st = (r1, st1)" by (cases "?step ?st")
    note lev = inner.physical_step_level[OF un(1) p]
    have "case r1 of Inl x \<Rightarrow> \<not> fail_diverges x | Inr _ \<Rightarrow> armed t0 results st1 \<and> eng_now (fst st1) = qe_time q"
    proof (cases r1)
      case (Inr u)
      then obtain st2 ev where st2: "unarmed results st2" "eng_now (fst st2) = t" "snd st1 = snd st2"
          "schedule_timer PHYSICAL_STEP_US None (Some PhysicalStep) (fst st2) = (Inr ev, fst st1)"
        using lev un(2) by auto
      have "(fst st1, snd st2) = st1" using st2(3) by (metis prod.collapse)
      then show ?thesis using armed_again[OF st2(1,4), of t0] t(3) st2(2) Inr un(2) by simp
    qed (use lev in auto)
    then show ?thesis using True p by (simp add: exec_handler_def split: sum.splits)
  next
    case False
    then have "armed t0 results ?st"
      using a t inv popped_step_times[OF q, of "qe_time q"] by (auto simp: armed_def)
    then show ?thesis by (rule first_handler_level[OF stable_armed _ False]) simp
  qed
  from dispatch_level[OF stable_armed unlisted first d[unfolded exec_runner.simps(2)]]
  show "case r of Inl x \<Rightarrow> \<not> fail_diverges x | Inr _ \<Rightarrow> armed t0 results (e', s') \<and> eng_now e' = qe_time q"
    by (simp split: sum.splits)
qed (rule stable_armed)

end
