(* ===== verification/RunnerRun.thy ===== *)
theory RunnerRun
  imports RunnerSafe
begin

text \<open>
  The scenario steps and the run, under \<open>module_contract\<close>: an assertion loop returns at its deadline at the
  latest, its verdict is about the value the telemetry cache holds at that moment, and a run reports one verdict for each
  assertion step, in order.
\<close>

declare exec_runner.simps [simp del]

section \<open>Assertions\<close>

text \<open>\<open>verdict_for a deadline st res\<close>: \<open>res\<close> is what evaluating \<open>a\<close> in the state \<open>st\<close> says, and it is final.\<close>

definition verdict_for :: "telemetry_assertion \<Rightarrow> int \<Rightarrow> ('h, 't, 'm) run_state \<Rightarrow> assertion_result \<Rightarrow> bool" where
  "verdict_for a deadline st res \<longleftrightarrow>
     at_evaluated_at res = eng_now (fst st) \<and> at_name res = ta_name a \<and> at_signal res = ta_signal a \<and>
     at_operator res = ta_operator a \<and> at_expected res = ta_expected a \<and>
     (at_passed res \<or> deadline \<le> eng_now (fst st)) \<and>
     (case map_of (rn_latest (snd st)) (ta_signal a) of
        Some v \<Rightarrow> at_actual res = v \<and>
          at_passed res = fst (compare_values v (ta_operator a) (ta_expected a) (ta_signal a))
      | None \<Rightarrow> \<not> at_passed res \<and> at_detail res = DetailNeverObserved (ta_signal a))"

lemma assert_look_outcome:
  assumes "assert_look a deadline st = (r, st1)" "0 \<le> eng_now (fst st)"
  shows "st1 = st \<and> (case r of
       Inl x \<Rightarrow> \<not> fail_diverges x
     | Inr None \<Rightarrow> eng_now (fst st) < deadline
     | Inr (Some res) \<Rightarrow> verdict_for a deadline st res)"
proof -
  have rd: "try_read_signal s st = ((case split_telemetry_signal s of Inl e \<Rightarrow> Inl (FailRoute e)
      | Inr _ \<Rightarrow> Inr (map_of (rn_latest (snd st)) s)), st)" for s
    by (simp add: try_read_signal_def act_bind_def act_lift_def act_get_def map_sum_def split: sum.splits)
  show ?thesis
  proof (cases "split_telemetry_signal (ta_signal a)")
    case (Inl e)
    then show ?thesis using assms(1) by (auto simp: assert_look_def act_bind_def rd)
  next
    case (Inr p)
    then show ?thesis
      using assms evaluate_assertion_ok[OF assms(2)]
      by (cases "map_of (rn_latest (snd st)) (ta_signal a)")
        (auto simp: assert_look_def act_bind_def rd act_get_def act_lift_def act_return_def verdict_for_def
          never_observed_def compare_values_def)
  qed
qed

context module_contract
begin

lemma next_stop_due:
  assumes "engine_inv e" "eng_now e < deadline"
    and "(case next_event_time e of None \<Rightarrow> deadline | Some t \<Rightarrow> min t deadline) = eng_now e"
  shows "due (Some (eng_now e)) e"
  using assms by (auto simp: next_event_time_def due_def split: list.splits)

lemma assert_loop_returns:
  assumes "armed t0 results st" "eng_now (fst st) \<le> deadline"
  shows "\<exists>r st1. assert_loop env (exec_runner env (Suc 0)) a deadline st = Some (r, st1) \<and>
     (case r of Inl x \<Rightarrow> \<not> fail_diverges x
      | Inr res \<Rightarrow> armed t0 results st1 \<and> eng_now (fst st) \<le> eng_now (fst st1) \<and> eng_now (fst st1) \<le> deadline \<and>
          verdict_for a deadline st1 res)"
  using assms
proof (induction "2 * nat (deadline - eng_now (fst st)) + (if due (Some (eng_now (fst st))) (fst st) then 1 else 0)"
    arbitrary: st rule: less_induct)
  case less
  let ?e = "fst st"
  let ?stop = "case next_event_time ?e of None \<Rightarrow> deadline | Some t \<Rightarrow> min t deadline"
  have inv: "engine_inv ?e" using less.prems(1) by (simp add: armed_def)
  obtain r st0 where look: "assert_look a deadline st = (r, st0)" by (cases "assert_look a deadline st")
  note out = assert_look_outcome[OF look]
  have now: "0 \<le> eng_now ?e" using inv by (simp add: engine_inv_def)
  consider (err) x where "r = Inl x" | (final) res where "r = Inr (Some res)" | (again) "r = Inr None"
    by (cases r) auto
  then show ?case
  proof cases
    case err
    then show ?thesis using look out now by (simp add: assert_loop.simps)
  next
    case final
    then show ?thesis using look out now less.prems by (simp add: assert_loop.simps)
  next
    case again
    have st0: "st0 = st" "eng_now ?e < deadline" using out now again by auto
    obtain r2 st2 where w: "wait env (exec_runner env (Suc 0)) (?stop - eng_now ?e) st = (r2, st2)" by (metis surj_pair)
    note lev = outer.wait_level[OF less.prems(1) w]
    have loop: "assert_loop env (exec_runner env (Suc 0)) a deadline st =
        (case r2 of Inl err \<Rightarrow> Some (Inl err, st2) | Inr _ \<Rightarrow> assert_loop env (exec_runner env (Suc 0)) a deadline st2)"
      using look again st0(1) w by (subst assert_loop.simps) (simp add: Let_def)
    show ?thesis
    proof (cases r2)
      case (Inl x)
      then show ?thesis using loop lev by simp
    next
      case (Inr u)
      have st2: "armed t0 results st2" "eng_now (fst st2) = ?stop" "\<not> due (Some (eng_now (fst st2))) (fst st2)"
      proof -
        have "armed t0 results st2 \<and> eng_now (fst st2) = ?stop \<and> settled env st2" using lev Inr by simp
        then show "armed t0 results st2" "eng_now (fst st2) = ?stop" "\<not> due (Some (eng_now (fst st2))) (fst st2)"
          unfolding settled_def by blast+
      qed
      have stop: "eng_now ?e \<le> ?stop" "?stop \<le> deadline" using outer.next_stop_ok[OF inv st0(2)] by auto
      have "2 * nat (deadline - eng_now (fst st2)) + (if due (Some (eng_now (fst st2))) (fst st2) then 1 else 0)
          < 2 * nat (deadline - eng_now ?e) + (if due (Some (eng_now ?e)) ?e then 1 else 0)"
        using st2(2,3) stop st0(2) next_stop_due[OF inv st0(2)] by (cases "?stop = eng_now ?e") auto
      moreover have "eng_now (fst st2) \<le> deadline" using st2(2) stop by simp
      ultimately obtain r3 st3 where l3: "assert_loop env (exec_runner env (Suc 0)) a deadline st2 = Some (r3, st3)"
          "case r3 of Inl x \<Rightarrow> \<not> fail_diverges x | Inr res \<Rightarrow> armed t0 results st3 \<and>
            eng_now (fst st2) \<le> eng_now (fst st3) \<and> eng_now (fst st3) \<le> deadline \<and> verdict_for a deadline st3 res"
        using less.hyps[of st2] st2(1) by blast
      have "case r3 of Inl x \<Rightarrow> \<not> fail_diverges x | Inr res \<Rightarrow> armed t0 results st3 \<and>
            eng_now ?e \<le> eng_now (fst st3) \<and> eng_now (fst st3) \<le> deadline \<and> verdict_for a deadline st3 res"
        using l3(2) st2(2) stop by (cases r3) auto
      then show ?thesis using loop l3(1) Inr by auto
    qed
  qed
qed

end

definition verdict_of :: "string \<Rightarrow> assertion_op \<Rightarrow> py_val \<Rightarrow> assertion_result \<Rightarrow> bool" where
  "verdict_of signal opr expected res \<longleftrightarrow>
     at_signal res = signal \<and> at_operator res = opr \<and> at_expected res = expected \<and>
     (at_passed res = fst (compare_values (at_actual res) opr expected signal) \<or>
      \<not> at_passed res \<and> at_detail res = DetailNeverObserved signal)"

text \<open>
  \<open>verdict_in st\<close>: the verdict is that of the state \<open>st\<close>. It compares the value the telemetry cache \<open>rn_latest\<close> holds for
  the signal there, or says that it holds none.
\<close>

definition verdict_in ::
  "('h, 't, 'm) run_state \<Rightarrow> string \<Rightarrow> assertion_op \<Rightarrow> py_val \<Rightarrow> assertion_result \<Rightarrow> bool" where
  "verdict_in st signal opr expected res \<longleftrightarrow>
     at_signal res = signal \<and> at_operator res = opr \<and> at_expected res = expected \<and>
     at_evaluated_at res = eng_now (fst st) \<and>
     (case map_of (rn_latest (snd st)) signal of
        Some v \<Rightarrow> at_actual res = v \<and> at_passed res = fst (compare_values v opr expected signal)
      | None \<Rightarrow> \<not> at_passed res \<and> at_detail res = DetailNeverObserved signal)"

lemma verdict_in_of: "verdict_in st signal opr expected res \<Longrightarrow> verdict_of signal opr expected res"
  by (auto simp: verdict_in_def verdict_of_def split: option.splits)

abbreviation timeout_of :: "int option \<Rightarrow> int" where
  "timeout_of timeout \<equiv> (case timeout of None \<Rightarrow> 0 | Some t \<Rightarrow> t)"

lemma mk_telemetry_assertion_Inr:
  assumes "mk_telemetry_assertion name signal (assertion_op_value opr) expected timeout = Inr a"
  shows "a = \<lparr>ta_name = name, ta_signal = signal, ta_operator = opr, ta_expected = expected, ta_timeout = timeout\<rparr> \<and>
     0 \<le> timeout_of timeout"
  using assms
  by (auto simp: mk_telemetry_assertion_def res_bind_eq_Inr check_assertion_text_def check_assertion_time_def
      split: option.splits if_splits)

lemma verdict_for_in:
  "verdict_for \<lparr>ta_name = name, ta_signal = signal, ta_operator = opr, ta_expected = expected, ta_timeout = timeout\<rparr>
     deadline st res \<Longrightarrow> verdict_in st signal opr expected res"
  by (auto simp: verdict_for_def verdict_in_def split: option.splits)

text \<open>
  \<open>decided env exec a st res\<close>: the loop of the assertion \<open>a\<close>, entered in the state \<open>st\<close>, ends with the verdict \<open>res\<close>, which is
  that of the state the loop ends in. That is by the deadline, and at the deadline if the assertion failed.
\<close>

definition decided ::
  "('h, 't, 'm) runner_env \<Rightarrow> ('h, 't, 'm) runner_exec \<Rightarrow> telemetry_assertion \<Rightarrow> ('h, 't, 'm) run_state
    \<Rightarrow> assertion_result \<Rightarrow> bool" where
  "decided env exec a st res =
     (let deadline = eng_now (fst st) + timeout_of (ta_timeout a)
      in case assert_loop env exec a deadline st of
           Some (Inr res1, st1) \<Rightarrow>
             res1 = res \<and> verdict_in st1 (ta_signal a) (ta_operator a) (ta_expected a) res \<and>
             eng_now (fst st) \<le> eng_now (fst st1) \<and> eng_now (fst st1) \<le> deadline \<and>
             (at_passed res \<or> eng_now (fst st1) = deadline)
         | _ \<Rightarrow> False)"

lemma decidedD:
  "decided env exec a st res \<Longrightarrow> \<exists>st1. assert_loop env exec a (eng_now (fst st) + timeout_of (ta_timeout a)) st = Some (Inr res, st1) \<and>
     verdict_in st1 (ta_signal a) (ta_operator a) (ta_expected a) res \<and> eng_now (fst st) \<le> eng_now (fst st1) \<and>
     eng_now (fst st1) \<le> eng_now (fst st) + timeout_of (ta_timeout a) \<and>
     (at_passed res \<or> eng_now (fst st1) = eng_now (fst st) + timeout_of (ta_timeout a))"
  by (auto simp: decided_def Let_def split: option.splits prod.splits sum.splits)

lemma then_on_state: "act_then (on_state f) m st = m (fst st, f (snd st))"
  by (simp add: act_bind_def on_state_def act_modify_def case_prod_unfold)

context module_contract
begin

lemma finish_assertion_level:
  assumes "armed t0 results st" "finish_assertion env (exec_runner env (Suc 0)) res st = (r, st1)"
  shows "case r of Inl x \<Rightarrow> \<not> fail_diverges x
     | Inr _ \<Rightarrow> armed t0 (results @ [res]) st1 \<and> eng_now (fst st1) = eng_now (fst st) \<and> settled env st1"
proof -
  define st0 where "st0 = (fst st, (snd st)\<lparr>rn_results := rn_results (snd st) @ [res],
      rn_output := rn_output (snd st) @ [format_assertion_result (re_render env) res]\<rparr>)"
  let ?sched = "on_engine (schedule_assertion (at_name res) 0 (Some (at_passed res))
      (Some (re_render env (at_detail res))) None) :: ('h, 't, 'm, simulation_event) run_act"
  have armed: "armed t0 (results @ [res]) st0" using assms(1) by (simp add: armed_def st0_def)
  have run: "act_then ?sched (run_current_events env (exec_runner env (Suc 0))) st0 = (r, st1)"
    using assms(2) by (simp add: finish_assertion_def then_on_state st0_def)
  have "run_leaf ?sched" unfolding schedule_assertion_def by (intro leaf_intros) auto
  then have sched: "safe (armed t0 (results @ [res])) ?sched" by (rule outer.level_leaf)
  then have safe: "safe (armed t0 (results @ [res])) (act_then ?sched (run_current_events env (exec_runner env (Suc 0))))"
    by (intro safe_intros outer.safe_run_current_events)
  show ?thesis
  proof (cases r)
    case (Inl x)
    then show ?thesis using safeD(2)[OF safe armed] run by simp
  next
    case (Inr u)
    then obtain ev st2 where st2: "?sched st0 = (Inr ev, st2)"
        "run_current_events env (exec_runner env (Suc 0)) st2 = (Inr u, st1)"
      using run by (auto elim: act_bind_InrE)
    have "armed t0 (results @ [res]) st2" using safeD(1)[OF sched armed st2(1)] by simp
    from outer.run_current_settled[OF this st2(2)] safeD(1)[OF safe armed, of u st1] run Inr
    show ?thesis by (simp add: st0_def)
  qed
qed

lemma assert_step_level:
  assumes "armed t0 results st"
  shows "\<exists>r st1. assert_step env (exec_runner env (Suc 0)) index signal opr expected timeout name st = Some (r, st1) \<and>
     (case r of Inl x \<Rightarrow> \<not> fail_diverges x
      | Inr res \<Rightarrow> armed t0 (results @ [res]) st1 \<and> settled env st1 \<and>
          decided env (exec_runner env (Suc 0)) \<lparr>ta_name = assertion_name name index, ta_signal = signal,
            ta_operator = opr, ta_expected = expected, ta_timeout = timeout\<rparr> st res \<and>
          eng_now (fst st1) = at_evaluated_at res)"
proof (cases "mk_telemetry_assertion (assertion_name name index) signal (assertion_op_value opr) expected timeout")
  case (Inl e)
  then show ?thesis by (simp add: assert_step_def)
next
  case (Inr a)
  note a = mk_telemetry_assertion_Inr[OF Inr]
  define deadline where "deadline = eng_now (fst st) + timeout_of timeout"
  obtain r1 st1 where loop: "assert_loop env (exec_runner env (Suc 0)) a deadline st = Some (r1, st1)"
    and out: "case r1 of Inl x \<Rightarrow> \<not> fail_diverges x
      | Inr res \<Rightarrow> armed t0 results st1 \<and> eng_now (fst st) \<le> eng_now (fst st1) \<and> eng_now (fst st1) \<le> deadline \<and>
          verdict_for a deadline st1 res"
    using assert_loop_returns[OF assms, of deadline a] a by (auto simp: deadline_def)
  have step: "assert_step env (exec_runner env (Suc 0)) index signal opr expected timeout name st =
      (case r1 of Inl e \<Rightarrow> Some (Inl e, st1)
       | Inr res \<Rightarrow> Some (case finish_assertion env (exec_runner env (Suc 0)) res st1 of
                       (Inl e, st2) \<Rightarrow> (Inl e, st2) | (Inr _, st2) \<Rightarrow> (Inr res, st2)))"
    using Inr loop a by (simp add: assert_step_def deadline_def split: sum.splits)
  show ?thesis
  proof (cases r1)
    case (Inl x)
    then show ?thesis using step out by simp
  next
    case (Inr res)
    obtain r2 st2 where fin: "finish_assertion env (exec_runner env (Suc 0)) res st1 = (r2, st2)" by (metis surj_pair)
    have res: "armed t0 results st1" "eng_now (fst st) \<le> eng_now (fst st1)" "eng_now (fst st1) \<le> deadline"
        "verdict_for a deadline st1 res" using out Inr by auto
    have v: "verdict_in st1 signal opr expected res" using res(4) a verdict_for_in by blast
    have "at_evaluated_at res = eng_now (fst st1)" "at_passed res \<or> eng_now (fst st1) = deadline"
      using res(3,4) by (auto simp: verdict_for_def)
    moreover from this have "decided env (exec_runner env (Suc 0)) a st res"
      using loop Inr res v a by (simp add: decided_def deadline_def)
    ultimately show ?thesis
      using finish_assertion_level[OF res(1) fin] step Inr fin a by (cases r2) auto
  qed
qed

end

section \<open>Steps and runs\<close>

text \<open>The least and the most virtual time a step takes, and what the assertion steps assert.\<close>

definition step_min :: "scenario_step \<Rightarrow> int" where
  "step_min step = (case step of WaitStep d \<Rightarrow> d | _ \<Rightarrow> 0)"

definition step_max :: "scenario_step \<Rightarrow> int" where
  "step_max step = (case step of WaitStep d \<Rightarrow> d | AssertStep _ _ _ timeout _ \<Rightarrow> timeout_of timeout | _ \<Rightarrow> 0)"

definition asserted :: "scenario_step \<Rightarrow> (string \<times> assertion_op \<times> py_val) list" where
  "asserted step = (case step of AssertStep signal opr expected _ _ \<Rightarrow> [(signal, opr, expected)] | _ \<Rightarrow> [])"

definition verdicts :: "(string \<times> assertion_op \<times> py_val) list \<Rightarrow> assertion_result list \<Rightarrow> bool" where
  "verdicts = list_all2 (\<lambda>(signal, opr, expected). verdict_of signal opr expected)"

text \<open>The verdict of one step run in the state \<open>st\<close>, and those of a script, each in the state its step was reached in.\<close>

definition evaluates ::
  "('h, 't, 'm) runner_env \<Rightarrow> ('h, 't, 'm) runner_exec \<Rightarrow> nat \<Rightarrow> scenario_step \<Rightarrow> ('h, 't, 'm) run_state
    \<Rightarrow> assertion_result list \<Rightarrow> bool" where
  "evaluates env exec index step st rs =
     (case step of
        AssertStep signal opr expected timeout name \<Rightarrow>
          (case rs of
             [res] \<Rightarrow> decided env exec \<lparr>ta_name = assertion_name name index, ta_signal = signal, ta_operator = opr,
                        ta_expected = expected, ta_timeout = timeout\<rparr> st res
           | _ \<Rightarrow> False)
      | _ \<Rightarrow> rs = [])"

fun run_verdicts ::
  "('h, 't, 'm) runner_env \<Rightarrow> ('h, 't, 'm) runner_exec \<Rightarrow> nat \<Rightarrow> scenario_step list \<Rightarrow> ('h, 't, 'm) run_state
    \<Rightarrow> assertion_result list \<Rightarrow> bool" where
  "run_verdicts env exec index [] st rs \<longleftrightarrow> rs = []"
| "run_verdicts env exec index (step # steps) st rs \<longleftrightarrow>
     (case run_step env exec index step st of
        Some (Inr _, st1) \<Rightarrow>
          evaluates env exec index step st (take (length (asserted step)) rs) \<and>
          run_verdicts env exec (index + 1) steps st1 (drop (length (asserted step)) rs)
      | _ \<Rightarrow> False)"

lemma evaluates_verdicts:
  assumes "evaluates env exec index step st rs"
  shows "verdicts (asserted step) rs"
proof (cases step)
  case (AssertStep signal opr expected timeout name)
  then obtain res where "rs = [res]" "verdict_of signal opr expected res"
    using assms by (fastforce simp: evaluates_def split: list.splits dest: decidedD verdict_in_of)
  then show ?thesis using AssertStep by (simp add: asserted_def verdicts_def)
qed (use assms in \<open>simp_all add: evaluates_def asserted_def verdicts_def\<close>)

lemma evaluates_length: "evaluates env exec index step st rs \<Longrightarrow> length rs = length (asserted step)"
  by (auto simp: verdicts_def dest!: evaluates_verdicts list_all2_lengthD)

lemma run_verdicts_Cons:
  assumes "run_step env exec index step st = Some (Inr (), st1)" "evaluates env exec index step st rs"
    and "run_verdicts env exec (index + 1) steps st1 rs'"
  shows "run_verdicts env exec index (step # steps) st (rs @ rs')"
  using assms evaluates_length[OF assms(2)] by simp

lemma run_verdicts_all:
  "run_verdicts env exec index steps st rs \<Longrightarrow> verdicts (concat (map asserted steps)) rs"
proof (induction steps arbitrary: index st rs)
  case (Cons step steps)
  let ?k = "length (asserted step)"
  have "verdicts (asserted step) (take ?k rs) \<and> verdicts (concat (map asserted steps)) (drop ?k rs)"
    using Cons by (auto split: option.splits prod.splits sum.splits intro: evaluates_verdicts)
  then have "verdicts (asserted step @ concat (map asserted steps)) (take ?k rs @ drop ?k rs)"
    unfolding verdicts_def by (intro list_all2_appendI) auto
  then show ?case by simp
qed (simp add: verdicts_def)

context module_contract
begin

lemma settled_action:
  fixes m :: "('h, 't, 'm, 'a) run_act"
  assumes "safe (armed t0 results) m" "armed t0 results st"
    and "act_bind m (\<lambda>_. act_then (run_current_events env (exec_runner env (Suc 0)))
           (emit_configured_telemetry env (exec_runner env (Suc 0)))) st = (r, st1)"
  shows "case r of Inl x \<Rightarrow> \<not> fail_diverges x
     | Inr _ \<Rightarrow> armed t0 results st1 \<and> eng_now (fst st1) = eng_now (fst st) \<and> settled env st1"
proof -
  let ?tail = "act_then (run_current_events env (exec_runner env (Suc 0)))
      (emit_configured_telemetry env (exec_runner env (Suc 0)))"
  have tail: "safe (armed t0 results) ?tail"
    by (intro safe_intros outer.safe_run_current_events outer.safe_emit_configured)
  have safe: "safe (armed t0 results) (act_bind m (\<lambda>_. ?tail))" by (intro safe_bind assms(1) tail)
  show ?thesis
  proof (cases r)
    case (Inl x)
    then show ?thesis using safeD(2)[OF safe assms(2)] assms(3) by simp
  next
    case (Inr u)
    then obtain x st2 st3 where run: "m st = (Inr x, st2)" "run_current_events env (exec_runner env (Suc 0)) st2 = (Inr (), st3)"
        "emit_configured_telemetry env (exec_runner env (Suc 0)) st3 = (Inr u, st1)"
      using assms(3) by (auto elim!: act_bind_InrE)
    have "armed t0 results st3"
      using safeD(1)[OF assms(1,2) run(1)] safeD(1)[OF outer.safe_run_current_events _ run(2)] by blast
    from outer.emit_configured_settled[OF this run(3)] safeD(1)[OF safe assms(2), of u st1] assms(3) Inr
    show ?thesis by simp
  qed
qed

lemma run_step_level:
  assumes "armed t0 results st"
  shows "\<exists>r st1. run_step env (exec_runner env (Suc 0)) index step st = Some (r, st1) \<and>
     (case r of Inl x \<Rightarrow> \<not> fail_diverges x
      | Inr _ \<Rightarrow> \<exists>rs. armed t0 (results @ rs) st1 \<and> settled env st1 \<and>
          evaluates env (exec_runner env (Suc 0)) index step st rs \<and> 0 \<le> step_min step \<and> eng_now (fst st) + step_min step \<le> eng_now (fst st1) \<and>
          eng_now (fst st1) \<le> eng_now (fst st) + step_max step)"
proof (cases step)
  case (WaitStep d)
  obtain r st1 where w: "wait env (exec_runner env (Suc 0)) d st = (r, st1)" by (metis surj_pair)
  from outer.wait_level[OF assms w] w WaitStep show ?thesis
    by (cases r) (auto simp: run_step_def step_min_def step_max_def evaluates_def intro!: exI[of _ "[]"])
next
  case (InjectFaultStep kind target v duration cycles)
  obtain r st1 where w: "inject_fault env (exec_runner env (Suc 0)) kind target v duration cycles st = (r, st1)"
    by (metis surj_pair)
  have "run_leaf (on_engine (schedule_fault (fault_type_value kind) target 0 v duration cycles None))"
    unfolding schedule_fault_def by (intro leaf_intros) auto
  from settled_action[OF outer.level_leaf[OF this] assms w[unfolded inject_fault_def]] w InjectFaultStep
  show ?thesis
    by (cases r) (auto simp: run_step_def step_min_def step_max_def evaluates_def intro!: exI[of _ "[]"])
next
  case (SendCommandStep command source target payload)
  obtain r st1 where w: "send_command env (exec_runner env (Suc 0)) command source target payload st = (r, st1)"
    by (metis surj_pair)
  define m :: "('h, 't, 'm, simulation_event) run_act" where
    "m = act_bind (act_lift (map_sum FailRoute id (resolve_command_route (re_commands env) command source target)))
    (\<lambda>route. on_engine (schedule_command (ro_command route) 0 payload (Some (EpName (ro_source_node route)))
       (Some (EpName (ro_target_node route))) (Some (EmitCommand route))))"
  have leaf: "run_leaf m" unfolding m_def schedule_command_def by (intro leaf_intros) auto
  have "act_bind m (\<lambda>_. act_then (run_current_events env (exec_runner env (Suc 0)))
      (emit_configured_telemetry env (exec_runner env (Suc 0)))) st = (r, st1)"
    using w unfolding send_command_def m_def by (auto simp: act_bind_def split: prod.splits sum.splits)
  from settled_action[OF outer.level_leaf[OF leaf] assms this] w SendCommandStep
  show ?thesis
    by (cases r) (auto simp: run_step_def step_min_def step_max_def evaluates_def intro!: exI[of _ "[]"])
next
  case (AssertStep signal opr v timeout name)
  obtain r st1 where a: "assert_step env (exec_runner env (Suc 0)) index signal opr v timeout name st = Some (r, st1)"
    and out: "case r of Inl x \<Rightarrow> \<not> fail_diverges x
      | Inr res \<Rightarrow> armed t0 (results @ [res]) st1 \<and> settled env st1 \<and>
          decided env (exec_runner env (Suc 0)) \<lparr>ta_name = assertion_name name index, ta_signal = signal,
            ta_operator = opr, ta_expected = v, ta_timeout = timeout\<rparr> st res \<and>
          eng_now (fst st1) = at_evaluated_at res"
    using assert_step_level[OF assms] by blast
  show ?thesis
  proof (cases r)
    case (Inr res)
    then have "eng_now (fst st) \<le> eng_now (fst st1)" "eng_now (fst st1) \<le> eng_now (fst st) + timeout_of timeout"
      using out by (auto dest!: decidedD simp: verdict_in_def)
    then show ?thesis
      using a out AssertStep Inr
      by (auto simp: run_step_def step_min_def step_max_def evaluates_def intro!: exI[of _ "[res]"])
  qed (use a out AssertStep in \<open>auto simp: run_step_def\<close>)
qed

lemma run_steps_level:
  "armed t0 results st \<Longrightarrow> \<exists>r st1. run_steps env (exec_runner env (Suc 0)) index steps st = Some (r, st1) \<and>
     (case r of Inl x \<Rightarrow> \<not> fail_diverges x
      | Inr _ \<Rightarrow> \<exists>rs. armed t0 (results @ rs) st1 \<and> (steps \<noteq> [] \<longrightarrow> settled env st1) \<and>
          run_verdicts env (exec_runner env (Suc 0)) index steps st rs \<and>
          (\<forall>step \<in> set steps. 0 \<le> step_min step) \<and>
          eng_now (fst st) + sum_list (map step_min steps) \<le> eng_now (fst st1) \<and>
          eng_now (fst st1) \<le> eng_now (fst st) + sum_list (map step_max steps))"
proof (induction steps arbitrary: index results st)
  case Nil
  then show ?case by (auto intro!: exI[of _ "[]"])
next
  case (Cons step steps)
  obtain r st1 where one: "run_step env (exec_runner env (Suc 0)) index step st = Some (r, st1)"
    and out: "case r of Inl x \<Rightarrow> \<not> fail_diverges x
      | Inr _ \<Rightarrow> \<exists>rs. armed t0 (results @ rs) st1 \<and> settled env st1 \<and>
          evaluates env (exec_runner env (Suc 0)) index step st rs \<and> 0 \<le> step_min step \<and> eng_now (fst st) + step_min step \<le> eng_now (fst st1) \<and>
          eng_now (fst st1) \<le> eng_now (fst st) + step_max step"
    using run_step_level[OF Cons.prems] by blast
  show ?case
  proof (cases r)
    case (Inl x)
    then show ?thesis using one out by simp
  next
    case (Inr u)
    then obtain rs where rs: "armed t0 (results @ rs) st1" "evaluates env (exec_runner env (Suc 0)) index step st rs" "0 \<le> step_min step"
        "settled env st1"
        "eng_now (fst st) + step_min step \<le> eng_now (fst st1)" "eng_now (fst st1) \<le> eng_now (fst st) + step_max step"
      using out by auto
    obtain r2 st2 where rest: "run_steps env (exec_runner env (Suc 0)) (index + 1) steps st1 = Some (r2, st2)"
      and out2: "case r2 of Inl x \<Rightarrow> \<not> fail_diverges x
      | Inr _ \<Rightarrow> \<exists>rs'. armed t0 ((results @ rs) @ rs') st2 \<and> (steps \<noteq> [] \<longrightarrow> settled env st2) \<and>
          run_verdicts env (exec_runner env (Suc 0)) (index + 1) steps st1 rs' \<and>
          (\<forall>step \<in> set steps. 0 \<le> step_min step) \<and>
          eng_now (fst st1) + sum_list (map step_min steps) \<le> eng_now (fst st2) \<and>
          eng_now (fst st2) \<le> eng_now (fst st1) + sum_list (map step_max steps)"
      using Cons.IH[OF rs(1), of "index + 1"] by blast
    show ?thesis
    proof (cases r2)
      case (Inl x)
      then show ?thesis using one Inr rest out2 by simp
    next
      case (Inr u2)
      then obtain rs' where rs': "armed t0 (results @ rs @ rs') st2"
          "run_verdicts env (exec_runner env (Suc 0)) (index + 1) steps st1 rs'"
          "steps \<noteq> [] \<longrightarrow> settled env st2"
          "\<forall>step \<in> set steps. 0 \<le> step_min step"
          "eng_now (fst st1) + sum_list (map step_min steps) \<le> eng_now (fst st2)"
          "eng_now (fst st2) \<le> eng_now (fst st1) + sum_list (map step_max steps)"
        using out2 by auto
      have "run_verdicts env (exec_runner env (Suc 0)) index (step # steps) st (rs @ rs')"
        using run_verdicts_Cons[OF _ rs(2) rs'(2)] one \<open>r = Inr u\<close> by simp
      moreover have "settled env st2" using rs(4) rs'(3) rest by (cases steps) auto
      ultimately show ?thesis
        using one \<open>r = Inr u\<close> rest Inr rs rs' by (auto intro!: exI[of _ "rs @ rs'"])
    qed
  qed
qed

lemma run_scenario_level:
  assumes "armed t0 results st"
  shows "\<exists>r st1. run_scenario env (exec_runner env (Suc 0)) scenario st = Some (r, st1) \<and>
     (case r of Inl x \<Rightarrow> \<not> fail_diverges x
      | Inr res \<Rightarrow> armed t0 (rr_assertions res) st1 \<and>
          run_verdicts env (exec_runner env (Suc 0)) 1 (ss_steps scenario)
            (fst st, (snd st)\<lparr>rn_results := [], rn_drops := []\<rparr>) (rr_assertions res) \<and>
          rr_scenario_name res = ss_name scenario \<and> rr_started_at res = eng_now (fst st) \<and>
          rr_finished_at res = eng_now (fst st1) \<and>
          (\<forall>step \<in> set (ss_steps scenario). 0 \<le> step_min step) \<and>
          rr_started_at res + sum_list (map step_min (ss_steps scenario)) \<le> rr_finished_at res \<and>
          rr_finished_at res \<le> rr_started_at res + sum_list (map step_max (ss_steps scenario)))"
proof -
  let ?st0 = "(fst st, (snd st)\<lparr>rn_results := [], rn_drops := []\<rparr>)"
  have "armed t0 [] ?st0" using assms by (simp add: armed_def)
  then obtain r st1 where steps: "run_steps env (exec_runner env (Suc 0)) 1 (ss_steps scenario) ?st0 = Some (r, st1)"
    and out: "case r of Inl x \<Rightarrow> \<not> fail_diverges x
      | Inr _ \<Rightarrow> \<exists>rs. armed t0 ([] @ rs) st1 \<and> (ss_steps scenario \<noteq> [] \<longrightarrow> settled env st1) \<and>
          run_verdicts env (exec_runner env (Suc 0)) 1 (ss_steps scenario) ?st0 rs \<and>
          (\<forall>step \<in> set (ss_steps scenario). 0 \<le> step_min step) \<and>
          eng_now (fst ?st0) + sum_list (map step_min (ss_steps scenario)) \<le> eng_now (fst st1) \<and>
          eng_now (fst st1) \<le> eng_now (fst ?st0) + sum_list (map step_max (ss_steps scenario))"
    using run_steps_level by blast
  show ?thesis
  proof (cases r)
    case (Inl x)
    then show ?thesis using steps out by (simp add: run_scenario_def)
  next
    case (Inr u)
    then obtain rs where rs: "armed t0 rs st1" "run_verdicts env (exec_runner env (Suc 0)) 1 (ss_steps scenario) ?st0 rs"
          "\<forall>step \<in> set (ss_steps scenario). 0 \<le> step_min step"
          "eng_now (fst st) + sum_list (map step_min (ss_steps scenario)) \<le> eng_now (fst st1)"
          "eng_now (fst st1) \<le> eng_now (fst st) + sum_list (map step_max (ss_steps scenario))"
      using out by auto
    define closing where "closing = act_then (run_current_events env (exec_runner env (Suc 0)))
      (act_then (collect_transport_drops env) expire_partial_packets)"
    have safe: "safe (armed t0 rs) closing"
      unfolding closing_def by (intro safe_intros outer.safe_run_current_events outer.level_leaf leaf_intros)
    obtain r2 st2 where c: "closing st1 = (r2, st2)" by (cases "closing st1")
    have fin: "finish_run env (exec_runner env (Suc 0)) (ss_name scenario) (eng_now (fst st)) st1 =
      (case r2 of Inl x \<Rightarrow> (Inl x, st2) | Inr _ \<Rightarrow>
        (Inr \<lparr>rr_scenario_name = ss_name scenario, rr_started_at = eng_now (fst st),
         rr_finished_at = eng_now (fst st2), rr_assertions = rn_results (snd st2),
         rr_dropped_packets = rn_drops (snd st2)\<rparr>, st2))"
      using c unfolding finish_run_def closing_def
      by (auto simp: act_bind_def act_get_def split: prod.splits sum.splits)
    have run: "run_scenario env (exec_runner env (Suc 0)) scenario st =
        Some (finish_run env (exec_runner env (Suc 0)) (ss_name scenario) (eng_now (fst st)) st1)"
      using steps Inr by (simp add: run_scenario_def)
    show ?thesis
    proof (cases r2)
      case (Inl x)
      then show ?thesis using run fin safeD(2)[OF safe rs(1)] c by simp
    next
      case (Inr u2)
      then have "armed t0 rs st2" "eng_now (fst st2) = eng_now (fst st1)" using safeD(1)[OF safe rs(1)] c by auto
      moreover from this have "rn_results (snd st2) = rs" by (simp add: armed_def)
      ultimately show ?thesis using run fin Inr rs by simp
    qed
  qed
qed

end

end
