(* ===== verification/BuiltIn.thy ===== *)
theory BuiltIn
  imports RunnerRun Payload Thermal Eps
begin

text \<open>
  The modules the package ships, as the objects of one runtime, and the in-memory runtime
  (\<^verbatim>\<open>build_runtime\<close> of \<^verbatim>\<open>scenario/runner.py\<close> and the factories of \<^verbatim>\<open>modules/\<close>): the modules are a dictionary
  from node names to objects, an EPS holds a reference to a payload, so it names its node, and an OBC peer
  is called by the engine for telemetry events. The package's modules keep \<open>module_contract\<close>, so what
  RunnerRun.thy shows holds of every in-memory run without further assumption.
\<close>

declare drain_loop.simps [code] run_loop.simps [code] assert_loop.simps [code]

section \<open>Modules of a runtime\<close>

datatype built_in =
    BuiltPayload payload_module
  | BuiltThermal thermal_module
  | BuiltEps eps_module "string option"
  | BuiltObc obc_peer

type_synonym built_modules = "(string \<times> built_in) list"

type_synonym ('t, 'a) built_act = "(string, 't, built_modules, 'a) world_act"

definition run_payload :: "string \<Rightarrow> (int \<Rightarrow> 'a payload_act) \<Rightarrow> ('t, 'a) built_act" where
  "run_payload name act w =
     (case w of (e, fe, t, ms) \<Rightarrow>
        (case map_of ms name of
           Some (BuiltPayload p) \<Rightarrow>
             (case act (eng_now e) (p, fe) of
                (r, (p1, fe1)) \<Rightarrow> (map_sum FailModule id r, (e, fe1, t, AList.update name (BuiltPayload p1) ms)))
         | _ \<Rightarrow> (Inl (FailNoModule name), w)))"

definition run_thermal :: "string \<Rightarrow> (int \<Rightarrow> 'a thermal_act) \<Rightarrow> ('t, 'a) built_act" where
  "run_thermal name act w =
     (case w of (e, fe, t, ms) \<Rightarrow>
        (case map_of ms name of
           Some (BuiltThermal m) \<Rightarrow>
             (case act (eng_now e) (m, fe) of
                (r, (m1, fe1)) \<Rightarrow> (map_sum FailModule id r, (e, fe1, t, AList.update name (BuiltThermal m1) ms)))
         | _ \<Rightarrow> (Inl (FailNoModule name), w)))"

text \<open>The payload an EPS refers to is the object of that node.\<close>

definition attached_payload :: "string option \<Rightarrow> built_modules \<Rightarrow> payload_module option" where
  "attached_payload attached ms =
     (case attached of
        None \<Rightarrow> None
      | Some n \<Rightarrow> (case map_of ms n of Some (BuiltPayload p) \<Rightarrow> Some p | _ \<Rightarrow> None))"

definition store_payload :: "string option \<Rightarrow> payload_module option \<Rightarrow> built_modules \<Rightarrow> built_modules" where
  "store_payload attached payload ms =
     (case (attached, payload) of (Some n, Some p) \<Rightarrow> AList.update n (BuiltPayload p) ms | _ \<Rightarrow> ms)"

definition run_eps :: "string \<Rightarrow> (int \<Rightarrow> 'a eps_act) \<Rightarrow> ('t, 'a) built_act" where
  "run_eps name act w =
     (case w of (e, fe, t, ms) \<Rightarrow>
        (case map_of ms name of
           Some (BuiltEps m attached) \<Rightarrow>
             (case act (eng_now e) ((m, attached_payload attached ms), fe) of
                (r, ((m1, payload), fe1)) \<Rightarrow>
                  (map_sum FailModule id r,
                   (e, fe1, t, store_payload attached payload (AList.update name (BuiltEps m1 attached) ms))))
         | _ \<Rightarrow> (Inl (FailNoModule name), w)))"

definition run_obc :: "'t adapter_ops \<Rightarrow> string \<Rightarrow> simulation_event \<Rightarrow> ('t, unit) built_act" where
  "run_obc ops name ev w =
     (case w of (e, fe, t, ms) \<Rightarrow>
        (case map_of ms name of
           Some (BuiltObc p) \<Rightarrow>
             (case peer_handle_event ops ev (eng_now e) (p, t, fe) of
                (r, (p1, t1, fe1)) \<Rightarrow> (map_sum FailPeer id r, (e, fe1, t1, AList.update name (BuiltObc p1) ms)))
         | _ \<Rightarrow> (Inl (FailNoModule name), w)))"

section \<open>Operations by module type\<close>

datatype built_kind = KindPayload | KindThermal | KindEps | KindObc

text \<open>Which of the runner's protocols a class implements: an OBC peer only listens to events.\<close>

definition built_tick :: "(string \<times> built_kind) list \<Rightarrow> string \<Rightarrow> (int \<Rightarrow> ('t, unit) built_act) option" where
  "built_tick kinds name =
     (case map_of kinds name of
        Some KindPayload \<Rightarrow> Some (\<lambda>n. run_payload name (\<lambda>clock. act_then (payload_tick clock n) (act_return ())))
      | Some KindThermal \<Rightarrow> Some (\<lambda>n. run_thermal name (\<lambda>clock. act_then (thermal_tick clock n) (act_return ())))
      | Some KindEps \<Rightarrow> Some (\<lambda>n. run_eps name (\<lambda>clock. act_then (eps_tick clock n) (act_return ())))
      | _ \<Rightarrow> None)"

definition built_report ::
  "(string \<times> built_kind) list \<Rightarrow> string \<Rightarrow> (int \<Rightarrow> ('t, (string \<times> py_val) list) built_act) option" where
  "built_report kinds name =
     (case map_of kinds name of
        Some KindPayload \<Rightarrow> Some (\<lambda>now. run_payload name (\<lambda>clock. payload_telemetry clock (Some now)))
      | Some KindThermal \<Rightarrow> Some (\<lambda>now. run_thermal name (\<lambda>clock. thermal_telemetry clock (Some now)))
      | Some KindEps \<Rightarrow> Some (\<lambda>now. run_eps name (\<lambda>clock. eps_telemetry clock (Some now)))
      | _ \<Rightarrow> None)"

definition built_command ::
  "(string \<times> built_kind) list \<Rightarrow> string \<Rightarrow> (command_payload \<Rightarrow> ('t, bool) built_act) option" where
  "built_command kinds name =
     (case map_of kinds name of
        Some KindPayload \<Rightarrow> Some (\<lambda>c. run_payload name (\<lambda>clock. payload_handle_command clock (normalize_payload c)))
      | Some KindThermal \<Rightarrow> Some (\<lambda>c. run_thermal name (\<lambda>clock. thermal_handle_command (normalize_payload c)))
      | Some KindEps \<Rightarrow> Some (\<lambda>c. run_eps name (\<lambda>clock. eps_handle_command clock (normalize_payload c)))
      | _ \<Rightarrow> None)"

section \<open>Building the modules\<close>

definition payload_params :: param_class where
  "payload_params ps = map_sum (\<lambda>_. ''simple_payload'') (\<lambda>_. ()) (mk_payload_config ''params-check'' None ps)"

definition thermal_params :: param_class where
  "thermal_params ps = map_sum (\<lambda>_. ''thermal_rc'') (\<lambda>_. ()) (mk_thermal_config ''params-check'' None ps)"

definition eps_params :: param_class where
  "eps_params ps = map_sum (\<lambda>_. ''generic_eps'') (\<lambda>_. ()) (mk_eps_config ''params-check'' None ps)"

definition built_registry :: "registry_error + built_kind registry" where
  "built_registry =
     built_in_modules KindPayload KindThermal KindEps KindObc payload_params thermal_params eps_params []"

definition build_simple_payload :: "string \<Rightarrow> node_config \<Rightarrow> module_error + payload_module" where
  "build_simple_payload name node =
     res_bind (mk_payload_config name (Some (EpNumber (nc_address node))) (nc_params node)) (\<lambda>c. mk_payload c True)"

definition build_thermal_rc :: "string \<Rightarrow> node_config \<Rightarrow> module_error + thermal_module" where
  "build_thermal_rc name node =
     res_bind (mk_thermal_config name (Some (EpNumber (nc_address node))) (nc_params node)) (\<lambda>c. mk_thermal c True)"

definition first_payload :: "built_modules \<Rightarrow> string option" where
  "first_payload ms =
     map_option fst (find (\<lambda>(_, m). case m of BuiltPayload _ \<Rightarrow> True | _ \<Rightarrow> False) ms)"

definition build_generic_eps ::
  "int \<Rightarrow> string \<Rightarrow> node_config \<Rightarrow> fault_engine \<times> built_modules \<Rightarrow> module_error + built_in \<times> fault_engine \<times> built_modules" where
  "build_generic_eps clock name node st =
     (case st of (fe, ms) \<Rightarrow>
        let attached = first_payload ms in
        res_bind (mk_eps_config name (Some (EpNumber (nc_address node))) (nc_params node)) (\<lambda>c.
          (case mk_eps clock c True (attached_payload attached ms, fe) of
             (Inl e, _) \<Rightarrow> Inl e
           | (Inr m, (payload, fe1)) \<Rightarrow> Inr (BuiltEps m attached, fe1, store_payload attached payload ms))))"

type_synonym build_state = "string runner_handler engine \<times> fault_engine \<times> built_modules"

text \<open>One call of a factory; the OBC peer attaches itself to the engine.\<close>

definition build_module ::
  "testbed_config \<Rightarrow> (string \<times> peer_rule list) list option \<Rightarrow> string \<Rightarrow> built_kind \<Rightarrow> build_state
    \<Rightarrow> run_fail + build_state" where
  "build_module setup obc_rules name kind st =
     (case st of (e, fe, ms) \<Rightarrow>
        (case map_of (tc_nodes setup) name of
           None \<Rightarrow> Inl (FailNoModule name)
         | Some node \<Rightarrow>
             (case kind of
                KindPayload \<Rightarrow>
                  map_sum FailModule (\<lambda>p. (e, fe, AList.update name (BuiltPayload p) ms)) (build_simple_payload name node)
              | KindThermal \<Rightarrow>
                  map_sum FailModule (\<lambda>m. (e, fe, AList.update name (BuiltThermal m) ms)) (build_thermal_rc name node)
              | KindEps \<Rightarrow>
                  map_sum FailModule (\<lambda>(m, fe1, ms1). (e, fe1, AList.update name m ms1))
                    (build_generic_eps (eng_now e) name node (fe, ms))
              | KindObc \<Rightarrow>
                  (case build_obc_peer setup name obc_rules (ModuleHandler name) e of
                     Inl err \<Rightarrow> Inl (FailPeer err)
                   | Inr (Inl err) \<Rightarrow> Inl (FailEngine err)
                   | Inr (Inr (p, e1)) \<Rightarrow> Inr (e1, fe, AList.update name (BuiltObc p) ms)))))"

fun build_modules ::
  "testbed_config \<Rightarrow> (string \<times> peer_rule list) list option \<Rightarrow> (string \<times> built_kind) list \<Rightarrow> build_state
    \<Rightarrow> run_fail + build_state" where
  "build_modules setup obc_rules [] st = Inr st"
| "build_modules setup obc_rules ((name, kind) # rest) st =
     res_bind (build_module setup obc_rules name kind st) (build_modules setup obc_rules rest)"

section \<open>The in-memory runtime\<close>

text \<open>
  \<open>rt_env\<close> and \<open>rt_state\<close> are the parts of \<^verbatim>\<open>ScenarioRuntime\<close> that stay as built and those that change.
  On the bus the runner reads the monitor queue, never rejects a frame itself and never waits for the
  wall clock.
\<close>

type_synonym built_env = "(string, in_memory_bus, built_modules) runner_env"

type_synonym built_state = "(string, in_memory_bus, built_modules) run_state"

definition built_env ::
  "testbed_config \<Rightarrow> command_route list \<Rightarrow> telemetry_route list \<Rightarrow> (string \<times> built_kind) list \<Rightarrow> nat
    \<Rightarrow> (assertion_detail \<Rightarrow> string) \<Rightarrow> built_env" where
  "built_env setup commands telemetry kinds max_settle render =
     \<lparr>re_commands = commands, re_telemetry = telemetry,
      re_fields_by_node = fst (telemetry_plan_from_routes telemetry),
      re_telemetry_order = snd (telemetry_plan_from_routes telemetry),
      re_tick_order = map fst kinds, re_limits = limits_by_address setup, re_max_settle = max_settle,
      re_adapter = bus_adapter, re_receive = bus_stream None, re_take_drops = (\<lambda>t. ([], t)),
      re_clock = None, re_wall = (\<lambda>t. (FL_ZERO, t)), re_receive_timed = (\<lambda>_. bus_stream None),
      re_render = render, re_modules = map fst kinds, re_tick = built_tick kinds,
      re_report = built_report kinds, re_command = built_command kinds, re_handle = run_obc bus_adapter\<rparr>"

definition new_runtime :: "run_fail + string runner_handler engine \<times> fault_engine" where
  "new_runtime =
     map_sum FailEngine id (res_bind (mk_engine 0) (\<lambda>e. fe_attach FaultEngineHandler (e, new_fault_engine)))"

definition missing_module :: "testbed_config \<Rightarrow> built_modules \<Rightarrow> string option" where
  "missing_module setup ms =
     map_option fst (find (\<lambda>(name, p). is_simulated p \<and> name \<notin> fst ` set ms) (resolve_participants setup))"

definition build_in_memory_runtime ::
  "nat \<Rightarrow> (assertion_detail \<Rightarrow> string) \<Rightarrow> testbed_config \<Rightarrow> (string \<times> peer_rule list) list option
    \<Rightarrow> run_fail + built_env \<times> built_state" where
  "build_in_memory_runtime max_settle render setup obc_rules =
     (if tc_transport setup \<noteq> InMemoryTransport then Inl FailTransportKind
      else
        res_bind new_runtime (\<lambda>(e, fe).
        res_bind (map_sum FailRoute id (build_command_routes setup)) (\<lambda>commands.
        res_bind (map_sum FailRoute id (build_telemetry_routes setup)) (\<lambda>telemetry.
        res_bind (map_sum FailTransport id (mk_bus (map (\<lambda>(_, n). EpNumber (nc_address n)) (tc_nodes setup)))) (\<lambda>bus.
        res_bind (map_sum FailOrder id
                    (res_bind (map_sum OrderUnknownType id built_registry) (\<lambda>reg.
                       build_order reg setup (resolve_participants setup)))) (\<lambda>order.
        let kinds = map (\<lambda>(name, r). (name, mr_factory r)) order in
        res_bind (build_modules setup obc_rules kinds (e, fe, [])) (\<lambda>(e1, fe1, ms).
          case missing_module setup ms of
            Some name \<Rightarrow> Inl (FailNoModule name)
          | None \<Rightarrow>
              Inr (built_env setup commands telemetry kinds max_settle render,
                   (e1, \<lparr>rn_fault = fe1, rn_transport = bus, rn_modules = ms, rn_latest = [], rn_results = [],
                         rn_semantic = [], rn_reassemblers = [], rn_senders = [], rn_drops = [],
                         rn_output = []\<rparr>)))))))))"

text \<open>\<^verbatim>\<open>run_scenario\<close> on the bus: build the runtime, start a runner on it and run the scenario.\<close>

definition start_in_memory ::
  "nat \<Rightarrow> (assertion_detail \<Rightarrow> string) \<Rightarrow> testbed_config \<Rightarrow> (string \<times> peer_rule list) list option
    \<Rightarrow> run_fail + built_env \<times> built_state" where
  "start_in_memory max_settle render setup obc_rules =
     res_bind (build_in_memory_runtime max_settle render setup obc_rules) (\<lambda>(env, st).
       if max_settle = 0 then Inl FailMaxSettle
       else (case start_runner st of (Inl e, _) \<Rightarrow> Inl e | (Inr _, st1) \<Rightarrow> Inr (env, st1)))"

definition run_in_memory ::
  "nat \<Rightarrow> (assertion_detail \<Rightarrow> string) \<Rightarrow> testbed_config \<Rightarrow> (string \<times> peer_rule list) list option
    \<Rightarrow> scenario_script \<Rightarrow> (run_fail + run_result \<times> built_state) option" where
  "run_in_memory max_settle render setup obc_rules scenario =
     (case start_in_memory max_settle render setup obc_rules of
        Inl e \<Rightarrow> Some (Inl e)
      | Inr (env, st) \<Rightarrow>
          map_option (\<lambda>(r, st1). map_sum id (\<lambda>res. (res, st1)) r)
            (run_scenario env (exec_runner env (Suc 0)) scenario st))"

section \<open>The modules keep the contract\<close>

lemma run_payload_leaf [leaf_intros]: "world_leaf (run_payload name act)"
  unfolding leaf_def run_payload_def
  by (auto simp: map_sum_def split: prod.splits sum.splits option.splits built_in.splits)

lemma run_thermal_leaf [leaf_intros]: "world_leaf (run_thermal name act)"
  unfolding leaf_def run_thermal_def
  by (auto simp: map_sum_def split: prod.splits sum.splits option.splits built_in.splits)

lemma run_eps_leaf [leaf_intros]: "world_leaf (run_eps name act)"
  unfolding leaf_def run_eps_def
  by (auto simp: map_sum_def split: prod.splits sum.splits option.splits built_in.splits)

lemma run_obc_leaf [leaf_intros]: "world_leaf (run_obc ops name ev)"
  unfolding leaf_def run_obc_def
  by (auto simp: map_sum_def split: prod.splits sum.splits option.splits built_in.splits)

interpretation built: module_contract "built_env su commands telemetry kinds (Suc n) render"
  for su commands telemetry kinds n render
proof unfold_locales
  show "\<exists>out. drain (re_receive (built_env su commands telemetry kinds (Suc n) render)) t = Some out" for t
    using bus_stream.drain_all[of None t] by (auto simp: built_env_def)
qed (auto simp: built_env_def built_tick_def built_report_def built_command_def intro: leaf_intros
      split: option.splits built_kind.splits)

section \<open>A built runtime is armed\<close>

definition fresh_engine :: "string runner_handler engine \<Rightarrow> bool" where
  "fresh_engine e \<longleftrightarrow> engine_inv e \<and> eng_now e = 0 \<and> eng_queue e = [] \<and> \<not> step_listed e"

lemma add_handler_fresh:
  assumes "fresh_engine e" "add_handler (Kind k) h e = Inr e1" "h \<noteq> PhysicalStep"
  shows "fresh_engine e1"
proof -
  have e1: "e1 = e\<lparr>eng_handlers := AList.update k (kind_handlers k e @ [h]) (eng_handlers e)\<rparr>"
    using assms(2) by (simp add: add_handler_def coerce_event_kind_def)
  have "engine_inv e1" using add_handler_extends[OF assms(2)] assms(1) by (simp add: engine_extends_def fresh_engine_def)
  moreover have "PhysicalStep \<notin> set (kind_handlers k e @ [h])"
    using unlisted_handlers[of e k] assms(1,3) by (auto simp: fresh_engine_def)
  then have "\<not> step_listed e1"
    using assms(1) set_update_subset[of k "kind_handlers k e @ [h]" "eng_handlers e"]
    by (fastforce simp: e1 step_listed_def fresh_engine_def)
  ultimately show ?thesis using assms(1) by (simp add: fresh_engine_def e1)
qed

lemma new_runtime_fresh: "new_runtime = Inr (e, fe) \<Longrightarrow> fresh_engine e"
proof -
  have "fresh_engine \<lparr>eng_now = 0, eng_next_sequence = 0, eng_queue = [], eng_handlers = []\<rparr>"
    by (simp add: fresh_engine_def engine_inv_def step_listed_def)
  then show "new_runtime = Inr (e, fe) \<Longrightarrow> fresh_engine e"
    by (auto simp: new_runtime_def map_sum_Inr res_bind_eq_Inr mk_engine_def check_virtual_time_def fe_attach_def
        new_fault_engine_def intro: add_handler_fresh)
qed

lemma map_sum_eq_Inr: "map_sum f g r = Inr y \<longleftrightarrow> (\<exists>x. r = Inr x \<and> y = g x)"
  by (cases r) auto

lemma build_obc_fresh:
  assumes "build_obc_peer setup name rules (ModuleHandler name) e = Inr (Inr (p, e1))" "fresh_engine e"
  shows "fresh_engine e1"
proof -
  obtain p0 where "peer_attach (ModuleHandler name) p0 e = Inr (p, e1)"
    using assms(1)
    by (auto simp: build_obc_peer_def res_bind_eq_Inr map_sum_eq_Inr Let_def split: option.splits)
  then show ?thesis
    using assms(2) by (auto simp: peer_attach_def res_bind_eq_Inr split: if_splits intro: add_handler_fresh)
qed

lemma build_module_fresh:
  assumes "build_module setup rules name kind (e, fe, ms) = Inr (e1, fe1, ms1)" "fresh_engine e"
  shows "fresh_engine e1"
  using assms
  by (cases kind)
    (auto simp: build_module_def map_sum_eq_Inr split: option.splits sum.splits prod.splits dest: build_obc_fresh)

lemma build_modules_fresh:
  "build_modules setup rules kinds (e, fe, ms) = Inr (e1, fe1, ms1) \<Longrightarrow> fresh_engine e \<Longrightarrow> fresh_engine e1"
proof (induction kinds arbitrary: e fe ms)
  case (Cons k kinds)
  then show ?case by (cases k) (auto simp: res_bind_eq_Inr dest: build_module_fresh)
qed simp

lemma unarmed_fresh: "fresh_engine e \<Longrightarrow> rn_results rs = results \<Longrightarrow> unarmed results (e, rs)"
  by (simp add: fresh_engine_def unarmed_def step_times_def)

lemma start_runner_armed:
  assumes "fresh_engine (fst st)" "start_runner st = (Inr u, st1)" "rn_results (snd st) = []"
  shows "armed 0 [] st1 \<and> eng_now (fst st1) = 0 \<and> step_times (fst st1) = [1000000]"
proof -
  obtain e1 ev where e1: "add_handler (Kind TELEMETRY) RecordTelemetry (fst st) = Inr e1"
    and arm: "schedule_timer PHYSICAL_STEP_US None (Some PhysicalStep) e1 = (Inr ev, fst st1)" "snd st1 = snd st"
    using assms(2)
    by (auto simp: start_runner_def act_bind_def on_engine_def act_on_def act_err_def act_return_def map_sum_def
        split: prod.splits sum.splits)
  have e1f: "fresh_engine e1" by (rule add_handler_fresh[OF assms(1) e1]) simp
  have un: "unarmed [] (e1, snd st)" by (rule unarmed_fresh[OF e1f assms(3)])
  have now: "eng_now e1 = 0" using e1f by (simp add: fresh_engine_def)
  note a = armed_again[OF un, of ev "fst st1" 0]
  have "(fst st1, snd st) = st1" using arm(2) by (metis prod.collapse)
  then show ?thesis using a arm(1) now by simp
qed

lemma start_in_memory_armed:
  assumes "start_in_memory n render su rules = Inr (env, st)"
  shows "\<exists>commands telemetry kinds m. env = built_env su commands telemetry kinds (Suc m) render \<and>
     armed 0 [] st \<and> eng_now (fst st) = 0 \<and> step_times (fst st) = [1000000]"
proof -
  obtain st0 u where b: "build_in_memory_runtime n render su rules = Inr (env, st0)"
    and st: "start_runner st0 = (Inr u, st)" "n \<noteq> 0"
    using assms by (auto simp: start_in_memory_def res_bind_eq_Inr split: if_splits prod.splits sum.splits)
  obtain m where n: "n = Suc m" using st(2) not0_implies_Suc by blast
  obtain e fe commands telemetry kinds e1 fe1 ms where rt: "new_runtime = Inr (e, fe)"
    and mods: "build_modules su rules kinds (e, fe, []) = Inr (e1, fe1, ms)"
    and env: "env = built_env su commands telemetry kinds n render" "fst st0 = e1" "rn_results (snd st0) = []"
    using b by (auto simp: build_in_memory_runtime_def res_bind_eq_Inr Let_def split: if_splits option.splits)
  have "fresh_engine (fst st0)"
    using build_modules_fresh[OF mods new_runtime_fresh[OF rt]] env(2) by simp
  from start_runner_armed[OF this st(1) env(3)] env(1) n show ?thesis by blast
qed

section \<open>Properties\<close>

text \<open>The runtime after the steps of a script have succeeded.\<close>

definition state_after ::
  "nat \<Rightarrow> (assertion_detail \<Rightarrow> string) \<Rightarrow> testbed_config \<Rightarrow> (string \<times> peer_rule list) list option \<Rightarrow> scenario_step list
    \<Rightarrow> (built_env \<times> built_state) option" where
  "state_after n render setup rules steps =
     (case start_in_memory n render setup rules of
        Inl _ \<Rightarrow> None
      | Inr (env, st) \<Rightarrow>
          (case run_steps env (exec_runner env (Suc 0)) 1 steps st of
             Some (Inr _, st1) \<Rightarrow> Some (env, st1)
           | _ \<Rightarrow> None))"

lemma state_after_armed:
  assumes "state_after n render su rules steps = Some (env, st)"
  shows "\<exists>commands telemetry kinds m. env = built_env su commands telemetry kinds (Suc m) render \<and>
     (\<exists>results. armed 0 results st) \<and> (steps \<noteq> [] \<longrightarrow> settled env st) \<and> (steps = [] \<longrightarrow> eng_now (fst st) = 0 \<and> step_times (fst st) = [1000000])"
proof -
  obtain st0 where s: "start_in_memory n render su rules = Inr (env, st0)"
    and r: "run_steps env (exec_runner env (Suc 0)) 1 steps st0 = Some (Inr (), st)"
    using assms by (auto simp: state_after_def split: sum.splits option.splits prod.splits)
  obtain commands telemetry kinds m where env: "env = built_env su commands telemetry kinds (Suc m) render"
    and st0: "armed 0 [] st0" "eng_now (fst st0) = 0" "step_times (fst st0) = [1000000]"
    using start_in_memory_armed[OF s] by blast
  obtain r1 st1 where lev: "run_steps env (exec_runner env (Suc 0)) 1 steps st0 = Some (r1, st1)"
      "case r1 of Inl x \<Rightarrow> \<not> fail_diverges x
       | Inr _ \<Rightarrow> \<exists>rs. armed 0 ([] @ rs) st1 \<and> (steps \<noteq> [] \<longrightarrow> settled env st1) \<and>
          run_verdicts env (exec_runner env (Suc 0)) 1 steps st0 rs \<and>
          (\<forall>step \<in> set steps. 0 \<le> step_min step) \<and>
          eng_now (fst st0) + sum_list (map step_min steps) \<le> eng_now (fst st1) \<and>
          eng_now (fst st1) \<le> eng_now (fst st0) + sum_list (map step_max steps)"
    using built.run_steps_level[OF st0(1)] unfolding env by blast
  then have "r1 = Inr ()" "st1 = st" using r by simp_all
  moreover have "steps = [] \<longrightarrow> eng_now (fst st) = 0 \<and> step_times (fst st) = [1000000]" using r st0(2,3) by auto
  ultimately show ?thesis using lev(2) env by auto
qed

lemma built_exec_settled:
  assumes "settled (built_env su commands telemetry kinds n render) st"
  shows "\<not> due (Some (eng_now (fst st))) (fst st)" "bus_monitor (rn_transport (snd st)) = []"
proof -
  obtain t t1 where d: "drain (bus_stream None) t = Some ([], t1)" "rn_transport (snd st) = t1"
    using assms by (auto simp: settled_def built_env_def)
  obtain t2 where "drain (bus_stream None) t = Some (bus_view None t, t2)" "bus_view None t2 = []"
    using bus_stream.drain_all[of None t] by blast
  then show "bus_monitor (rn_transport (snd st)) = []"
    using d by (simp add: bus_view_def bus_queue_for_def)
  show "\<not> due (Some (eng_now (fst st))) (fst st)" using assms by (simp add: settled_def)
qed

lemma start_in_memory_fails: "start_in_memory n render su rules = Inl x \<Longrightarrow> \<not> fail_diverges x"
proof -
  have module: "build_module su rules name kind st = Inl y \<Longrightarrow> \<not> fail_diverges y" for name kind st y
    by (cases kind) (auto simp: build_module_def map_sum_def split: prod.splits option.splits sum.splits)
  have modules: "build_modules su rules kinds st = Inl y \<Longrightarrow> \<not> fail_diverges y" for kinds st y
  proof (induction kinds arbitrary: st)
    case (Cons k kinds)
    then show ?case
      by (cases k; cases "build_module su rules (fst k) (snd k) st") (auto simp: res_bind_def module)
  qed simp
  have start: "start_runner st = (Inl y, st1) \<Longrightarrow> \<not> fail_diverges y" for st st1 y
    by (auto simp: start_runner_def act_bind_def on_engine_def act_on_def act_err_def act_return_def map_sum_def
        split: prod.splits sum.splits)
  have build: "build_in_memory_runtime n render su rules = Inl y \<Longrightarrow> \<not> fail_diverges y" for y
    unfolding build_in_memory_runtime_def new_runtime_def Let_def
    by (auto simp: res_bind_def map_sum_def split: if_splits sum.splits prod.splits option.splits dest: modules)
  show "start_in_memory n render su rules = Inl x \<Longrightarrow> \<not> fail_diverges x"
    by (auto simp: start_in_memory_def res_bind_def split: sum.splits prod.splits if_splits dest: build start)
qed

lemma next_multiple:
  fixes now t p :: int
  assumes "now < t" "t \<le> now + 1000000" "t mod 1000000 = 0"
  shows "t = (now div 1000000 + 1) * 1000000"
proof -
  obtain k where k: "t = k * 1000000" using assms(3) by (metis div_mult_mod_eq add.right_neutral)
  define d r where "d = now div 1000000" "r = now mod 1000000"
  have now: "now = d * 1000000 + r" "0 \<le> r" "r < 1000000" by (simp_all add: d_r_def)
  have "d < k" using assms(1) now k by linarith
  moreover have "k < d + 2" using assms(2) now k by linarith
  ultimately have "k = d + 1" by simp
  then show ?thesis by (simp add: k d_r_def)
qed

text \<open>The verdicts \<open>rs\<close> are those of a run on the bus: each was reached where the run evaluates its step.\<close>

definition reported ::
  "nat \<Rightarrow> (assertion_detail \<Rightarrow> string) \<Rightarrow> testbed_config \<Rightarrow> (string \<times> peer_rule list) list option
    \<Rightarrow> scenario_script \<Rightarrow> assertion_result list \<Rightarrow> bool" where
  "reported n render setup rules scenario rs =
     (case start_in_memory n render setup rules of
        Inl _ \<Rightarrow> False
      | Inr (env, st) \<Rightarrow>
          run_verdicts env (exec_runner env (Suc 0)) 1 (ss_steps scenario)
            (fst st, (snd st)\<lparr>rn_results := [], rn_drops := []\<rparr>) rs)"

lemma reported_verdicts:
  "reported n render su rules scenario rs \<Longrightarrow> verdicts (concat (map asserted (ss_steps scenario))) rs"
  by (auto simp: reported_def split: sum.splits prod.splits intro: run_verdicts_all)

lemma in_memory_outcome:
  assumes "start_in_memory n render su rules = Inr (env, st)"
  shows "\<exists>r st1. run_scenario env (exec_runner env (Suc 0)) scenario st = Some (r, st1) \<and>
     (case r of
        Inl x \<Rightarrow> \<not> fail_diverges x
      | Inr res \<Rightarrow>
          reported n render su rules scenario (rr_assertions res) \<and>
          rr_started_at res = 0 \<and> rr_finished_at res = eng_now (fst st1) \<and>
          sum_list (map step_min (ss_steps scenario)) \<le> rr_finished_at res \<and>
          rr_finished_at res \<le> sum_list (map step_max (ss_steps scenario)))"
proof -
  obtain commands telemetry kinds m where env: "env = built_env su commands telemetry kinds (Suc m) render"
    and st: "armed 0 [] st" "eng_now (fst st) = 0"
    using start_in_memory_armed assms by blast
  show ?thesis
    using built.run_scenario_level[OF st(1), of su commands telemetry kinds m render scenario] st(2)
    unfolding env reported_def assms[unfolded env] by (fastforce split: sum.splits)
qed

text \<open>
  C1: A scenario run over the in-memory transport always returns, whatever the setup, the rules, the script
  and the state the modules are in: no part of it can loop. If it does not raise, it reports exactly one
  verdict for each assertion step, in order. Each was reached by the step's assertion loop, in the run the steps before it
  lead to, and is about the state that loop ended in: it compares the step's expected value with the value the runner's
  telemetry cache holds for the signal at that moment, or says that the cache holds none and fails. That moment is by the
  step's deadline, and at the deadline if the assertion failed. Virtual time starts
  at 0 and the run takes at least the sum of its waits and at most that sum plus the assertion timeouts.
\<close>

theorem scenario_run_reports:
  "case run_in_memory n render su rules scenario of
     None \<Rightarrow> False
   | Some (Inl x) \<Rightarrow> \<not> fail_diverges x
   | Some (Inr (res, st)) \<Rightarrow>
       verdicts (concat (map asserted (ss_steps scenario))) (rr_assertions res) \<and>
       (\<exists>env st0. start_in_memory n render su rules = Inr (env, st0) \<and>
          run_verdicts env (exec_runner env (Suc 0)) 1 (ss_steps scenario)
            (fst st0, (snd st0)\<lparr>rn_results := [], rn_drops := []\<rparr>) (rr_assertions res)) \<and>
       rr_started_at res = 0 \<and> rr_finished_at res = eng_now (fst st) \<and>
       sum_list (map step_min (ss_steps scenario)) \<le> rr_finished_at res \<and>
       rr_finished_at res \<le> sum_list (map step_max (ss_steps scenario))"
proof (cases "start_in_memory n render su rules")
  case (Inl x)
  then show ?thesis using start_in_memory_fails by (simp add: run_in_memory_def)
next
  case (Inr p)
  then obtain env st where start: "start_in_memory n render su rules = Inr (env, st)" by (cases p) simp
  obtain r st1 where "run_scenario env (exec_runner env (Suc 0)) scenario st = Some (r, st1)"
    using in_memory_outcome[OF start, of scenario] by blast
  then show ?thesis using start in_memory_outcome[OF start, of scenario]
    by (cases r) (auto simp: run_in_memory_def reported_def intro: run_verdicts_all)
qed

definition cam_node :: node_config where
  "cam_node = \<lparr>nc_mode = MODE_SIMULATED, nc_address = 5, nc_max_packet_bytes = 256,
     nc_module_type = Some ''simple_payload'', nc_commands = [],
     nc_telemetry = [(''data_volume_bytes'', demo_mapping)], nc_rules = [], nc_params = []\<rparr>"

definition supervisor_node :: node_config where
  "supervisor_node = \<lparr>nc_mode = MODE_SIMULATED, nc_address = 1, nc_max_packet_bytes = 256,
     nc_module_type = Some ''obc_peer'',
     nc_commands = [(''payload_start_capture'', demo_command\<lparr>cm_target := ''cam'', cm_payload_hex := []\<rparr>)],
     nc_telemetry = [], nc_rules = [], nc_params = []\<rparr>"

definition camera_setup :: testbed_config where
  "camera_setup = \<lparr>tc_transport = InMemoryTransport, tc_nodes = [(''obc'', supervisor_node), (''cam'', cam_node)]\<rparr>"

text \<open>Start a capture, wait for one step, and find its data volume in the telemetry.\<close>

definition camera_steps :: "scenario_step list" where
  "camera_steps = [SendCommandStep ''payload_start_capture'' None None PNone, WaitStep 1500000,
     AssertStep ''cam.telemetry.data_volume_bytes'' AOP_EQ (PInt 1024) None None]"

definition plain_detail :: "assertion_detail \<Rightarrow> string" where "plain_detail d = ''compared''"

lemma camera_run:
  "case state_after 100 plain_detail camera_setup None camera_steps of
     None \<Rightarrow> False
   | Some (env, st) \<Rightarrow> eng_now (fst st) = 1500000 \<and> map at_passed (rn_results (snd st)) = [True] \<and>
       is_ok (fst (wait env (exec_runner env (Suc 0)) 500000 st))"
  by code_simp

lemma camera_state:
  "\<exists>env st st'. state_after 100 plain_detail camera_setup None camera_steps = Some (env, st) \<and>
     wait env (exec_runner env (Suc 0)) 500000 st = (Inr (), st') \<and> eng_now (fst st) = 1500000"
proof -
  obtain env st where st: "state_after 100 plain_detail camera_setup None camera_steps = Some (env, st)"
      "eng_now (fst st) = 1500000" "is_ok (fst (wait env (exec_runner env (Suc 0)) 500000 st))"
    using camera_run by (auto split: option.splits)
  then obtain st' where "wait env (exec_runner env (Suc 0)) 500000 st = (Inr (), st')"
    by (cases "wait env (exec_runner env (Suc 0)) 500000 st") (auto simp: is_ok_def split: sum.splits)
  then show ?thesis using st by blast
qed

text \<open>
  C7: After any steps that succeeded, a wait that returns has advanced virtual time by exactly its length, no
  event is left that is due by then, and every frame on the bus has been delivered.
\<close>

theorem wait_reaches_target:
  assumes "state_after n render su rules steps = Some (env, st)"
    and "wait env (exec_runner env (Suc 0)) d st = (Inr u, st')"
  shows "eng_now (fst st') = eng_now (fst st) + d \<and> \<not> due (Some (eng_now (fst st'))) (fst st') \<and>
     bus_monitor (rn_transport (snd st')) = []"
proof -
  obtain commands telemetry kinds m results where env: "env = built_env su commands telemetry kinds (Suc m) render"
    and st: "armed 0 results st"
    using state_after_armed[OF assms(1)] by blast
  have "0 \<le> d \<and> armed 0 results st' \<and> eng_now (fst st') = eng_now (fst st) + d \<and> settled env st'"
    using built.outer.wait_level[OF st, of su commands telemetry kinds m render d "Inr u" st'] assms(2)
    by (simp add: env)
  then show ?thesis using built_exec_settled[of su commands telemetry kinds "Suc m" render st'] by (auto simp: env)
qed

lemma wait_reaches_target_witness:
  "\<exists>env st st'. state_after 100 plain_detail camera_setup None camera_steps = Some (env, st) \<and>
     wait env (exec_runner env (Suc 0)) 500000 st = (Inr (), st') \<and> eng_now (fst st') = 2000000 \<and>
     bus_monitor (rn_transport (snd st')) = []"
proof -
  obtain env st st' where a: "state_after 100 plain_detail camera_setup None camera_steps = Some (env, st)"
      "wait env (exec_runner env (Suc 0)) 500000 st = (Inr (), st')" "eng_now (fst st) = 1500000"
    using camera_state by blast
  have "eng_now (fst st') = 2000000" "bus_monitor (rn_transport (snd st')) = []"
    using wait_reaches_target[OF a(1,2)] a(3) by simp_all
  with a(1,2) show ?thesis by (intro exI[of _ env] exI[of _ st] exI[of _ st']) simp
qed

text \<open>
  C3: After any steps that succeeded, an assertion step returns. If it does not raise, its loop ended in a state its
  verdict is about: the verdict was evaluated at that virtual time, and it compares the value the telemetry cache
  holds for the signal there (which is the verdict's actual value) with the expected one, or says that the signal
  was never observed and fails. That is no later than the timeout after the step began, and the verdict
  fails only when the timeout has run out, at exactly that moment. The verdict is appended to the report.
\<close>

theorem assertion_waits_for_deadline:
  assumes "state_after n render su rules steps = Some (env, st)"
  shows "\<exists>r st'. assert_step env (exec_runner env (Suc 0)) index signal opr expected timeout name st = Some (r, st') \<and>
     (case r of Inl x \<Rightarrow> \<not> fail_diverges x
      | Inr res \<Rightarrow> rn_results (snd st') = rn_results (snd st) @ [res] \<and>
          (\<exists>st1. assert_loop env (exec_runner env (Suc 0))
              \<lparr>ta_name = assertion_name name index, ta_signal = signal, ta_operator = opr, ta_expected = expected,
               ta_timeout = timeout\<rparr> (eng_now (fst st) + timeout_of timeout) st = Some (Inr res, st1) \<and>
            at_signal res = signal \<and> at_operator res = opr \<and> at_expected res = expected \<and>
            at_evaluated_at res = eng_now (fst st1) \<and>
            (case map_of (rn_latest (snd st1)) signal of
               Some v \<Rightarrow> at_actual res = v \<and> at_passed res = fst (compare_values v opr expected signal)
             | None \<Rightarrow> \<not> at_passed res \<and> at_detail res = DetailNeverObserved signal)) \<and>
          eng_now (fst st) \<le> at_evaluated_at res \<and>
          at_evaluated_at res \<le> eng_now (fst st) + timeout_of timeout \<and>
          (at_passed res \<or> at_evaluated_at res = eng_now (fst st) + timeout_of timeout))"
proof -
  let ?a = "\<lparr>ta_name = assertion_name name index, ta_signal = signal, ta_operator = opr, ta_expected = expected,
    ta_timeout = timeout\<rparr>"
  obtain commands telemetry kinds m results where env: "env = built_env su commands telemetry kinds (Suc m) render"
    and st: "armed 0 results st"
    using state_after_armed[OF assms(1)] by blast
  obtain r st' where step: "assert_step env (exec_runner env (Suc 0)) index signal opr expected timeout name st = Some (r, st')"
      "case r of Inl x \<Rightarrow> \<not> fail_diverges x
       | Inr res \<Rightarrow> armed 0 (results @ [res]) st' \<and> settled env st' \<and>
          decided env (exec_runner env (Suc 0)) ?a st res \<and> eng_now (fst st') = at_evaluated_at res"
    using built.assert_step_level[OF st] unfolding env by blast
  show ?thesis
  proof (cases r)
    case (Inl x)
    then show ?thesis using step by simp
  next
    case (Inr res)
    then have out: "armed 0 (results @ [res]) st'" "decided env (exec_runner env (Suc 0)) ?a st res" using step(2) by simp_all
    obtain st1 where "assert_loop env (exec_runner env (Suc 0)) ?a (eng_now (fst st) + timeout_of timeout) st = Some (Inr res, st1)"
        "verdict_in st1 signal opr expected res" "eng_now (fst st) \<le> eng_now (fst st1)"
        "eng_now (fst st1) \<le> eng_now (fst st) + timeout_of timeout"
        "at_passed res \<or> eng_now (fst st1) = eng_now (fst st) + timeout_of timeout"
      using decidedD[OF out(2)] by auto
    moreover have "rn_results (snd st') = rn_results (snd st) @ [res]" using st out(1) by (simp add: armed_def)
    ultimately show ?thesis using step(1) Inr unfolding verdict_in_def by auto
  qed
qed

lemma assertion_waits_for_deadline_witness:
  "\<exists>env st r st'. state_after 100 plain_detail camera_setup None camera_steps = Some (env, st) \<and>
     assert_step env (exec_runner env (Suc 0)) 4 ''cam.telemetry.data_volume_bytes'' AOP_EQ (PInt 0)
     (Some 2000000) None st = Some (r, st') \<and>
     (case r of Inl x \<Rightarrow> \<not> fail_diverges x | Inr res \<Rightarrow> at_evaluated_at res \<le> 3500000)"
proof -
  obtain env st where a: "state_after 100 plain_detail camera_setup None camera_steps = Some (env, st)"
      "eng_now (fst st) = 1500000"
    using camera_state by blast
  note b = assertion_waits_for_deadline[OF a(1), of 4 "''cam.telemetry.data_volume_bytes''" AOP_EQ "PInt 0" "Some 2000000" None]
  from b obtain r st' where r: "assert_step env (exec_runner env (Suc 0)) 4 ''cam.telemetry.data_volume_bytes'' AOP_EQ (PInt 0)
      (Some 2000000) None st = Some (r, st')"
    by blast
  have "case r of Inl x \<Rightarrow> \<not> fail_diverges x | Inr res \<Rightarrow> at_evaluated_at res \<le> 3500000"
    using b r a(2) by (cases r) auto
  with a(1) r show ?thesis by (intro exI[of _ env] exI[of _ st] exI[of _ r] exI[of _ st'] conjI)
qed

text \<open>
  C8: After any steps that succeeded, the recurring physical step is pending exactly once, at the next whole
  second of virtual time. So no second is ever skipped or stepped twice, however the script divides its
  waiting.
\<close>

theorem physical_step_every_second:
  assumes "state_after n render su rules steps = Some (env, st)"
  shows "step_times (fst st) = [(eng_now (fst st) div 1000000 + 1) * 1000000]"
proof -
  obtain env' results where a: "env = env'" "armed 0 results st" "steps \<noteq> [] \<longrightarrow> settled env st"
      "steps = [] \<longrightarrow> eng_now (fst st) = 0 \<and> step_times (fst st) = [1000000]"
    using state_after_armed[OF assms] by blast
  obtain t where t: "step_times (fst st) = [t]" "t \<le> eng_now (fst st) + 1000000" "t mod 1000000 = 0"
    using a(2) by (auto simp: armed_def)
  have "eng_now (fst st) < t"
  proof (cases "steps = []")
    case True
    then show ?thesis using a(4) t(1) by simp
  next
    case False
    then have nd: "\<not> due (Some (eng_now (fst st))) (fst st)" using a(3) by (simp add: settled_def)
    have "t \<in> set (step_times (fst st))" using t(1) by simp
    then obtain q where "q \<in> set (eng_queue (fst st))" "qe_time q = t" by (auto simp: step_times_def)
    then show ?thesis using not_due_all[OF _ nd] a(2) by (auto simp: armed_def)
  qed
  then have "t = (eng_now (fst st) div 1000000 + 1) * 1000000" by (rule next_multiple[OF _ t(2,3)])
  then show ?thesis using t(1) by simp
qed

lemma physical_step_every_second_witness:
  "\<exists>env st. state_after 100 plain_detail camera_setup None camera_steps = Some (env, st) \<and>
     step_times (fst st) = [2000000]"
proof -
  obtain env st where a: "state_after 100 plain_detail camera_setup None camera_steps = Some (env, st)"
      "eng_now (fst st) = 1500000"
    using camera_state by blast
  from physical_step_every_second[OF a(1)] a show ?thesis by auto
qed

end
