(* ===== verification/Tracing.thy ===== *)
theory Tracing
  imports Routing
begin

text \<open>
  Frame tracing (\<^verbatim>\<open>transport/tracing.py\<close>) with the runner's annotator
  (\<^verbatim>\<open>scenario/runner.py\<close>). A traced adapter is the wrapped one, two unlimited reassemblers that only observe, and the
  lines written so far. Python's \<^verbatim>\<open>repr\<close> of a value or of a message is an argument (\<open>tracer\<close>). The module says that
  tracing never raises; \<open>tracing_is_transparent\<close> proves it under a condition on the telemetry mappings, and
  \<open>tracing_can_raise\<close> shows that the condition is needed.
\<close>

section \<open>Text\<close>

fun hex_text :: "string \<Rightarrow> nat \<Rightarrow> string" where
  "hex_text digits n = (if n < 16 then [digits ! n] else hex_text digits (n div 16) @ [digits ! (n mod 16)])"

text \<open>The format \<^verbatim>\<open>{n:0wX}\<close>.\<close>

definition hex_padded :: "nat \<Rightarrow> int \<Rightarrow> string" where
  "hex_padded width n =
     (let sgn_text = (if n < 0 then ''-'' else ''''); body = hex_text ''0123456789ABCDEF'' (nat \<bar>n\<bar>)
      in sgn_text @ replicate (width - length sgn_text - length body) (CHR ''0'') @ body)"

definition can_id_hex :: "can_frame \<Rightarrow> string" where
  "can_id_hex frame = ''0x'' @ hex_padded 8 (fr_can_id frame)"

definition hex_byte :: "byte \<Rightarrow> string" where
  "hex_byte b = [''0123456789abcdef'' ! (unat b div 16), ''0123456789abcdef'' ! (unat b mod 16)]"

definition hex_or_dash :: "byte list \<Rightarrow> string" where
  "hex_or_dash bs = (if bs = [] then ''-'' else concat (map hex_byte bs))"

fun join_with :: "string \<Rightarrow> string list \<Rightarrow> string" where
  "join_with sep [] = ''''"
| "join_with sep [w] = w"
| "join_with sep (w # ws) = w @ sep @ join_with sep ws"

abbreviation join_words :: "string list \<Rightarrow> string" where
  "join_words \<equiv> join_with '' ''"

abbreviation num_part :: "string \<Rightarrow> int \<Rightarrow> string" where
  "num_part key n \<equiv> key @ int_str n"

section \<open>One trace line\<close>

text \<open>
  An annotator names the route of a packet, or raises an exception of the language. \<open>tc_error\<close> is
  \<^verbatim>\<open>repr(str(exc))\<close>.
\<close>

type_synonym annotator = "csp_fields \<Rightarrow> byte list \<Rightarrow> py_exn + string option"

record tracer =
  tc_error :: "csp_error \<Rightarrow> string"
  tc_annotate :: "annotator option"

datatype trace_error = TraceCodec csp_error | TraceUncaught py_exn

definition add_annotation ::
  "tracer \<Rightarrow> csp_fields \<Rightarrow> byte list \<Rightarrow> string list \<Rightarrow> trace_error + string list" where
  "add_annotation tr f payload parts =
     (case tc_annotate tr of
        None \<Rightarrow> Inr parts
      | Some annotate \<Rightarrow>
          map_sum TraceUncaught
            (\<lambda>note. case note of None \<Rightarrow> parts | Some t \<Rightarrow> if t = [] then parts else parts @ [t])
            (annotate f payload))"

definition header_parts :: "csp_fields \<Rightarrow> string list" where
  "header_parts f =
     [num_part ''pri='' (cf_priority f), num_part ''src='' (cf_source f), num_part ''dst='' (cf_destination f),
      num_part ''dport='' (cf_destination_port f), num_part ''sport='' (cf_source_port f),
      ''flags=0x'' @ hex_padded 2 (cf_flags f)]"

definition format_packet_line :: "tracer \<Rightarrow> string list \<Rightarrow> csp_packet_frame \<Rightarrow> trace_error + string" where
  "format_packet_line tr parts packet =
     map_sum id join_words
       (add_annotation tr (cp_fields packet) (cp_payload packet)
         (parts @ [if cp_wire packet = [] then ''link=local'' else ''link=serial''] @ header_parts (cp_fields packet) @
          [''data='' @ hex_or_dash (cp_wire packet), ''payload='' @ hex_or_dash (cp_payload packet)]))"

definition completed_parts :: "tracer \<Rightarrow> reassembly_event \<Rightarrow> string list \<Rightarrow> trace_error + string list" where
  "completed_parts tr event parts =
     (case event of
        EvComplete _ _ packet _ _ \<Rightarrow>
          add_annotation tr (dp_fields packet) (dp_payload packet)
            (parts @ [num_part ''frames='' (int (length (dp_frames packet))),
                      ''payload='' @ hex_or_dash (dp_payload packet)])
      | _ \<Rightarrow> Inr parts)"

text \<open>The parts before the data of a fragment, or the whole line of a first frame without a header.\<close>

definition fragment_parts :: "tracer \<Rightarrow> string list \<Rightarrow> can_frame \<Rightarrow> can_id_fields \<Rightarrow> string list + string list" where
  "fragment_parts tr parts frame c =
     (let parts = parts @
            [''cfp='' @ (if ci_begin c then ''begin'' else if ci_end c then ''end'' else ''more''),
             num_part ''pc='' (ci_packet_count c), num_part ''fc='' (ci_frame_count c)]
      in if ci_begin c
         then (case decode_first_frame_header frame of
                 Inl e \<Rightarrow> Inl (parts @ [''data='' @ hex_or_dash (fr_data frame), ''undecodable='' @ tc_error tr e])
               | Inr header \<Rightarrow> Inr (parts @ header_parts header))
         else Inr (parts @ [num_part ''dst='' (ci_destination c), num_part ''sender='' (ci_sender c)]))"

definition format_fragment_line ::
  "tracer \<Rightarrow> string list \<Rightarrow> can_frame \<Rightarrow> can_id_fields \<Rightarrow> int option \<Rightarrow> reassembler option
    \<Rightarrow> (trace_error + string) \<times> reassembler option" where
  "format_fragment_line tr parts frame c now observer =
     (case fragment_parts tr parts frame c of
        Inl whole \<Rightarrow> (Inr (join_words whole), observer)
      | Inr begun \<Rightarrow>
          let parts = begun @ [''data='' @ hex_or_dash (fr_data frame)]
          in case observer of
               None \<Rightarrow> (Inr (join_words parts), None)
             | Some r \<Rightarrow>
                 (case feed r frame (case now of None \<Rightarrow> 0 | Some t \<Rightarrow> t) of
                    Inl e \<Rightarrow> (Inl (TraceCodec e), observer)
                  | Inr (events, r1) \<Rightarrow>
                      (map_sum id join_words (res_fold (completed_parts tr) events parts), Some r1)))"

definition format_single_line :: "tracer \<Rightarrow> string list \<Rightarrow> can_frame \<Rightarrow> trace_error + string" where
  "format_single_line tr parts frame =
     (case decode_frame frame of
        Inl e \<Rightarrow> Inr (join_words (parts @ [''data='' @ hex_or_dash (fr_data frame), ''undecodable='' @ tc_error tr e]))
      | Inr packet \<Rightarrow>
          map_sum id join_words
            (add_annotation tr (dp_fields packet) (dp_payload packet)
              (parts @ header_parts (dp_fields packet) @
               [''data='' @ hex_or_dash (fr_data frame), ''payload='' @ hex_or_dash (dp_payload packet)])))"

datatype direction = TX | RX

definition direction_text :: "direction \<Rightarrow> string" where
  "direction_text d = (case d of TX \<Rightarrow> ''TX'' | RX \<Rightarrow> ''RX'')"

definition format_trace_line ::
  "tracer \<Rightarrow> direction \<Rightarrow> transport_envelope \<Rightarrow> int option \<Rightarrow> reassembler option
    \<Rightarrow> (trace_error + string) \<times> reassembler option" where
  "format_trace_line tr d envelope now observer =
     (let parts = [''trace''] @ (case now of None \<Rightarrow> [] | Some t \<Rightarrow> [num_part ''t='' t]) @ [direction_text d]
      in case env_frame envelope of
           PacketFrame packet \<Rightarrow> (format_packet_line tr parts packet, observer)
         | CanFrame frame \<Rightarrow>
             let parts = parts @ [''can_id=0x'' @ hex_padded 8 (fr_can_id frame),
                                  num_part ''dlc='' (int (frame_dlc frame))]
             in if fr_is_extended frame
                then (case decode_can_id (fr_can_id frame) of
                        Inl e \<Rightarrow> (Inl (TraceCodec e), observer)
                      | Inr c \<Rightarrow>
                          if \<not> (ci_begin c \<and> ci_end c)
                          then format_fragment_line tr parts frame c now observer
                          else (format_single_line tr parts frame, observer))
                else (format_single_line tr parts frame, observer))"

section \<open>The traced adapter\<close>

record 't traced =
  tw_inner :: 't
  tw_tx :: reassembler
  tw_rx :: reassembler
  tw_lines :: "string list"

datatype traced_error = TracedTransport transport_error | TracedRaise trace_error

definition mk_traced :: "'t \<Rightarrow> csp_error + 't traced" where
  "mk_traced inner =
     res_bind (mk_reassembler None 1000000) (\<lambda>r.
       Inr \<lparr>tw_inner = inner, tw_tx = r, tw_rx = r, tw_lines = []\<rparr>)"

definition trace_envelope ::
  "tracer \<Rightarrow> direction \<Rightarrow> int option \<Rightarrow> transport_envelope \<Rightarrow> 't traced \<Rightarrow> (trace_error + unit) \<times> 't traced" where
  "trace_envelope tr d now envelope st =
     (case format_trace_line tr d envelope now (Some (case d of TX \<Rightarrow> tw_tx st | RX \<Rightarrow> tw_rx st)) of
        (line, observer) \<Rightarrow>
          let st1 = (case observer of None \<Rightarrow> st
                     | Some r \<Rightarrow> (case d of TX \<Rightarrow> st\<lparr>tw_tx := r\<rparr> | RX \<Rightarrow> st\<lparr>tw_rx := r\<rparr>))
          in (case line of
                Inl e \<Rightarrow> (Inl e, st1)
              | Inr text_line \<Rightarrow> (Inr (), st1\<lparr>tw_lines := tw_lines st1 @ [text_line]\<rparr>)))"

definition traced_send ::
  "tracer \<Rightarrow> 't adapter_ops \<Rightarrow> int option \<Rightarrow> frame \<Rightarrow> endpoint_id option \<Rightarrow> 't traced
    \<Rightarrow> (traced_error + transport_envelope) \<times> 't traced" where
  "traced_send tr ops now fr source st =
     (case ad_send ops fr source (tw_inner st) of
        Inl e \<Rightarrow> (Inl (TracedTransport e), st)
      | Inr (envelope, inner) \<Rightarrow>
          (case trace_envelope tr TX now envelope (st\<lparr>tw_inner := inner\<rparr>) of
             (Inl e, st1) \<Rightarrow> (Inl (TracedRaise e), st1)
           | (Inr _, st1) \<Rightarrow> (Inr envelope, st1)))"

type_synonym 't receive_op = "endpoint_id option \<Rightarrow> 't \<Rightarrow> transport_error + transport_envelope option \<times> 't"

definition traced_receive ::
  "tracer \<Rightarrow> 't receive_op \<Rightarrow> int option \<Rightarrow> endpoint_id option \<Rightarrow> 't traced
    \<Rightarrow> (traced_error + transport_envelope option) \<times> 't traced" where
  "traced_receive tr receive now ep st =
     (case receive ep (tw_inner st) of
        Inl e \<Rightarrow> (Inl (TracedTransport e), st)
      | Inr (None, inner) \<Rightarrow> (Inr None, st\<lparr>tw_inner := inner\<rparr>)
      | Inr (Some envelope, inner) \<Rightarrow>
          (case trace_envelope tr RX now envelope (st\<lparr>tw_inner := inner\<rparr>) of
             (Inl e, st1) \<Rightarrow> (Inl (TracedRaise e), st1)
           | (Inr _, st1) \<Rightarrow> (Inr (Some envelope), st1)))"

definition traced_new_sender :: "'t adapter_ops \<Rightarrow> int \<Rightarrow> csp_error + packet_sender" where
  "traced_new_sender ops max_packet_bytes = ad_new_sender ops max_packet_bytes"

definition traced_take_drops :: "('t \<Rightarrow> 'd \<times> 't) \<Rightarrow> 't traced \<Rightarrow> 'd \<times> 't traced" where
  "traced_take_drops take_drops st =
     (case take_drops (tw_inner st) of (ds, inner) \<Rightarrow> (ds, st\<lparr>tw_inner := inner\<rparr>))"

section \<open>The runner's annotator\<close>

text \<open>\<open>rp_value\<close> is \<^verbatim>\<open>repr\<close> of a value, \<open>rp_codec\<close> that of a codec error's message.\<close>

record reprs =
  rp_value :: "py_val \<Rightarrow> string"
  rp_codec :: "telemetry_codec_error \<Rightarrow> string"

definition command_annotation :: "command_route \<Rightarrow> string" where
  "command_annotation route =
     ''command '' @ ro_source_node route @ ''.'' @ ro_command route @ ''->'' @ ro_target_node route"

definition telemetry_annotation ::
  "reprs \<Rightarrow> telemetry_route \<Rightarrow> telemetry_codec_error + py_val \<Rightarrow> py_exn + string" where
  "telemetry_annotation rp route decoded =
     (case decoded of
        Inl (TelUncaught e) \<Rightarrow> Inl e
      | Inl e \<Rightarrow> Inr (''telemetry '' @ tr_signal route @ '' undecodable='' @ rp_codec rp e)
      | Inr v \<Rightarrow> Inr (''telemetry '' @ tr_signal route @ ''='' @ rp_value rp v))"

definition annotation_text :: "reprs \<Rightarrow> packet_annotation \<Rightarrow> py_exn + string" where
  "annotation_text rp note =
     (case note of
        NoteCommand route \<Rightarrow> Inr (command_annotation route)
      | NoteAmbiguousCommand \<Rightarrow> Inr ''command ambiguous-route''
      | NoteTelemetry route decoded \<Rightarrow> telemetry_annotation rp route decoded
      | NoteAmbiguousTelemetry \<Rightarrow> Inr ''telemetry ambiguous-route''
      | NoteUnrouted \<Rightarrow> Inr ''unrouted'')"

definition frame_annotator :: "reprs \<Rightarrow> command_route list \<Rightarrow> telemetry_route list \<Rightarrow> annotator" where
  "frame_annotator rp commands telemetry f payload =
     map_sum id Some (annotation_text rp (annotate_packet commands telemetry f payload))"

section \<open>Tracing changes nothing\<close>

definition built_frame :: "frame \<Rightarrow> bool" where
  "built_frame fr \<longleftrightarrow>
     (case fr of CanFrame c \<Rightarrow> mk_can_frame (fr_can_id c) (fr_data c) (fr_is_extended c) = Inr c | _ \<Rightarrow> True)"

datatype bus_op = SendOp frame "endpoint_id option" | ReceiveOp "endpoint_id option"

datatype bus_out = Sent transport_envelope | Received "transport_envelope option" | Refused traced_error

definition plain_step ::
  "'t adapter_ops \<Rightarrow> 't receive_op \<Rightarrow> bus_op \<Rightarrow> 't \<Rightarrow> bus_out \<times> 't" where
  "plain_step ops receive x t =
     (case x of
        SendOp fr source \<Rightarrow>
          (case ad_send ops fr source t of
             Inl e \<Rightarrow> (Refused (TracedTransport e), t) | Inr (env, t1) \<Rightarrow> (Sent env, t1))
      | ReceiveOp ep \<Rightarrow>
          (case receive ep t of Inl e \<Rightarrow> (Refused (TracedTransport e), t) | Inr (r, t1) \<Rightarrow> (Received r, t1)))"

definition traced_step ::
  "tracer \<Rightarrow> 't adapter_ops \<Rightarrow> 't receive_op \<Rightarrow> int option \<times> bus_op \<Rightarrow> 't traced \<Rightarrow> bus_out \<times> 't traced" where
  "traced_step tr ops receive timed st =
     (case timed of (now, x) \<Rightarrow>
        (case x of
           SendOp fr source \<Rightarrow> map_prod (case_sum Refused Sent) id (traced_send tr ops now fr source st)
         | ReceiveOp ep \<Rightarrow> map_prod (case_sum Refused Received) id (traced_receive tr receive now ep st)))"

fun run_ops :: "('x \<Rightarrow> 's \<Rightarrow> bus_out \<times> 's) \<Rightarrow> 'x list \<Rightarrow> 's \<Rightarrow> bus_out list \<times> 's" where
  "run_ops step [] s = ([], s)"
| "run_ops step (x # xs) s =
     (case step x s of (r, s1) \<Rightarrow> (case run_ops step xs s1 of (rs, s2) \<Rightarrow> (r # rs, s2)))"

text \<open>A frame has crossed the adapter.\<close>

definition crossed :: "bus_out \<Rightarrow> bool" where
  "crossed r \<longleftrightarrow> (case r of Sent _ \<Rightarrow> True | Received env \<Rightarrow> env \<noteq> None | Refused _ \<Rightarrow> False)"

definition op_built :: "bus_op \<Rightarrow> bool" where
  "op_built x \<longleftrightarrow> (case x of SendOp fr _ \<Rightarrow> built_frame fr | ReceiveOp _ \<Rightarrow> True)"

definition quiet_annotator :: "tracer \<Rightarrow> bool" where
  "quiet_annotator tr \<longleftrightarrow>
     (case tc_annotate tr of None \<Rightarrow> True | Some annotate \<Rightarrow> \<forall>f payload. is_ok (annotate f payload))"

lemma is_ok_map_sum [simp]: "is_ok (map_sum f g r) \<longleftrightarrow> is_ok r"
  by (cases r) auto

lemma add_annotation_quiet: "quiet_annotator tr \<Longrightarrow> is_ok (add_annotation tr f payload parts)"
  by (cases "tc_annotate tr") (simp_all add: add_annotation_def quiet_annotator_def)

lemma completed_parts_quiet: "quiet_annotator tr \<Longrightarrow> is_ok (completed_parts tr ev parts)"
  by (cases ev) (auto simp: completed_parts_def add_annotation_quiet)

lemma res_fold_ok: "(\<And>x s. is_ok (f x s)) \<Longrightarrow> is_ok (res_fold f xs s)"
proof (induction xs arbitrary: s)
  case (Cons x xs)
  obtain s1 where "f x s = Inr s1" using Cons.prems[of x s] by (auto simp: is_ok_conv)
  then show ?case using Cons by simp
qed simp

lemma format_fragment_line_ok:
  assumes "quiet_annotator tr"
  shows "is_ok (fst (format_fragment_line tr parts frame c now observer))"
proof (cases "fragment_parts tr parts frame c")
  case (Inl whole)
  then show ?thesis by (auto simp: format_fragment_line_def)
next
  case (Inr begun)
  show ?thesis
  proof (cases observer)
    case None
    then show ?thesis using Inr by (simp add: format_fragment_line_def)
  next
    case (Some r)
    obtain evs r1 where "feed r frame (case now of None \<Rightarrow> 0 | Some t \<Rightarrow> t) = Inr (evs, r1)"
      using feed_total by blast
    then show ?thesis using Inr Some res_fold_ok[OF completed_parts_quiet[OF assms]]
      by (simp add: format_fragment_line_def)
  qed
qed
lemma format_trace_line_ok:
  assumes "quiet_annotator tr" "built_frame (env_frame env)"
  shows "is_ok (fst (format_trace_line tr d env now observer))"
proof (cases "env_frame env")
  case (PacketFrame packet)
  then show ?thesis using add_annotation_quiet[OF assms(1)]
    by (simp add: format_trace_line_def format_packet_line_def)
next
  case (CanFrame frame)
  have single: "is_ok (format_single_line tr parts frame)" for parts
    using add_annotation_quiet[OF assms(1)] by (simp add: format_single_line_def split: sum.splits)
  show ?thesis
  proof (cases "fr_is_extended frame")
    case True
    then obtain c where "decode_can_id (fr_can_id frame) = Inr c"
      using assms(2) CanFrame
      by (auto simp: built_frame_def mk_can_frame_eq_Inr wf_can_frame_def decode_can_id_def validate_uint_ok unpack_can_id_total)
    then show ?thesis using True CanFrame single format_fragment_line_ok[OF assms(1)]
      by (simp add: format_trace_line_def Let_def)
  next
    case False
    then show ?thesis using CanFrame single by (simp add: format_trace_line_def)
  qed
qed

lemma trace_envelope_ok:
  assumes "quiet_annotator tr" "built_frame (env_frame env)"
  shows "\<exists>line tx rx. trace_envelope tr d now env st =
     (Inr (), st\<lparr>tw_tx := tx, tw_rx := rx, tw_lines := tw_lines st @ [line]\<rparr>)"
proof -
  let ?o = "Some (case d of TX \<Rightarrow> tw_tx st | RX \<Rightarrow> tw_rx st)"
  obtain line observer where l: "format_trace_line tr d env now ?o = (Inr line, observer)"
    using format_trace_line_ok[OF assms, of d now ?o]
    by (cases "format_trace_line tr d env now ?o") (auto simp: is_ok_conv)
  show ?thesis
  proof (cases observer)
    case None
    then show ?thesis using l by (intro exI[of _ line] exI[of _ "tw_tx st"] exI[of _ "tw_rx st"])
      (simp add: trace_envelope_def)
  next
    case (Some r)
    show ?thesis
    proof (cases d)
      case TX
      then show ?thesis using l Some by (intro exI[of _ line] exI[of _ r] exI[of _ "tw_rx st"])
        (simp add: trace_envelope_def)
    next
      case RX
      then show ?thesis using l Some by (intro exI[of _ line] exI[of _ "tw_tx st"] exI[of _ r])
        (simp add: trace_envelope_def)
    qed
  qed
qed

locale frame_carrier =
  fixes ops :: "'t adapter_ops" and receive :: "'t receive_op" and good :: "'t \<Rightarrow> bool"
  assumes send_good: "good t \<Longrightarrow> built_frame fr \<Longrightarrow> ad_send ops fr source t = Inr (env, t1) \<Longrightarrow>
      good t1 \<and> built_frame (env_frame env)"
    and receive_good: "good t \<Longrightarrow> receive ep t = Inr (r, t1) \<Longrightarrow>
      good t1 \<and> (\<forall>env. r = Some env \<longrightarrow> built_frame (env_frame env))"
begin

lemma traced_step_same:
  assumes "quiet_annotator tr" "good (tw_inner st)" "op_built x"
  shows "\<exists>st1. traced_step tr ops receive (now, x) st = (fst (plain_step ops receive x (tw_inner st)), st1) \<and>
     tw_inner st1 = snd (plain_step ops receive x (tw_inner st)) \<and> good (tw_inner st1) \<and>
     length (tw_lines st1) = length (tw_lines st) + of_bool (crossed (fst (plain_step ops receive x (tw_inner st))))"
proof (cases x)
  case (SendOp fr source)
  show ?thesis
  proof (cases "ad_send ops fr source (tw_inner st)")
    case (Inl e)
    then show ?thesis using SendOp assms(2)
      by (simp add: traced_step_def plain_step_def traced_send_def crossed_def)
  next
    case (Inr p)
    obtain env t1 where p: "p = (env, t1)" by (cases p)
    have g: "good t1" "built_frame (env_frame env)"
      using send_good[OF assms(2) _ Inr[unfolded p]] assms(3) SendOp by (auto simp: op_built_def)
    obtain line tx rx where "trace_envelope tr TX now env (st\<lparr>tw_inner := t1\<rparr>) =
        (Inr (), st\<lparr>tw_inner := t1, tw_tx := tx, tw_rx := rx, tw_lines := tw_lines st @ [line]\<rparr>)"
      using trace_envelope_ok[OF assms(1), of env TX now "st\<lparr>tw_inner := t1\<rparr>"] g(2) by auto
    then show ?thesis using SendOp Inr p g(1)
      by (simp add: traced_step_def plain_step_def traced_send_def crossed_def)
  qed
next
  case (ReceiveOp ep)
  show ?thesis
  proof (cases "receive ep (tw_inner st)")
    case (Inl e)
    then show ?thesis using ReceiveOp assms(2)
      by (simp add: traced_step_def plain_step_def traced_receive_def crossed_def)
  next
    case (Inr p)
    obtain r t1 where p: "p = (r, t1)" by (cases p)
    note g = receive_good[OF assms(2) Inr[unfolded p]]
    show ?thesis
    proof (cases r)
      case None
      then show ?thesis using ReceiveOp Inr p g
        by (simp add: traced_step_def plain_step_def traced_receive_def crossed_def)
    next
      case (Some env)
      obtain line tx rx where "trace_envelope tr RX now env (st\<lparr>tw_inner := t1\<rparr>) =
          (Inr (), st\<lparr>tw_inner := t1, tw_tx := tx, tw_rx := rx, tw_lines := tw_lines st @ [line]\<rparr>)"
        using trace_envelope_ok[OF assms(1), of env RX now "st\<lparr>tw_inner := t1\<rparr>"] g Some by auto
      then show ?thesis using ReceiveOp Inr p g Some
        by (simp add: traced_step_def plain_step_def traced_receive_def crossed_def)
    qed
  qed
qed

lemma traced_run_same:
  assumes "quiet_annotator tr" "good (tw_inner st)" "\<forall>(now, x) \<in> set timed. op_built x"
  shows "\<exists>st1. run_ops (traced_step tr ops receive) timed st =
       (fst (run_ops (plain_step ops receive) (map snd timed) (tw_inner st)), st1) \<and>
     tw_inner st1 = snd (run_ops (plain_step ops receive) (map snd timed) (tw_inner st)) \<and>
     length (tw_lines st1) = length (tw_lines st) +
       length (filter crossed (fst (run_ops (plain_step ops receive) (map snd timed) (tw_inner st))))"
  using assms(2,3)
proof (induction timed arbitrary: st)
  case (Cons o1 rest)
  obtain now x where o1: "o1 = (now, x)" by (cases o1)
  obtain st1 where s: "traced_step tr ops receive (now, x) st = (fst (plain_step ops receive x (tw_inner st)), st1)"
      "tw_inner st1 = snd (plain_step ops receive x (tw_inner st))" "good (tw_inner st1)"
      "length (tw_lines st1) = length (tw_lines st) + of_bool (crossed (fst (plain_step ops receive x (tw_inner st))))"
    using traced_step_same[OF assms(1) Cons.prems(1), of x now] Cons.prems(2) o1 by auto
  then obtain st2 where "run_ops (traced_step tr ops receive) rest st1 =
       (fst (run_ops (plain_step ops receive) (map snd rest) (tw_inner st1)), st2)"
     "tw_inner st2 = snd (run_ops (plain_step ops receive) (map snd rest) (tw_inner st1))"
     "length (tw_lines st2) = length (tw_lines st1) +
       length (filter crossed (fst (run_ops (plain_step ops receive) (map snd rest) (tw_inner st1))))"
    using Cons.IH[OF s(3)] Cons.prems(2) by auto
  then show ?case using s o1
    by (cases "plain_step ops receive x (tw_inner st)")
      (auto split: prod.splits)
qed simp

end

section \<open>The bus and the serial adapter carry frames as built\<close>

definition bus_good :: "in_memory_bus \<Rightarrow> bool" where
  "bus_good bus \<longleftrightarrow>
     (\<forall>env \<in> set (bus_monitor bus). built_frame (env_frame env)) \<and>
     (\<forall>(ep, q) \<in> set (bus_queues bus). \<forall>env \<in> set q. built_frame (env_frame env))"

lemma bus_good_send:
  assumes "bus_good bus" "built_frame fr" "bus_send fr source bus = Inr (env, bus1)"
  shows "bus_good bus1 \<and> built_frame (env_frame env)"
proof -
  obtain source' where e: "env = \<lparr>env_frame = fr, env_sequence = bus_next_sequence bus, env_source = source'\<rparr>"
      "bus_monitor bus1 = bus_monitor bus @ [env]"
      "bus_queues bus1 = map (\<lambda>(ep, q). (ep, if Some ep \<noteq> source' then q @ [env] else q)) (bus_queues bus)"
    using assms(3) by (auto simp: bus_send_def res_bind_eq_Inr Let_def)
  then show ?thesis using assms(1,2) by (fastforce simp: bus_good_def split: if_splits)
qed

lemma bus_queue_good:
  assumes "bus_good bus" "bus_queue_for ep bus = Inr q"
  shows "\<forall>env \<in> set q. built_frame (env_frame env)"
proof (cases ep)
  case None
  then show ?thesis using assms by (simp add: bus_good_def bus_queue_for_def)
next
  case (Some e)
  then obtain e' where "map_of (bus_queues bus) e' = Some q"
    using assms(2) by (auto simp: bus_queue_for_def res_bind_eq_Inr split: option.splits)
  then have "(e', q) \<in> set (bus_queues bus)" by (rule map_of_SomeD)
  then show ?thesis using assms(1) by (auto simp: bus_good_def)
qed

lemma bus_good_set_queue:
  assumes "bus_good bus" "\<forall>env \<in> set q. built_frame (env_frame env)"
  shows "bus_good (bus_set_queue ep q bus)"
proof (cases ep)
  case None
  then show ?thesis using assms by (simp add: bus_good_def bus_set_queue_def)
next
  case (Some e)
  have "set (AList.update e q (bus_queues bus)) \<subseteq> insert (e, q) (set (bus_queues bus))"
    by (rule set_update_subset)
  then show ?thesis using assms Some by (fastforce simp: bus_good_def bus_set_queue_def)
qed

lemma bus_good_receive:
  assumes "bus_good bus" "bus_receive ep bus = Inr (r, bus1)"
  shows "bus_good bus1 \<and> (\<forall>env. r = Some env \<longrightarrow> built_frame (env_frame env))"
proof -
  obtain q where q: "bus_queue_for ep bus = Inr q"
      "(case q of [] \<Rightarrow> Inr (None, bus) | env # rest \<Rightarrow> Inr (Some env, bus_set_queue ep rest bus)) =
       (Inr (r, bus1) :: transport_error + transport_envelope option \<times> in_memory_bus)"
    using assms(2) by (auto simp: bus_receive_def res_bind_eq_Inr)
  note good = bus_queue_good[OF assms(1) q(1)]
  show ?thesis
  proof (cases q)
    case Nil
    then show ?thesis using q(2) assms(1) by auto
  next
    case (Cons env rest)
    then have "r = Some env" "bus1 = bus_set_queue ep rest bus" using q(2) by auto
    then show ?thesis using good bus_good_set_queue[OF assms(1), of rest ep] Cons by simp
  qed
qed

interpretation bus_carrier: frame_carrier bus_adapter bus_receive bus_good
  by unfold_locales (auto simp: bus_adapter_def dest: bus_good_send bus_good_receive)

lemma bus_good_mk: "mk_bus eps = Inr bus \<Longrightarrow> bus_good bus"
proof -
  have steps: "bus_good b1" if "res_fold bus_connect eps b = Inr b1" "bus_good b" for b b1
    using that
  proof (induction eps arbitrary: b)
    case (Cons ep eps)
    obtain b2 where b2: "bus_connect ep b = Inr b2" "res_fold bus_connect eps b2 = Inr b1"
      using Cons.prems(1) by (auto simp: res_bind_eq_Inr)
    have "b2 = bus_set_queue (Some ep) [] b"
      using b2(1) by (auto simp: bus_connect_def res_bind_eq_Inr bus_set_queue_def dest: validate_endpoint_Inr)
    then have "bus_good b2" using bus_good_set_queue[OF Cons.prems(2)] by simp
    then show ?case using Cons.IH b2(2) by blast
  qed simp
  have "bus_good empty_bus" by (simp add: empty_bus_def bus_good_def)
  then show "mk_bus eps = Inr bus \<Longrightarrow> bus_good bus" unfolding mk_bus_def by (rule steps[rotated])
qed

section \<open>The runner's annotator on quiet mappings\<close>

definition decodes_quietly :: "telemetry_route \<Rightarrow> bool" where
  "decodes_quietly r \<longleftrightarrow>
     (\<forall>payload e. decode_telemetry_value (tr_field_name r) (tr_mapping r) payload \<noteq> Inl (TelUncaught e))"

lemma hd_filter_in: "length (filter P xs) = Suc 0 \<Longrightarrow> hd (filter P xs) \<in> set xs"
  by (metis filter_is_subset hd_in_set in_mono length_0_conv n_not_Suc_n)

lemma annotate_packet_telemetry:
  "annotate_packet commands telemetry f payload = NoteTelemetry r v \<Longrightarrow>
     r \<in> set telemetry \<and> v = decode_telemetry_value (tr_field_name r) (tr_mapping r) payload"
  unfolding annotate_packet_def Let_def
  by (auto split: if_splits intro: hd_filter_in)

lemma telemetry_annotation_ok:
  "\<forall>e. v \<noteq> Inl (TelUncaught e) \<Longrightarrow> is_ok (telemetry_annotation rp r v)"
  by (auto simp: telemetry_annotation_def split: sum.splits telemetry_codec_error.splits)

lemma frame_annotator_quiet:
  assumes "\<forall>r \<in> set telemetry. decodes_quietly r"
  shows "quiet_annotator \<lparr>tc_error = err, tc_annotate = Some (frame_annotator rp commands telemetry)\<rparr>"
proof -
  have "is_ok (annotation_text rp (annotate_packet commands telemetry f payload))" for f payload
  proof (cases "annotate_packet commands telemetry f payload")
    case (NoteTelemetry r v)
    then show ?thesis using annotate_packet_telemetry[OF NoteTelemetry] assms telemetry_annotation_ok
      by (simp add: annotation_text_def decodes_quietly_def)
  qed (simp_all add: annotation_text_def)
  then show ?thesis by (simp add: quiet_annotator_def frame_annotator_def)
qed

lemma plain_decodes_quietly:
  assumes "signal_field_for_mapping name m = Inr f" "fl_wf (tm_scale m)" "fl_wf (tm_offset_value m)"
    and "sf_plain f" "sf_data_type f \<noteq> SIG_FLOAT"
  shows "decode_telemetry_value name m payload \<noteq> Inl (TelUncaught e)"
proof -
  obtain l where l: "mk_signal_layout [f] None = Inr l"
    using single_layout signal_field_for_mapping_wf[OF assms(1-3)] by blast
  then have l': "l = \<lparr>sl_fields = [f], sl_frame_length = None\<rparr>"
    by (auto simp: mk_signal_layout_def res_bind_eq_Inr)
  obtain n where raw: "is_ok (unpack_value f payload) \<Longrightarrow> unpack_value f payload = Inr (PInt n)"
    using assms(4,5) by (auto simp: unpack_value_def unpack_integer_def Let_def res_check_eq_Inr is_ok_conv res_bind_eq_Inr)
  have out: "layout_unpack l payload = Inr [(sf_name f, PInt n)] \<or>
      (\<exists>x. layout_unpack l payload = Inl x \<and> is_signal_codec_error x)"
    using assms(4,5) raw
    by (cases "unpack_value f payload")
      (auto simp: l' layout_unpack_def unpack_value_def unpack_integer_def Let_def res_check_def
        is_signal_codec_error_def split: if_splits)
  have "tel_from_raw name m (PInt n) \<noteq> Inl (TelUncaught e)"
    by (auto simp: tel_from_raw_def split: option.splits)
  moreover have "sf_name f = name" using signal_field_for_mapping_wf[OF assms(1-3)] by simp
  ultimately have good: ?thesis if "layout_unpack l payload = Inr [(sf_name f, PInt n)]"
    using that by (simp add: decode_telemetry_value_def assms(1) l)
  have bad: ?thesis if "layout_unpack l payload = Inl x" "is_signal_codec_error x" for x
    using that by (cases x) (simp_all add: decode_telemetry_value_def assms(1) l is_signal_codec_error_def)
  from out show ?thesis using good bad by blast
qed

text \<open>A telemetry route, a frame it sends, and a trace of it over the bus.\<close>

definition demo_route :: "telemetry_mapping \<Rightarrow> telemetry_route" where
  "demo_route m = \<lparr>tr_signal = ''eps.telemetry.power'', tr_node_name = ''eps'', tr_field_name = ''power'',
     tr_source_address = 5, tr_destination_address = 5, tr_destination_port = 2, tr_source_port = 1,
     tr_priority = 2, tr_flags = 0, tr_mapping = m\<rparr>"

definition demo_frame :: "byte list \<Rightarrow> can_frame" where
  "demo_frame payload = projr (pack \<lparr>cf_priority = 2, cf_source = 5, cf_destination = 5,
     cf_destination_port = 2, cf_source_port = 1, cf_flags = 0\<rparr> payload None 0)"

definition plain_reprs :: reprs where
  "plain_reprs = \<lparr>rp_value = (\<lambda>_. ''value''), rp_codec = (\<lambda>_. ''message'')\<rparr>"

definition demo_tracer :: "telemetry_mapping \<Rightarrow> tracer" where
  "demo_tracer m = \<lparr>tc_error = (\<lambda>_. ''message''), tc_annotate = Some (frame_annotator plain_reprs [] [demo_route m])\<rparr>"

lemma demo_route_quiet: "decodes_quietly (demo_route SignalCodec.demo_mapping)"
proof -
  obtain f where f: "signal_field_for_mapping ''power'' SignalCodec.demo_mapping = Inr f" "sf_plain f" "sf_data_type f \<noteq> SIG_FLOAT"
  proof -
    have "case signal_field_for_mapping ''power'' SignalCodec.demo_mapping of Inl _ \<Rightarrow> False
        | Inr f \<Rightarrow> sf_plain f \<and> sf_data_type f \<noteq> SIG_FLOAT" by code_simp
    then show ?thesis using that by (auto split: sum.splits)
  qed
  show ?thesis
    using plain_decodes_quietly[OF f(1) _ _ f(2,3)] demo_mapping_ok(5,6)
    by (simp add: decodes_quietly_def demo_route_def)
qed

text \<open>
  C18: Tracing observes without interfering. Wrap the in-memory bus in a tracing adapter with the runner's
  annotator, and let no telemetry mapping decode to an exception of the language. Then any sequence of sends and
  receives gives the same results, exceptions included, and leaves the bus in the same state as without
  tracing, and exactly one line is written for each frame that crossed.
\<close>

theorem tracing_is_transparent:
  assumes "mk_bus endpoints = Inr bus" "mk_traced bus = Inr st" "\<forall>r \<in> set telemetry. decodes_quietly r"
    and "\<forall>(now, x) \<in> set timed. op_built x"
    and "tr = \<lparr>tc_error = err, tc_annotate = Some (frame_annotator rp commands telemetry)\<rparr>"
  shows "\<exists>outs bus1 st1. run_ops (traced_step tr bus_adapter bus_receive) timed st = (outs, st1) \<and>
     run_ops (plain_step bus_adapter bus_receive) (map snd timed) bus = (outs, bus1) \<and>
     tw_inner st1 = bus1 \<and> length (tw_lines st1) = length (filter crossed outs)"
proof -
  have st: "tw_inner st = bus" "tw_lines st = []"
    using assms(2) by (auto simp: mk_traced_def res_bind_eq_Inr)
  show ?thesis
    using bus_carrier.traced_run_same[OF frame_annotator_quiet[OF assms(3)], of st timed err rp commands]
      bus_good_mk[OF assms(1)] assms(4,5) st
    by (cases "run_ops (plain_step bus_adapter bus_receive) (map snd timed) bus") auto
qed

lemma tracing_is_transparent_witness:
  "\<exists>bus st st1 env.
     mk_bus [EpNumber 5] = Inr bus \<and> mk_traced bus = Inr st \<and>
     run_ops (traced_step (demo_tracer SignalCodec.demo_mapping) bus_adapter bus_receive)
       [(Some 0, SendOp (CanFrame (demo_frame [1])) None), (Some 3, ReceiveOp None)] st =
       ([Sent env, Received (Some env)], st1) \<and>
     length (tw_lines st1) = 2"
proof -
  let ?ops = "[(Some 0, SendOp (CanFrame (demo_frame [1])) None), (Some 3, ReceiveOp None)] :: (int option \<times> bus_op) list"
  let ?env = "\<lparr>env_frame = CanFrame (demo_frame [1]), env_sequence = 0, env_source = None\<rparr>"
  obtain bus where bus: "mk_bus [EpNumber 5] = Inr bus" "bus_monitor bus = []" "bus_next_sequence bus = 0"
    by (simp add: mk_bus_def bus_connect_def validate_endpoint_def empty_bus_def res_check_def)
  obtain st where st: "mk_traced bus = Inr st"
    by (simp add: mk_traced_def mk_reassembler_def validate_uint_ok)
  have built: "op_built (SendOp (CanFrame (demo_frame [1])) None)" by code_simp
  have plain: "fst (run_ops (plain_step bus_adapter bus_receive) (map snd ?ops) bus) = [Sent ?env, Received (Some ?env)]"
    using bus(2,3) by (simp add: plain_step_def bus_adapter_def bus_send_def bus_receive_def bus_queue_for_def Let_def)
  show ?thesis
    using tracing_is_transparent[OF bus(1) st, of "[demo_route SignalCodec.demo_mapping]" ?ops "demo_tracer SignalCodec.demo_mapping"
        "\<lambda>_. ''message''" plain_reprs "[]"] demo_route_quiet built plain bus(1) st
    by (auto simp: demo_tracer_def op_built_def crossed_def)
qed

text \<open>A label table on a scaled integer: a byte that scales beyond the float range has no label to look up.\<close>

definition steep_mapping :: telemetry_mapping where
  "steep_mapping = SignalCodec.demo_mapping\<lparr>tm_scale := FFin False (2 ^ 1023)\<rparr>"

lemma steep_overflows:
  "fl_add (fl_mul (FFin False 2) (FFin False (2 ^ 1023))) FL_ZERO = FInf False"
proof -
  have "fl_round 53 (- 1074) (2 ^ 1024) = 2 ^ 1024"
    by (rule fl_round_grid_id'[of 53 1 _ 1024]) simp_all
  then show ?thesis by (simp add: fl64_def fl_limit_def)
qed

lemma steep_field:
  "signal_field_for_mapping ''power'' steep_mapping = Inr \<lparr>sf_name = ''power'', sf_byte_offset = 0,
     sf_byte_length = 1, sf_data_type = SIG_UINT, sf_endian = SIG_BIG, sf_scale = FFin False (2 ^ 1023),
     sf_offset = FL_ZERO, sf_units = None, sf_min = None, sf_max = None\<rparr>"
  by code_simp

lemma steep_decode: "decode_telemetry_value ''power'' steep_mapping [2] = Inl (TelUncaught PyOverflow)"
proof -
  define S where "S = FFin False (2 ^ 1023)"
  have over: "fl_add (fl_mul (FFin False 2) S) FL_ZERO = FInf False"
    using steep_overflows unfolding S_def .
  obtain f where f: "signal_field_for_mapping ''power'' steep_mapping = Inr f" "sf_name f = ''power''"
      "sf_byte_offset f = 0" "sf_byte_length f = 1" "sf_data_type f = SIG_UINT" "sf_endian f = SIG_BIG"
      "sf_scale f = S" "sf_offset f = FL_ZERO"
    using steep_field unfolding S_def by simp
  have plain: "\<not> sf_plain f" by (simp add: sf_plain_def f S_def sgn_mag_def)
  have layout: "mk_signal_layout [f] None = Inr \<lparr>sl_fields = [f], sl_frame_length = None\<rparr>"
    by (simp add: f mk_signal_layout_def validate_non_overlapping_def occupy_def sf_end_byte_def)
  have "int_to_float 2 = Inr (FFin False 2)" "int_of_bytes SIG_BIG False [2] = 2" by code_simp+
  then have "unpack_value f [2] = Inr (PFloat (FInf False))"
    using plain over
    by (simp add: f unpack_value_def sf_end_byte_def unpack_integer_def sf_signed_def lift_exn_def)
  then have "layout_unpack \<lparr>sl_fields = [f], sl_frame_length = None\<rparr> [2] = Inr [(''power'', PFloat (FInf False))]"
    by (simp add: layout_unpack_def required_length_def sf_end_byte_def f)
  moreover have "tel_from_raw ''power'' steep_mapping (PFloat (FInf False)) = Inl (TelUncaught PyOverflow)"
    by (simp add: tel_from_raw_def steep_mapping_def demo_mapping_ok)
  ultimately show ?thesis by (simp add: decode_telemetry_value_def f layout)
qed

text \<open>
  C38: The condition on the mappings is needed: the module documents that tracing never raises, but a mapping
  the configuration accepts makes it raise on a frame from the bus. The decoded value is infinite, and
  converting it to an integer raises an exception the annotator does not catch.
\<close>

theorem tracing_can_raise:
  "is_ok (check_telemetry_mapping steep_mapping) \<and>
   fst (format_trace_line (demo_tracer steep_mapping) RX
     \<lparr>env_frame = CanFrame (demo_frame [2]), env_sequence = 0, env_source = None\<rparr> (Some 0) None)
   = Inl (TraceUncaught PyOverflow)"
proof
  show "is_ok (check_telemetry_mapping steep_mapping)" by code_simp
  define fs where "fs = \<lparr>cf_priority = 2, cf_source = 5, cf_destination = 5, cf_destination_port = 2,
    cf_source_port = 1, cf_flags = 0\<rparr>"
  have frame: "fr_is_extended (demo_frame [2]) \<and> is_ok (decode_can_id (fr_can_id (demo_frame [2]))) \<and>
      ci_begin (projr (decode_can_id (fr_can_id (demo_frame [2])))) \<and>
      ci_end (projr (decode_can_id (fr_can_id (demo_frame [2]))))"
    by code_simp
  then obtain c where c: "decode_can_id (fr_can_id (demo_frame [2])) = Inr c" "ci_begin c" "ci_end c"
    by (auto simp: is_ok_conv)
  have "case decode_frame (demo_frame [2]) of Inl _ \<Rightarrow> False
      | Inr p \<Rightarrow> dp_fields p = \<lparr>cf_priority = 2, cf_source = 5, cf_destination = 5, cf_destination_port = 2,
          cf_source_port = 1, cf_flags = 0\<rparr> \<and> dp_payload p = [2]"
    by code_simp
  then obtain p where p: "decode_frame (demo_frame [2]) = Inr p" "dp_fields p = fs" "dp_payload p = [2]"
    by (auto simp: fs_def split: sum.splits)
  have "annotate_packet [] [demo_route steep_mapping] fs [2] =
      NoteTelemetry (demo_route steep_mapping) (Inl (TelUncaught PyOverflow))"
    using steep_decode
    by (simp add: annotate_packet_def demo_route_def fs_def telemetry_key_def packet_key_def)
  then show "fst (format_trace_line (demo_tracer steep_mapping) RX
     \<lparr>env_frame = CanFrame (demo_frame [2]), env_sequence = 0, env_source = None\<rparr> (Some 0) None)
   = Inl (TraceUncaught PyOverflow)"
    using frame c p
    by (simp add: format_trace_line_def Let_def format_single_line_def add_annotation_def demo_tracer_def
        frame_annotator_def annotation_text_def telemetry_annotation_def)
qed

end
