(* ===== verification/TelemetryPath.thy ===== *)
theory TelemetryPath
  imports BuiltIn Tracing
begin

text \<open>
  One telemetry value from a module to the runner's cache. The sender cuts the encoded value into frames, the bus
  carries them, the destination's reassembler puts them together, the route of the packet gives the signal,
  the decoded value becomes a telemetry event, and the runner's handler stores it. The lemmas follow
  these stages; \<open>telemetry_reaches_cache\<close> composes them for a runtime of the shipped modules.
\<close>

section \<open>The frames of a packet\<close>

lemma fragment_destination:
  assumes "wf_csp_fields f" "fragment_packet f payload sender pc = Inr cfs" "fr \<in> set cfs"
  shows "fr_is_extended fr \<and> (\<exists>c. decode_can_id (fr_can_id fr) = Inr c \<and> ci_destination c = cf_destination f)"
proof -
  note d = fragment_packet_InrD[OF assms(2)]
  let ?s = "sender_or_default f sender"
  have s: "?s \<in> {0..0x3F}" using d valid_sender_range by blast
  obtain n i where id: "fr_can_id fr = pack_can_id (fragment_can_fields f ?s pc n i)" "fr_is_extended fr"
    using assms(2,3) d fragment_packet_eq[OF assms(1), of sender pc payload]
    by (auto simp: fragment_frames_def)
  then have "decode_can_id (fr_can_id fr) = Inr (fragment_can_fields f ?s pc n i)"
    using wf_fragment_can_fields[OF assms(1) s, of pc n i] d
    by (simp add: decode_can_id_def unpack_pack_can_id pack_can_id_range validate_uint_ok)
  then show ?thesis using id by (simp add: fragment_can_fields_def)
qed

definition arrivals :: "reassembly_event list \<Rightarrow> (csp_fields \<times> byte list) list" where
  "arrivals evs = List.map_filter cfp_delivered evs"

definition only_packet :: "csp_fields \<Rightarrow> byte list \<Rightarrow> reassembly_event \<Rightarrow> bool" where
  "only_packet f payload ev \<longleftrightarrow>
     (case ev of
        EvDropped _ _ _ _ _ _ _ \<Rightarrow> False
      | EvPending _ _ _ _ \<Rightarrow> True
      | EvComplete _ _ packet _ _ \<Rightarrow> dp_fields packet = f \<and> dp_payload packet = payload)"

lemma arrivals_simps [simp]:
  "arrivals [] = []" "arrivals (evs @ evs') = arrivals evs @ arrivals evs'"
  "arrivals (EvComplete t fr packet s d # evs) = (dp_fields packet, dp_payload packet) # arrivals evs"
  "arrivals (EvPending t' fr' s' d' # evs) = arrivals evs"
  by (simp_all add: arrivals_def map_filter_append List.map_filter_simps cfp_delivered_def)

lemma idle_feed_events:
  assumes "wf_csp_fields f" "fragment_packet f payload sender pc = Inr cfs" "length ts = length cfs"
    and "ra_partials r = []" "over_limit r (length payload) = None"
  shows "\<exists>evs. feed_all r (zip cfs ts) = Inr (evs, r) \<and> arrivals evs = [(f, payload)] \<and>
     (\<forall>ev \<in> set evs. only_packet f payload ev)"
proof -
  have idle: "expire r t = ([], r)" for t using assms(4) by (simp add: expire_def)
  have "only_packet f payload (pending_event x)" for x
    by (cases x) (simp add: only_packet_def pending_event_def)
  then show ?thesis
    using feed_all_fragments[OF assms(1-3) _ _ assms(5)] assms(4) idle map_filter_pending
    by (auto simp: arrivals_def map_filter_append cfp_delivered_def complete_event_def List.map_filter_simps
        only_packet_def)
qed

section \<open>A telemetry event now\<close>

definition telemetry_item :: "telemetry_route \<Rightarrow> py_val \<Rightarrow> 'h engine \<Rightarrow> 'h queued_event" where
  "telemetry_item r w e =
     (let ev = \<lparr>ev_time = eng_now e, ev_sequence = eng_next_sequence e, ev_kind = TELEMETRY,
                ev_payload = TelemetryPayload \<lparr>tlm_signal = tr_signal r, tlm_value = w,
                  tlm_source = Some (EpName (tr_node_name r))\<rparr>\<rparr>
      in \<lparr>qe_time = eng_now e, qe_sequence = eng_next_sequence e, qe_event = ev, qe_handler = None\<rparr>)"

definition telemetry_queued :: "telemetry_route \<Rightarrow> py_val \<Rightarrow> 'h engine \<Rightarrow> 'h engine" where
  "telemetry_queued r w e =
     e\<lparr>eng_next_sequence := eng_next_sequence e + 1,
       eng_queue := insort_key qe_key (telemetry_item r w e) (eng_queue e)\<rparr>"

lemma telemetry_queued_now [simp]: "eng_now (telemetry_queued r w e) = eng_now e"
  by (simp add: telemetry_queued_def)

lemma deliver_telemetry_queues:
  assumes "decode_telemetry_value (tr_field_name r) (tr_mapping r) payload = Inr w" "str_strip (tr_signal r) \<noteq> []"
    and "0 \<le> eng_now e"
  shows "deliver_telemetry r payload (e, rs) = (Inr (), (telemetry_queued r w e, rs))"
  using assms
  by (simp add: deliver_telemetry_def act_defs on_engine_def schedule_telemetry_def schedule_payload_def
      schedule_after_def schedule_at_def mk_telemetry_payload_def check_non_empty_str_def check_virtual_time_def
      coerce_event_kind_def telemetry_queued_def telemetry_item_def Let_def)

lemma queued_first:
  assumes "\<not> due (Some (eng_now e)) e"
  shows "eng_queue (telemetry_queued r w e) = telemetry_item r w e # eng_queue e"
  using assms
  by (cases "eng_queue e") (auto simp: telemetry_queued_def due_def telemetry_item_def Let_def qe_key_def)

text \<open>Dispatching it stores the value, and nothing else is due.\<close>

lemma run_queued_telemetry:
  assumes "\<not> due (Some (eng_now e)) e" "0 \<le> eng_now e" "kind_handlers TELEMETRY e = [RecordTelemetry]" "0 < n"
  shows "engine_run_until (exec_runner env d) (eng_now e) n (telemetry_queued r w e, rs) =
     (Inr [qe_event (telemetry_item r w e)],
      (e\<lparr>eng_next_sequence := eng_next_sequence e + 1\<rparr>,
       rs\<lparr>rn_latest := AList.update (tr_signal r) w (rn_latest rs)\<rparr>))"
proof -
  let ?e = "telemetry_queued r w e" and ?e1 = "e\<lparr>eng_next_sequence := eng_next_sequence e + 1\<rparr>"
  let ?rs = "rs\<lparr>rn_latest := AList.update (tr_signal r) w (rn_latest rs)\<rparr>"
  have idle: "\<not> due (Some (eng_now e)) ?e1" using assms(1) by (simp add: due_def)
  have handlers: "kind_handlers TELEMETRY ?e1 = [RecordTelemetry]" using assms(3) by (simp add: kind_handlers_def)
  have "?e\<lparr>eng_queue := eng_queue e, eng_now := eng_now e\<rparr> = ?e1"
    by (simp add: telemetry_queued_def)
  moreover have "exec_runner env d RecordTelemetry (qe_event (telemetry_item r w e)) (?e1, rs) = (Inr (), (?e1, ?rs))"
    by (cases d) (simp_all add: exec_runner.simps exec_handler_def record_telemetry_def telemetry_item_def Let_def on_state_def act_defs)
  moreover have "qe_time (telemetry_item r w e) = eng_now e" "qe_handler (telemetry_item r w e) = None"
      "ev_kind (qe_event (telemetry_item r w e)) = TELEMETRY"
    by (simp_all add: telemetry_item_def Let_def)
  ultimately have "run_next (exec_runner env d) (?e, rs) = (Inr (Some (qe_event (telemetry_item r w e))), (?e1, ?rs))"
    using handlers by (simp add: run_next_def queued_first[OF assms(1)] dispatch_def Let_def)
  moreover have "due (Some (eng_now e)) ?e"
    by (simp add: due_def queued_first[OF assms(1)] telemetry_item_def Let_def)
  ultimately show ?thesis using assms(2,4) idle
    by (simp add: engine_run_until_def run_until_def check_virtual_time_def check_optional_count_def
        run_loop_step run_loop_simps)
qed

section \<open>Frames in\<close>

definition on_bus :: "('h, in_memory_bus, 'm) runner_env \<Rightarrow> bool" where
  "on_bus env \<longleftrightarrow> re_adapter env = bus_adapter \<and> re_receive env = bus_stream None \<and> re_take_drops env = (\<lambda>t. ([], t))"

definition reassembler_at :: "('h, 't, 'm) runner_env \<Rightarrow> int \<Rightarrow> ('t, 'm) runner_state \<Rightarrow> csp_error + reassembler" where
  "reassembler_at env d rs =
     (case map_of (rn_reassemblers rs) d of
        Some r \<Rightarrow> Inr r
      | None \<Rightarrow> mk_reassembler (Some (limit_of env d)) 1000000)"

lemma reassembler_for_at:
  assumes "reassembler_at env d rs = Inr r"
  shows "\<exists>xs. reassembler_for env d (e, rs) = (Inr r, (e, rs\<lparr>rn_reassemblers := xs\<rparr>)) \<and>
     (\<forall>k. k \<noteq> d \<longrightarrow> map_of xs k = map_of (rn_reassemblers rs) k)"
proof (cases "map_of (rn_reassemblers rs) d")
  case None
  then show ?thesis using assms
    by (intro exI[of _ "AList.update d r (rn_reassemblers rs)"])
      (simp add: reassembler_at_def reassembler_for_def act_defs on_state_def update_conv')
next
  case (Some ra)
  then show ?thesis using assms
    by (intro exI[of _ "rn_reassemblers rs"]) (simp add: reassembler_at_def reassembler_for_def act_defs)
qed

text \<open>The route and the value a packet with these fields and payload stands for.\<close>

definition carries :: "('h, 't, 'm) runner_env \<Rightarrow> csp_fields \<Rightarrow> byte list \<Rightarrow> telemetry_route \<Rightarrow> py_val \<Rightarrow> bool" where
  "carries env f payload r w \<longleftrightarrow>
     packet_route (re_commands env) (re_telemetry env) f payload = Inr (ToTelemetry r) \<and>
     decode_telemetry_value (tr_field_name r) (tr_mapping r) payload = Inr w \<and> str_strip (tr_signal r) \<noteq> []"

lemma fold_queued_now [simp]: "eng_now (fold (\<lambda>_. telemetry_queued r w) xs e) = eng_now e"
  by (induction xs arbitrary: e) simp_all

lemma events_delivered:
  assumes "carries env f payload r w" "0 \<le> eng_now e" "\<forall>ev \<in> set evs. only_packet f payload ev"
  shows "act_each (handle_reassembly_event env dest envl) evs (e, rs) =
     (Inr (), (fold (\<lambda>_. telemetry_queued r w) (arrivals evs) e, rs))"
  using assms(2,3)
proof (induction evs arbitrary: e)
  case Nil
  then show ?case by (simp add: act_return_def)
next
  case (Cons ev evs)
  have "handle_reassembly_event env dest envl ev (e, rs) =
      (Inr (), (fold (\<lambda>_. telemetry_queued r w) (arrivals [ev]) e, rs))"
    using Cons.prems assms(1) deliver_telemetry_queues[of r payload w e rs]
    by (cases ev) (auto simp: handle_reassembly_event_def only_packet_def carries_def route_packet_def act_defs)
  moreover have "arrivals (ev # evs) = arrivals [ev] @ arrivals evs" using arrivals_simps(2)[of "[ev]" evs] by simp
  ultimately show ?case
    using Cons.IH[of "fold (\<lambda>_. telemetry_queued r w) (arrivals [ev]) e"] Cons.prems
    by (simp add: act_bind_def)
qed

lemma frame_delivered:
  assumes "carries env f payload r w" "0 \<le> eng_now e" "reassembler_at env d rs = Inr ra"
    and "fr_is_extended fr" "decode_can_id (fr_can_id fr) = Inr c" "ci_destination c = d"
    and "feed ra fr (eng_now e) = Inr (evs, ra1)" "\<forall>ev \<in> set evs. only_packet f payload ev"
  shows "\<exists>xs. deliver_can_frame env fr envl (e, rs) =
      (Inr (), (fold (\<lambda>_. telemetry_queued r w) (arrivals evs) e, rs\<lparr>rn_reassemblers := xs\<rparr>)) \<and>
     map_of xs d = Some ra1 \<and> (\<forall>k. k \<noteq> d \<longrightarrow> map_of xs k = map_of (rn_reassemblers rs) k)"
proof -
  obtain xs where xs: "reassembler_for env d (e, rs) = (Inr ra, (e, rs\<lparr>rn_reassemblers := xs\<rparr>))"
      "\<forall>k. k \<noteq> d \<longrightarrow> map_of xs k = map_of (rn_reassemblers rs) k"
    using reassembler_for_at[OF assms(3)] by blast
  show ?thesis
    using assms(4-7) xs events_delivered[OF assms(1,2,8)]
    by (intro exI[of _ "AList.update d ra1 xs"])
      (simp add: deliver_can_frame_def act_bind_def act_lift_def act_get_def on_state_def act_modify_def Let_def update_conv')
qed

lemma frames_delivered:
  assumes "carries env f payload r w"
    and "0 \<le> eng_now e" "reassembler_at env d rs = Inr ra"
    and "\<forall>fr \<in> set cfs. fr_is_extended fr \<and> (\<exists>c. decode_can_id (fr_can_id fr) = Inr c \<and> ci_destination c = d)"
    and "map env_frame envs = map CanFrame cfs"
    and "feed_all ra (zip cfs (replicate (length cfs) (eng_now e))) = Inr (evs, ra1)"
    and "\<forall>ev \<in> set evs. only_packet f payload ev"
  shows "\<exists>xs. act_each (deliver_envelope env) envs (e, rs) =
      (Inr (), (fold (\<lambda>_. telemetry_queued r w) (arrivals evs) e, rs\<lparr>rn_reassemblers := xs\<rparr>)) \<and>
     reassembler_at env d (rs\<lparr>rn_reassemblers := xs\<rparr>) = Inr ra1 \<and>
     (\<forall>k. k \<noteq> d \<longrightarrow> map_of xs k = map_of (rn_reassemblers rs) k)"
  using assms(2-)
proof (induction cfs arbitrary: envs e rs ra evs)
  case Nil
  then show ?case by (intro exI[of _ "rn_reassemblers rs"]) (simp add: act_return_def)
next
  case (Cons fr cfs)
  obtain envl envs' where envs: "envs = envl # envs'" "env_frame envl = CanFrame fr" "map env_frame envs' = map CanFrame cfs"
    using Cons.prems(4) by (cases envs) auto
  obtain ev1 ra' ev2 where fed: "feed ra fr (eng_now e) = Inr (ev1, ra')" "evs = ev1 @ ev2"
      "feed_all ra' (zip cfs (replicate (length cfs) (eng_now e))) = Inr (ev2, ra1)"
    using Cons.prems(5) by (auto simp: res_bind_eq_Inr)
  obtain c where c: "fr_is_extended fr" "decode_can_id (fr_can_id fr) = Inr c" "ci_destination c = d"
    using Cons.prems(3) by auto
  let ?e = "fold (\<lambda>_. telemetry_queued r w) (arrivals ev1) e"
  obtain xs where one: "deliver_can_frame env fr envl (e, rs) = (Inr (), (?e, rs\<lparr>rn_reassemblers := xs\<rparr>))"
      "map_of xs d = Some ra'" "\<forall>k. k \<noteq> d \<longrightarrow> map_of xs k = map_of (rn_reassemblers rs) k"
    using frame_delivered[OF assms(1) Cons.prems(1,2) c fed(1), of envl] Cons.prems(6) fed(2) by (auto simp: ball_Un)
  have "reassembler_at env d (rs\<lparr>rn_reassemblers := xs\<rparr>) = Inr ra'" using one(2) by (simp add: reassembler_at_def)
  then obtain ys where rest: "act_each (deliver_envelope env) envs' (?e, rs\<lparr>rn_reassemblers := xs\<rparr>) =
        (Inr (), (fold (\<lambda>_. telemetry_queued r w) (arrivals ev2) ?e, rs\<lparr>rn_reassemblers := ys\<rparr>))"
      "reassembler_at env d (rs\<lparr>rn_reassemblers := ys\<rparr>) = Inr ra1"
      "\<forall>k. k \<noteq> d \<longrightarrow> map_of ys k = map_of xs k"
    using Cons.IH[of ?e "rs\<lparr>rn_reassemblers := xs\<rparr>" ra' envs' ev2] Cons.prems fed envs(3) by auto
  have "deliver_envelope env envl (e, rs) = (Inr (), (?e, rs\<lparr>rn_reassemblers := xs\<rparr>))"
    using one(1) envs(2) by (simp add: deliver_envelope_def)
  then show ?case using rest one(3) fed(2) envs(1) by (intro exI[of _ ys]) (simp add: act_bind_def)
qed

section \<open>Frames out\<close>

lemma telemetry_sent:
  assumes "on_bus env" "telemetry_packet_fields r = Inr f"
    and "encode_telemetry_value (tr_field_name r) (tr_mapping r) v = Inr payload"
    and "cf_flags f AND CSP_FLAG_FRAGMENT = 0" "int (length payload) \<le> limit_of env (cf_source f)"
    and "1 \<le> limit_of env (cf_source f)"
    and "can_sender_ok (map_of (rn_senders rs) (cf_source f)) (limit_of env (cf_source f))"
  shows "\<exists>cfs n envs senders s t. send_telemetry_route env r v (e, rs) =
        (Inr (), (e, rs\<lparr>rn_senders := senders, rn_transport := t\<rparr>)) \<and>
     fragment_packet f payload (Some (sender_or_default f None)) n = Inr cfs \<and>
     map env_frame envs = map CanFrame cfs \<and> bus_monitor t = bus_monitor (rn_transport rs) @ envs \<and>
     map_of senders = (map_of (rn_senders rs))(cf_source f \<mapsto> s) \<and> can_sender_ok (Some s) (limit_of env (cf_source f))"
proof -
  let ?a = "cf_source f" and ?m = "limit_of env (cf_source f)"
  have wf: "wf_csp_fields f" using assms(2) by (auto simp: telemetry_packet_fields_def mk_csp_fields_eq_Inr)
  obtain s senders where s: "sender_for env ?a (e, rs) = (Inr s, (e, rs\<lparr>rn_senders := senders\<rparr>))"
      "can_sender_ok (Some s) ?m" "map_of senders = (map_of (rn_senders rs))(?a \<mapsto> s)"
  proof (cases "map_of (rn_senders rs) ?a")
    case None
    have "mk_can_sender ?m = Inr (CanPacketSender \<lparr>fg_max_packet_bytes = ?m, fg_packet_counts = []\<rparr>)"
      using assms(6) by (simp add: mk_can_sender_def mk_fragmenter_def validate_max_packet_bytes_def)
    then show thesis using None assms(1)
      by (intro that[of "CanPacketSender \<lparr>fg_max_packet_bytes = ?m, fg_packet_counts = []\<rparr>"
          "AList.update ?a (CanPacketSender \<lparr>fg_max_packet_bytes = ?m, fg_packet_counts = []\<rparr>) (rn_senders rs)"])
        (simp_all add: sender_for_def act_defs on_state_def on_bus_def bus_adapter_def can_sender_ok_def update_conv')
  next
    case (Some s)
    then show thesis using assms(7)
      by (intro that[of s "rn_senders rs"]) (simp_all add: sender_for_def act_defs fun_upd_idem)
  qed
  obtain cfs s' n where fr: "sender_frames s f payload = Inr (map CanFrame cfs, s')" "can_sender_ok (Some s') ?m"
      "fragment_packet f payload (Some (sender_or_default f None)) n = Inr cfs"
    using can_sender_frames[OF s(2) wf assms(4,5)] by blast
  have "0 \<le> ?a" using wf by (auto simp: wf_csp_fields_def)
  then have "is_ok (validate_endpoint (EpNumber ?a))" by (simp add: validate_endpoint_def)
  then obtain envs t where sent: "send_frames bus_adapter (EpNumber ?a) (map CanFrame cfs) (rn_transport rs) = (Inr envs, t)"
      "map env_frame envs = map CanFrame cfs" "bus_monitor t = bus_monitor (rn_transport rs) @ envs"
    using send_frames_bus by blast
  have "cfs \<noteq> []" using fragments_valid[OF wf, of "Some (sender_or_default f None)" n payload] fr(3)
      fragment_packet_InrD[OF fr(3)] by auto
  then have "envs \<noteq> []" using sent(2) by auto
  then have "send_packet env f payload (e, rs) =
      (Inr (last envs), (e, rs\<lparr>rn_senders := AList.update ?a s' senders, rn_transport := t\<rparr>))"
    using s(1) fr(1) sent(1) assms(1)
    by (simp add: send_packet_def act_bind_def act_lift_def on_state_def act_modify_def on_transport_def act_on_def
        on_bus_def act_return_def)
  then have "send_telemetry_route env r v (e, rs) =
      (Inr (), (e, rs\<lparr>rn_senders := AList.update ?a s' senders, rn_transport := t\<rparr>))"
    using assms(2,3) by (simp add: send_telemetry_route_def act_bind_def act_lift_def act_return_def)
  then show ?thesis using fr(2,3) sent s(3)
    by (intro exI[of _ cfs] exI[of _ n] exI[of _ envs] exI[of _ "AList.update ?a s' senders"] exI[of _ s'] exI[of _ t])
      (simp add: update_conv')
qed

section \<open>Settling\<close>

lemma idle_run:
  assumes "\<not> due (Some (eng_now e)) e" "0 \<le> eng_now e"
  shows "engine_run_until exec (eng_now e) n (e, rs) = (Inr [], (e, rs))"
  using assms
  by (simp add: engine_run_until_def run_until_def check_virtual_time_def check_optional_count_def run_loop_simps)

lemma empty_drain:
  assumes "on_bus env" "bus_monitor t = []"
  shows "drain (re_receive env) t = Some ([], t)"
  using assms by (simp add: on_bus_def drain_def drain_loop.simps bus_stream.receive_none bus_view_def bus_queue_for_def)

lemma settled_on_bus:
  assumes "on_bus env" "bus_monitor (rn_transport rs) = []" "\<not> due (Some (eng_now e)) e"
  shows "settled env (e, rs)"
  using assms empty_drain[OF assms(1,2)] by (auto simp: settled_def on_bus_def)

lemma idle_drain:
  assumes "on_bus env" "bus_monitor (rn_transport rs) = []"
  shows "drain_transport_frames env (e, rs) = (Inr False, (e, rs))"
  using assms(1) empty_drain[OF assms]
  by (simp add: drain_transport_frames_def on_bus_def collect_transport_drops_def act_defs on_transport_def)

lemma busy_drain:
  assumes "on_bus env" "bus_monitor (rn_transport rs) = envs" "envs \<noteq> []"
    and "\<And>t. \<exists>xs. act_each (deliver_envelope env) envs (e, rs\<lparr>rn_transport := t\<rparr>) =
      (Inr (), (e1, rs\<lparr>rn_transport := t, rn_reassemblers := xs\<rparr>)) \<and> P xs"
  shows "\<exists>t xs. drain_transport_frames env (e, rs) =
      (Inr True, (e1, rs\<lparr>rn_transport := t, rn_reassemblers := xs\<rparr>)) \<and> bus_monitor t = [] \<and> P xs"
proof -
  have view: "bus_view None t = bus_monitor t" for t by (simp add: bus_view_def bus_queue_for_def)
  obtain t where t: "drain (bus_stream None) (rn_transport rs) = Some (envs, t)" "bus_monitor t = []"
    using bus_stream.drain_all[of None "rn_transport rs"] assms(2) by (auto simp: view)
  obtain xs where "act_each (deliver_envelope env) envs (e, rs\<lparr>rn_transport := t\<rparr>) =
      (Inr (), (e1, rs\<lparr>rn_transport := t, rn_reassemblers := xs\<rparr>))" "P xs"
    using assms(4) by blast
  then show ?thesis using t assms(1,3)
    by (intro exI[of _ t] exI[of _ xs])
      (simp add: drain_transport_frames_def on_bus_def collect_transport_drops_def act_defs on_transport_def)
qed

lemma settle_round:
  assumes "engine_run_until exec (eng_now e) (re_max_settle env) (e, rs) = (Inr dispatched, (e1, rs1))"
    and "drain_transport_frames env (e1, rs1) = (Inr drained, st2)"
  shows "settle_rounds env exec (Suc k) (e, rs) =
     (if dispatched = [] \<and> \<not> drained then (Inr (), st2) else settle_rounds env exec k st2)"
  using assms by (simp add: act_bind_def act_get_def act_return_def)

text \<open>Both ends of a node's own path are between packets.\<close>

definition path_idle :: "('h, 't, 'm) runner_env \<Rightarrow> int \<Rightarrow> ('t, 'm) runner_state \<Rightarrow> bool" where
  "path_idle env a rs \<longleftrightarrow>
     1 \<le> limit_of env a \<and> can_sender_ok (map_of (rn_senders rs) a) (limit_of env a) \<and>
     (\<exists>ra. reassembler_at env a rs = Inr ra \<and> ra_partials ra = [] \<and> ra_max_packet_bytes ra = Some (limit_of env a))"

lemma telemetry_settles:
  assumes env: "on_bus env" "re_max_settle env = Suc (Suc (Suc n))"
    and packet: "carries env f payload r w" "telemetry_packet_fields r = Inr f" "cf_flags f AND CSP_FLAG_FRAGMENT = 0"
      "cf_destination f = cf_source f" "encode_telemetry_value (tr_field_name r) (tr_mapping r) v = Inr payload"
      "int (length payload) \<le> limit_of env (cf_source f)"
    and st: "\<not> due (Some (eng_now e)) e" "0 \<le> eng_now e" "kind_handlers TELEMETRY e = [RecordTelemetry]"
      "bus_monitor (rn_transport rs) = []" "path_idle env (cf_source f) rs"
  shows "\<exists>rs1 t xs. send_telemetry_route env r v (e, rs) = (Inr (), (e, rs1)) \<and> bus_monitor (rn_transport rs1) \<noteq> [] \<and>
     run_current_events env (exec_runner env d) (e, rs1) =
       (Inr (), (e\<lparr>eng_next_sequence := eng_next_sequence e + 1\<rparr>,
          rs1\<lparr>rn_transport := t, rn_reassemblers := xs, rn_latest := AList.update (tr_signal r) w (rn_latest rs)\<rparr>)) \<and>
     bus_monitor t = [] \<and> rn_drops rs1 = rn_drops rs \<and> path_idle env (cf_source f) (rs1\<lparr>rn_reassemblers := xs\<rparr>)"
proof -
  let ?a = "cf_source f" and ?exec = "exec_runner env d" and ?e' = "e\<lparr>eng_next_sequence := eng_next_sequence e + 1\<rparr>"
  have wf: "wf_csp_fields f" using packet(2) by (auto simp: telemetry_packet_fields_def mk_csp_fields_eq_Inr)
  obtain ra where ra: "reassembler_at env ?a rs = Inr ra" "ra_partials ra = []" "ra_max_packet_bytes ra = Some (limit_of env ?a)"
    and lim: "1 \<le> limit_of env ?a" "can_sender_ok (map_of (rn_senders rs) ?a) (limit_of env ?a)"
    using st(5) by (auto simp: path_idle_def)
  obtain cfs n' envs senders s t where sent:
      "send_telemetry_route env r v (e, rs) = (Inr (), (e, rs\<lparr>rn_senders := senders, rn_transport := t\<rparr>))"
      "fragment_packet f payload (Some (sender_or_default f None)) n' = Inr cfs" "map env_frame envs = map CanFrame cfs"
      "bus_monitor t = envs" "map_of senders = (map_of (rn_senders rs))(?a \<mapsto> s)" "can_sender_ok (Some s) (limit_of env ?a)"
    using telemetry_sent[OF env(1) packet(2,5,3,6) lim, of e] st(4) by auto
  let ?rs1 = "rs\<lparr>rn_senders := senders, rn_transport := t\<rparr>"
  obtain evs where evs: "feed_all ra (zip cfs (replicate (length cfs) (eng_now e))) = Inr (evs, ra)"
      "arrivals evs = [(f, payload)]" "\<forall>ev \<in> set evs. only_packet f payload ev"
    using idle_feed_events[OF wf sent(2) _ ra(2), of "replicate (length cfs) (eng_now e)"] ra(3) packet(6)
    by (auto simp: over_limit_def)
  have cfs: "cfs \<noteq> []" using evs(1,2) by (cases cfs) auto
  then have some: "envs \<noteq> []" using sent(3) by auto
  have dest: "\<forall>fr \<in> set cfs. fr_is_extended fr \<and> (\<exists>c. decode_can_id (fr_can_id fr) = Inr c \<and> ci_destination c = ?a)"
    using fragment_destination[OF wf sent(2)] packet(4) by simp
  have at: "reassembler_at env ?a (rs\<lparr>rn_senders := senders, rn_transport := u\<rparr>) = Inr ra" for u
    using ra(1) by (simp add: reassembler_at_def)
  have "\<exists>xs. act_each (deliver_envelope env) envs (e, ?rs1\<lparr>rn_transport := u\<rparr>) =
      (Inr (), (telemetry_queued r w e, ?rs1\<lparr>rn_transport := u, rn_reassemblers := xs\<rparr>)) \<and>
      reassembler_at env ?a (rs\<lparr>rn_reassemblers := xs\<rparr>) = Inr ra" for u
    using frames_delivered[OF packet(1) st(2) at dest sent(3) evs(1,3), of u] evs(2)
    by (auto simp: reassembler_at_def)
  then obtain t2 xs where drained: "drain_transport_frames env (e, ?rs1) =
        (Inr True, (telemetry_queued r w e, ?rs1\<lparr>rn_transport := t2, rn_reassemblers := xs\<rparr>))"
      "bus_monitor t2 = []" "reassembler_at env ?a (rs\<lparr>rn_reassemblers := xs\<rparr>) = Inr ra"
    using busy_drain[OF env(1), of ?rs1 envs e "telemetry_queued r w e"
        "\<lambda>xs. reassembler_at env ?a (rs\<lparr>rn_reassemblers := xs\<rparr>) = Inr ra"] sent(4) some by auto
  let ?rs2 = "?rs1\<lparr>rn_transport := t2, rn_reassemblers := xs\<rparr>"
  let ?rs3 = "?rs2\<lparr>rn_latest := AList.update (tr_signal r) w (rn_latest rs)\<rparr>"
  have second: "engine_run_until ?exec (eng_now e) (re_max_settle env) (telemetry_queued r w e, ?rs2) =
      (Inr [qe_event (telemetry_item r w e)], (?e', ?rs3))"
    using run_queued_telemetry[OF st(1-3), of "re_max_settle env" env d r w ?rs2] env(2) by simp
  have idle: "drain_transport_frames env (?e', ?rs3) = (Inr False, (?e', ?rs3))"
    using idle_drain[OF env(1)] drained(2) by simp
  have third: "engine_run_until ?exec (eng_now ?e') (re_max_settle env) (?e', ?rs3) = (Inr [], (?e', ?rs3))"
    using st(1,2) by (intro idle_run) (simp_all add: due_def)
  have "settle_rounds env ?exec (re_max_settle env) (e, ?rs1) = (Inr (), (?e', ?rs3))"
    unfolding env(2) settle_round[OF idle_run[OF st(1,2)] drained(1)]
    using settle_round[of ?exec "telemetry_queued r w e" env, OF _ idle] settle_round[OF third idle] second by simp
  moreover have "path_idle env ?a (?rs1\<lparr>rn_reassemblers := xs\<rparr>)"
    using lim(1) sent(5,6) drained(3) ra(2,3) by (simp add: path_idle_def reassembler_at_def)
  ultimately show ?thesis using sent(1,4) some drained(2)
    by (intro exI[of _ ?rs1] exI[of _ t2] exI[of _ xs]) (simp add: run_current_events_def)
qed

text \<open>
  C4: A telemetry value travels from the sender to the cache the assertions read. The runtime is one on the in-memory
  bus with a settle limit of at least three, in a settled state (nothing is due, the bus is empty), at a time that is
  not negative, whose only telemetry listener is the runner. The telemetry route is addressed to its own node (as the
  routes of a setup are), has a signal name that is not blank and fields that form a CSP header whose flags do not
  contain the FRAGMENT bit; no other route, of a command or of telemetry, has its addresses and ports, and no
  telemetry route is listed twice. The node's packet size is at least one byte; its sender, if it has one already, is
  a CFP sender of that size with packet counters in range; its reassembler has that size as its limit and holds no
  partial packet. Then sending a value that encodes to bytes that fit the node's packet size and that decode again
  succeeds, and letting events and frames settle ends, delivers the packet, however many frames it took, stores under
  the route's signal exactly the value the bytes decode to and changes no other cached signal, drops nothing, takes no
  virtual time, and leaves a state of the same kind.
\<close>

theorem telemetry_reaches_cache:
  assumes env: "env = built_env su commands telemetry kinds (Suc (Suc (Suc n))) render"
    and route: "distinct telemetry" "r \<in> set telemetry" "\<forall>c \<in> set commands. command_key c \<noteq> telemetry_key r"
      "\<forall>r' \<in> set telemetry. telemetry_key r' = telemetry_key r \<longrightarrow> r' = r" "str_strip (tr_signal r) \<noteq> []"
    and packet: "telemetry_packet_fields r = Inr f" "cf_flags f AND CSP_FLAG_FRAGMENT = 0" "cf_destination f = cf_source f"
      "encode_telemetry_value (tr_field_name r) (tr_mapping r) v = Inr payload"
      "decode_telemetry_value (tr_field_name r) (tr_mapping r) payload = Inr w"
      "int (length payload) \<le> limit_of env (cf_source f)"
    and st: "settled env (e, rs)" "0 \<le> eng_now e" "kind_handlers TELEMETRY e = [RecordTelemetry]"
      "path_idle env (cf_source f) rs"
  shows "\<exists>st1 e2 rs2. send_telemetry_route env r v (e, rs) = (Inr (), st1) \<and>
     run_current_events env (exec_runner env (Suc 0)) st1 = (Inr (), (e2, rs2)) \<and>
     map_of (rn_latest rs2) = (map_of (rn_latest rs))(tr_signal r \<mapsto> w) \<and>
     rn_drops rs2 = rn_drops rs \<and> eng_now e2 = eng_now e \<and>
     settled env (e2, rs2) \<and> kind_handlers TELEMETRY e2 = [RecordTelemetry] \<and> path_idle env (cf_source f) rs2"
proof -
  have bus: "on_bus env" "re_max_settle env = Suc (Suc (Suc n))" by (simp_all add: env on_bus_def built_env_def)
  have "carries env f payload r w"
    using own_telemetry_routed[OF route(1,2) packet(1) route(3), of payload] route(4,5) packet(5)
    by (simp add: carries_def env built_env_def)
  note run = telemetry_settles[OF bus this packet(1-4,6) built_exec_settled(1)[OF st(1)[unfolded env], simplified] st(2,3)
      built_exec_settled(2)[OF st(1)[unfolded env], simplified] st(4), of "Suc 0"]
  have "\<not> due (Some (eng_now e)) (e\<lparr>eng_next_sequence := eng_next_sequence e + 1\<rparr>)"
    using built_exec_settled(1)[OF st(1)[unfolded env]] by (simp add: due_def)
  then have "settled env (e\<lparr>eng_next_sequence := eng_next_sequence e + 1\<rparr>, rs')" if "bus_monitor (rn_transport rs') = []" for rs'
    using settled_on_bus[OF bus(1) that] by simp
  moreover have "path_idle env a (rs'\<lparr>rn_transport := t, rn_reassemblers := xs, rn_latest := l\<rparr>) =
      path_idle env a (rs'\<lparr>rn_reassemblers := xs\<rparr>)" for a rs' t xs l
    by (simp add: path_idle_def reassembler_at_def)
  moreover have "kind_handlers TELEMETRY (e\<lparr>eng_next_sequence := eng_next_sequence e + 1\<rparr>) = [RecordTelemetry]"
    using st(3) by (simp add: kind_handlers_def)
  ultimately show ?thesis using run by (force simp: update_conv')
qed

text \<open>A runtime of one telemetry route, just started.\<close>

definition demo_path_env :: built_env where
  "demo_path_env = built_env \<lparr>tc_transport = InMemoryTransport, tc_nodes = []\<rparr> []
     [demo_route SignalCodec.demo_mapping] [] (Suc (Suc (Suc 0))) (\<lambda>_. ''detail'')"

definition demo_path_state :: built_state where
  "demo_path_state =
     (\<lparr>eng_now = 7, eng_next_sequence = 0, eng_queue = [], eng_handlers = [(TELEMETRY, [RecordTelemetry])]\<rparr>,
      \<lparr>rn_fault = new_fault_engine, rn_transport = empty_bus, rn_modules = [], rn_latest = [], rn_results = [],
       rn_semantic = [], rn_reassemblers = [], rn_senders = [], rn_drops = [], rn_output = []\<rparr>)"

lemma telemetry_reaches_cache_witness:
  "\<exists>st1 e2 rs2. send_telemetry_route demo_path_env (demo_route SignalCodec.demo_mapping) (PStr ''online'') demo_path_state =
        (Inr (), st1) \<and>
     run_current_events demo_path_env (exec_runner demo_path_env (Suc 0)) st1 = (Inr (), (e2, rs2)) \<and>
     map_of (rn_latest rs2) ''eps.telemetry.power'' = Some (PStr ''online'') \<and> eng_now e2 = 7"
proof -
  let ?r = "demo_route SignalCodec.demo_mapping"
  let ?f = "\<lparr>cf_priority = 2, cf_source = 5, cf_destination = 5, cf_destination_port = 2, cf_source_port = 1, cf_flags = 0\<rparr>"
  have f: "telemetry_packet_fields ?r = Inr ?f" by code_simp
  have codec: "encode_telemetry_value (tr_field_name ?r) (tr_mapping ?r) (PStr ''online'') = Inr [1]"
      "decode_telemetry_value (tr_field_name ?r) (tr_mapping ?r) [1] = Inr (PStr ''online'')"
    using demo_mapping_ok(2) by (simp_all add: demo_route_def) code_simp
  have limit: "limit_of demo_path_env 5 = CSP_V2_DEFAULT_MAX_PACKET_BYTES"
    by (simp add: limit_of_def demo_path_env_def built_env_def limits_by_address_def)
  have settled: "settled demo_path_env (fst demo_path_state, snd demo_path_state)"
    by (rule settled_on_bus) (simp_all add: demo_path_state_def demo_path_env_def built_env_def on_bus_def due_def empty_bus_def)
  have idle: "path_idle demo_path_env (cf_source ?f) (snd demo_path_state)"
    by (simp add: path_idle_def limit demo_path_state_def can_sender_ok_def reassembler_at_def mk_reassembler_def
        validate_max_packet_bytes_def validate_uint_ok)
  have engine: "0 \<le> eng_now (fst demo_path_state)" "kind_handlers TELEMETRY (fst demo_path_state) = [RecordTelemetry]"
      "eng_now (fst demo_path_state) = 7"
    by (simp_all add: demo_path_state_def kind_handlers_def)
  have route: "str_strip (tr_signal ?r) \<noteq> []" "int (length [1 :: byte]) \<le> limit_of demo_path_env (cf_source ?f)"
    "tr_signal ?r = ''eps.telemetry.power''"
    by (simp_all add: limit) (simp_all add: demo_route_def str_strip_def is_space_def)
  obtain st1 e2 rs2 where "send_telemetry_route demo_path_env ?r (PStr ''online'') demo_path_state = (Inr (), st1)"
      "run_current_events demo_path_env (exec_runner demo_path_env (Suc 0)) st1 = (Inr (), (e2, rs2))"
      "map_of (rn_latest rs2) = (map_of (rn_latest (snd demo_path_state)))(tr_signal ?r \<mapsto> PStr ''online'')"
      "eng_now e2 = eng_now (fst demo_path_state)"
    using telemetry_reaches_cache[OF demo_path_env_def _ _ _ _ route(1) f _ _ codec route(2) settled engine(1,2) idle]
    by (simp only: prod.collapse) auto
  then show ?thesis using engine(3) route(3) by auto
qed

end
