(* ===== verification/SocketCan.thy ===== *)
theory SocketCan
  imports Transport Config ObcPeer
begin

text \<open>
  The SocketCAN adapter (\<^verbatim>\<open>transport/socketcan.py\<close>) and the transport factory (\<^verbatim>\<open>transport/factory.py\<close>). The CAN
  bus itself is \<^verbatim>\<open>python-can\<close>: \<open>can_bus\<close> holds its calls, which may fail with the text of a \<^verbatim>\<open>CanError\<close> or
  an \<^verbatim>\<open>OSError\<close> and change the bus even then, and the check its message constructor makes. Opening a serial
  line is a call of the operating system and an argument of the factory.
\<close>

section \<open>CAN messages and the bus\<close>

record can_message =
  mg_arbitration_id :: int
  mg_is_extended :: bool
  mg_is_remote :: bool
  mg_is_error :: bool
  mg_is_fd :: bool
  mg_data :: "byte list"
  mg_channel :: string

record 'b can_bus =
  cb_open :: "string \<Rightarrow> bool \<Rightarrow> string + 'b"
  cb_check :: "can_message \<Rightarrow> string option"
  cb_send :: "can_message \<Rightarrow> pyfloat option \<Rightarrow> 'b \<Rightarrow> (string + unit) \<times> 'b"
  cb_recv :: "pyfloat option \<Rightarrow> 'b \<Rightarrow> (string + can_message option) \<times> 'b"
  cb_shutdown :: "'b \<Rightarrow> (string + unit) \<times> 'b"

datatype can_error =
    CanInterfaceName string
  | CanTimeoutType string
  | CanTimeoutRange string
  | CanTimeoutFloat py_exn
  | CanClosed string
  | CanWholePacket
  | CanEndpoint transport_error
  | CanEndpointQueue
  | CanNotExtended
  | CanMessageInvalid string
  | CanOpenFailed string string
  | CanSendFailed string string
  | CanReceiveFailed string string
  | CanCloseFailed string string
  | CanErrorFrame
  | CanRemoteFrame
  | CanFdFrame
  | CanOutsideProfile csp_error

definition validate_interface :: "string \<Rightarrow> can_error + string" where
  "validate_interface s = (if is_identifier s then Inr s else Inl (CanInterfaceName s))"

definition validate_timeout :: "string \<Rightarrow> py_val option \<Rightarrow> can_error + pyfloat option" where
  "validate_timeout name v =
     (case v of
        None \<Rightarrow> Inr None
      | Some x \<Rightarrow>
          if \<not> is_real_number x then Inl (CanTimeoutType name)
          else res_bind (map_sum CanTimeoutFloat id (py_float x)) (\<lambda>t.
                 if \<not> fl_is_finite t \<or> fl_less t FL_ZERO then Inl (CanTimeoutRange name) else Inr (Some t)))"

definition message_from_frame :: "'b can_bus \<Rightarrow> string \<Rightarrow> can_frame \<Rightarrow> can_error + can_message" where
  "message_from_frame cb channel frame =
     (let message = \<lparr>mg_arbitration_id = fr_can_id frame, mg_is_extended = fr_is_extended frame,
                     mg_is_remote = False, mg_is_error = False, mg_is_fd = False,
                     mg_data = fr_data frame, mg_channel = channel\<rparr>
      in case cb_check cb message of None \<Rightarrow> Inr message | Some reason \<Rightarrow> Inl (CanMessageInvalid reason))"

definition frame_from_message :: "can_message \<Rightarrow> can_error + can_frame" where
  "frame_from_message message =
     (if mg_is_error message then Inl CanErrorFrame
      else if mg_is_remote message then Inl CanRemoteFrame
      else if mg_is_fd message then Inl CanFdFrame
      else if \<not> mg_is_extended message then Inl CanNotExtended
      else map_sum CanOutsideProfile id (mk_can_frame (mg_arbitration_id message) (mg_data message) True))"

section \<open>The adapter\<close>

record 'b socketcan =
  sc_interface :: string
  sc_receive_own :: bool
  sc_send_timeout :: "pyfloat option"
  sc_bus :: 'b
  sc_next_sequence :: nat
  sc_closed :: bool

definition mk_socketcan ::
  "'b can_bus \<Rightarrow> string \<Rightarrow> bool \<Rightarrow> py_val option \<Rightarrow> 'b option \<Rightarrow> can_error + 'b socketcan" where
  "mk_socketcan cb interface receive_own send_timeout bus =
     res_bind (validate_interface interface) (\<lambda>interface.
     res_bind (validate_timeout ''send_timeout'' send_timeout) (\<lambda>timeout.
     res_bind (case bus of
                 Some b \<Rightarrow> Inr b
               | None \<Rightarrow> map_sum (CanOpenFailed interface) id (cb_open cb interface receive_own)) (\<lambda>b.
       Inr \<lparr>sc_interface = interface, sc_receive_own = receive_own, sc_send_timeout = timeout, sc_bus = b,
            sc_next_sequence = 0, sc_closed = False\<rparr>)))"

definition ensure_open :: "'b socketcan \<Rightarrow> can_error + unit" where
  "ensure_open a = res_check (\<not> sc_closed a) (CanClosed (sc_interface a))"

definition sc_envelope ::
  "can_frame \<Rightarrow> endpoint_id option \<Rightarrow> 'b socketcan \<Rightarrow> transport_envelope \<times> 'b socketcan" where
  "sc_envelope frame source a =
     (\<lparr>env_frame = CanFrame frame, env_sequence = sc_next_sequence a, env_source = source\<rparr>,
      a\<lparr>sc_next_sequence := sc_next_sequence a + 1\<rparr>)"

definition prepare_send ::
  "'b can_bus \<Rightarrow> frame \<Rightarrow> endpoint_id option \<Rightarrow> 'b socketcan
    \<Rightarrow> can_error + can_frame \<times> endpoint_id option \<times> can_message" where
  "prepare_send cb fr source a =
     res_bind (ensure_open a) (\<lambda>_.
       case fr of
         PacketFrame _ \<Rightarrow> Inl CanWholePacket
       | CanFrame frame \<Rightarrow>
           res_bind (case source of None \<Rightarrow> Inr None
                     | Some ep \<Rightarrow> map_sum CanEndpoint Some (validate_endpoint ep)) (\<lambda>source.
           res_bind (res_check (fr_is_extended frame) CanNotExtended) (\<lambda>_.
           res_bind (message_from_frame cb (sc_interface a) frame) (\<lambda>message.
             Inr (frame, source, message)))))"

definition socketcan_send ::
  "'b can_bus \<Rightarrow> frame \<Rightarrow> endpoint_id option \<Rightarrow> 'b socketcan
    \<Rightarrow> (can_error + transport_envelope) \<times> 'b socketcan" where
  "socketcan_send cb fr source a =
     (case prepare_send cb fr source a of
        Inl e \<Rightarrow> (Inl e, a)
      | Inr (frame, source, message) \<Rightarrow>
          (case cb_send cb message (sc_send_timeout a) (sc_bus a) of
             (Inl reason, b) \<Rightarrow> (Inl (CanSendFailed (sc_interface a) reason), a\<lparr>sc_bus := b\<rparr>)
           | (Inr _, b) \<Rightarrow> (case sc_envelope frame source (a\<lparr>sc_bus := b\<rparr>) of (env, a1) \<Rightarrow> (Inr env, a1))))"

text \<open>Without a timeout the poll is immediate.\<close>

definition prepare_receive ::
  "endpoint_id option \<Rightarrow> py_val option \<Rightarrow> 'b socketcan \<Rightarrow> can_error + pyfloat option" where
  "prepare_receive ep timeout a =
     res_bind (ensure_open a) (\<lambda>_.
     res_bind (case ep of None \<Rightarrow> Inr ()
               | Some e \<Rightarrow> res_bind (map_sum CanEndpoint id (validate_endpoint e)) (\<lambda>_. Inl CanEndpointQueue)) (\<lambda>_.
       case timeout of None \<Rightarrow> Inr (Some FL_ZERO) | Some _ \<Rightarrow> validate_timeout ''timeout'' timeout))"

definition socketcan_receive ::
  "'b can_bus \<Rightarrow> endpoint_id option \<Rightarrow> py_val option \<Rightarrow> 'b socketcan
    \<Rightarrow> (can_error + transport_envelope option) \<times> 'b socketcan" where
  "socketcan_receive cb ep timeout a =
     (case prepare_receive ep timeout a of
        Inl e \<Rightarrow> (Inl e, a)
      | Inr bus_timeout \<Rightarrow>
          (case cb_recv cb bus_timeout (sc_bus a) of
             (Inl reason, b) \<Rightarrow> (Inl (CanReceiveFailed (sc_interface a) reason), a\<lparr>sc_bus := b\<rparr>)
           | (Inr None, b) \<Rightarrow> (Inr None, a\<lparr>sc_bus := b\<rparr>)
           | (Inr (Some message), b) \<Rightarrow>
               (case frame_from_message message of
                  Inl e \<Rightarrow> (Inl e, a\<lparr>sc_bus := b\<rparr>)
                | Inr frame \<Rightarrow>
                    (case sc_envelope frame None (a\<lparr>sc_bus := b\<rparr>) of (env, a1) \<Rightarrow> (Inr (Some env), a1)))))"

text \<open>The adapter counts as closed even if the bus failed to shut down.\<close>

definition socketcan_close :: "'b can_bus \<Rightarrow> 'b socketcan \<Rightarrow> (can_error + unit) \<times> 'b socketcan" where
  "socketcan_close cb a =
     (if sc_closed a then (Inr (), a)
      else case cb_shutdown cb (sc_bus a) of
             (r, b) \<Rightarrow> (map_sum (CanCloseFailed (sc_interface a)) id r, a\<lparr>sc_bus := b, sc_closed := True\<rparr>))"

section \<open>The factory\<close>

datatype ('b, 'l) any_adapter =
    BusAdapter in_memory_bus
  | CanAdapter "'b socketcan"
  | KissLineAdapter kiss_adapter 'l

datatype build_error = BuildBus transport_error | BuildCan can_error | BuildLine string | BuildCsp csp_error

definition build_transport_adapter ::
  "'b can_bus \<Rightarrow> (string \<Rightarrow> int \<Rightarrow> string + 'l) \<Rightarrow> transport_config \<Rightarrow> endpoint_id list \<Rightarrow> 'b option \<Rightarrow> py_val option
    \<Rightarrow> int list \<Rightarrow> int \<Rightarrow> build_error + ('b, 'l) any_adapter" where
  "build_transport_adapter cb open_line config endpoints bus send_timeout local_addresses max_packet_bytes =
     (case config of
        InMemoryTransport \<Rightarrow> map_sum BuildBus BusAdapter (mk_bus endpoints)
      | SocketCanTransport interface receive_own \<Rightarrow>
          map_sum BuildCan CanAdapter (mk_socketcan cb interface receive_own send_timeout bus)
      | KissTransport device baudrate \<Rightarrow>
          res_bind (map_sum BuildLine id (open_line device baudrate)) (\<lambda>line.
            map_sum BuildCsp (\<lambda>a. KissLineAdapter a line) (mk_kiss_adapter local_addresses max_packet_bytes)))"

section \<open>What comes from the bus\<close>

text \<open>A message the adapter accepts: a classic data frame with a 29-bit identifier.\<close>

definition message_ok :: "can_message \<Rightarrow> bool" where
  "message_ok m \<longleftrightarrow>
     \<not> mg_is_error m \<and> \<not> mg_is_remote m \<and> \<not> mg_is_fd m \<and> mg_is_extended m \<and>
     0 \<le> mg_arbitration_id m \<and> mg_arbitration_id m \<le> EXTENDED_CAN_ID_MAX \<and> length (mg_data m) \<le> 8"

lemma frame_from_message_iff:
  "frame_from_message m = Inr frame \<longleftrightarrow>
     message_ok m \<and> frame = \<lparr>fr_can_id = mg_arbitration_id m, fr_data = mg_data m, fr_is_extended = True\<rparr>"
  by (auto simp: frame_from_message_def message_ok_def map_sum_Inr mk_can_frame_eq_Inr wf_can_frame_def)

section \<open>A packet over a CAN bus\<close>

fun socketcan_send_all ::
  "'b can_bus \<Rightarrow> endpoint_id option \<Rightarrow> can_frame list \<Rightarrow> 'b socketcan
    \<Rightarrow> (can_error + transport_envelope list) \<times> 'b socketcan" where
  "socketcan_send_all cb source [] a = (Inr [], a)"
| "socketcan_send_all cb source (fr # frs) a =
     (case socketcan_send cb (CanFrame fr) source a of
        (Inl e, a1) \<Rightarrow> (Inl e, a1)
      | (Inr env, a1) \<Rightarrow>
          (case socketcan_send_all cb source frs a1 of
             (Inl e, a2) \<Rightarrow> (Inl e, a2) | (Inr envs, a2) \<Rightarrow> (Inr (env # envs), a2)))"

text \<open>\<^verbatim>\<open>drain\<close>, as \<^verbatim>\<open>TransportAdapter\<close> inherits it, with the exceptions of \<open>receive\<close>.\<close>

partial_function (option) socketcan_drain ::
  "'b can_bus \<Rightarrow> 'b socketcan \<Rightarrow> transport_envelope list
    \<Rightarrow> ((can_error + transport_envelope list) \<times> 'b socketcan) option" where
  "socketcan_drain cb a envelopes =
     (case socketcan_receive cb None None a of
        (Inl e, a1) \<Rightarrow> Some (Inl e, a1)
      | (Inr None, a1) \<Rightarrow> Some (Inr envelopes, a1)
      | (Inr (Some env), a1) \<Rightarrow> socketcan_drain cb a1 (envelopes @ [env]))"

text \<open>
  What is relied on in the bus, for two of its ends: the message constructor accepts a valid classic extended
  data frame; \<open>sent\<close> are the messages given to an end so far, \<open>pending\<close> those it has yet to return.
\<close>

definition fifo_bus ::
  "'b can_bus \<Rightarrow> ('b \<Rightarrow> can_message list) \<Rightarrow> ('b \<Rightarrow> can_message list) \<Rightarrow> bool" where
  "fifo_bus cb sent pending \<longleftrightarrow>
     (\<forall>m. message_ok m \<longrightarrow> cb_check cb m = None) \<and>
     (\<forall>m t b. message_ok m \<longrightarrow> (\<exists>b1. cb_send cb m t b = (Inr (), b1) \<and> sent b1 = sent b @ [m])) \<and>
     (\<forall>t b. pending b = [] \<longrightarrow> (\<exists>b1. cb_recv cb t b = (Inr None, b1) \<and> pending b1 = [])) \<and>
     (\<forall>t b m ms. pending b = m # ms \<longrightarrow> (\<exists>b1. cb_recv cb t b = (Inr (Some m), b1) \<and> pending b1 = ms))"

definition frame_message :: "string \<Rightarrow> can_frame \<Rightarrow> can_message" where
  "frame_message channel fr = \<lparr>mg_arbitration_id = fr_can_id fr, mg_is_extended = True, mg_is_remote = False,
     mg_is_error = False, mg_is_fd = False, mg_data = fr_data fr, mg_channel = channel\<rparr>"

lemma frame_message_ok: "wf_can_frame fr \<Longrightarrow> fr_is_extended fr \<Longrightarrow> message_ok (frame_message channel fr)"
  by (auto simp: message_ok_def frame_message_def wf_can_frame_def)

lemma frame_of_message:
  "wf_can_frame fr \<Longrightarrow> fr_is_extended fr \<Longrightarrow> frame_from_message (frame_message channel fr) = Inr fr"
  using frame_message_ok[of fr channel] by (simp add: frame_from_message_iff frame_message_def)

lemma send_one:
  assumes "fifo_bus cb sent pending" "wf_can_frame fr" "fr_is_extended fr" "\<not> sc_closed a"
    and "case source of None \<Rightarrow> True | Some ep \<Rightarrow> is_ok (validate_endpoint ep)"
  shows "\<exists>a1. socketcan_send cb (CanFrame fr) source a =
      (Inr \<lparr>env_frame = CanFrame fr, env_sequence = sc_next_sequence a, env_source = source\<rparr>, a1) \<and>
    sent (sc_bus a1) = sent (sc_bus a) @ [frame_message (sc_interface a) fr] \<and>
    sc_closed a1 = sc_closed a \<and> sc_interface a1 = sc_interface a \<and>
    sc_next_sequence a1 = sc_next_sequence a + 1"
proof -
  note ok = frame_message_ok[OF assms(2,3), of "sc_interface a"]
  obtain b where b: "cb_send cb (frame_message (sc_interface a) fr) (sc_send_timeout a) (sc_bus a) = (Inr (), b)"
      "sent b = sent (sc_bus a) @ [frame_message (sc_interface a) fr]"
    using assms(1) ok unfolding fifo_bus_def by blast
  have "message_from_frame cb (sc_interface a) fr = Inr (frame_message (sc_interface a) fr)"
    using assms(1,3) ok by (simp add: message_from_frame_def fifo_bus_def frame_message_def)
  then have "prepare_send cb (CanFrame fr) source a = Inr (fr, source, frame_message (sc_interface a) fr)"
    using assms(3,4,5)
    by (auto simp: prepare_send_def ensure_open_def is_ok_conv res_check_def split: option.splits dest: validate_endpoint_Inr)
  then show ?thesis using b by (simp add: socketcan_send_def sc_envelope_def)
qed

lemma send_all:
  assumes "fifo_bus cb sent pending" "\<forall>fr \<in> set frs. wf_can_frame fr \<and> fr_is_extended fr" "\<not> sc_closed a"
    and "case source of None \<Rightarrow> True | Some ep \<Rightarrow> is_ok (validate_endpoint ep)"
  shows "\<exists>envs a1. socketcan_send_all cb source frs a = (Inr envs, a1) \<and>
    map env_frame envs = map CanFrame frs \<and>
    sent (sc_bus a1) = sent (sc_bus a) @ map (frame_message (sc_interface a)) frs"
  using assms(2,3)
proof (induction frs arbitrary: a)
  case (Cons fr frs)
  obtain a1 where a1: "socketcan_send cb (CanFrame fr) source a =
      (Inr \<lparr>env_frame = CanFrame fr, env_sequence = sc_next_sequence a, env_source = source\<rparr>, a1)"
    "sent (sc_bus a1) = sent (sc_bus a) @ [frame_message (sc_interface a) fr]"
    "sc_closed a1 = sc_closed a" "sc_interface a1 = sc_interface a"
    using send_one[OF assms(1) _ _ Cons.prems(2) assms(4), of fr] Cons.prems(1) by auto
  obtain envs a2 where "socketcan_send_all cb source frs a1 = (Inr envs, a2)"
    "map env_frame envs = map CanFrame frs"
    "sent (sc_bus a2) = sent (sc_bus a1) @ map (frame_message (sc_interface a1)) frs"
    using Cons.IH[of a1] Cons.prems a1(3) by auto
  then show ?case using a1 by simp
qed simp

lemma receive_one:
  assumes "fifo_bus cb sent pending" "\<not> sc_closed a" "wf_can_frame fr" "fr_is_extended fr"
    and "pending (sc_bus a) = frame_message channel fr # ms"
  shows "\<exists>a1. socketcan_receive cb None None a =
      (Inr (Some \<lparr>env_frame = CanFrame fr, env_sequence = sc_next_sequence a, env_source = None\<rparr>), a1) \<and>
    pending (sc_bus a1) = ms \<and> \<not> sc_closed a1 \<and> sc_next_sequence a1 = sc_next_sequence a + 1"
proof -
  obtain b where "cb_recv cb (Some FL_ZERO) (sc_bus a) = (Inr (Some (frame_message channel fr)), b)" "pending b = ms"
    using assms(1,5) unfolding fifo_bus_def by blast
  then show ?thesis using assms(2) frame_of_message[OF assms(3,4), of channel]
    by (simp add: socketcan_receive_def prepare_receive_def ensure_open_def sc_envelope_def)
qed

lemma drain_messages:
  assumes "fifo_bus cb sent pending" "\<forall>fr \<in> set frs. wf_can_frame fr \<and> fr_is_extended fr" "\<not> sc_closed a"
    and "pending (sc_bus a) = map (frame_message channel) frs"
  shows "\<exists>envs a1. socketcan_drain cb a acc = Some (Inr (acc @ envs), a1) \<and>
    map env_frame envs = map CanFrame frs \<and>
    map env_sequence envs = [sc_next_sequence a ..< sc_next_sequence a + length frs]"
  using assms(2-4)
proof (induction frs arbitrary: a acc)
  case Nil
  then have "pending (sc_bus a) = []" by simp
  then obtain b where "cb_recv cb (Some FL_ZERO) (sc_bus a) = (Inr None, b)"
    using assms(1) unfolding fifo_bus_def by blast
  then show ?case using Nil
    by (simp add: socketcan_drain.simps socketcan_receive_def prepare_receive_def ensure_open_def)
next
  case (Cons fr frs)
  let ?env = "\<lparr>env_frame = CanFrame fr, env_sequence = sc_next_sequence a, env_source = None\<rparr>"
  obtain a1 where a1: "socketcan_receive cb None None a = (Inr (Some ?env), a1)"
    "pending (sc_bus a1) = map (frame_message channel) frs" "\<not> sc_closed a1"
    "sc_next_sequence a1 = sc_next_sequence a + 1"
    using receive_one[OF assms(1) Cons.prems(2), of fr channel] Cons.prems(1,3) by auto
  obtain envs a2 where "socketcan_drain cb a1 (acc @ [?env]) = Some (Inr ((acc @ [?env]) @ envs), a2)"
    "map env_frame envs = map CanFrame frs"
    "map env_sequence envs = [sc_next_sequence a1 ..< sc_next_sequence a1 + length frs]"
    using Cons.IH[OF _ a1(3,2)] Cons.prems(1) by (metis list.set_intros(2))
  moreover have "sc_next_sequence a # [sc_next_sequence a1 ..< sc_next_sequence a1 + length frs] =
      [sc_next_sequence a ..< sc_next_sequence a + length (fr # frs)]"
    using a1(4) upt_conv_Cons[of "sc_next_sequence a" "sc_next_sequence a + length (fr # frs)"] by simp
  ultimately show ?case using a1(1)
    by (intro exI[of _ "?env # envs"] exI[of _ a2]) (simp add: socketcan_drain.simps[of cb a])
qed

text \<open>
  C20: A CSP packet crosses a CAN bus between two SocketCAN adapters. On a bus that delivers messages in order,
  sending the CFP2 frames of a packet through one open adapter succeeds; draining the other end, whose bus
  then holds exactly those messages, returns (it terminates) the same frames with consecutive sequence numbers; and an
  idle reassembler that has room for the payload makes of them exactly that packet.
\<close>

theorem socketcan_delivers_packet:
  assumes "fifo_bus cb sent pending" "wf_csp_fields f" "fragment_packet f payload sender n = Inr frames"
    and "\<not> sc_closed a" "\<not> sc_closed a'" "sent (sc_bus a) = []"
    and "case source of None \<Rightarrow> True | Some ep \<Rightarrow> is_ok (validate_endpoint ep)"
    and "ra_partials r = []" "over_limit r (length payload) = None" "length stamps = length frames"
  shows "\<exists>envs a1. socketcan_send_all cb source frames a = (Inr envs, a1) \<and>
     (pending (sc_bus a') = sent (sc_bus a1) \<longrightarrow>
       (\<exists>envs' a2 events. socketcan_drain cb a' [] = Some (Inr envs', a2) \<and>
          map env_frame envs' = map CanFrame frames \<and>
          map env_sequence envs' = [sc_next_sequence a' ..< sc_next_sequence a' + length frames] \<and>
          feed_all r (zip frames stamps) = Inr (events, r) \<and>
          List.map_filter cfp_delivered events = [(f, payload)]))"
proof -
  from fragment_packet_InrD[OF assms(3)] have "\<exists>frs. fragment_packet f payload sender n = Inr frs \<and>
      (\<forall>fr \<in> set frs. wf_can_frame fr \<and> fr_is_extended fr)"
    using fragments_valid[OF assms(2), of sender n payload] by auto
  then have ok: "\<forall>fr \<in> set frames. wf_can_frame fr \<and> fr_is_extended fr" using assms(3) by simp
  obtain envs a1 where a1: "socketcan_send_all cb source frames a = (Inr envs, a1)"
      "sent (sc_bus a1) = map (frame_message (sc_interface a)) frames"
    using send_all[OF assms(1) ok assms(4,7)] assms(6) by auto
  show ?thesis
    using a1 drain_messages[OF assms(1) ok assms(5), of "sc_interface a" "[]"]
      idle_receiver_delivers[OF assms(2,3,10,8,9)] by fastforce
qed

text \<open>A bus that loops back: what is sent is pending.\<close>

definition loop_bus :: "can_message list can_bus" where
  "loop_bus = \<lparr>cb_open = (\<lambda>_ _. Inr []), cb_check = (\<lambda>_. None), cb_send = (\<lambda>m _ b. (Inr (), b @ [m])),
     cb_recv = (\<lambda>_ b. case b of [] \<Rightarrow> (Inr None, []) | m # ms \<Rightarrow> (Inr (Some m), ms)),
     cb_shutdown = (\<lambda>b. (Inr (), b))\<rparr>"

definition loop_adapter :: "can_message list \<Rightarrow> can_message list socketcan" where
  "loop_adapter b = \<lparr>sc_interface = ''vcan0'', sc_receive_own = False, sc_send_timeout = Some FL_ZERO,
     sc_bus = b, sc_next_sequence = 0, sc_closed = False\<rparr>"

lemma loop_bus_fifo: "fifo_bus loop_bus id id"
  by (simp add: fifo_bus_def loop_bus_def)

lemma socketcan_delivers_packet_witness:
  "\<exists>envs a1 envs' a2 events.
     socketcan_send_all loop_bus None demo_frames (loop_adapter []) = (Inr envs, a1) \<and>
     socketcan_drain loop_bus (loop_adapter (sc_bus a1)) [] = Some (Inr envs', a2) \<and>
     map env_frame envs' = map CanFrame demo_frames \<and>
     feed_all demo_receiver (zip demo_frames (map int [0..<length demo_frames])) = Inr (events, demo_receiver) \<and>
     List.map_filter cfp_delivered events = [(demo_fields, demo_payload)]"
proof -
  have frag: "fragment_packet demo_fields demo_payload None 1 = Inr demo_frames" by (rule demo_frames_eq)
  have idle: "ra_partials demo_receiver = []" "over_limit demo_receiver (length demo_payload) = None"
    by code_simp+
  obtain envs a1 where a1: "socketcan_send_all loop_bus None demo_frames (loop_adapter []) = (Inr envs, a1)"
    using socketcan_delivers_packet[OF loop_bus_fifo _ frag, of "loop_adapter []" "loop_adapter []" None
        demo_receiver "map int [0..<length demo_frames]"] demo_fields_wf idle
    by (auto simp: loop_adapter_def)
  show ?thesis
    using socketcan_delivers_packet[OF loop_bus_fifo _ frag, of "loop_adapter []" "loop_adapter (sc_bus a1)" None
        demo_receiver "map int [0..<length demo_frames]"] demo_fields_wf idle a1
    by (auto simp: loop_adapter_def)
qed

text \<open>
  C39: Nothing but a valid classic CAN frame enters the testbed from a SocketCAN bus. On an open adapter a message from
  the bus becomes an envelope exactly if it is a data frame, neither remote nor error nor CAN FD, with a 29-bit identifier in
  range and at most eight bytes; the envelope holds its identifier and data and the next sequence number. Any
  other message raises, and takes no sequence number.
\<close>

theorem socketcan_receives_valid_frames:
  assumes "\<not> sc_closed a" "cb_recv cb (Some FL_ZERO) (sc_bus a) = (Inr (Some m), b)"
  shows "case socketcan_receive cb None None a of
      (Inr None, _) \<Rightarrow> False
    | (Inr (Some env), a1) \<Rightarrow>
        message_ok m \<and> a1 = a\<lparr>sc_bus := b, sc_next_sequence := sc_next_sequence a + 1\<rparr> \<and>
        env = \<lparr>env_frame = CanFrame \<lparr>fr_can_id = mg_arbitration_id m, fr_data = mg_data m, fr_is_extended = True\<rparr>,
               env_sequence = sc_next_sequence a, env_source = None\<rparr>
    | (Inl _, a1) \<Rightarrow> \<not> message_ok m \<and> a1 = a\<lparr>sc_bus := b\<rparr>"
proof (cases "message_ok m")
  case True
  then have "frame_from_message m =
      Inr \<lparr>fr_can_id = mg_arbitration_id m, fr_data = mg_data m, fr_is_extended = True\<rparr>"
    by (simp add: frame_from_message_iff)
  then show ?thesis using assms True
    by (simp add: socketcan_receive_def prepare_receive_def ensure_open_def sc_envelope_def)
next
  case False
  then obtain e where "frame_from_message m = Inl e"
    using frame_from_message_iff[of m] by (cases "frame_from_message m") auto
  then show ?thesis using assms False
    by (simp add: socketcan_receive_def prepare_receive_def ensure_open_def)
qed

lemma socketcan_receives_valid_frames_witness:
  "\<exists>a1. socketcan_receive loop_bus None None (loop_adapter [frame_message ''vcan0'' (hd demo_frames)]) =
     (Inr (Some \<lparr>env_frame = CanFrame (hd demo_frames), env_sequence = 0, env_source = None\<rparr>), a1)"
proof -
  have "message_ok (frame_message ''vcan0'' (hd demo_frames))" "fr_is_extended (hd demo_frames)" by code_simp+
  then show ?thesis
    using socketcan_receives_valid_frames[of "loop_adapter [frame_message ''vcan0'' (hd demo_frames)]" loop_bus
        "frame_message ''vcan0'' (hd demo_frames)" "[]"]
    by (auto simp: loop_adapter_def loop_bus_def frame_message_def split: prod.splits sum.splits option.splits)
qed

section \<open>Accepted configurations open\<close>

lemma accepted_interface_opens:
  assumes "mk_socketcan_transport iface own = Inr config" "cb_open cb iface own = Inr b"
  shows "\<exists>a. build_transport_adapter cb open_line config endpoints None (Some (PFloat FL_ZERO)) locals m =
     Inr (CanAdapter a) \<and> sc_interface a = iface \<and> \<not> sc_closed a"
proof -
  have "config = SocketCanTransport iface own \<and> is_identifier iface"
    using assms(1) by (auto simp: mk_socketcan_transport_def cfg_identifier_def res_bind_eq_Inr split: if_splits)
  then show ?thesis using assms(2)
    by (simp add: build_transport_adapter_def mk_socketcan_def validate_interface_def validate_timeout_def)
qed

end
