(* ===== verification/SerialLine.thy ===== *)
theory SerialLine
  imports Transport PyFloat Actions
begin

text \<open>
  The serial line of the KISS transport (\<^verbatim>\<open>transport/serial_line.py\<close>) and the KISS adapter on it
  (\<^verbatim>\<open>transport/kiss.py\<close>). The calls of the operating system on a file descriptor and the constants of
  \<^verbatim>\<open>termios\<close> are arguments: \<open>serial_os\<close> may refuse, block, and take or return fewer bytes than asked for. The
  write loop runs for as long as the system blocks, so it is a partial function.
\<close>

section \<open>The operating system\<close>

text \<open>\<open>WouldBlock\<close> is \<^verbatim>\<open>BlockingIOError\<close>, a kind of \<^verbatim>\<open>OSError\<close>; both carry the text of the exception.\<close>

datatype os_refusal = WouldBlock (os_text: string) | OsFailure (os_text: string)

record tty_attrs =
  tt_iflag :: int
  tt_oflag :: int
  tt_cflag :: int
  tt_lflag :: int
  tt_ispeed :: int
  tt_ospeed :: int
  tt_cc :: "nat \<Rightarrow> int"

record tty_constants =
  tk_csize :: int
  tk_parenb :: int
  tk_cstopb :: int
  tk_crtscts :: int
  tk_cs8 :: int
  tk_cread :: int
  tk_clocal :: int
  tk_vmin :: nat
  tk_vtime :: nat
  tk_speed :: "int \<Rightarrow> int option"

record 'o serial_os =
  so_open :: "string \<Rightarrow> 'o \<Rightarrow> (os_refusal + int) \<times> 'o"
  so_getattr :: "int \<Rightarrow> 'o \<Rightarrow> (os_refusal + tty_attrs) \<times> 'o"
  so_setattr :: "int \<Rightarrow> tty_attrs \<Rightarrow> 'o \<Rightarrow> (os_refusal + unit) \<times> 'o"
  so_write :: "int \<Rightarrow> byte list \<Rightarrow> 'o \<Rightarrow> (os_refusal + nat) \<times> 'o"
  so_select_write :: "int \<Rightarrow> 'o \<Rightarrow> (os_refusal + unit) \<times> 'o"
  so_select_read :: "int \<Rightarrow> pyfloat \<Rightarrow> 'o \<Rightarrow> (os_refusal + bool) \<times> 'o"
  so_read :: "int \<Rightarrow> nat \<Rightarrow> 'o \<Rightarrow> (os_refusal + byte list) \<times> 'o"
  so_close :: "int \<Rightarrow> 'o \<Rightarrow> (os_refusal + unit) \<times> 'o"

section \<open>The line\<close>

definition baud_rates :: "int list" where
  "baud_rates = [1200, 2400, 4800, 9600, 19200, 38400, 57600, 115200, 230400, 460800, 500000, 576000, 921600,
     1000000, 1152000, 1500000, 2000000, 2500000, 3000000, 3500000, 4000000]"

definition baud_constant :: "tty_constants \<Rightarrow> int \<Rightarrow> int option" where
  "baud_constant k rate = (if rate \<in> set baud_rates then tk_speed k rate else None)"

datatype line_error =
    LineBaud int "int list"
  | LineOpen string string
  | LineConfigure string string
  | LineOsError string
  | LineWrite string
  | LineRead string
  | LineClose string
  | LineTransport transport_error
  | LineCodec csp_error

record serial_line =
  sl_fd :: int
  sl_owns_fd :: bool
  sl_closed :: bool

text \<open>Raw bytes, eight data bits, no parity, one stop bit, no flow control.\<close>

definition raw_attributes :: "tty_constants \<Rightarrow> int \<Rightarrow> tty_attrs \<Rightarrow> tty_attrs" where
  "raw_attributes k speed a =
     a\<lparr>tt_iflag := 0, tt_oflag := 0,
       tt_cflag := (tt_cflag a AND NOT (tk_csize k OR tk_parenb k OR tk_cstopb k OR tk_crtscts k)) OR
         tk_cs8 k OR tk_cread k OR tk_clocal k,
       tt_lflag := 0, tt_ispeed := speed, tt_ospeed := speed, tt_cc := (tt_cc a)(tk_vmin k := 0, tk_vtime k := 0)\<rparr>"

definition configure_line ::
  "'o serial_os \<Rightarrow> tty_constants \<Rightarrow> int \<Rightarrow> int \<Rightarrow> 'o \<Rightarrow> (os_refusal + unit) \<times> 'o" where
  "configure_line os k speed fd w =
     (case so_getattr os fd w of
        (Inl e, w1) \<Rightarrow> (Inl e, w1)
      | (Inr a, w1) \<Rightarrow> so_setattr os fd (raw_attributes k speed a) w1)"

definition serial_open ::
  "'o serial_os \<Rightarrow> tty_constants \<Rightarrow> string \<Rightarrow> int \<Rightarrow> 'o \<Rightarrow> (line_error + serial_line) \<times> 'o" where
  "serial_open os k device baudrate w =
     (case baud_constant k baudrate of
        None \<Rightarrow> (Inl (LineBaud baudrate (filter (\<lambda>r. baud_constant k r \<noteq> None) baud_rates)), w)
      | Some speed \<Rightarrow>
          (case so_open os device w of
             (Inl e, w1) \<Rightarrow> (Inl (LineOpen device (os_text e)), w1)
           | (Inr fd, w1) \<Rightarrow>
               (case configure_line os k speed fd w1 of
                  (Inr _, w2) \<Rightarrow> (Inr \<lparr>sl_fd = fd, sl_owns_fd = True, sl_closed = False\<rparr>, w2)
                | (Inl e, w2) \<Rightarrow>
                    (case so_close os fd w2 of
                       (Inl e', w3) \<Rightarrow> (Inl (LineOsError (os_text e')), w3)
                     | (Inr _, w3) \<Rightarrow> (Inl (LineConfigure device (os_text e)), w3)))))"

partial_function (option) write_loop ::
  "'o serial_os \<Rightarrow> int \<Rightarrow> byte list \<Rightarrow> 'o \<Rightarrow> ((line_error + unit) \<times> 'o) option" where
  "write_loop os fd view w =
     (if view = [] then Some (Inr (), w)
      else
        (case so_write os fd view w of
           (Inl (WouldBlock _), w1) \<Rightarrow>
             (case so_select_write os fd w1 of
                (Inl e, w2) \<Rightarrow> Some (Inl (LineWrite (os_text e)), w2)
              | (Inr _, w2) \<Rightarrow> write_loop os fd view w2)
         | (Inl (OsFailure e), w1) \<Rightarrow> Some (Inl (LineWrite e), w1)
         | (Inr written, w1) \<Rightarrow> write_loop os fd (drop written view) w1))"

definition serial_write ::
  "'o serial_os \<Rightarrow> serial_line \<Rightarrow> byte list \<Rightarrow> 'o \<Rightarrow> ((line_error + unit) \<times> 'o) option" where
  "serial_write os line data w = write_loop os (sl_fd line) data w"

definition serial_read ::
  "'o serial_os \<Rightarrow> serial_line \<Rightarrow> pyfloat \<Rightarrow> 'o \<Rightarrow> (line_error + byte list) \<times> 'o" where
  "serial_read os line timeout w =
     (let refused = (\<lambda>e. case e of WouldBlock _ \<Rightarrow> Inr [] | OsFailure t \<Rightarrow> Inl (LineRead t)) in
      case so_select_read os (sl_fd line) (if fl_less timeout FL_ZERO then FL_ZERO else timeout) w of
        (Inl e, w1) \<Rightarrow> (refused e, w1)
      | (Inr ready, w1) \<Rightarrow>
          if \<not> ready then (Inr [], w1)
          else (case so_read os (sl_fd line) 4096 w1 of
                  (Inl e, w2) \<Rightarrow> (refused e, w2)
                | (Inr data, w2) \<Rightarrow> (Inr data, w2)))"

definition serial_close ::
  "'o serial_os \<Rightarrow> serial_line \<Rightarrow> 'o \<Rightarrow> (line_error + unit) \<times> serial_line \<times> 'o" where
  "serial_close os line w =
     (if sl_closed line then (Inr (), line, w)
      else let line1 = line\<lparr>sl_closed := True\<rparr> in
           if sl_owns_fd line
           then (case so_close os (sl_fd line) w of
                   (r, w1) \<Rightarrow> (map_sum (\<lambda>e. LineClose (os_text e)) id r, line1, w1))
           else (Inr (), line1, w))"

section \<open>The KISS adapter on a line\<close>

type_synonym 'o kiss_line = "kiss_adapter \<times> serial_line \<times> 'o"

definition open_kiss_line ::
  "'o serial_os \<Rightarrow> tty_constants \<Rightarrow> string \<Rightarrow> int \<Rightarrow> int list \<Rightarrow> int \<Rightarrow> 'o \<Rightarrow> (line_error + kiss_adapter \<times> serial_line) \<times> 'o" where
  "open_kiss_line os k device baudrate local_addresses max_packet_bytes w =
     (case serial_open os k device baudrate w of
        (Inl e, w1) \<Rightarrow> (Inl e, w1)
      | (Inr line, w1) \<Rightarrow>
          (map_sum LineCodec (\<lambda>a. (a, line)) (mk_kiss_adapter local_addresses max_packet_bytes), w1))"

text \<open>A packet for a local node writes nothing; a failed write leaves the adapter as it was.\<close>

definition kiss_line_send ::
  "'o serial_os \<Rightarrow> frame \<Rightarrow> endpoint_id option \<Rightarrow> 'o kiss_line
    \<Rightarrow> ((line_error + transport_envelope) \<times> 'o kiss_line) option" where
  "kiss_line_send os fr source st =
     (case st of (a, line, w) \<Rightarrow>
        (case kiss_send fr source a of
           Inl e \<Rightarrow> Some (Inl (LineTransport e), st)
         | Inr (env, a1, wire) \<Rightarrow>
             map_option (\<lambda>(r, w1).
                case r of Inl e \<Rightarrow> (Inl e, (a, line, w1)) | Inr _ \<Rightarrow> (Inr env, (a1, line, w1)))
               (serial_write os line wire w)))"

definition kiss_line_pump ::
  "'o serial_os \<Rightarrow> pyfloat \<Rightarrow> 'o kiss_line \<Rightarrow> (line_error + unit) \<times> 'o kiss_line" where
  "kiss_line_pump os timeout st =
     (case st of (a, line, w) \<Rightarrow>
        (case serial_read os line timeout w of
           (Inl e, w1) \<Rightarrow> (Inl e, (a, line, w1))
         | (Inr data, w1) \<Rightarrow> (Inr (), (ka_pump data a, line, w1))))"

definition kiss_line_pop ::
  "endpoint_id option \<Rightarrow> 'o kiss_line \<Rightarrow> (line_error + transport_envelope option) \<times> 'o kiss_line" where
  "kiss_line_pop ep st =
     (case st of (a, line, w) \<Rightarrow>
        (case ka_queue_for ep a of
           Inl e \<Rightarrow> (Inl (LineTransport e), st)
         | Inr [] \<Rightarrow> (Inr None, st)
         | Inr (env # rest) \<Rightarrow> (Inr (Some env), (ka_set_queue ep rest a, line, w))))"

definition kiss_line_receive ::
  "'o serial_os \<Rightarrow> endpoint_id option \<Rightarrow> pyfloat option \<Rightarrow> 'o kiss_line
    \<Rightarrow> (line_error + transport_envelope option) \<times> 'o kiss_line" where
  "kiss_line_receive os ep timeout st =
     (if ka_closed (fst st) then (Inl (LineTransport TrLineClosed), st)
      else case ka_queue_for ep (fst st) of
             Inl e \<Rightarrow> (Inl (LineTransport e), st)
           | Inr _ \<Rightarrow>
               (case kiss_line_pump os FL_ZERO st of
                  (Inl e, st1) \<Rightarrow> (Inl e, st1)
                | (Inr _, st1) \<Rightarrow>
                    (case (ka_queue_for ep (fst st1), timeout) of
                       (Inr [], Some t) \<Rightarrow>
                         if fl_less FL_ZERO t
                         then (case kiss_line_pump os t st1 of
                                 (Inl e, st2) \<Rightarrow> (Inl e, st2) | (Inr _, st2) \<Rightarrow> kiss_line_pop ep st2)
                         else kiss_line_pop ep st1
                     | _ \<Rightarrow> kiss_line_pop ep st1)))"

definition kiss_line_close :: "'o serial_os \<Rightarrow> 'o kiss_line \<Rightarrow> (line_error + unit) \<times> 'o kiss_line" where
  "kiss_line_close os st =
     (case st of (a, line, w) \<Rightarrow>
        if ka_closed a then (Inr (), st)
        else (case serial_close os line w of (r, line1, w1) \<Rightarrow> (r, (kiss_close a, line1, w1))))"

section \<open>Bytes through the line\<close>

text \<open>
  What is relied on in the system. Writing: \<open>wire\<close> is what the line has taken so far; a write takes a part of the bytes,
  at least one, or blocks, and then waiting makes progress (\<open>stall\<close>). Reading: \<open>pending\<close> is what has yet to be
  read; if there is something, the descriptor is ready and a read returns a part of it.
\<close>

definition takes_all :: "'o serial_os \<Rightarrow> int \<Rightarrow> ('o \<Rightarrow> byte list) \<Rightarrow> ('o \<Rightarrow> nat) \<Rightarrow> bool" where
  "takes_all os fd wire stall \<longleftrightarrow>
     (\<forall>view w. view \<noteq> [] \<longrightarrow>
        (\<exists>n w1. so_write os fd view w = (Inr n, w1) \<and> 0 < n \<and> n \<le> length view \<and> wire w1 = wire w @ take n view) \<or>
        (\<exists>t w1 w2. so_write os fd view w = (Inl (WouldBlock t), w1) \<and> so_select_write os fd w1 = (Inr (), w2) \<and>
           wire w2 = wire w \<and> stall w2 < stall w))"

definition gives_all :: "'o serial_os \<Rightarrow> int \<Rightarrow> ('o \<Rightarrow> byte list) \<Rightarrow> bool" where
  "gives_all os fd pending \<longleftrightarrow>
     (\<forall>w. pending w = [] \<longrightarrow> (\<exists>w1. so_select_read os fd FL_ZERO w = (Inr False, w1) \<and> pending w1 = [])) \<and>
     (\<forall>w. pending w \<noteq> [] \<longrightarrow>
        (\<exists>n w1 w2. so_select_read os fd FL_ZERO w = (Inr True, w1) \<and> 0 < n \<and>
           so_read os fd 4096 w1 = (Inr (take n (pending w)), w2) \<and> pending w2 = drop n (pending w)))"

lemma write_loop_all:
  assumes "takes_all os fd wire stall"
  shows "\<exists>w1. write_loop os fd view w = Some (Inr (), w1) \<and> wire w1 = wire w @ view"
proof (induction "length view" arbitrary: view w rule: less_induct)
  case less
  note shorter = less
  show ?case
  proof (induction "stall w" arbitrary: w rule: less_induct)
    case less
    show ?case
    proof (cases "view = []")
      case True
      then show ?thesis by (simp add: write_loop.simps)
    next
      case False
      then consider n w1 where "so_write os fd view w = (Inr n, w1)" "0 < n" "wire w1 = wire w @ take n view"
        | t w1 w2 where "so_write os fd view w = (Inl (WouldBlock t), w1)" "so_select_write os fd w1 = (Inr (), w2)"
            "wire w2 = wire w" "stall w2 < stall w"
        using assms unfolding takes_all_def by metis
      then show ?thesis
      proof cases
        case 1
        then have "length (drop n view) < length view" using False by simp
        then obtain w2 where "write_loop os fd (drop n view) w1 = Some (Inr (), w2)" "wire w2 = wire w1 @ drop n view"
          using shorter by blast
        then show ?thesis using 1 False by (simp add: write_loop.simps[of os fd view])
      next
        case 2
        then show ?thesis using less[of w2] False by (simp add: write_loop.simps[of os fd view w])
      qed
    qed
  qed
qed

text \<open>One poll, and as many polls as there are bytes.\<close>

lemma pump_pending:
  assumes "gives_all os (sl_fd line) pending"
  shows "\<exists>chunk w1. kiss_line_pump os FL_ZERO (a, line, w) = (Inr (), (ka_pump chunk a, line, w1)) \<and>
     pending w = chunk @ pending w1 \<and> (pending w \<noteq> [] \<longrightarrow> chunk \<noteq> [])"
proof (cases "pending w = []")
  case True
  then obtain w1 where "so_select_read os (sl_fd line) FL_ZERO w = (Inr False, w1)" "pending w1 = []"
    using assms unfolding gives_all_def by metis
  then show ?thesis using True
    by (intro exI[of _ "[]"] exI[of _ w1]) (simp add: kiss_line_pump_def serial_read_def)
next
  case False
  then obtain n w1 w2 where "so_select_read os (sl_fd line) FL_ZERO w = (Inr True, w1)" "0 < n"
      "so_read os (sl_fd line) 4096 w1 = (Inr (take n (pending w)), w2)" "pending w2 = drop n (pending w)"
    using assms unfolding gives_all_def by metis
  then show ?thesis using False
    by (intro exI[of _ "take n (pending w)"] exI[of _ w2]) (simp add: kiss_line_pump_def serial_read_def)
qed

lemma pumps_pending:
  assumes "gives_all os (sl_fd line) pending"
  shows "length (pending w) \<le> k \<Longrightarrow>
     \<exists>chunks w1. act_repeat k (kiss_line_pump os FL_ZERO) (a, line, w) = (Inr (), (fold ka_pump chunks a, line, w1)) \<and>
       concat chunks = pending w \<and> pending w1 = []"
proof (induction k arbitrary: a w)
  case 0
  then show ?case by (intro exI[of _ "[]"] exI[of _ w]) (simp add: act_return_def)
next
  case (Suc k)
  obtain chunk w1 where one: "kiss_line_pump os FL_ZERO (a, line, w) = (Inr (), (ka_pump chunk a, line, w1))"
      "pending w = chunk @ pending w1" "pending w \<noteq> [] \<longrightarrow> chunk \<noteq> []"
    using pump_pending[OF assms] by blast
  then have "length (pending w1) \<le> k" using Suc.prems by (cases chunk) auto
  then obtain chunks w2 where
      "act_repeat k (kiss_line_pump os FL_ZERO) (ka_pump chunk a, line, w1) = (Inr (), (fold ka_pump chunks (ka_pump chunk a), line, w2))"
      "concat chunks = pending w1" "pending w2 = []"
    using Suc.IH by blast
  then show ?case using one
    by (intro exI[of _ "chunk # chunks"] exI[of _ w2]) (simp add: act_bind_def)
qed

lemma ka_pump_closed: "ka_closed (ka_pump data a) = ka_closed a"
proof -
  have "ka_closed (ka_handle_event e b) = ka_closed b" for e b
    by (cases e) (simp_all add: ka_handle_event_def ka_deliver_def ka_envelope_def Let_def split: option.splits)
  then have "ka_closed (fold ka_handle_event es b) = ka_closed b" for es b by (induction es arbitrary: b) simp_all
  then show ?thesis by (simp add: ka_pump_def split: prod.splits)
qed

text \<open>
  C17: A packet crosses a serial line between two KISS adapters. The systems at the two ends may block, take or give
  any part of the bytes, but never fail: each write takes at least one byte or blocks only for finitely many waits;
  reads lose nothing, and a poll reports what is pending. The packet's fields are in range, its flags do not
  contain the FRAGMENT bit, it encodes within the sender's limit, and its destination is not local to the sender. Both
  adapters are open, nothing is on the wire, the receiver's decoder is between frames with a limit above the payload's
  length plus four, and it has an empty queue for the destination; what arrives there is what was written. Then the
  sender's write loop returns, however often the line blocks and however little it takes at a time, with the whole
  KISS frame on the wire once; and at the other end, after as many polls as there are bytes at the latest, however the
  reads are cut, a receive for the destination returns one envelope with the sender's fields and payload, nothing was
  dropped, and the decoder is ready for the next packet.
\<close>

theorem serial_line_carries_packet:
  assumes system: "takes_all os (sl_fd line) wire stall" "gives_all os' (sl_fd line') pending"
    and packet: "encode_kiss_frame (cp_fields p) (cp_payload p) (ka_max_packet_bytes a) = Inr bytes"
      "wf_csp_fields (cp_fields p)" "cf_flags (cp_fields p) AND CSP_FLAG_FRAGMENT = 0"
      "cf_destination (cp_fields p) \<notin> set (ka_local_addresses a)"
    and ends: "\<not> ka_closed a" "wire w = []" "\<not> ka_closed b" "kiss_idle (ka_decoder b)"
      "int (length (cp_payload p)) + 4 < kd_max_packet_bytes (ka_decoder b)"
      "map_of (ka_queues b) (cf_destination (cp_fields p)) = Some []"
  shows "\<exists>env a1 w1. kiss_line_send os (PacketFrame p) source (a, line, w) = Some (Inr env, (a1, line, w1)) \<and>
     wire w1 = bytes \<and>
     (\<forall>u k. pending u = wire w1 \<longrightarrow> length bytes \<le> k \<longrightarrow>
        (\<exists>b1 u1 b2 u2 env' p'. act_repeat k (kiss_line_pump os' FL_ZERO) (b, line', u) = (Inr (), (b1, line', u1)) \<and>
           kiss_line_receive os' (Some (EpNumber (cf_destination (cp_fields p)))) None (b1, line', u1) =
             (Inr (Some env'), (b2, line', u2)) \<and>
           env_frame env' = PacketFrame p' \<and> cp_fields p' = cp_fields p \<and> cp_payload p' = cp_payload p \<and>
           ka_drops b2 = ka_drops b \<and> kiss_idle (ka_decoder b2)))"
proof -
  let ?d = "cf_destination (cp_fields p)"
  obtain env a1 where sent: "kiss_send (PacketFrame p) source a = Inr (env, a1, bytes)"
    using packet(1,4) ends(1) by (auto simp: kiss_send_def ka_envelope_def)
  obtain w1 where w1: "write_loop os (sl_fd line) bytes w = Some (Inr (), w1)" "wire w1 = bytes"
    using write_loop_all[OF system(1), of bytes w] ends(2) by auto
  have "\<exists>b1 u1 b2 u2 env' p'. act_repeat k (kiss_line_pump os' FL_ZERO) (b, line', u) = (Inr (), (b1, line', u1)) \<and>
           kiss_line_receive os' (Some (EpNumber ?d)) None (b1, line', u1) = (Inr (Some env'), (b2, line', u2)) \<and>
           env_frame env' = PacketFrame p' \<and> cp_fields p' = cp_fields p \<and> cp_payload p' = cp_payload p \<and>
           ka_drops b2 = ka_drops b \<and> kiss_idle (ka_decoder b2)"
    if u: "pending u = wire w1" "length bytes \<le> k" for u k
  proof -
    obtain chunks u1 where polls:
        "act_repeat k (kiss_line_pump os' FL_ZERO) (b, line', u) = (Inr (), (fold ka_pump chunks b, line', u1))"
        "concat chunks = bytes" "pending u1 = []"
      using pumps_pending[OF system(2), of u k b] u w1(2) by auto
    let ?b = "fold ka_pump chunks b"
    obtain v where q: "map_of (ka_queues ?b) ?d = Some [\<lparr>env_frame = PacketFrame (p\<lparr>cp_wire := v\<rparr>),
        env_sequence = ka_next_sequence b, env_source = None\<rparr>]" "ka_drops ?b = ka_drops b" "kiss_idle (ka_decoder ?b)"
      using kiss_adapter_transfer[OF sent packet(4,2,3) ends(4,5,6) polls(2)] by (auto simp: Let_def)
    obtain u2 where "kiss_line_pump os' FL_ZERO (?b, line', u1) = (Inr (), (?b, line', u2))"
      using pump_pending[OF system(2), of ?b u1] polls(3) by (auto simp: ka_pump_def)
    moreover have "ka_closed ?b = ka_closed b" by (induction chunks arbitrary: b) (simp_all add: ka_pump_closed)
    ultimately show ?thesis using polls(1) q ends(3)
      by (auto simp: kiss_line_receive_def kiss_line_pop_def ka_queue_for_def ka_set_queue_def)
  qed
  then show ?thesis using sent w1 by (auto simp: kiss_line_send_def serial_write_def)
qed

text \<open>A system that blocks before every write, takes three bytes at a time and gives two.\<close>

definition slow_os :: "(byte list \<times> nat) serial_os" where
  "slow_os = \<lparr>so_open = (\<lambda>_ w. (Inr 3, w)),
     so_getattr = (\<lambda>_ w. (Inr \<lparr>tt_iflag = 1, tt_oflag = 1, tt_cflag = 1, tt_lflag = 1, tt_ispeed = 0, tt_ospeed = 0,
        tt_cc = (\<lambda>_. 0)\<rparr>, w)),
     so_setattr = (\<lambda>_ _ w. (Inr (), w)),
     so_write = (\<lambda>_ view (wire, s). if s = 0 then (Inr (min 3 (length view)), (wire @ take 3 view, 1))
        else (Inl (WouldBlock ''busy''), (wire, s))),
     so_select_write = (\<lambda>_ (wire, s). (Inr (), (wire, s - 1))),
     so_select_read = (\<lambda>_ _ w. (Inr (fst w \<noteq> []), w)),
     so_read = (\<lambda>_ _ (wire, s). (Inr (take 2 wire), (drop 2 wire, s))),
     so_close = (\<lambda>_ w. (Inr (), w))\<rparr>"

definition demo_line :: serial_line where
  "demo_line = \<lparr>sl_fd = 3, sl_owns_fd = True, sl_closed = False\<rparr>"

lemma slow_os_takes: "takes_all slow_os fd fst snd"
proof -
  have "take (min 3 (length view)) view = take 3 view" for view :: "byte list" by (simp add: min_def)
  then show ?thesis by (auto simp: takes_all_def slow_os_def)
qed

lemma slow_os_gives: "gives_all slow_os fd fst"
  unfolding gives_all_def slow_os_def by (auto intro!: exI[of _ "2 :: nat"])

lemma serial_line_carries_packet_witness:
  "\<exists>env a1 w1 k b1 u1 b2 u2 env' p'.
     kiss_line_send slow_os (PacketFrame demo_packet) None (demo_adapter 3, demo_line, ([], 1)) =
       Some (Inr env, (a1, demo_line, w1)) \<and>
     act_repeat k (kiss_line_pump slow_os FL_ZERO) (demo_adapter 192, demo_line, (fst w1, 0)) =
       (Inr (), (b1, demo_line, u1)) \<and>
     kiss_line_receive slow_os (Some (EpNumber 192)) None (b1, demo_line, u1) = (Inr (Some env'), (b2, demo_line, u2)) \<and>
     env_frame env' = PacketFrame p' \<and> cp_payload p' = kiss_demo_payload"
proof -
  let ?p = demo_packet
  have dest: "cf_destination (cp_fields ?p) = 192" by (simp add: demo_packet_def kiss_demo_fields_def)
  obtain bytes where wire: "encode_kiss_frame (cp_fields ?p) (cp_payload ?p) (ka_max_packet_bytes (demo_adapter 3)) = Inr bytes"
    by (simp add: encode_kiss_frame_def demo_packet_def kiss_demo_payload_def demo_adapter_def Let_def)
  have wf: "wf_csp_fields (cp_fields ?p)" "cf_flags (cp_fields ?p) AND CSP_FLAG_FRAGMENT = 0"
    using kiss_demo(1,2) by (simp_all add: demo_packet_def)
  have ends: "cf_destination (cp_fields ?p) \<notin> set (ka_local_addresses (demo_adapter 3))" "\<not> ka_closed (demo_adapter 3)"
      "\<not> ka_closed (demo_adapter 192)" "kiss_idle (ka_decoder (demo_adapter 192))"
      "int (length (cp_payload ?p)) + 4 < kd_max_packet_bytes (ka_decoder (demo_adapter 192))"
      "map_of (ka_queues (demo_adapter 192)) (cf_destination (cp_fields ?p)) = Some []"
    unfolding dest by (simp_all add: demo_adapter_def demo_packet_def kiss_demo_payload_def kiss_demo)
  have empty: "fst ([] :: byte list, 1 :: nat) = []" by simp
  note run = serial_line_carries_packet[where line = demo_line and line' = demo_line and source = None,
      OF slow_os_takes slow_os_gives wire wf ends(1,2) empty ends(3-6), unfolded dest]
  obtain env a1 w1 where sent: "kiss_line_send slow_os (PacketFrame ?p) None (demo_adapter 3, demo_line, ([], 1)) =
        Some (Inr env, (a1, demo_line, w1))"
    and got: "\<forall>u k. fst u = fst w1 \<longrightarrow> length bytes \<le> k \<longrightarrow>
        (\<exists>b1 u1 b2 u2 env' p'. act_repeat k (kiss_line_pump slow_os FL_ZERO) (demo_adapter 192, demo_line, u) =
             (Inr (), (b1, demo_line, u1)) \<and>
           kiss_line_receive slow_os (Some (EpNumber 192)) None (b1, demo_line, u1) = (Inr (Some env'), (b2, demo_line, u2)) \<and>
           env_frame env' = PacketFrame p' \<and> cp_fields p' = cp_fields ?p \<and> cp_payload p' = cp_payload ?p \<and>
           ka_drops b2 = ka_drops (demo_adapter 192) \<and> kiss_idle (ka_decoder b2))"
    using run by blast
  have "cp_payload ?p = kiss_demo_payload" by (simp add: demo_packet_def)
  then show ?thesis using sent got[rule_format, of "(fst w1, 0)" "length bytes"] by (simp only: fst_conv) blast
qed

end
