(* ===== verification/Report.thy ===== *)
theory Report
  imports Runner Tracing
begin

text \<open>
  What a run reports (\<^verbatim>\<open>scenario/runner.py\<close>, \<^verbatim>\<open>main.py\<close>): DROP lines, the JUnit tree, the JSON payload, the summary line
  and the exit code. An XML element is a tree; its text form is \<^verbatim>\<open>xml.etree\<close>'s work. The values of \<^verbatim>\<open>repr\<close> and
  the formatted wall-clock seconds are arguments.
\<close>

section \<open>DROP lines\<close>

definition reassembly_reason_value :: "reassembly_drop_reason \<Rightarrow> string" where
  "reassembly_reason_value r =
     (case r of ORPHAN_FRAGMENT \<Rightarrow> ''orphan_fragment'' | FRAME_LOST \<Rightarrow> ''frame_lost'' | OVERFLOW \<Rightarrow> ''overflow''
      | TIMEOUT \<Rightarrow> ''timeout'' | RESTARTED \<Rightarrow> ''restarted'' | MALFORMED \<Rightarrow> ''malformed'')"

definition kiss_reason_value :: "kiss_drop_reason \<Rightarrow> string" where
  "kiss_reason_value r =
     (case r of KISS_OVERFLOW \<Rightarrow> ''overflow'' | KISS_TOO_SHORT \<Rightarrow> ''too_short'' | KISS_CRC_ERROR \<Rightarrow> ''crc_error''
      | KISS_MALFORMED \<Rightarrow> ''malformed'')"

definition drop_reason_value :: "drop_reason \<Rightarrow> string" where
  "drop_reason_value r =
     (case r of ReassemblyReason x \<Rightarrow> reassembly_reason_value x | LineReason x \<Rightarrow> kiss_reason_value x)"

definition optional_part :: "string \<Rightarrow> int option \<Rightarrow> string list" where
  "optional_part key v = (case v of None \<Rightarrow> [] | Some n \<Rightarrow> [num_part key n])"

text \<open>\<open>quote\<close> is \<^verbatim>\<open>repr\<close> of the text of a detail.\<close>

definition format_dropped_packet :: "(drop_detail \<Rightarrow> string) \<Rightarrow> dropped_packet \<Rightarrow> string" where
  "format_dropped_packet quote d =
     join_words ([''DROP'', num_part ''t='' (dr_time d)] @ optional_part ''node='' (dr_destination d) @
       optional_part ''sender='' (dr_sender d) @ [''reason='' @ drop_reason_value (dr_reason d)] @
       optional_part ''limit='' (dr_limit d) @ [''detail='' @ quote (dr_detail d)])"

definition format_drop_trace_line :: "(drop_detail \<Rightarrow> string) \<Rightarrow> dropped_packet \<Rightarrow> string" where
  "format_drop_trace_line quote d = ''trace '' @ format_dropped_packet quote d"

section \<open>JUnit\<close>

datatype xml = Element (xml_tag: string) (xml_attrs: "(string \<times> string) list") (xml_text: string) (xml_children: "xml list")

definition junit_case :: "(assertion_detail \<Rightarrow> string) \<Rightarrow> string \<Rightarrow> assertion_result \<Rightarrow> xml" where
  "junit_case render scenario_name r =
     Element ''testcase'' [(''name'', at_name r), (''classname'', scenario_name), (''time'', ''0'')] []
       (if at_passed r then []
        else [Element ''failure'' [(''message'', render (at_detail r))] (render (at_detail r)) []])"

definition format_junit_xml :: "(assertion_detail \<Rightarrow> string) \<Rightarrow> run_result \<Rightarrow> string \<Rightarrow> xml" where
  "format_junit_xml render res seconds =
     Element ''testsuites'' [] []
       [Element ''testsuite''
          [(''name'', rr_scenario_name res), (''tests'', int_str (int (length (rr_assertions res)))),
           (''failures'', int_str (int (length (filter (\<lambda>a. \<not> at_passed a) (rr_assertions res))))),
           (''errors'', ''0''), (''skipped'', ''0''), (''time'', seconds)] []
          (map (junit_case render (rr_scenario_name res)) (rr_assertions res))]"

definition format_junit_error_xml :: "string \<Rightarrow> string \<Rightarrow> string \<Rightarrow> xml" where
  "format_junit_error_xml message kind seconds =
     Element ''testsuites'' [] []
       [Element ''testsuite''
          [(''name'', kind), (''tests'', ''1''), (''failures'', ''0''), (''errors'', ''1''), (''skipped'', ''0''),
           (''time'', seconds)] []
          [Element ''testcase'' [(''name'', kind), (''classname'', kind), (''time'', ''0'')] []
             [Element ''error'' [(''message'', message)] message []]]]"

definition serialize_junit_xml :: "(xml \<Rightarrow> string) \<Rightarrow> xml \<Rightarrow> string" where
  "serialize_junit_xml tostring tree = ''<?xml version=\"1.0\" encoding=\"UTF-8\"?>'' @ [CHR 10] @ tostring tree"

section \<open>JSON, summary and exit code\<close>

datatype json =
    JNull
  | JBool bool
  | JInt int
  | JText string
  | JValue py_val
  | JList "json list"
  | JObject "(string \<times> json) list"

definition exit_code_for_result :: "run_result \<Rightarrow> int" where
  "exit_code_for_result res = (if run_passed res then 0 else 1)"

definition json_optional :: "int option \<Rightarrow> json" where
  "json_optional v = (case v of None \<Rightarrow> JNull | Some n \<Rightarrow> JInt n)"

definition assertion_payload :: "(assertion_detail \<Rightarrow> string) \<Rightarrow> assertion_result \<Rightarrow> json" where
  "assertion_payload render r =
     JObject [(''name'', JText (at_name r)), (''signal'', JText (at_signal r)),
       (''operator'', JText (assertion_op_value (at_operator r))), (''expected'', JValue (at_expected r)),
       (''actual'', JValue (at_actual r)), (''passed'', JBool (at_passed r)),
       (''evaluated_at'', JInt (at_evaluated_at r)), (''detail'', JText (render (at_detail r)))]"

definition drop_payload :: "(drop_detail \<Rightarrow> string) \<Rightarrow> dropped_packet \<Rightarrow> json" where
  "drop_payload detail_text d =
     JObject [(''time'', JInt (dr_time d)), (''node'', json_optional (dr_destination d)),
       (''sender'', json_optional (dr_sender d)), (''reason'', JText (drop_reason_value (dr_reason d))),
       (''detail'', JText (detail_text (dr_detail d))), (''limit'', json_optional (dr_limit d))]"

definition result_payload ::
  "(assertion_detail \<Rightarrow> string) \<Rightarrow> (drop_detail \<Rightarrow> string) \<Rightarrow> run_result \<Rightarrow> int \<Rightarrow> json" where
  "result_payload render detail_text res exit_code =
     (let total = length (rr_assertions res); passed = length (filter at_passed (rr_assertions res));
          failed = int total - int passed
      in JObject [(''scenario'', JText (rr_scenario_name res)), (''passed'', JBool (run_passed res)),
           (''exit_code'', JInt exit_code), (''started_at'', JInt (rr_started_at res)),
           (''finished_at'', JInt (rr_finished_at res)),
           (''assertions'', JObject [(''total'', JInt (int total)), (''passed'', JInt (int passed)),
              (''failed'', JInt failed), (''results'', JList (map (assertion_payload render) (rr_assertions res)))]),
           (''dropped_packets'', JList (map (drop_payload detail_text) (rr_dropped_packets res)))])"

definition error_payload :: "string \<Rightarrow> int \<Rightarrow> string \<Rightarrow> json" where
  "error_payload message exit_code kind =
     JObject [(''passed'', JBool False), (''exit_code'', JInt exit_code),
       (''error'', JObject [(''kind'', JText kind), (''message'', JText message)])]"

definition summary_line :: "(string \<Rightarrow> string) \<Rightarrow> run_result \<Rightarrow> string" where
  "summary_line quote res =
     (let total = length (rr_assertions res); passed = length (filter at_passed (rr_assertions res));
          failed = int total - int passed
      in join_words ([''SUMMARY'', ''scenario='' @ quote (rr_scenario_name res), num_part ''assertions='' (int total),
           num_part ''passed='' (int passed), num_part ''failed='' failed,
           num_part ''started_at='' (rr_started_at res), num_part ''finished_at='' (rr_finished_at res)] @
           (if rr_dropped_packets res = [] then []
            else [num_part ''dropped_packets='' (int (length (rr_dropped_packets res)))])))"

fun json_field :: "string \<Rightarrow> json \<Rightarrow> json option" where
  "json_field key (JObject entries) = map_of entries key"
| "json_field key _ = None"

lemma junit_case_failure: "xml_children (junit_case render name r) \<noteq> [] \<longleftrightarrow> \<not> at_passed r"
  by (simp add: junit_case_def)

lemma failed_count: "int (length xs) - int (length (filter P xs)) = int (length (filter (\<lambda>x. \<not> P x) xs))"
  using sum_length_filter_compl[of P xs] by simp

end
