(* ===== verification/Cli.thy ===== *)
theory Cli
  imports Report Config
begin

text \<open>
  The command line (\<^verbatim>\<open>main.py\<close>) and the packaged examples (\<^verbatim>\<open>examples/__init__.py\<close>). The parsed arguments are a
  record (\<^verbatim>\<open>argparse\<close> builds it); importing a module, loading a setup or a rules file, running a scenario and writing
  a report file are the fields of \<open>cli_env\<close>, each of which may fail with the text of an exception. A file system is a map from
  paths to entries.
\<close>

section \<open>Packaged examples\<close>

type_synonym path = "string list"

datatype fs_entry = Directory | Contents "byte list"

type_synonym fs = "path \<Rightarrow> fs_entry option"

record example =
  xm_name :: string
  xm_summary :: string
  xm_run_flags :: "string list"

definition example_filenames :: "string list" where
  "example_filenames = [''setup.toml'', ''scenario.yaml'', ''README.md'']"

definition DEFAULT_EXAMPLE_NAME :: string where "DEFAULT_EXAMPLE_NAME = ''default''"

definition EXAMPLES :: "example list" where
  "EXAMPLES =
     [\<lparr>xm_name = DEFAULT_EXAMPLE_NAME,
       xm_summary = ''in-memory three-node satellite; OBC sheds the payload on a low battery'', xm_run_flags = []\<rparr>,
      \<lparr>xm_name = ''socketcan-hil'',
       xm_summary = ''the same run against a real bus: payload as hardware on SocketCAN vcan0'',
       xm_run_flags = [''--realtime'']\<rparr>,
      \<lparr>xm_name = ''module-params'',
       xm_summary = ''retuning a built-in module through [nodes.<node>.params]'', xm_run_flags = []\<rparr>,
      \<lparr>xm_name = ''thermal-heater'',
       xm_summary = ''an OBC heater loop closing over the bus; companion to docs/writing-a-module.md'',
       xm_run_flags = []\<rparr>]"

datatype example_error =
    ExUnknown string "string list"
  | ExNotDirectory path
  | ExWouldOverwrite "path list"
  | ExOsError path

definition get_example :: "string \<Rightarrow> example_error + example" where
  "get_example name =
     (case find (\<lambda>x. xm_name x = name) EXAMPLES of
        Some x \<Rightarrow> Inr x | None \<Rightarrow> Inl (ExUnknown name (map xm_name EXAMPLES)))"

definition example_files :: "path \<Rightarrow> example \<Rightarrow> path list" where
  "example_files origin x = map (\<lambda>f. origin @ [xm_name x, f]) example_filenames"

text \<open>
  \<^verbatim>\<open>mkdir(parents=True, exist_ok=True)\<close> and \<^verbatim>\<open>shutil.copyfile\<close>, which raises \<^verbatim>\<open>SameFileError\<close>, an \<^verbatim>\<open>OSError\<close>, for a
  file copied onto itself.
\<close>

fun make_directories :: "path list \<Rightarrow> fs \<Rightarrow> (example_error + unit) \<times> fs" where
  "make_directories [] fs = (Inr (), fs)"
| "make_directories (p # ps) fs =
     (case fs p of
        Some (Contents _) \<Rightarrow> (Inl (ExOsError p), fs)
      | _ \<Rightarrow> make_directories ps (fs(p \<mapsto> Directory)))"

definition parents_and_self :: "path \<Rightarrow> path list" where
  "parents_and_self p = map (\<lambda>n. take n p) [1..<Suc (length p)]"

fun copy_files :: "(path \<times> path) list \<Rightarrow> fs \<Rightarrow> (example_error + unit) \<times> fs" where
  "copy_files [] fs = (Inr (), fs)"
| "copy_files ((source, target) # rest) fs =
     (if source = target then (Inl (ExOsError source), fs)
      else
        (case (fs source, fs target) of
           (Some (Contents bs), Some Directory) \<Rightarrow> (Inl (ExOsError target), fs)
         | (Some (Contents bs), _) \<Rightarrow> copy_files rest (fs(target \<mapsto> Contents bs))
         | _ \<Rightarrow> (Inl (ExOsError source), fs)))"

definition copy_to :: "path \<Rightarrow> example \<Rightarrow> path \<Rightarrow> bool \<Rightarrow> fs \<Rightarrow> (example_error + path list) \<times> fs" where
  "copy_to origin x destination force fs =
     (let written = map (\<lambda>f. destination @ [f]) example_filenames;
          existing = filter (\<lambda>p. fs p \<noteq> None) written
      in case fs destination of
           Some (Contents _) \<Rightarrow> (Inl (ExNotDirectory destination), fs)
         | _ \<Rightarrow>
             if \<not> force \<and> existing \<noteq> [] then (Inl (ExWouldOverwrite existing), fs)
             else (case make_directories (parents_and_self destination) fs of
                     (Inl e, fs1) \<Rightarrow> (Inl e, fs1)
                   | (Inr _, fs1) \<Rightarrow>
                       (case copy_files (zip (example_files origin x) written) fs1 of
                          (Inl e, fs2) \<Rightarrow> (Inl e, fs2) | (Inr _, fs2) \<Rightarrow> (Inr written, fs2))))"

section \<open>The run command\<close>

record cli_args =
  ca_config :: "string option"
  ca_scenario :: "string option"
  ca_example :: "string option"
  ca_module_imports :: "string list option"
  ca_rules :: "string option"
  ca_realtime :: bool
  ca_trace :: bool
  ca_quiet :: bool
  ca_json :: bool
  ca_junit_xml :: "string option"

datatype import_result = Imported | ImportFailed string | ImportRaised string

text \<open>
  \<open>ce_run\<close> gives the result or the text of the exception, the lines of the report and those of the trace; \<open>ce_write\<close>
  gives the text of the exception if a file cannot be written.
\<close>

record 'r cli_env =
  ce_import :: "string \<Rightarrow> import_result"
  ce_example_path :: "example \<Rightarrow> string \<Rightarrow> string"
  ce_load_setup :: "string \<Rightarrow> string + testbed_config"
  ce_load_rules :: "string \<Rightarrow> string + 'r"
  ce_run :: "string \<Rightarrow> string \<Rightarrow> 'r option \<Rightarrow> bool \<Rightarrow> bool \<Rightarrow> (string + run_result) \<times> string list \<times> string list"
  ce_write :: "string \<Rightarrow> xml \<Rightarrow> string option"
  ce_seconds :: string
  ce_quote :: "string \<Rightarrow> string"
  ce_render :: "assertion_detail \<Rightarrow> string"
  ce_drop_detail :: "drop_detail \<Rightarrow> string"

datatype out_item = OutLine string | OutJson json

text \<open>\<open>cr_exit\<close> is the exit code, or the text of the exception that ends the command; \<open>cr_junit\<close> is the file written.\<close>

record cli_result =
  cr_exit :: "string + int"
  cr_stdout :: "out_item list"
  cr_stderr :: "string list"
  cr_junit :: "(string \<times> xml) option"

fun import_module_packages :: "'r cli_env \<Rightarrow> string list \<Rightarrow> string + unit" where
  "import_module_packages env [] = Inr ()"
| "import_module_packages env (name # names) =
     (case ce_import env name of
        Imported \<Rightarrow> import_module_packages env names
      | ImportFailed reason \<Rightarrow>
          Inl (''--module-import '' @ ce_quote env name @ '' could not be imported: '' @ reason)
      | ImportRaised reason \<Rightarrow> Inl reason)"

definition example_name_list :: string where
  "example_name_list = join_with '', '' (map xm_name EXAMPLES)"

definition resolve_run_inputs :: "'r cli_env \<Rightarrow> cli_args \<Rightarrow> string + string \<times> string" where
  "resolve_run_inputs env args =
     (case ca_example args of
        Some name \<Rightarrow>
          if ca_config args \<noteq> None \<or> ca_scenario args \<noteq> None
          then Inl ''--example cannot be combined with --config/--scenario''
          else (case get_example name of
                  Inl _ \<Rightarrow> Inl (''unknown example '' @ ce_quote env name @ ''; available examples: '' @ example_name_list)
                | Inr x \<Rightarrow> Inr (ce_example_path env x ''setup.toml'', ce_example_path env x ''scenario.yaml''))
      | None \<Rightarrow>
          (case (ca_config args, ca_scenario args) of
             (Some c, Some s) \<Rightarrow> Inr (c, s)
           | _ \<Rightarrow> Inl (''either --example NAME, or both --config and --scenario, must be given (available examples: '' @
                     example_name_list @ '')'')))"

definition unpaced_warning :: "'r cli_env \<Rightarrow> testbed_config \<Rightarrow> bool \<Rightarrow> string list" where
  "unpaced_warning env su realtime =
     (let tail = '' without --realtime; virtual time is not paced against wall-clock time, so a real peer gets no time to respond''
      in if realtime then []
         else case tc_transport su of
                InMemoryTransport \<Rightarrow> []
              | SocketCanTransport iface _ \<Rightarrow>
                  [''warning: transport.type='' @ [CHR 39] @ ''socketcan'' @ [CHR 39] @ '' (interface '' @ ce_quote env iface @ '')'' @ tail]
              | KissTransport device _ \<Rightarrow>
                  [''warning: transport.type='' @ [CHR 39] @ ''kiss'' @ [CHR 39] @ '' (device '' @ ce_quote env device @ '')'' @ tail])"

text \<open>
  The part of \<^verbatim>\<open>_run_command\<close> inside its \<^verbatim>\<open>try\<close>: the result or the message of the exception, the lines of the
  report and those on the error stream.
\<close>

definition execute_run ::
  "'r cli_env \<Rightarrow> cli_args \<Rightarrow> (string + run_result) \<times> string list \<times> string list" where
  "execute_run env args =
     (case res_bind (import_module_packages env (case ca_module_imports args of None \<Rightarrow> [] | Some ns \<Rightarrow> ns))
             (\<lambda>_. res_bind (resolve_run_inputs env args) (\<lambda>(config, scenario).
                    map_sum id (\<lambda>su. (config, scenario, su)) (ce_load_setup env config))) of
        Inl e \<Rightarrow> (Inl e, [], [])
      | Inr (config, scenario, su) \<Rightarrow>
          let warnings = unpaced_warning env su (ca_realtime args)
          in (case (case ca_rules args of None \<Rightarrow> Inr None | Some p \<Rightarrow> map_sum id Some (ce_load_rules env p)) of
                Inl e \<Rightarrow> (Inl e, [], warnings)
              | Inr rules \<Rightarrow>
                  (case ce_run env config scenario rules (ca_realtime args) (ca_trace args) of
                     (r, report, traced) \<Rightarrow> (r, report, warnings @ traced))))"

definition print_error :: "cli_args \<Rightarrow> string \<Rightarrow> int \<Rightarrow> string \<Rightarrow> out_item list \<times> string list" where
  "print_error args message exit_code kind =
     (if ca_json args then ([OutJson (error_payload message exit_code kind)], [])
      else ([], [''error: '' @ message]))"

text \<open>\<^verbatim>\<open>write_text\<close> of a report file, if one was asked for.\<close>

definition write_report ::
  "(string \<Rightarrow> xml \<Rightarrow> string option) \<Rightarrow> string option \<Rightarrow> xml \<Rightarrow> string + (string \<times> xml) option" where
  "write_report write junit tree =
     (case junit of
        None \<Rightarrow> Inr None
      | Some file \<Rightarrow> (case write file tree of None \<Rightarrow> Inr (Some (file, tree)) | Some failure \<Rightarrow> Inl failure))"

lemma write_report_Inl:
  "write_report write junit tree = Inl failure \<longleftrightarrow> (\<exists>file. junit = Some file \<and> write file tree = Some failure)"
  by (auto simp: write_report_def split: option.splits)

lemma write_report_Inr:
  "write_report write junit tree = Inr written \<longleftrightarrow>
     (case junit of None \<Rightarrow> written = None | Some file \<Rightarrow> written = Some (file, tree) \<and> write file tree = None)"
  by (auto simp: write_report_def split: option.splits)

text \<open>
  Both writes are outside the \<^verbatim>\<open>try\<close>: an exception of theirs ends the command, with nothing printed after it.
\<close>

definition run_command :: "'r cli_env \<Rightarrow> cli_args \<Rightarrow> cli_result" where
  "run_command env args =
     (case execute_run env args of
        (outcome, report, errs) \<Rightarrow>
          let shown = (if ca_quiet args \<or> ca_json args then [] else map OutLine report);
              tree = (case outcome of
                        Inl message \<Rightarrow> format_junit_error_xml message ''execution_error'' (ce_seconds env)
                      | Inr res \<Rightarrow> format_junit_xml (ce_render env) res (ce_seconds env))
          in (case write_report (ce_write env) (ca_junit_xml args) tree of
                Inl failure \<Rightarrow> \<lparr>cr_exit = Inl failure, cr_stdout = shown, cr_stderr = errs, cr_junit = None\<rparr>
              | Inr junit \<Rightarrow>
                  (case outcome of
                     Inl message \<Rightarrow>
                       (case print_error args message 2 ''execution_error'' of (out, err) \<Rightarrow>
                          \<lparr>cr_exit = Inr 2, cr_stdout = shown @ out, cr_stderr = errs @ err, cr_junit = junit\<rparr>)
                   | Inr res \<Rightarrow>
                       let exit_code = exit_code_for_result res
                       in \<lparr>cr_exit = Inr exit_code,
                           cr_stdout = shown @
                             (if ca_json args
                              then [OutJson (result_payload (ce_render env) (ce_drop_detail env) res exit_code)]
                              else if ca_quiet args then []
                              else map (\<lambda>d. OutLine (format_dropped_packet (\<lambda>x. ce_quote env (ce_drop_detail env x)) d))
                                     (rr_dropped_packets res) @
                                   [OutLine (summary_line (ce_quote env) res)]),
                           cr_stderr = errs @
                             (if rr_assertions res = [] then [''warning: 0 assertions in scenario''] else []),
                           cr_junit = junit\<rparr>)))"

section \<open>The init command and interruption\<close>

record init_args =
  ia_directory :: path
  ia_example :: string
  ia_force :: bool
  ia_list :: bool

definition pad_right :: "nat \<Rightarrow> string \<Rightarrow> string" where
  "pad_right width s = s @ replicate (width - length s) (CHR '' '')"

definition example_listing :: "string list" where
  "example_listing =
     (let width = Max (set (map (length \<circ> xm_name) EXAMPLES))
      in map (\<lambda>x. pad_right width (xm_name x) @ ''  '' @ xm_summary x) EXAMPLES)"

definition example_run_command :: "(path \<Rightarrow> string) \<Rightarrow> example \<Rightarrow> path \<Rightarrow> string" where
  "example_run_command path_text x directory =
     ''cubesat-testbed run '' @ concat (map (\<lambda>f. f @ '' '') (xm_run_flags x)) @ ''--config '' @
     path_text (directory @ [''setup.toml'']) @ '' --scenario '' @ path_text (directory @ [''scenario.yaml''])"

definition init_command ::
  "(path \<Rightarrow> string) \<Rightarrow> (example_error \<Rightarrow> string) \<Rightarrow> path \<Rightarrow> init_args \<Rightarrow> fs \<Rightarrow> cli_result \<times> fs" where
  "init_command path_text error_text origin args fs =
     (if ia_list args
      then (\<lparr>cr_exit = Inr 0, cr_stdout = map OutLine example_listing, cr_stderr = [], cr_junit = None\<rparr>, fs)
      else
        (case (case get_example (ia_example args) of
                 Inl e \<Rightarrow> (Inl e, fs)
               | Inr x \<Rightarrow> map_prod (map_sum id (\<lambda>ps. (x, ps))) id (copy_to origin x (ia_directory args) (ia_force args) fs)) of
           (Inl e, fs1) \<Rightarrow>
             (\<lparr>cr_exit = Inr 2, cr_stdout = [], cr_stderr = [''error: '' @ error_text e], cr_junit = None\<rparr>, fs1)
         | (Inr (x, ps), fs1) \<Rightarrow>
             (\<lparr>cr_exit = Inr 0,
               cr_stdout = map (\<lambda>p. OutLine (''wrote '' @ path_text p)) ps @
                 [OutLine ([CHR 10] @ ''next: '' @ example_run_command path_text x (ia_directory args))],
               cr_stderr = [], cr_junit = None\<rparr>, fs1)))"

text \<open>Whether output is JSON when the arguments could not be parsed.\<close>

definition argv_requests_json :: "string list \<Rightarrow> bool" where
  "argv_requests_json arguments \<longleftrightarrow> ''--json'' \<in> set arguments"

text \<open>\<^verbatim>\<open>main\<close> when the handler is interrupted; what it had printed stays.\<close>

definition interrupted_result ::
  "(string \<Rightarrow> xml \<Rightarrow> string option) \<Rightarrow> bool \<Rightarrow> string option \<Rightarrow> string \<Rightarrow> cli_result" where
  "interrupted_result write json_output junit seconds =
     (case write_report write junit (format_junit_error_xml ''interrupted'' ''interrupted'' seconds) of
        Inl failure \<Rightarrow> \<lparr>cr_exit = Inl failure, cr_stdout = [], cr_stderr = [], cr_junit = None\<rparr>
      | Inr written \<Rightarrow>
          \<lparr>cr_exit = Inr 130,
           cr_stdout = (if json_output then [OutJson (error_payload ''interrupted'' 130 ''interrupted'')] else []),
           cr_stderr = (if json_output then [] else [''interrupted'']), cr_junit = written\<rparr>)"

section \<open>What the command line promises\<close>

text \<open>The number a JUnit attribute or a JSON field shows.\<close>

definition suite_of :: "xml \<Rightarrow> xml" where "suite_of tree = hd (xml_children tree)"

definition failing_cases :: "xml \<Rightarrow> xml list" where
  "failing_cases tree = filter (\<lambda>c. xml_children c \<noteq> []) (xml_children (suite_of tree))"

definition report_counts :: "json \<Rightarrow> json option \<times> json option \<times> json option" where
  "report_counts payload =
     (case json_field ''assertions'' payload of
        None \<Rightarrow> (None, None, None)
      | Some a \<Rightarrow> (json_field ''total'' a, json_field ''passed'' a, json_field ''failed'' a))"

lemma failing_cases_junit:
  "length (failing_cases (format_junit_xml render res seconds)) =
     length (filter (\<lambda>a. \<not> at_passed a) (rr_assertions res))"
proof -
  have "length (filter (\<lambda>c. xml_children c \<noteq> []) (map (junit_case render name) as)) =
      length (filter (\<lambda>a. \<not> at_passed a) as)" for name as
    by (induction as) (simp_all add: junit_case_failure)
  then show ?thesis by (simp add: failing_cases_def suite_of_def format_junit_xml_def)
qed

lemma exit_code_passed: "exit_code_for_result res = 0 \<longleftrightarrow> filter (\<lambda>a. \<not> at_passed a) (rr_assertions res) = []"
  by (auto simp: exit_code_for_result_def run_passed_def filter_empty_conv)

text \<open>A run with one failed assertion of two, and a file system that holds one example.\<close>

definition demo_verdict :: "bool \<Rightarrow> assertion_result" where
  "demo_verdict ok = \<lparr>at_name = ''soc'', at_signal = ''eps.telemetry.soc'', at_operator = AOP_EQ,
     at_expected = PInt 1, at_actual = PInt (if ok then 1 else 2), at_passed = ok, at_evaluated_at = 5,
     at_detail = DetailNeverObserved ''eps.telemetry.soc''\<rparr>"

definition demo_report :: run_result where
  "demo_report = \<lparr>rr_scenario_name = ''demo'', rr_started_at = 0, rr_finished_at = 5,
     rr_assertions = [demo_verdict True, demo_verdict False], rr_dropped_packets = []\<rparr>"

definition demo_cli_env :: "unit cli_env" where
  "demo_cli_env = \<lparr>ce_import = (\<lambda>_. Imported), ce_example_path = (\<lambda>x f. xm_name x @ ''/'' @ f),
     ce_load_setup = (\<lambda>_. Inr \<lparr>tc_transport = InMemoryTransport, tc_nodes = []\<rparr>), ce_load_rules = (\<lambda>_. Inr ()),
     ce_run = (\<lambda>_ _ _ _ _. (Inr demo_report, [''PASS'', ''FAIL''], [])),
     ce_write = (\<lambda>file _. if file = ''out.xml'' then None else Some ''denied''), ce_seconds = ''0.5'', ce_quote = id,
     ce_render = (\<lambda>_. ''detail''), ce_drop_detail = (\<lambda>_. ''detail'')\<rparr>"

definition demo_cli_args :: cli_args where
  "demo_cli_args = \<lparr>ca_config = None, ca_scenario = None, ca_example = Some ''default'', ca_module_imports = None,
     ca_rules = None, ca_realtime = False, ca_trace = False, ca_quiet = False, ca_json = True,
     ca_junit_xml = Some ''out.xml''\<rparr>"

definition demo_fs :: fs where
  "demo_fs p = (if p \<in> set (example_files [''pkg''] (hd EXAMPLES)) then Some (Contents [1]) else None)"

text \<open>
  C19: The reports of a run agree with its exit code. Whatever the arguments and the run, the command ends in one of two ways.
  Either the JUnit file it was asked for cannot be written: then that exception leaves the command, there is no exit
  code and no JSON object is printed. Or it exits with 2 exactly if something raised, and otherwise with 0 or 1, with 0
  exactly if no assertion failed. In that case the JUnit file is written exactly if one was asked for, and the
  failures it announces and contains are those of the run's verdicts, or it holds one error if something raised;
  a JSON object is printed exactly with \<^verbatim>\<open>--json\<close>, as the whole output, and has the exit code and
  the counts of the run's verdicts; and without \<^verbatim>\<open>--json\<close> the error stream ends with the message of what was raised.
\<close>

theorem cli_reports_agree:
  assumes "run_command env args = out" "execute_run env args = (outcome, report, errs)"
  shows "case cr_exit out of
     Inl failure \<Rightarrow>
       (\<exists>file tree. ca_junit_xml args = Some file \<and> ce_write env file tree = Some failure) \<and>
       cr_junit out = None \<and> (\<forall>payload. OutJson payload \<notin> set (cr_stdout out))
   | Inr code \<Rightarrow>
       code = (case outcome of Inl _ \<Rightarrow> 2 | Inr res \<Rightarrow> if \<forall>a \<in> set (rr_assertions res). at_passed a then 0 else 1) \<and>
       (case ca_junit_xml args of
          None \<Rightarrow> cr_junit out = None
        | Some file \<Rightarrow> \<exists>tree. cr_junit out = Some (file, tree) \<and> ce_write env file tree = None \<and>
            (case outcome of
               Inl message \<Rightarrow> map_of (xml_attrs (suite_of tree)) ''errors'' = Some ''1'' \<and> length (failing_cases tree) = 1
             | Inr res \<Rightarrow>
                 let failed = length (filter (\<lambda>a. \<not> at_passed a) (rr_assertions res))
                 in map_of (xml_attrs (suite_of tree)) ''failures'' = Some (int_str (int failed)) \<and>
                    length (failing_cases tree) = failed)) \<and>
       (if ca_json args
        then \<exists>payload. cr_stdout out = [OutJson payload] \<and>
          json_field ''exit_code'' payload = Some (JInt code) \<and>
          json_field ''passed'' payload = Some (JBool (code = 0)) \<and>
          (case outcome of
             Inl message \<Rightarrow> True
           | Inr res \<Rightarrow>
               let failed = length (filter (\<lambda>a. \<not> at_passed a) (rr_assertions res))
               in report_counts payload =
                    (Some (JInt (int (length (rr_assertions res)))),
                     Some (JInt (int (length (rr_assertions res)) - int failed)), Some (JInt (int failed))))
        else (\<forall>payload. OutJson payload \<notin> set (cr_stdout out)) \<and>
          (case outcome of Inl message \<Rightarrow> cr_stderr out = errs @ [''error: '' @ message] | Inr res \<Rightarrow> True))"
proof -
  define tree where "tree = (case outcome of
      Inl message \<Rightarrow> format_junit_error_xml message ''execution_error'' (ce_seconds env)
    | Inr res \<Rightarrow> format_junit_xml (ce_render env) res (ce_seconds env))"
  show ?thesis
  proof (cases "write_report (ce_write env) (ca_junit_xml args) tree")
    case (Inl failure)
    then have out: "cr_exit out = Inl failure" "cr_junit out = None"
        "cr_stdout out = (if ca_quiet args \<or> ca_json args then [] else map OutLine report)"
      using assms by (auto simp: run_command_def tree_def Let_def)
    moreover obtain f where "ca_junit_xml args = Some f" "ce_write env f tree = Some failure"
      using Inl write_report_Inl by metis
    ultimately show ?thesis by auto
  next
    case (Inr junit)
    then have junit: "case ca_junit_xml args of
        None \<Rightarrow> junit = None | Some file \<Rightarrow> junit = Some (file, tree) \<and> ce_write env file tree = None"
      by (simp add: write_report_Inr)
    show ?thesis
    proof (cases outcome)
      case (Inl message)
      have "cr_exit out = Inr 2" "cr_junit out = junit"
          "cr_stdout out = (if ca_quiet args \<or> ca_json args then [] else map OutLine report) @
             fst (print_error args message 2 ''execution_error'')"
          "cr_stderr out = errs @ snd (print_error args message 2 ''execution_error'')"
        using assms Inr Inl by (auto simp: run_command_def tree_def Let_def split: prod.splits)
      then show ?thesis using junit Inl
        by (auto simp: print_error_def error_payload_def suite_of_def failing_cases_def tree_def
            format_junit_error_xml_def split: option.splits)
    next
      case res: (Inr res)
      let ?bad = "filter (\<lambda>a. \<not> at_passed a) (rr_assertions res)"
      let ?code = "exit_code_for_result res"
      have tree: "tree = format_junit_xml (ce_render env) res (ce_seconds env)" by (simp add: tree_def res)
      have out: "cr_exit out = Inr ?code" "cr_junit out = junit"
          "ca_json args \<longrightarrow> cr_stdout out = [OutJson (result_payload (ce_render env) (ce_drop_detail env) res ?code)]"
          "\<not> ca_json args \<longrightarrow> (\<forall>payload. OutJson payload \<notin> set (cr_stdout out))"
        using assms Inr res by (auto simp: run_command_def tree_def Let_def split: if_splits)
      have code: "?code = (if \<forall>a \<in> set (rr_assertions res). at_passed a then 0 else 1)"
          "run_passed res \<longleftrightarrow> ?code = 0"
        by (simp_all add: exit_code_for_result_def run_passed_def)
      have passed: "int (length (filter at_passed (rr_assertions res))) = int (length (rr_assertions res)) - int (length ?bad)"
        using failed_count[of "rr_assertions res" at_passed] by simp
      have failures: "map_of (xml_attrs (suite_of tree)) ''failures'' = Some (int_str (int (length ?bad)))"
          "length (failing_cases tree) = length ?bad"
        using failing_cases_junit by (simp_all add: tree format_junit_xml_def suite_of_def)
      let ?payload = "result_payload (ce_render env) (ce_drop_detail env) res ?code"
      have "json_field ''exit_code'' ?payload = Some (JInt ?code)" "json_field ''passed'' ?payload = Some (JBool (?code = 0))"
          "report_counts ?payload = (Some (JInt (int (length (rr_assertions res)))),
             Some (JInt (int (length (rr_assertions res)) - int (length ?bad))), Some (JInt (int (length ?bad))))"
        using passed code(2) by (simp_all add: result_payload_def report_counts_def Let_def)
      then show ?thesis using out junit failures res code(1)
        by (cases "ca_json args") (simp_all add: Let_def split: option.splits)
    qed
  qed
qed

lemma cli_reports_agree_witness:
  "cr_exit (run_command demo_cli_env demo_cli_args) = Inr 1 \<and>
   (\<exists>tree. cr_junit (run_command demo_cli_env demo_cli_args) = Some (''out.xml'', tree) \<and>
     length (failing_cases tree) = 1)"
proof -
  have "get_example ''default'' = Inr (hd EXAMPLES)" by (simp add: get_example_def EXAMPLES_def DEFAULT_EXAMPLE_NAME_def)
  then have run: "execute_run demo_cli_env demo_cli_args = (Inr demo_report, [''PASS'', ''FAIL''], [])"
    by (simp add: execute_run_def demo_cli_env_def demo_cli_args_def resolve_run_inputs_def unpaced_warning_def)
  have args: "ca_json demo_cli_args" "ca_junit_xml demo_cli_args = Some ''out.xml''"
      "ce_write demo_cli_env ''out.xml'' tree = None" for tree
    by (simp_all add: demo_cli_args_def demo_cli_env_def)
  have "length (filter (\<lambda>a. \<not> at_passed a) (rr_assertions demo_report)) = 1"
      "\<not> (\<forall>a \<in> set (rr_assertions demo_report). at_passed a)"
    by (simp_all add: demo_report_def demo_verdict_def)
  then show ?thesis using cli_reports_agree[OF refl run] args
    by (cases "cr_exit (run_command demo_cli_env demo_cli_args)") (auto simp: Let_def)
qed

lemma make_directories_keep:
  "make_directories ps fs = (r, fs1) \<Longrightarrow>
     (\<forall>p. fs p \<noteq> None \<longrightarrow> fs1 p = fs p) \<and> (\<forall>p. p \<notin> set ps \<longrightarrow> fs1 p = fs p) \<and>
     (\<forall>e. r = Inl e \<longrightarrow> (\<exists>p. e = ExOsError p))"
proof (induction ps arbitrary: fs)
  case (Cons p ps)
  show ?case
  proof (cases "\<exists>bs. fs p = Some (Contents bs)")
    case True
    then show ?thesis using Cons.prems by auto
  next
    case False
    then have step: "make_directories ps (fs(p \<mapsto> Directory)) = (r, fs1)"
      using Cons.prems by (auto split: option.splits fs_entry.splits)
    have "fs p = None \<or> fs p = Some Directory" using False by (metis fs_entry.exhaust option.exhaust)
    then show ?thesis using Cons.IH[OF step] by (auto split: if_splits)
  qed
qed auto

lemma copy_files_fresh:
  assumes "\<forall>(source, target) \<in> set ps. (\<exists>bs. fs source = Some (Contents bs)) \<and> fs target = None"
    and "distinct (map snd ps)"
  shows "\<exists>fs1. copy_files ps fs = (Inr (), fs1) \<and> map (fs1 \<circ> snd) ps = map (fs \<circ> fst) ps \<and>
     (\<forall>p. p \<notin> snd ` set ps \<longrightarrow> fs1 p = fs p)"
  using assms
proof (induction ps arbitrary: fs)
  case (Cons q ps)
  obtain source target where q: "q = (source, target)" by (cases q)
  obtain bs where bs: "fs source = Some (Contents bs)" and new: "fs target = None"
    using Cons.prems(1) q by auto
  let ?fs = "fs(target \<mapsto> Contents bs)"
  have same: "fs p \<noteq> None \<Longrightarrow> ?fs p = fs p" for p using new by auto
  have d: "distinct (map snd ps)" using Cons.prems(2) by simp
  have ready: "\<forall>(s, t) \<in> set ps. (\<exists>cs. ?fs s = Some (Contents cs)) \<and> ?fs t = None"
  proof clarify
    fix s t assume st: "(s, t) \<in> set ps"
    then obtain cs where "fs s = Some (Contents cs)" "fs t = None" using Cons.prems(1) by auto
    moreover have "t \<noteq> target" using st Cons.prems(2) q by force
    ultimately show "(\<exists>cs. ?fs s = Some (Contents cs)) \<and> ?fs t = None" using same[of s] by auto
  qed
  then obtain fs1 where fs1: "copy_files ps ?fs = (Inr (), fs1)" "map (fs1 \<circ> snd) ps = map (?fs \<circ> fst) ps"
      "\<forall>p. p \<notin> snd ` set ps \<longrightarrow> fs1 p = ?fs p"
    using Cons.IH[OF ready d] by blast
  have "map (?fs \<circ> fst) ps = map (fs \<circ> fst) ps" using Cons.prems(1) new by (auto intro!: map_cong)
  moreover have "target \<notin> snd ` set ps" using Cons.prems(2) q by auto
  ultimately show ?case using fs1 q bs new by auto
qed simp

text \<open>
  C40: Copying an example never damages what is there. Without force, a copy into any file system that holds the
  shipped files either succeeds, and then none of the three files existed before, they hold the shipped
  contents, and every other path that existed is as it was; or it fails, and then no existing path has
  changed, and if it was refused nothing has (only a failure of the operating system can leave new directories).
\<close>

theorem example_copy_is_safe:
  assumes "copy_to origin x destination False fs = (r, fs1)"
    and "\<forall>f \<in> set (example_files origin x). \<exists>bs. fs f = Some (Contents bs)"
  shows "case r of
      Inr written \<Rightarrow>
        written = map (\<lambda>f. destination @ [f]) example_filenames \<and>
        (\<forall>p \<in> set written. fs p = None) \<and>
        map fs1 written = map fs (example_files origin x) \<and>
        (\<forall>p. p \<notin> set written \<longrightarrow> fs p \<noteq> None \<longrightarrow> fs1 p = fs p)
    | Inl (ExOsError _) \<Rightarrow> \<forall>p. fs p \<noteq> None \<longrightarrow> fs1 p = fs p
    | Inl _ \<Rightarrow> fs1 = fs"
proof -
  let ?w = "map (\<lambda>f. destination @ [f]) example_filenames"
  show ?thesis
  proof (cases "(\<exists>bs. fs destination = Some (Contents bs)) \<or> filter (\<lambda>p. fs p \<noteq> None) ?w \<noteq> []")
    case True
    then show ?thesis using assms(1)
      by (auto simp: copy_to_def Let_def split: option.splits fs_entry.splits)
  next
    case False
    then have new: "\<forall>p \<in> set ?w. fs p = None" by (auto simp: filter_empty_conv)
    obtain r0 fs0 where dirs: "make_directories (parents_and_self destination) fs = (r0, fs0)" by fastforce
    note keep = make_directories_keep[OF dirs]
    have run: "copy_to origin x destination False fs =
        (case r0 of Inl e \<Rightarrow> (Inl e, fs0)
         | Inr _ \<Rightarrow> (case copy_files (zip (example_files origin x) ?w) fs0 of
                      (Inl e, fs2) \<Rightarrow> (Inl e, fs2) | (Inr _, fs2) \<Rightarrow> (Inr ?w, fs2)))"
      using False dirs by (auto simp: copy_to_def Let_def split: option.splits fs_entry.splits sum.splits)
    show ?thesis
    proof (cases r0)
      case (Inl e)
      then show ?thesis using run assms(1) keep by auto
    next
      case (Inr u)
      have "p \<notin> set (parents_and_self destination)" if "p \<in> set ?w" for p
        using that by (auto simp: parents_and_self_def dest: arg_cong[of _ _ length])
      then have "\<forall>p \<in> set ?w. fs0 p = None" using keep new by metis
      moreover have "\<forall>f \<in> set (example_files origin x). fs0 f = fs f" using keep assms(2) by fastforce
      moreover have "length (example_files origin x) = length ?w" by (simp add: example_files_def)
      moreover have "distinct ?w" by (simp add: example_filenames_def)
      ultimately have ready: "(s, t) \<in> set (zip (example_files origin x) ?w) \<Longrightarrow>
            (\<exists>bs. fs0 s = Some (Contents bs)) \<and> fs0 t = None"
          "distinct (map snd (zip (example_files origin x) ?w))"
          "map (fs0 \<circ> fst) (zip (example_files origin x) ?w) = map fs (example_files origin x)" for s t
        using assms(2) set_zip_leftD[of s t "example_files origin x" ?w] set_zip_rightD[of s t "example_files origin x" ?w]
        by (metis, simp, simp flip: map_map)
      obtain fs2 where fs2: "copy_files (zip (example_files origin x) ?w) fs0 = (Inr (), fs2)"
          "map (fs2 \<circ> snd) (zip (example_files origin x) ?w) = map fs (example_files origin x)"
          "\<forall>p. p \<notin> snd ` set (zip (example_files origin x) ?w) \<longrightarrow> fs2 p = fs0 p"
        using copy_files_fresh[of "zip (example_files origin x) ?w" fs0] ready by auto
      moreover have "map (fs2 \<circ> snd) (zip (example_files origin x) ?w) = map fs2 ?w"
        "snd ` set (zip (example_files origin x) ?w) = set ?w"
        by (simp_all add: example_files_def flip: map_map set_map)
      ultimately show ?thesis using run assms(1) Inr new keep by auto
    qed
  qed
qed

lemma example_copy_is_safe_witness:
  "case copy_to [''pkg''] (hd EXAMPLES) [''work''] False demo_fs of
     (Inr written, fs1) \<Rightarrow> fs1 [''work'', ''setup.toml''] = Some (Contents [1]) \<and> fs1 [''pkg'', ''default'', ''README.md''] = Some (Contents [1])
   | (Inl _, _) \<Rightarrow> False"
proof -
  let ?x = "hd EXAMPLES"
  have files: "\<forall>f \<in> set (example_files [''pkg''] ?x). \<exists>bs. demo_fs f = Some (Contents bs)"
    by (simp add: demo_fs_def)
  obtain r fs1 where run: "copy_to [''pkg''] ?x [''work''] False demo_fs = (r, fs1)" by fastforce
  have "is_ok (fst (copy_to [''pkg''] ?x [''work''] False demo_fs))" by code_simp
  then obtain written where r: "r = Inr written" using run by (auto simp: is_ok_conv)
  have shipped: "map demo_fs (example_files [''pkg''] ?x) = replicate 3 (Some (Contents [1]))" by code_simp
  have "demo_fs [''pkg'', ''default'', ''README.md''] = Some (Contents [1])" by code_simp
  then show ?thesis using example_copy_is_safe[OF run files] run r shipped
    by (auto simp: example_filenames_def numeral_3_eq_3)
qed

end
