(* ===== verification/Files.thy ===== *)
theory Files
  imports Cli BuiltIn
begin

text \<open>
  From files to an exit code: the loaders of \<^verbatim>\<open>config/parser.py\<close>, \<^verbatim>\<open>run_scenario_files\<close> and
  \<^verbatim>\<open>build_obc_rules_from_file\<close> of \<^verbatim>\<open>scenario/runner.py\<close>, and the command line over them. What \<^verbatim>\<open>tomllib\<close>,
  \<^verbatim>\<open>yaml\<close> and the field typing of \<^verbatim>\<open>pydantic\<close> do is in \<open>loaders\<close>; the rules that hold of the typed values are those of
  Config. A run on a real bus, a paced run and a traced run are an argument.
\<close>

section \<open>Loading\<close>

datatype load_error =
    LoadRead string
  | LoadSyntax string
  | LoadNoMapping
  | LoadTyped string
  | LoadInvalid config_error
  | LoadReferences "reference_error list"
  | LoadRule peer_error

text \<open>
  \<open>ld_yaml\<close> gives nothing for an empty document. \<open>ld_setup\<close>, \<open>ld_scenario\<close> and \<open>ld_rules\<close> build the typed values
  from the data, with the validators of the nested models.
\<close>

record 'd loaders =
  ld_read :: "string \<Rightarrow> string + string"
  ld_toml :: "string \<Rightarrow> string + 'd"
  ld_yaml :: "string \<Rightarrow> string + 'd option"
  ld_setup :: "'d \<Rightarrow> string + testbed_config"
  ld_scenario :: "'d \<Rightarrow> string + scenario_script"
  ld_rules :: "'d \<Rightarrow> string + (string \<times> (string \<times> obc_rule) list) list"

definition read_text :: "'d loaders \<Rightarrow> string \<Rightarrow> load_error + string" where
  "read_text ld file = map_sum LoadRead id (ld_read ld file)"

definition parse_testbed_config :: "'d loaders \<Rightarrow> string \<Rightarrow> load_error + testbed_config" where
  "parse_testbed_config ld src =
     res_bind (map_sum LoadSyntax id (ld_toml ld src)) (\<lambda>data.
     res_bind (map_sum LoadTyped id (ld_setup ld data)) (\<lambda>setup.
       map_sum LoadInvalid id (check_testbed_config setup)))"

definition load_testbed_config :: "'d loaders \<Rightarrow> string \<Rightarrow> load_error + testbed_config" where
  "load_testbed_config ld file = res_bind (read_text ld file) (parse_testbed_config ld)"

definition parse_obc_rules_file ::
  "'d loaders \<Rightarrow> string \<Rightarrow> load_error + (string \<times> (string \<times> obc_rule) list) list" where
  "parse_obc_rules_file ld src =
     res_bind (map_sum LoadSyntax id (ld_toml ld src)) (\<lambda>data. map_sum LoadTyped id (ld_rules ld data))"

definition load_obc_rules_file ::
  "'d loaders \<Rightarrow> string \<Rightarrow> load_error + (string \<times> (string \<times> obc_rule) list) list" where
  "load_obc_rules_file ld file = res_bind (read_text ld file) (parse_obc_rules_file ld)"

definition parse_scenario :: "'d loaders \<Rightarrow> testbed_config option \<Rightarrow> string \<Rightarrow> load_error + scenario_script" where
  "parse_scenario ld setup src =
     res_bind (map_sum LoadSyntax id (ld_yaml ld src)) (\<lambda>data.
       case data of
         None \<Rightarrow> Inl LoadNoMapping
       | Some d \<Rightarrow>
           res_bind (map_sum LoadTyped id (ld_scenario ld d)) (\<lambda>typed.
           res_bind (map_sum LoadInvalid id (check_scenario_script typed)) (\<lambda>scenario.
             case setup of
               None \<Rightarrow> Inr scenario
             | Some su \<Rightarrow>
                 map_sum LoadReferences (\<lambda>_. scenario) (validate_scenario_references scenario su))))"

definition load_scenario :: "'d loaders \<Rightarrow> testbed_config option \<Rightarrow> string \<Rightarrow> load_error + scenario_script" where
  "load_scenario ld setup file = res_bind (read_text ld file) (parse_scenario ld setup)"

type_synonym rule_sets = "(string \<times> peer_rule list) list"

definition build_obc_rules_from_file :: "'d loaders \<Rightarrow> string \<Rightarrow> load_error + rule_sets" where
  "build_obc_rules_from_file ld file =
     res_bind (load_obc_rules_file ld file)
       (res_mapM (\<lambda>(node_name, rules).
          map_sum LoadRule (\<lambda>rs. (node_name, rs)) (peer_rules_from_config rules)))"

section \<open>Running\<close>

text \<open>\<open>run_in_memory\<close> with the report lines, which stay when the run raises.\<close>

definition run_in_memory_report ::
  "nat \<Rightarrow> (assertion_detail \<Rightarrow> string) \<Rightarrow> testbed_config \<Rightarrow> rule_sets option \<Rightarrow> scenario_script
    \<Rightarrow> ((run_fail + run_result) \<times> string list) option" where
  "run_in_memory_report max_settle render setup obc_rules scenario =
     (case start_in_memory max_settle render setup obc_rules of
        Inl e \<Rightarrow> Some (Inl e, [])
      | Inr (env, st) \<Rightarrow>
          map_option (\<lambda>(r, st1). (r, rn_output (snd st1)))
            (run_scenario env (exec_runner env (Suc 0)) scenario st))"

datatype file_error = FileLoad load_error | FileRun run_fail

type_synonym runs =
  "testbed_config \<Rightarrow> rule_sets option \<Rightarrow> scenario_script \<Rightarrow> ((run_fail + run_result) \<times> string list \<times> string list) option"

definition run_scenario_files ::
  "'d loaders \<Rightarrow> runs \<Rightarrow> string \<Rightarrow> string \<Rightarrow> rule_sets option
    \<Rightarrow> ((file_error + run_result) \<times> string list \<times> string list) option" where
  "run_scenario_files ld run setup_file scenario_file obc_rules =
     (case res_bind (load_testbed_config ld setup_file) (\<lambda>setup.
             map_sum id (\<lambda>scenario. (setup, scenario)) (load_scenario ld (Some setup) scenario_file)) of
        Inl e \<Rightarrow> Some (Inl (FileLoad e), [], [])
      | Inr (setup, scenario) \<Rightarrow>
          map_option (\<lambda>(r, lines). (map_sum FileRun id r, lines)) (run setup obc_rules scenario))"

text \<open>The runs whose runtime is modelled; \<open>other\<close> does the others.\<close>

definition run_loaded ::
  "(bool \<Rightarrow> bool \<Rightarrow> runs) \<Rightarrow> nat \<Rightarrow> (assertion_detail \<Rightarrow> string) \<Rightarrow> bool \<Rightarrow> bool \<Rightarrow> runs" where
  "run_loaded other max_settle render realtime trace setup obc_rules scenario =
     (if tc_transport setup = InMemoryTransport \<and> \<not> realtime \<and> \<not> trace
      then map_option (\<lambda>(r, lines). (r, lines, [])) (run_in_memory_report max_settle render setup obc_rules scenario)
      else other realtime trace setup obc_rules scenario)"

text \<open>
  The command line's services on files. \<open>base\<close> has the others, \<open>load_text\<close> and \<open>fail_text\<close> are the texts of the
  exceptions. A run that does not return has no result to print; \<open>cli_run_reaches_verdict\<close> rules it out.
\<close>

definition file_env ::
  "'d loaders \<Rightarrow> (bool \<Rightarrow> bool \<Rightarrow> runs) \<Rightarrow> nat \<Rightarrow> (load_error \<Rightarrow> string) \<Rightarrow> (run_fail \<Rightarrow> string) \<Rightarrow> rule_sets cli_env
    \<Rightarrow> rule_sets cli_env" where
  "file_env ld other max_settle load_text fail_text base =
     base\<lparr>ce_load_setup := (\<lambda>file. map_sum load_text id (load_testbed_config ld file)),
          ce_load_rules := (\<lambda>file. map_sum load_text id (build_obc_rules_from_file ld file)),
          ce_run := (\<lambda>config scenario rules realtime trace.
            case run_scenario_files ld (run_loaded other max_settle (ce_render base) realtime trace) config scenario rules of
              None \<Rightarrow> (Inl ''no result'', [], [])
            | Some (r, report, traced) \<Rightarrow>
                (map_sum (\<lambda>e. case e of FileLoad x \<Rightarrow> load_text x | FileRun x \<Rightarrow> fail_text x) id r, report, traced))\<rparr>"

section \<open>What a run from files gives\<close>

lemma load_testbed_config_accepted:
  "load_testbed_config ld file = Inr su \<Longrightarrow> \<exists>su0. check_testbed_config su0 = Inr su"
  by (auto simp: load_testbed_config_def parse_testbed_config_def res_bind_eq_Inr map_sum_Inr)

lemma load_scenario_validated:
  "load_scenario ld (Some su) file = Inr sc \<Longrightarrow> validate_scenario_references sc su = Inr () \<and> ss_steps sc \<noteq> []"
  by (auto simp: load_scenario_def parse_scenario_def res_bind_eq_Inr map_sum_eq_Inr check_scenario_script_def
      split: option.splits if_splits)

lemma in_memory_report:
  "\<exists>r report. run_in_memory_report n render su rules scenario = Some (r, report) \<and>
     (case r of
        Inl x \<Rightarrow> \<not> fail_diverges x
      | Inr res \<Rightarrow> reported n render su rules scenario (rr_assertions res))"
proof (cases "start_in_memory n render su rules")
  case (Inl x)
  then show ?thesis using start_in_memory_fails by (simp add: run_in_memory_report_def)
next
  case (Inr p)
  then obtain env st where "start_in_memory n render su rules = Inr (env, st)" by (cases p) simp
  then show ?thesis using in_memory_outcome[of n render su rules env st scenario]
    by (fastforce simp: run_in_memory_report_def split: sum.splits)
qed

lemma write_allowed:
  assumes "\<forall>f tree. junit = Some f \<longrightarrow> write f tree = None"
  shows "\<exists>written. write_report write junit tree = Inr written"
  using assms by (cases junit) (simp_all add: write_report_def)

lemma run_command_exit:
  assumes "execute_run env args = (outcome, report, errs)"
    and "\<forall>f tree. ca_junit_xml args = Some f \<longrightarrow> ce_write env f tree = None"
  shows "cr_exit (run_command env args) = Inr (case outcome of Inl _ \<Rightarrow> 2 | Inr res \<Rightarrow> exit_code_for_result res)"
proof -
  obtain written where "write_report (ce_write env) (ca_junit_xml args)
      (case outcome of Inl message \<Rightarrow> format_junit_error_xml message ''execution_error'' (ce_seconds env)
       | Inr res \<Rightarrow> format_junit_xml (ce_render env) res (ce_seconds env)) = Inr written"
    using write_allowed[OF assms(2)] by blast
  then show ?thesis using assms(1)
    by (cases outcome) (simp_all add: run_command_def Let_def print_error_def)
qed

text \<open>
  C2: The command line turns two files into a verdict. Run on a setup file and a scenario file given by name, without rules
  or imported modules, without pacing or tracing, and with a JUnit file, if one is asked for, that can be written:
  if a file cannot be loaded, the exit code is 2, the error is that of the load and no line of a report has been produced.
  Otherwise the setup passed every check and
  the scenario's references were validated against it; and if its transport is the in-memory bus, the run returns
  (it terminates, and what it raises is not one of the failures that stand for a run that does not): it either raises,
  with exit code 2, or gives one verdict for each assertion step of the file, in order, each about
  the value the telemetry cache held when its step was evaluated, with exit code 0 if all of them passed and 1 if not.
\<close>

theorem cli_run_reaches_verdict:
  assumes "env = file_env ld other n load_text fail_text base"
    and "ca_config args = Some c" "ca_scenario args = Some s" "ca_example args = None" "ca_module_imports args = None"
    and "ca_rules args = None" "\<not> ca_realtime args" "\<not> ca_trace args"
    and "\<forall>f tree. ca_junit_xml args = Some f \<longrightarrow> ce_write base f tree = None"
    and "loaded = res_bind (load_testbed_config ld c) (\<lambda>su. map_sum id (\<lambda>sc. (su, sc)) (load_scenario ld (Some su) s))"
  shows "case loaded of
      Inl e \<Rightarrow>
        (\<exists>warnings. execute_run env args = (Inl (load_text e), [], warnings)) \<and> cr_exit (run_command env args) = Inr 2
    | Inr (su, sc) \<Rightarrow>
        (\<exists>su0. check_testbed_config su0 = Inr su) \<and> validate_scenario_references sc su = Inr () \<and>
        (tc_transport su = InMemoryTransport \<longrightarrow>
           (\<exists>r report. run_in_memory_report n (ce_render base) su None sc = Some (r, report) \<and>
              (case r of
                 Inl x \<Rightarrow> \<not> fail_diverges x \<and> cr_exit (run_command env args) = Inr 2
               | Inr res \<Rightarrow>
                   verdicts (concat (map asserted (ss_steps sc))) (rr_assertions res) \<and>
                   reported n (ce_render base) su None sc (rr_assertions res) \<and>
                   cr_exit (run_command env args) = Inr (if \<forall>a \<in> set (rr_assertions res). at_passed a then 0 else 1))))"
proof -
  have inputs: "import_module_packages env [] = Inr ()" "resolve_run_inputs env args = Inr (c, s)"
    using assms(2-4) by (simp_all add: resolve_run_inputs_def)
  have exit: "cr_exit (run_command env args) = Inr (case outcome of Inl _ \<Rightarrow> 2 | Inr res \<Rightarrow> exit_code_for_result res)"
    if "execute_run env args = (outcome, report, errs)" for outcome report errs
    by (rule run_command_exit[OF that]) (use assms(1,9) in \<open>simp add: file_env_def\<close>)
  have run: "execute_run env args =
      (case load_testbed_config ld c of
         Inl e \<Rightarrow> (Inl (load_text e), [], [])
       | Inr su \<Rightarrow>
           (case ce_run env c s None False False of
              (r, report, traced) \<Rightarrow> (r, report, unpaced_warning env su False @ traced)))"
    using inputs assms(5-8) by (simp add: execute_run_def assms(1) file_env_def split: sum.splits)
  show ?thesis
  proof (cases loaded)
    case (Inl e)
    then have "\<exists>warnings. execute_run env args = (Inl (load_text e), [], warnings)"
      using run assms(10)
      by (cases "load_testbed_config ld c"; cases "load_scenario ld (Some (projr (load_testbed_config ld c))) s")
        (auto simp: assms(1) file_env_def run_scenario_files_def)
    then show ?thesis using exit Inl by fastforce
  next
    case (Inr p)
    then obtain su sc where p: "p = (su, sc)" and su: "load_testbed_config ld c = Inr su"
      and sc: "load_scenario ld (Some su) s = Inr sc"
      using assms(10) by (auto simp: res_bind_eq_Inr map_sum_eq_Inr)
    have "\<exists>r report. run_in_memory_report n (ce_render base) su None sc = Some (r, report) \<and>
        (case r of
           Inl x \<Rightarrow> \<not> fail_diverges x \<and> cr_exit (run_command env args) = Inr 2
         | Inr res \<Rightarrow>
             verdicts (concat (map asserted (ss_steps sc))) (rr_assertions res) \<and>
             reported n (ce_render base) su None sc (rr_assertions res) \<and>
             cr_exit (run_command env args) = Inr (if \<forall>a \<in> set (rr_assertions res). at_passed a then 0 else 1))"
      if bus: "tc_transport su = InMemoryTransport"
    proof -
      obtain r report where out: "run_in_memory_report n (ce_render base) su None sc = Some (r, report)"
        "case r of Inl x \<Rightarrow> \<not> fail_diverges x | Inr res \<Rightarrow> reported n (ce_render base) su None sc (rr_assertions res)"
        using in_memory_report by blast
      then have "execute_run env args = (map_sum (\<lambda>x. fail_text x) id r, report, unpaced_warning env su False)"
        using run su sc bus
        by (cases r) (simp_all add: assms(1) file_env_def run_scenario_files_def run_loaded_def)
      note finished = exit[OF this]
      show ?thesis
        using out finished reported_verdicts
        by (cases r) (auto simp: exit_code_for_result_def run_passed_def)
    qed
    then show ?thesis
      using Inr p load_testbed_config_accepted[OF su] load_scenario_validated[OF sc] by simp
  qed
qed

text \<open>Files that hold the camera scenario.\<close>

definition camera_script :: scenario_script where
  "camera_script = \<lparr>ss_name = ''camera'', ss_description = None, ss_steps = camera_steps\<rparr>"

definition camera_loaders :: "string loaders" where
  "camera_loaders = \<lparr>ld_read = Inr, ld_toml = Inr, ld_yaml = (\<lambda>t. Inr (Some t)), ld_setup = (\<lambda>_. Inr camera_setup),
     ld_scenario = (\<lambda>_. Inr camera_script), ld_rules = (\<lambda>_. Inr [])\<rparr>"

definition camera_base :: "rule_sets cli_env" where
  "camera_base = \<lparr>ce_import = (\<lambda>_. Imported), ce_example_path = (\<lambda>_ f. f), ce_load_setup = (\<lambda>_. Inl []),
     ce_load_rules = (\<lambda>_. Inl []), ce_run = (\<lambda>_ _ _ _ _. (Inl [], [], [])), ce_write = (\<lambda>_ _. None), ce_seconds = ''0'', ce_quote = id,
     ce_render = plain_detail, ce_drop_detail = (\<lambda>_. [])\<rparr>"

definition camera_args :: cli_args where
  "camera_args = \<lparr>ca_config = Some ''setup.toml'', ca_scenario = Some ''scenario.yaml'', ca_example = None,
     ca_module_imports = None, ca_rules = None, ca_realtime = False, ca_trace = False, ca_quiet = True,
     ca_json = False, ca_junit_xml = None\<rparr>"

lemma camera_loads:
  "load_testbed_config camera_loaders ''setup.toml'' = Inr camera_setup"
  "load_scenario camera_loaders (Some camera_setup) ''scenario.yaml'' = Inr camera_script"
proof -
  have "check_testbed_config camera_setup = Inr camera_setup" "validate_scenario_references camera_script camera_setup = Inr ()"
    "check_scenario_script camera_script = Inr camera_script"
    by code_simp+
  then show "load_testbed_config camera_loaders ''setup.toml'' = Inr camera_setup"
    "load_scenario camera_loaders (Some camera_setup) ''scenario.yaml'' = Inr camera_script"
    by (simp_all add: load_testbed_config_def parse_testbed_config_def load_scenario_def parse_scenario_def
        read_text_def camera_loaders_def)
qed

lemma camera_report:
  "case run_in_memory_report 100 plain_detail camera_setup None camera_script of
     Some (Inr res, _) \<Rightarrow> map at_passed (rr_assertions res) = [True]
   | _ \<Rightarrow> False"
  by code_simp

lemma cli_run_reaches_verdict_witness:
  "cr_exit (run_command (file_env camera_loaders (\<lambda>_ _ _ _ _. None) 100 (\<lambda>_. []) (\<lambda>_. []) camera_base) camera_args) = Inr 0"
proof -
  let ?env = "file_env camera_loaders (\<lambda>_ _ _ _ _. None) 100 (\<lambda>_. []) (\<lambda>_. []) camera_base"
  let ?loaded = "res_bind (load_testbed_config camera_loaders ''setup.toml'') (\<lambda>su.
     map_sum id (\<lambda>sc. (su, sc)) (load_scenario camera_loaders (Some su) ''scenario.yaml''))"
  have loaded: "?loaded = Inr (camera_setup, camera_script)" by (simp add: camera_loads)
  have args: "ca_config camera_args = Some ''setup.toml''" "ca_scenario camera_args = Some ''scenario.yaml''"
      "ca_example camera_args = None" "ca_module_imports camera_args = None" "ca_rules camera_args = None"
      "\<not> ca_realtime camera_args" "\<not> ca_trace camera_args"
      "\<forall>f tree. ca_junit_xml camera_args = Some f \<longrightarrow> ce_write camera_base f tree = None"
    by (simp_all add: camera_args_def)
  have bus: "tc_transport camera_setup = InMemoryTransport" "ce_render camera_base = plain_detail"
    by (simp_all add: camera_setup_def camera_base_def)
  obtain res report where res: "run_in_memory_report 100 plain_detail camera_setup None camera_script = Some (Inr res, report)"
      "map at_passed (rr_assertions res) = [True]"
    using camera_report by (auto split: option.splits sum.splits prod.splits)
  then have "\<forall>a \<in> set (rr_assertions res). at_passed a" by auto
  then show ?thesis
    using cli_run_reaches_verdict[OF refl args refl, of camera_loaders "\<lambda>_ _ _ _ _. None" 100 "\<lambda>_. []" "\<lambda>_. []"]
      res(1) loaded bus by simp
qed

end
