(* ===== verification/Spec2Isabelle.thy ===== *)
theory Spec2Isabelle
  imports Prelude PyFloat Interfaces CspLink SignalCodec Transport Engine FaultInjection Config ModuleBase ObcPeer
    Assertions Registry Routing EngineNested Payload Thermal Eps BuiltIn Tracing TelemetryPath SocketCan SerialLine Cli Files
begin

text \<open>
  Verification library of the CubeSat Testbed (\<^verbatim>\<open>src/src/cubesat_testbed\<close>): a deterministic simulation of
  satellite subsystems that talk CSP v2 over a bus, driven by a scenario script whose assertions look only
  at what was decoded from that bus. Paths below are relative to that directory.

  The program. The command line (\<^verbatim>\<open>main.py\<close>) loads a setup and a scenario, runs them and reports. A setup
  file (\<^verbatim>\<open>config/parser.py\<close>) names the nodes, their modules, commands and telemetry.
  \<^verbatim>\<open>build_runtime\<close> (\<^verbatim>\<open>scenario/runner.py\<close>) creates the event engine, the fault engine, the transport and, in the
  order of the registry, the modules. \<^verbatim>\<open>ScenarioRunner\<close> executes the steps: it schedules events on the engine
  (\<^verbatim>\<open>engine.py\<close>), encodes values (\<^verbatim>\<open>protocol/telemetry_codec.py\<close>, \<^verbatim>\<open>signal_codec.py\<close>) into CSP packets, hands them
  to a packet sender and the transport as frames (\<^verbatim>\<open>protocol/csp_v2*.py\<close>, \<^verbatim>\<open>transport/\<close>), drains the bus,
  reassembles, routes, and delivers commands to modules and telemetry to the engine, whose handlers are the
  runner's cache and the OBC peers (\<^verbatim>\<open>modules/obc_peer.py\<close>), which may send commands or inject faults
  (\<^verbatim>\<open>fault_injection.py\<close>) in turn.

  Theories, from the bottom up.
   Prelude, PyFloat, FloatOrder, PyValue, Actions: what the language itself does. Results of code that may
  raise (\<open>'e + 'a\<close>), bytes and \<^verbatim>\<open>int.to_bytes\<close>, insertion-ordered dictionaries; binary64 arithmetic as exact
  rational arithmetic followed by one rounding; the values a scenario carries, with Python's equality and
  order; methods that change objects and may raise, with the state after an exception kept.
   Interfaces: the contracts \<open>packet_codec\<close>, \<open>exact_codec\<close> and \<open>ordered_link\<close>.
   CspV2, CspReassembly, CspLink (\<^verbatim>\<open>protocol/csp_v2.py\<close>); CspKiss (\<^verbatim>\<open>csp_v2_kiss.py\<close>, \<^verbatim>\<open>csp_v2_packet.py\<close>);
  SignalCodec (\<^verbatim>\<open>signal_codec.py\<close>, \<^verbatim>\<open>telemetry_codec.py\<close>). Lemmas: validity of what is built, round trips,
  reassembly as the inverse of fragmentation, soundness of the receivers for arbitrary input, bounds of
  their buffers, what the checksum detects.
   Transport (\<^verbatim>\<open>transport/base.py\<close>, \<^verbatim>\<open>in_memory.py\<close>, \<^verbatim>\<open>kiss.py\<close>): the bus and the serial adapter as states with
  send, receive and drain; \<open>receive_stream\<close> is the contract \<^verbatim>\<open>drain\<close> relies on. SerialLine
  (\<^verbatim>\<open>transport/serial_line.py\<close>) puts the serial adapter on a line whose system calls may block and cut the
  bytes anywhere. SocketCan (\<^verbatim>\<open>transport/socketcan.py\<close>, \<^verbatim>\<open>factory.py\<close>): the CAN adapter over the calls of
  \<^verbatim>\<open>python-can\<close>, and the factory. Tracing (\<^verbatim>\<open>transport/tracing.py\<close>): the observing adapter and its lines; what
  it wraps behaves as without it.
   Clock (\<^verbatim>\<open>clock.py\<close>). Engine, EngineNested (\<^verbatim>\<open>engine.py\<close>): the timeline and its run loops, for handlers that
  only schedule (\<open>api_handlers\<close>, \<open>future_handlers\<close>) and for those that run the engine themselves
  (\<open>nested_handlers\<close>).
   FaultInjection (\<^verbatim>\<open>fault_injection.py\<close>): overrides and named faults, as operations and as a step relation
  whose reachable states are well formed.
   Config (\<^verbatim>\<open>config/parser.py\<close>): every validator of the setup, the rules and the scenario.
   ModuleBase, ModuleActions (\<^verbatim>\<open>modules/base.py\<close>); Payload, Thermal, Eps, ObcPeer (\<^verbatim>\<open>modules/\<close>): one state
  record per module, its effective values through the fault engine, commands, ticks and telemetry. Registry
  (\<^verbatim>\<open>modules/registry.py\<close>, \<^verbatim>\<open>dut/manager.py\<close>).
   Assertions (\<^verbatim>\<open>scenario/assertions.py\<close>), Routing and Runner (\<^verbatim>\<open>scenario/runner.py\<close>): the routes, then the
  runner over any modules and any transport (the record \<open>runner_env\<close>). RunnerSafe and RunnerRun prove what
  holds of it under the locale \<open>module_contract\<close>; there, \<open>run_verdicts\<close> says what each
  verdict of a run compares: the value the telemetry cache holds where the step's loop ends. BuiltIn builds the
  runtime of the shipped modules on the in-memory bus and interprets the contract on them, so its properties
  have no hypothesis about modules.
  TelemetryPath follows one value through all of it, from its encoding to the cache assertions read.
   Report (\<^verbatim>\<open>scenario/runner.py\<close>, \<^verbatim>\<open>main.py\<close>): DROP lines, JUnit tree, JSON payload, exit code. Cli
  (\<^verbatim>\<open>main.py\<close>, \<^verbatim>\<open>examples/__init__.py\<close>): the run and init commands. Files (\<^verbatim>\<open>config/parser.py\<close>,
  \<^verbatim>\<open>scenario/runner.py\<close>): the loaders, and the command line from two files to an exit code.

  Correspondence. A class is a record, its validating constructor a \<open>mk_\<close> function, a method a function of
  the same name over the record. A raise is a constructor of an error type that carries what its message
  interpolates. Code that calls methods of shared objects threads those objects as state. Handlers are
  values, and what calling them does is an \<open>exec\<close> argument of the engine.

  Interfaces. Every locale is interpreted on the model: \<open>packet_codec\<close>, \<open>exact_codec\<close> and \<open>ordered_link\<close> on the
  wire formats, \<open>receive_stream\<close> on the bus and the serial adapter, \<open>frame_carrier\<close> (what tracing relies on) on the bus, the handler contracts on the fault
  engine, the OBC peer and the runner, \<open>module_contract\<close> on the shipped modules.

  Bounds. Recursion is structural or has a measure, with these exceptions. The run loops of the engine, the
  drain loops, the loop of an assertion and the write loop of the serial line are partial functions into
  \<open>option\<close>; that they return is proved (\<open>engine_run_until_returns\<close>, \<open>bus_broadcast_drained\<close>,
  \<open>socketcan_delivers_packet\<close>, \<open>assertion_waits_for_deadline\<close>, \<open>serial_line_carries_packet\<close>). The runner nests the
  engine's run loop in the handler of its recurring step; \<open>exec_runner\<close> takes the depth, and depth one is enough
  because a step is never pending inside a step (\<open>scenario_run_reports\<close> rules the failure out).
  \<open>max_settle_events\<close> is the program's own bound and an argument of the model.

  Outside code. \<^verbatim>\<open>tomllib\<close>, \<^verbatim>\<open>yaml\<close> and the field typing of \<^verbatim>\<open>pydantic\<close> are the arguments \<open>loaders\<close> (Config
  starts from typed values); \<^verbatim>\<open>python-can\<close> is \<open>can_bus\<close>, with \<open>fifo_bus\<close> what is relied on; the system calls on a
  serial line are \<open>serial_os\<close>, with \<open>takes_all\<close> and \<open>gives_all\<close>. The text Python's \<^verbatim>\<open>repr\<close>, \<^verbatim>\<open>json\<close> and
  \<^verbatim>\<open>xml.etree\<close> give to values inside a report is an argument, or the report stays a tree.

  Not modelled. The option table of \<^verbatim>\<open>argparse\<close> and \<^verbatim>\<open>sys.path\<close>; the command line starts from parsed
  arguments. Writing to the output streams, which cannot fail here (writing the JUnit file can). The runtime of a run that is traced, paced or on a real bus
  as one function: the adapters, the clock, the paced wait and the tracer are modelled, but composing them needs a
  \<^verbatim>\<open>receive\<close> that raises and a wall clock inside the runner's state, so those runs are the argument \<open>other\<close> of
  \<open>run_loaded\<close>. Modules of other packages, which are any values that keep \<open>module_contract\<close>. Re-exports.

  State. Every component of the program but its re-exports has a theory above; what a theory leaves out is in the
  last two paragraphs.
\<close>

end
